(* ===== verification/Prelude.thy ===== *)
theory Prelude
  imports Main "HOL-Library.AList" "HOL-Library.Signed_Division" "HOL-Library.Sublist"
begin

text \<open>
  Shared vocabulary of the development: the fact collections, Go byte strings and the
  functions of the packages \<open>strings\<close> and \<open>strconv\<close> that the sources call, Go maps as
  association lists, and the in-place compaction loop that several components share.

  A Go string is a sequence of bytes, which is exactly HOL's \<^typ>\<open>string\<close> (characters are
  8-bit).  A Go map that the code ranges over is an association list with distinct keys: the
  order of the list is the (unspecified) iteration order, so a theorem about every list is a
  theorem about every iteration order.
\<close>

named_theorems go_simps "unfolding rules for the Go standard library functions"

type_synonym go_error = string

text \<open>A call whose error ends the caller: the whole is nil when both parts are.\<close>

lemma case_error_None [simp]:
  "(case x of None \<Rightarrow> y | Some e \<Rightarrow> Some (f e)) = None \<longleftrightarrow> x = None \<and> y = None"
  by (cases x) auto

section \<open>Package strings\<close>

definition HasPrefix :: "string \<Rightarrow> string \<Rightarrow> bool" where
  "HasPrefix s p \<longleftrightarrow> take (length p) s = p"

definition HasSuffix :: "string \<Rightarrow> string \<Rightarrow> bool" where
  "HasSuffix s p \<longleftrightarrow> length p \<le> length s \<and> drop (length s - length p) s = p"

definition TrimPrefix :: "string \<Rightarrow> string \<Rightarrow> string" where
  "TrimPrefix s p = (if HasPrefix s p then drop (length p) s else s)"

definition TrimSuffix :: "string \<Rightarrow> string \<Rightarrow> string" where
  "TrimSuffix s p = (if HasSuffix s p then take (length s - length p) s else s)"

text \<open>\<open>strings.IndexByte\<close>, with \<^const>\<open>None\<close> for the result -1.\<close>

fun IndexByte :: "string \<Rightarrow> char \<Rightarrow> nat option" where
  "IndexByte [] c = None"
| "IndexByte (x # xs) c = (if x = c then Some 0 else map_option Suc (IndexByte xs c))"

fun Contains :: "string \<Rightarrow> string \<Rightarrow> bool" where
  "Contains [] sub \<longleftrightarrow> sub = []"
| "Contains (x # xs) sub \<longleftrightarrow> HasPrefix (x # xs) sub \<or> Contains xs sub"

text \<open>\<open>strings.Replace(s, old, new, 1)\<close> for a non-empty \<open>old\<close>.\<close>

fun ReplaceOnce :: "string \<Rightarrow> string \<Rightarrow> string \<Rightarrow> string" where
  "ReplaceOnce [] old new = []"
| "ReplaceOnce (x # xs) old new =
     (if HasPrefix (x # xs) old then new @ drop (length old) (x # xs)
      else x # ReplaceOnce xs old new)"

text \<open>\<open>strings.Split\<close> on a separator of one byte; \<open>strings.Join\<close>; \<open>strings.Trim\<close> of a cutset.\<close>

fun SplitByte :: "string \<Rightarrow> char \<Rightarrow> string list" where
  "SplitByte [] c = [[]]"
| "SplitByte (x # xs) c =
     (if x = c then [] # SplitByte xs c
      else (case SplitByte xs c of [] \<Rightarrow> [[x]] | w # ws \<Rightarrow> (x # w) # ws))"

fun Join :: "string list \<Rightarrow> string \<Rightarrow> string" where
  "Join [] sep = []"
| "Join [w] sep = w"
| "Join (w # v # ws) sep = w @ sep @ Join (v # ws) sep"

definition TrimBytes :: "string \<Rightarrow> char set \<Rightarrow> string" where
  "TrimBytes s cutset = rev (dropWhile (\<lambda>c. c \<in> cutset) (rev (dropWhile (\<lambda>c. c \<in> cutset) s)))"

subsection \<open>Facts about the string functions\<close>

lemma HasPrefix_iff: "HasPrefix s p \<longleftrightarrow> (\<exists>t. s = p @ t)"
  unfolding HasPrefix_def by (metis append_eq_conv_conj append_take_drop_id)

lemma HasPrefix_Nil [simp]: "HasPrefix s []"
  by (simp add: HasPrefix_def)

lemma HasPrefix_append [simp]: "HasPrefix (p @ t) p"
  by (auto simp: HasPrefix_iff)

lemma HasPrefix_Cons [simp]:
  "HasPrefix (x # xs) (y # ys) \<longleftrightarrow> x = y \<and> HasPrefix xs ys"
  "HasPrefix [] (y # ys) \<longleftrightarrow> False"
  by (auto simp: HasPrefix_def)

lemma HasSuffix_iff: "HasSuffix s p \<longleftrightarrow> (\<exists>t. s = t @ p)"
  unfolding HasSuffix_def
  by (metis append_take_drop_id append_eq_conv_conj diff_le_self length_append
      le_add2 diff_add_inverse2)

lemma HasSuffix_append [simp]: "HasSuffix (t @ p) p"
  by (auto simp: HasSuffix_iff)

lemma TrimPrefix_append [simp]: "TrimPrefix (p @ t) p = t"
  by (simp add: TrimPrefix_def)

lemma TrimSuffix_append [simp]: "TrimSuffix (t @ p) p = t"
  by (simp add: TrimSuffix_def)

lemma Contains_iff: "Contains s sub \<longleftrightarrow> (\<exists>a b. s = a @ sub @ b)"
proof (induction s)
  case Nil
  then show ?case by auto
next
  case (Cons x xs)
  show ?case (is "?l \<longleftrightarrow> ?r")
  proof
    assume ?l
    then consider "HasPrefix (x # xs) sub" | "Contains xs sub" by auto
    then show ?r
    proof cases
      case 1
      then show ?thesis unfolding HasPrefix_iff by (metis append_Nil)
    next
      case 2
      with Cons.IH obtain a b where "xs = a @ sub @ b" by blast
      then have "x # xs = (x # a) @ sub @ b" by simp
      then show ?thesis by blast
    qed
  next
    assume ?r
    then obtain a b where ab: "x # xs = a @ sub @ b" by blast
    show ?l
    proof (cases a)
      case Nil
      with ab have "HasPrefix (x # xs) sub" by simp
      then show ?thesis by simp
    next
      case (Cons y ys)
      with ab have "xs = ys @ sub @ b" by simp
      with Cons.IH show ?thesis by auto
    qed
  qed
qed

lemma IndexByte_None_iff: "IndexByte s c = None \<longleftrightarrow> c \<notin> set s"
  by (induction s) auto

lemma IndexByte_SomeD:
  "IndexByte s c = Some i \<Longrightarrow> i < length s \<and> s ! i = c \<and> c \<notin> set (take i s)"
  by (induction s arbitrary: i) (auto split: if_splits)

lemma IndexByte_append: "c \<notin> set a \<Longrightarrow> IndexByte (a @ c # b) c = Some (length a)"
  by (induction a) auto

lemma SplitByte_ne [simp]: "SplitByte s c \<noteq> []"
  by (induction s) (auto split: list.splits)

lemma SplitByte_no_sep: "w \<in> set (SplitByte s c) \<Longrightarrow> c \<notin> set w"
proof (induction s arbitrary: w)
  case Nil
  then show ?case by simp
next
  case (Cons x xs)
  obtain v vs where v: "SplitByte xs c = v # vs" by (cases "SplitByte xs c") auto
  with Cons show ?case by (auto split: if_splits)
qed

lemma Join_SplitByte: "Join (SplitByte s c) [c] = s"
proof (induction s)
  case Nil
  then show ?case by simp
next
  case (Cons x xs)
  obtain v vs where "SplitByte xs c = v # vs" by (cases "SplitByte xs c") auto
  with Cons show ?case by (cases vs) auto
qed

lemma SplitByte_no_sep_id: "c \<notin> set w \<Longrightarrow> SplitByte w c = [w]"
  by (induction w) auto

lemma SplitByte_append_sep:
  "c \<notin> set w \<Longrightarrow> SplitByte (w @ c # s) c = w # SplitByte s c"
  by (induction w) auto

lemma SplitByte_Join:
  "ws \<noteq> [] \<Longrightarrow> (\<forall>w \<in> set ws. c \<notin> set w) \<Longrightarrow> SplitByte (Join ws [c]) c = ws"
  by (induction ws rule: induct_list012) (auto simp: SplitByte_no_sep_id SplitByte_append_sep)

section \<open>Package strconv\<close>

definition digit_char :: "nat \<Rightarrow> char" where
  "digit_char d = char_of (48 + d)"

fun nat_digits :: "nat \<Rightarrow> string" where
  "nat_digits n = (if n < 10 then [digit_char n] else nat_digits (n div 10) @ [digit_char (n mod 10)])"

declare nat_digits.simps [simp del]

text \<open>\<open>strconv.Itoa\<close> and \<open>strconv.FormatInt(_, 10)\<close>; \<open>fmt\<close>'s verb \<open>%d\<close> prints the same text.\<close>

definition Itoa :: "int \<Rightarrow> string" where
  "Itoa i = (if i < 0 then CHR ''-'' # nat_digits (nat (- i)) else nat_digits (nat i))"

definition is_digit :: "char \<Rightarrow> bool" where
  "is_digit c \<longleftrightarrow> 48 \<le> (of_char c :: nat) \<and> (of_char c :: nat) \<le> 57"

definition digit_val :: "char \<Rightarrow> nat" where
  "digit_val c = of_char c - 48"

fun digits_val :: "nat \<Rightarrow> string \<Rightarrow> nat" where
  "digits_val acc [] = acc"
| "digits_val acc (c # cs) = digits_val (10 * acc + digit_val c) cs"

text \<open>The number a string of digits with an optional minus sign denotes.\<close>

definition int_text :: "string \<Rightarrow> int" where
  "int_text s = (case s of [] \<Rightarrow> 0 | c # cs \<Rightarrow>
     (if c = CHR ''-'' then - int (digits_val 0 cs) else int (digits_val 0 s)))"

lemma is_digit_digit_char: "d < 10 \<Longrightarrow> is_digit (digit_char d)"
  by (simp add: is_digit_def digit_char_def)

lemma digit_val_digit_char: "d < 10 \<Longrightarrow> digit_val (digit_char d) = d"
  by (simp add: digit_val_def digit_char_def)

lemma nat_digits_digits: "\<forall>c \<in> set (nat_digits n). is_digit c"
proof (induction n rule: nat_digits.induct)
  case (1 n)
  show ?case
  proof (cases "n < 10")
    case True
    then show ?thesis by (simp add: nat_digits.simps [of n] is_digit_digit_char)
  next
    case False
    with "1.IH" show ?thesis by (simp add: nat_digits.simps [of n] is_digit_digit_char)
  qed
qed

lemma nat_digits_ne [simp]: "nat_digits n \<noteq> []"
  by (subst nat_digits.simps) simp

lemma digits_val_snoc: "digits_val acc (s @ [c]) = 10 * digits_val acc s + digit_val c"
  by (induction s arbitrary: acc) auto

lemma digits_val_nat_digits: "digits_val 0 (nat_digits n) = n"
proof (induction n rule: nat_digits.induct)
  case (1 n)
  show ?case
  proof (cases "n < 10")
    case True
    then show ?thesis by (simp add: nat_digits.simps [of n] digit_val_digit_char)
  next
    case False
    with "1.IH" show ?thesis
      by (simp add: nat_digits.simps [of n] digits_val_snoc digit_val_digit_char)
  qed
qed

lemma is_digit_not_minus: "is_digit c \<Longrightarrow> c \<noteq> CHR ''-''"
  by (auto simp: is_digit_def)

lemma int_text_Itoa: "int_text (Itoa i) = i"
proof -
  obtain c cs where c: "nat_digits (nat i) = c # cs"
    by (cases "nat_digits (nat i)") auto
  have "is_digit c" using nat_digits_digits [of "nat i"] c by simp
  then show ?thesis
    using c digits_val_nat_digits [of "nat i"]
    by (auto simp: Itoa_def int_text_def digits_val_nat_digits is_digit_not_minus)
qed

lemma Itoa_inj: "Itoa i = Itoa j \<longleftrightarrow> i = j"
  by (metis int_text_Itoa)

lemma Itoa_ne [simp]: "Itoa i \<noteq> []"
  by (simp add: Itoa_def)

lemma Itoa_chars: "c \<in> set (Itoa i) \<Longrightarrow> is_digit c \<or> c = CHR ''-''"
  using nat_digits_digits by (auto simp: Itoa_def split: if_splits)

section \<open>Go maps as association lists\<close>

text \<open>A Go map has at most one entry for a key.\<close>

abbreviation go_map :: "('k \<times> 'v) list \<Rightarrow> bool" where
  "go_map m \<equiv> distinct (map fst m)"

lemma map_of_update: "map_of (AList.update k v m) = (map_of m)(k \<mapsto> v)"
  by (rule AList.update_conv')

lemma map_of_delete: "map_of (AList.delete k m) = (map_of m)(k := None)"
  by (rule AList.delete_conv')

lemma fst_set_update: "fst ` set (AList.update k v m) = insert k (fst ` set m)"
  by (induction m) auto

lemma fst_set_delete: "fst ` set (AList.delete k m) = fst ` set m - {k}"
  by (auto simp: AList.delete_eq)

lemma go_map_update: "go_map m \<Longrightarrow> go_map (AList.update k v m)"
  by (rule AList.distinct_update)

lemma go_map_delete: "go_map m \<Longrightarrow> go_map (AList.delete k m)"
  by (rule AList.distinct_delete)

lemmas go_map_rules = map_of_update map_of_delete go_map_update go_map_delete
  fst_set_update fst_set_delete

section \<open>Parsing integers and finding bytes\<close>

text \<open>\<open>strconv.ParseInt(s, 10, 64)\<close>.\<close>

definition unsigned_digits :: "string \<Rightarrow> nat option" where
  "unsigned_digits s = (if s \<noteq> [] \<and> (\<forall>c \<in> set s. is_digit c) then Some (digits_val 0 s) else None)"

definition ParseInt64 :: "string \<Rightarrow> int option" where
  "ParseInt64 s =
     (let (neg, ds) = (case s of
            [] \<Rightarrow> (False, [])
          | c # cs \<Rightarrow> if c = CHR ''-'' then (True, cs) else if c = CHR ''+'' then (False, cs) else (False, s))
      in case unsigned_digits ds of
           None \<Rightarrow> None
         | Some n \<Rightarrow> if neg then (if n \<le> 2 ^ 63 then Some (- int n) else None)
                     else (if n < 2 ^ 63 then Some (int n) else None))"

lemma ParseInt64_Itoa:
  assumes "- (2 ^ 63) \<le> n" and "n < 2 ^ 63"
  shows "ParseInt64 (Itoa n) = Some n"
proof -
  have d: "unsigned_digits (nat_digits k) = Some k" for k
    using nat_digits_digits [of k] by (simp add: unsigned_digits_def digits_val_nat_digits)
  have h: "nat_digits k = c # cs \<Longrightarrow> c \<noteq> CHR ''-'' \<and> c \<noteq> CHR ''+''" for k c cs
    using nat_digits_digits [of k] by (auto simp: is_digit_def)
  show ?thesis
  proof (cases "n < 0")
    case True
    then show ?thesis using assms d by (simp add: ParseInt64_def Itoa_def nat_le_iff)
  next
    case False
    obtain c cs where c: "nat_digits (nat n) = c # cs" by (metis nat_digits_ne list.exhaust)
    then show ?thesis using False assms d [of "nat n"] h [OF c]
      by (simp add: ParseInt64_def Itoa_def nat_less_iff)
  qed
qed

text \<open>64-bit wrap-around.\<close>

definition int64 :: "int \<Rightarrow> int" where
  "int64 x = (x + 2 ^ 63) mod 2 ^ 64 - 2 ^ 63"

text \<open>\<open>strings.LastIndexByte\<close>, with \<^const>\<open>None\<close> for the result -1.\<close>

fun LastIndexByte :: "string \<Rightarrow> char \<Rightarrow> nat option" where
  "LastIndexByte [] c = None"
| "LastIndexByte (x # xs) c =
     (case LastIndexByte xs c of Some i \<Rightarrow> Some (Suc i) | None \<Rightarrow> if x = c then Some 0 else None)"

lemma LastIndexByte_append: "LastIndexByte (xs @ ys) c =
    (case LastIndexByte ys c of Some i \<Rightarrow> Some (length xs + i) | None \<Rightarrow> LastIndexByte xs c)"
  by (induction xs) (auto split: option.split)

lemma LastIndexByte_None [simp]: "LastIndexByte xs c = None \<longleftrightarrow> c \<notin> set xs"
  by (induction xs) (auto split: option.split)

section \<open>In-place compaction of a slice\<close>

text \<open>
  The loop \<open>for _, x := range xs { if skip { continue }; xs[i] = x; i++ }; xs = xs[:i]\<close>
  writes into the array it reads from.  \<open>compact_from f arr k i s\<close> is that loop at read
  index \<open>k\<close> and write index \<open>i\<close>; the body \<open>f\<close> threads the state \<open>s\<close> and returns
  \<^const>\<open>None\<close> for a skipped element.
\<close>

function compact_from ::
  "('a \<Rightarrow> 's \<Rightarrow> 'a option \<times> 's) \<Rightarrow> 'a list \<Rightarrow> nat \<Rightarrow> nat \<Rightarrow> 's \<Rightarrow> 'a list \<times> 's" where
  "compact_from f arr k i s =
     (if length arr \<le> k then (take i arr, s)
      else (case f (arr ! k) s of
              (None, s') \<Rightarrow> compact_from f arr (Suc k) i s'
            | (Some x, s') \<Rightarrow> compact_from f (arr[i := x]) (Suc k) (Suc i) s'))"
  by pat_completeness auto
termination
  by (relation "measure (\<lambda>(f, arr, k, i, s). length arr - k)") auto

declare compact_from.simps [simp del]

text \<open>Its specification: a pass over the list that keeps the elements the body returns.\<close>

fun keep_map :: "('a \<Rightarrow> 's \<Rightarrow> 'a option \<times> 's) \<Rightarrow> 'a list \<Rightarrow> 's \<Rightarrow> 'a list \<times> 's" where
  "keep_map f [] s = ([], s)"
| "keep_map f (x # xs) s =
     (case f x s of
        (None, s') \<Rightarrow> keep_map f xs s'
      | (Some y, s') \<Rightarrow> (let (ys, s'') = keep_map f xs s' in (y # ys, s'')))"

lemma compact_from_keep_map:
  "i \<le> k \<Longrightarrow> compact_from f arr k i s
     = (take i arr @ fst (keep_map f (drop k arr) s), snd (keep_map f (drop k arr) s))"
proof (induction f arr k i s rule: compact_from.induct)
  case (1 f arr k i s)
  show ?case
  proof (cases "length arr \<le> k")
    case True
    then show ?thesis by (simp add: compact_from.simps)
  next
    case False
    then have d: "drop k arr = arr ! k # drop (Suc k) arr"
      by (simp add: Cons_nth_drop_Suc)
    obtain r s' where r: "f (arr ! k) s = (r, s')" by (cases "f (arr ! k) s")
    show ?thesis
    proof (cases r)
      case None
      with False r d "1.IH"(1) [of r s'] "1.prems" show ?thesis
        by (simp add: compact_from.simps [of f arr k])
    next
      case (Some x)
      have t: "take (Suc i) (arr[i := x]) = take i arr @ [x]"
        using False "1.prems" by (simp add: take_Suc_conv_app_nth)
      have e: "drop (Suc k) (arr[i := x]) = drop (Suc k) arr"
        using "1.prems" by simp
      from False r Some d "1.IH"(2) [of r s'] "1.prems" t e show ?thesis
        by (simp add: compact_from.simps [of f arr k] case_prod_beta)
    qed
  qed
qed

lemma compact_keep_map: "compact_from f arr 0 0 s = keep_map f arr s"
  by (simp add: compact_from_keep_map)

end
