(* ===== verification/Utf8.thy ===== *)
theory Utf8
  imports Prelude
begin

text \<open>
  Runes: what the Go language does when it ranges over a string or converts it to
  \<open>[]rune\<close>, and the functions of \<open>unicode/utf8\<close>, \<open>unicode\<close> and \<open>strings\<close> that look at
  code points.  A rune is a natural number.  \<open>decode_rune\<close> is \<open>utf8.DecodeRuneInString\<close>:
  an invalid or truncated sequence decodes to U+FFFD with width 1, the empty string with
  width 0.
\<close>

type_synonym rune = nat

abbreviation byte :: "char \<Rightarrow> nat" where
  "byte c \<equiv> of_char c"

definition RuneError :: rune where
  "RuneError = 65533"

definition cont_byte :: "char \<Rightarrow> bool" where
  "cont_byte c \<longleftrightarrow> 128 \<le> byte c \<and> byte c \<le> 191"

text \<open>The range allowed for the second byte of a sequence depends on the first.\<close>

definition second_ok :: "nat \<Rightarrow> char \<Rightarrow> bool" where
  "second_ok b0 c \<longleftrightarrow>
     (if b0 = 224 then 160 \<le> byte c \<and> byte c \<le> 191
      else if b0 = 237 then 128 \<le> byte c \<and> byte c \<le> 159
      else if b0 = 240 then 144 \<le> byte c \<and> byte c \<le> 191
      else if b0 = 244 then 128 \<le> byte c \<and> byte c \<le> 143
      else cont_byte c)"

definition decode_rune :: "string \<Rightarrow> rune \<times> nat" where
  "decode_rune s = (case s of [] \<Rightarrow> (RuneError, 0) | c0 # r0 \<Rightarrow>
     (let b0 = byte c0 in
      if b0 < 128 then (b0, 1)
      else if 194 \<le> b0 \<and> b0 \<le> 223 then
        (case r0 of c1 # _ \<Rightarrow>
           if second_ok b0 c1 then ((b0 - 192) * 64 + (byte c1 - 128), 2) else (RuneError, 1)
         | _ \<Rightarrow> (RuneError, 1))
      else if 224 \<le> b0 \<and> b0 \<le> 239 then
        (case r0 of c1 # c2 # _ \<Rightarrow>
           if second_ok b0 c1 \<and> cont_byte c2
           then ((b0 - 224) * 4096 + (byte c1 - 128) * 64 + (byte c2 - 128), 3)
           else (RuneError, 1)
         | _ \<Rightarrow> (RuneError, 1))
      else if 240 \<le> b0 \<and> b0 \<le> 244 then
        (case r0 of c1 # c2 # c3 # _ \<Rightarrow>
           if second_ok b0 c1 \<and> cont_byte c2 \<and> cont_byte c3
           then ((b0 - 240) * 262144 + (byte c1 - 128) * 4096 + (byte c2 - 128) * 64
                 + (byte c3 - 128), 4)
           else (RuneError, 1)
         | _ \<Rightarrow> (RuneError, 1))
      else (RuneError, 1)))"

lemma decode_rune_width:
  "s \<noteq> [] \<Longrightarrow> 1 \<le> snd (decode_rune s) \<and> snd (decode_rune s) \<le> length s"
  by (auto simp: decode_rune_def Let_def split: list.splits)

lemma decode_rune_ascii [simp]: "byte c < 128 \<Longrightarrow> decode_rune (c # s) = (byte c, 1)"
  by (simp add: decode_rune_def)

lemma decode_rune_Nil [simp]: "decode_rune [] = (RuneError, 0)"
  by (simp add: decode_rune_def)

text \<open>The runes of a string, each with the bytes it was decoded from.\<close>

function rune_chunks :: "string \<Rightarrow> (rune \<times> string) list" where
  "rune_chunks [] = []"
| "rune_chunks (c # cs) =
     (fst (decode_rune (c # cs)), take (snd (decode_rune (c # cs))) (c # cs))
       # rune_chunks (drop (snd (decode_rune (c # cs))) (c # cs))"
  by pat_completeness auto
termination
proof (relation "measure length", goal_cases)
  case 1
  then show ?case by simp
next
  case (2 c cs)
  then show ?case using decode_rune_width [of "c # cs"] by simp
qed

definition runes :: "string \<Rightarrow> rune list" where
  "runes s = map fst (rune_chunks s)"

lemma rune_chunks_concat: "concat (map snd (rune_chunks s)) = s"
proof (induction s rule: rune_chunks.induct)
  case 1
  then show ?case by simp
next
  case (2 c cs)
  then show ?case
    by (simp only: rune_chunks.simps list.map concat.simps snd_conv append_take_drop_id)
qed

lemma rune_chunks_ascii:
  "\<forall>c \<in> set s. byte c < 128 \<Longrightarrow> rune_chunks s = map (\<lambda>c. (byte c, [c])) s"
  by (induction s) auto

lemma rune_chunks_nonempty: "(r, bs) \<in> set (rune_chunks s) \<Longrightarrow> bs \<noteq> []"
proof (induction s rule: rune_chunks.induct)
  case 1
  then show ?case by simp
next
  case (2 c cs)
  have "take (snd (decode_rune (c # cs))) (c # cs) \<noteq> []"
    using decode_rune_width [of "c # cs"] by (simp add: take_eq_Nil)
  with 2 show ?case by (simp only: rune_chunks.simps list.set) auto
qed

lemma length_runes_le: "length (runes s) \<le> length s"
proof (induction s rule: rune_chunks.induct)
  case 1
  then show ?case by (simp add: runes_def)
next
  case (2 c cs)
  have "1 \<le> snd (decode_rune (c # cs))" using decode_rune_width [of "c # cs"] by simp
  moreover have "runes (c # cs) = fst (decode_rune (c # cs))
      # runes (drop (snd (decode_rune (c # cs))) (c # cs))"
    by (simp only: runes_def rune_chunks.simps list.map fst_conv)
  ultimately show ?case using 2 by simp
qed

section \<open>Encoding\<close>

text \<open>\<open>string(r)\<close> for a rune: surrogates and values above U+10FFFF become U+FFFD.\<close>

definition encode_rune :: "rune \<Rightarrow> string" where
  "encode_rune r =
     (if r < 128 then [char_of r]
      else if r < 2048 then [char_of (192 + r div 64), char_of (128 + r mod 64)]
      else if (55296 \<le> r \<and> r \<le> 57343) \<or> 1114111 < r
        then [char_of (239 :: nat), char_of (191 :: nat), char_of (189 :: nat)]
      else if r < 65536 then
        [char_of (224 + r div 4096), char_of (128 + r div 64 mod 64), char_of (128 + r mod 64)]
      else [char_of (240 + r div 262144), char_of (128 + r div 4096 mod 64),
            char_of (128 + r div 64 mod 64), char_of (128 + r mod 64)])"

definition string_of_runes :: "rune list \<Rightarrow> string" where
  "string_of_runes rs = concat (map encode_rune rs)"

lemma encode_rune_byte [simp]: "byte c < 128 \<Longrightarrow> encode_rune (byte c) = [c]"
  by (simp add: encode_rune_def)

lemma string_of_runes_ascii:
  "\<forall>c \<in> set s. byte c < 128 \<Longrightarrow> string_of_runes (map byte s) = s"
  by (induction s) (auto simp: string_of_runes_def)

section \<open>Spaces, Fields, TrimSpace\<close>

text \<open>The class \<open>\s\<close> of \<open>regexp\<close>: tab, newline, form feed, carriage return and space.\<close>

definition re_space :: "char \<Rightarrow> bool" where
  "re_space c \<longleftrightarrow> byte c \<in> {9, 10, 12, 13, 32}"

definition IsSpace :: "rune \<Rightarrow> bool" where
  "IsSpace r \<longleftrightarrow> (9 \<le> r \<and> r \<le> 13) \<or> r = 32 \<or> r = 133 \<or> r = 160 \<or> r = 5760
     \<or> (8192 \<le> r \<and> r \<le> 8202) \<or> r = 8232 \<or> r = 8233 \<or> r = 8239 \<or> r = 8287 \<or> r = 12288"

fun fields_from :: "string \<Rightarrow> (rune \<times> string) list \<Rightarrow> string list" where
  "fields_from cur [] = (if cur = [] then [] else [cur])"
| "fields_from cur ((r, bs) # cs) =
     (if IsSpace r then (if cur = [] then fields_from [] cs else cur # fields_from [] cs)
      else fields_from (cur @ bs) cs)"

definition Fields :: "string \<Rightarrow> string list" where
  "Fields s = fields_from [] (rune_chunks s)"

definition TrimSpace :: "string \<Rightarrow> string" where
  "TrimSpace s = concat (map snd
     (rev (dropWhile (\<lambda>(r, bs). IsSpace r)
       (rev (dropWhile (\<lambda>(r, bs). IsSpace r) (rune_chunks s))))))"

lemma fields_from_nonempty: "w \<in> set (fields_from cur cs) \<Longrightarrow> w \<noteq> []"
  by (induction cur cs rule: fields_from.induct) (auto split: if_splits)

lemma Fields_nonempty: "w \<in> set (Fields s) \<Longrightarrow> w \<noteq> []"
  by (auto simp: Fields_def dest: fields_from_nonempty)

lemma fields_from_word:
  "\<forall>c \<in> set w. byte c < 128 \<and> \<not> IsSpace (byte c) \<Longrightarrow>
   fields_from cur (map (\<lambda>c. (byte c, [c])) w @ cs) = fields_from (cur @ w) cs"
  by (induction w arbitrary: cur) auto

lemma Fields_word:
  "w \<noteq> [] \<Longrightarrow> \<forall>c \<in> set w. byte c < 128 \<and> \<not> IsSpace (byte c) \<Longrightarrow> Fields w = [w]"
  using fields_from_word [of w "[]" "[]"] by (simp add: Fields_def rune_chunks_ascii)

end
