(* ===== verification/Charts.thy ===== *)
theory Charts
  imports Utf8
begin

text \<open>
  \<open>agent/module/charts.go\<close>: charts, dimensions, variables and labels, the collection
  operations on them and the validity checks.  A slice of pointers is a list of records; an
  operation that mutates through a pointer returns the changed record.  Strings that the code
  keeps as named string types (\<open>ChartType\<close>, \<open>DimAlgo\<close>) stay strings.
\<close>

section \<open>Data\<close>

type_synonym ChartType = string
type_synonym DimAlgo = string

definition Line :: ChartType where "Line = ''line''"
definition Area :: ChartType where "Area = ''area''"
definition Stacked :: ChartType where "Stacked = ''stacked''"

definition Absolute :: DimAlgo where "Absolute = ''absolute''"
definition Incremental :: DimAlgo where "Incremental = ''incremental''"
definition PercentOfAbsolute :: DimAlgo where
  "PercentOfAbsolute = ''percentage-of-absolute-row''"
definition PercentOfIncremental :: DimAlgo where
  "PercentOfIncremental = ''percentage-of-incremental-row''"

definition LabelSourceAuto :: int where "LabelSourceAuto = 1"
definition LabelSourceConf :: int where "LabelSourceConf = 2"
definition LabelSourceK8s :: int where "LabelSourceK8s = 4"

definition DimAlgo_String :: "DimAlgo \<Rightarrow> string" where
  "DimAlgo_String d =
     (if d \<in> {Absolute, Incremental, PercentOfAbsolute, PercentOfIncremental} then d else Absolute)"

definition ChartType_String :: "ChartType \<Rightarrow> string" where
  "ChartType_String c = (if c \<in> {Line, Area, Stacked} then c else Line)"

record Opts =
  o_Obsolete :: bool
  o_Detail :: bool
  o_StoreFirst :: bool
  o_Hidden :: bool

record DimOpts =
  do_Obsolete :: bool
  do_Hidden :: bool
  do_NoReset :: bool
  do_NoOverflow :: bool

record Label =
  l_Key :: string
  l_Value :: string
  l_Source :: int

record Dim =
  d_ID :: string
  d_Name :: string
  d_Algo :: DimAlgo
  d_Mul :: int
  d_Div :: int
  d_DimOpts :: DimOpts
  d_remove :: bool

record Var =
  v_ID :: string
  v_Name :: string
  v_Value :: int

record Chart =
  c_typ :: string
  c_id :: string
  c_OverModule :: string
  c_IDSep :: bool
  c_ID :: string
  c_OverID :: string
  c_Title :: string
  c_Units :: string
  c_Fam :: string
  c_Ctx :: string
  c_Type :: ChartType
  c_Priority :: int
  c_Opts :: Opts
  c_Labels :: "Label list"
  c_Dims :: "Dim list"
  c_Vars :: "Var list"
  c_Retries :: int
  c_remove :: bool
  c_created :: bool
  c_updated :: bool
  c_ignore :: bool

type_synonym Charts = "Chart list"

definition no_opts :: Opts where
  "no_opts = \<lparr>o_Obsolete = False, o_Detail = False, o_StoreFirst = False, o_Hidden = False\<rparr>"

definition no_dimopts :: DimOpts where
  "no_dimopts = \<lparr>do_Obsolete = False, do_Hidden = False, do_NoReset = False, do_NoOverflow = False\<rparr>"

text \<open>The zero value of each struct, what a composite literal leaves unset.\<close>

definition zero_dim :: Dim where
  "zero_dim = \<lparr>d_ID = [], d_Name = [], d_Algo = [], d_Mul = 0, d_Div = 0,
     d_DimOpts = no_dimopts, d_remove = False\<rparr>"

definition zero_chart :: Chart where
  "zero_chart = \<lparr>c_typ = [], c_id = [], c_OverModule = [], c_IDSep = False, c_ID = [],
     c_OverID = [], c_Title = [], c_Units = [], c_Fam = [], c_Ctx = [], c_Type = [],
     c_Priority = 0, c_Opts = no_opts, c_Labels = [], c_Dims = [], c_Vars = [], c_Retries = 0,
     c_remove = False, c_created = False, c_updated = False, c_ignore = False\<rparr>"

abbreviation c_Obsolete :: "Chart \<Rightarrow> bool" where
  "c_Obsolete c \<equiv> o_Obsolete (c_Opts c)"

text \<open>\<open>Opts.String\<close> and \<open>DimOpts.String\<close>: the words that are set, without the leading space.\<close>

definition Opts_String :: "Opts \<Rightarrow> string" where
  "Opts_String o1 = (let b =
       (if o_Detail o1 then '' detail'' else []) @ (if o_Hidden o1 then '' hidden'' else [])
       @ (if o_Obsolete o1 then '' obsolete'' else [])
       @ (if o_StoreFirst o1 then '' store_first'' else [])
     in if length b = 0 then [] else drop 1 b)"

definition DimOpts_String :: "DimOpts \<Rightarrow> string" where
  "DimOpts_String o1 = (let b =
       (if do_Hidden o1 then '' hidden'' else []) @ (if do_NoOverflow o1 then '' nooverflow'' else [])
       @ (if do_NoReset o1 then '' noreset'' else [])
       @ (if do_Obsolete o1 then '' obsolete'' else [])
     in if length b = 0 then [] else drop 1 b)"

section \<open>Checks\<close>

datatype check_error =
    EmptyID | EmptyTitle | EmptyUnits | BadIDSymbol int
  | EmptyDimID | BadDimIDSymbol string int | DuplicateDim string
  | EmptyVarID | BadVarIDSymbol string int | DuplicateVar string

fun check_runes :: "rune list \<Rightarrow> int" where
  "check_runes [] = -1"
| "check_runes (r # rs) = (if IsSpace r then int r else check_runes rs)"

definition checkID :: "string \<Rightarrow> int" where
  "checkID s = check_runes (runes s)"

definition checkDim :: "Dim \<Rightarrow> check_error option" where
  "checkDim d =
     (if d_ID d = [] then Some EmptyDimID
      else if checkID (d_ID d) \<noteq> -1 then Some (BadDimIDSymbol (d_ID d) (checkID (d_ID d)))
      else None)"

definition checkVar :: "Var \<Rightarrow> check_error option" where
  "checkVar v =
     (if v_ID v = [] then Some EmptyVarID
      else if checkID (v_ID v) \<noteq> -1 then Some (BadVarIDSymbol (v_ID v) (checkID (v_ID v)))
      else None)"

fun check_dims :: "string list \<Rightarrow> Dim list \<Rightarrow> check_error option" where
  "check_dims seen [] = None"
| "check_dims seen (d # ds) =
     (case checkDim d of Some e \<Rightarrow> Some e
      | None \<Rightarrow> if d_ID d \<in> set seen then Some (DuplicateDim (d_ID d))
                else check_dims (d_ID d # seen) ds)"

fun check_vars :: "string list \<Rightarrow> Var list \<Rightarrow> check_error option" where
  "check_vars seen [] = None"
| "check_vars seen (v # vs) =
     (case checkVar v of Some e \<Rightarrow> Some e
      | None \<Rightarrow> if v_ID v \<in> set seen then Some (DuplicateVar (v_ID v))
                else check_vars (v_ID v # seen) vs)"

definition checkChart :: "Chart \<Rightarrow> check_error option" where
  "checkChart c =
     (if c_ID c = [] then Some EmptyID
      else if c_Title c = [] then Some EmptyTitle
      else if c_Units c = [] then Some EmptyUnits
      else if checkID (c_ID c) \<noteq> -1 then Some (BadIDSymbol (checkID (c_ID c)))
      else (case check_dims [] (c_Dims c) of
              Some e \<Rightarrow> Some e
            | None \<Rightarrow> check_vars [] (c_Vars c)))"

datatype charts_error =
    AddChartInvalid string check_error | AlreadyInCharts string | NotInCharts string
  | ChartInvalid string check_error
  | AddDimInvalid string check_error | DimAlreadyIn string string | DimNotIn string string
  | AddVarInvalid string check_error | VarAlreadyIn string string

fun checkCharts :: "Chart list \<Rightarrow> charts_error option" where
  "checkCharts [] = None"
| "checkCharts (c # cs) =
     (case checkChart c of Some e \<Rightarrow> Some (ChartInvalid (c_ID c) e) | None \<Rightarrow> checkCharts cs)"

section \<open>Collections\<close>

text \<open>The search loops of \<open>Charts.index\<close>, \<open>indexDim\<close> and \<open>indexVar\<close>; \<^const>\<open>None\<close> is -1.\<close>

fun Charts_index :: "Charts \<Rightarrow> string \<Rightarrow> nat option" where
  "Charts_index [] k = None"
| "Charts_index (c # cs) k = (if c_ID c = k then Some 0 else map_option Suc (Charts_index cs k))"

fun index_dims :: "Dim list \<Rightarrow> string \<Rightarrow> nat option" where
  "index_dims [] k = None"
| "index_dims (d # ds) k = (if d_ID d = k then Some 0 else map_option Suc (index_dims ds k))"

fun index_vars :: "Var list \<Rightarrow> string \<Rightarrow> nat option" where
  "index_vars [] k = None"
| "index_vars (v # vs) k = (if v_ID v = k then Some 0 else map_option Suc (index_vars vs k))"

definition indexDim :: "Chart \<Rightarrow> string \<Rightarrow> nat option" where
  "indexDim c k = index_dims (c_Dims c) k"

definition indexVar :: "Chart \<Rightarrow> string \<Rightarrow> nat option" where
  "indexVar c k = index_vars (c_Vars c) k"

definition Charts_Get :: "Charts \<Rightarrow> string \<Rightarrow> Chart option" where
  "Charts_Get cs k = (case Charts_index cs k of None \<Rightarrow> None | Some i \<Rightarrow> Some (cs ! i))"

definition Charts_Has :: "Charts \<Rightarrow> string \<Rightarrow> bool" where
  "Charts_Has cs k \<longleftrightarrow> Charts_index cs k \<noteq> None"

text \<open>\<open>Add\<close> stops at the first bad chart and keeps those appended before it.\<close>

fun Charts_Add :: "Charts \<Rightarrow> Chart list \<Rightarrow> charts_error option \<times> Charts" where
  "Charts_Add cs [] = (None, cs)"
| "Charts_Add cs (c # new) =
     (case checkChart c of
        Some e \<Rightarrow> (Some (AddChartInvalid (c_ID c) e), cs)
      | None \<Rightarrow>
          (case Charts_Get cs (c_ID c) of
             Some old \<Rightarrow> if \<not> c_remove old then (Some (AlreadyInCharts (c_ID old)), cs)
                         else Charts_Add (cs @ [c]) new
           | None \<Rightarrow> Charts_Add (cs @ [c]) new))"

text \<open>\<open>copy((*c)[idx:], (*c)[idx+1:])\<close> and the truncation by one.\<close>

definition remove_at :: "nat \<Rightarrow> 'a list \<Rightarrow> 'a list" where
  "remove_at i xs = take i xs @ drop (Suc i) xs"

definition Charts_Remove :: "Charts \<Rightarrow> string \<Rightarrow> charts_error option \<times> Charts" where
  "Charts_Remove cs k =
     (case Charts_index cs k of None \<Rightarrow> (Some (NotInCharts k), cs)
      | Some i \<Rightarrow> (None, remove_at i cs))"

definition MarkNotCreated :: "Chart \<Rightarrow> Chart" where
  "MarkNotCreated c = c\<lparr>c_created := False\<rparr>"

definition MarkRemove :: "Chart \<Rightarrow> Chart" where
  "MarkRemove c = c\<lparr>c_Opts := (c_Opts c)\<lparr>o_Obsolete := True\<rparr>, c_remove := True\<rparr>"

definition HasDim :: "Chart \<Rightarrow> string \<Rightarrow> bool" where
  "HasDim c k \<longleftrightarrow> indexDim c k \<noteq> None"

definition GetDim :: "Chart \<Rightarrow> string \<Rightarrow> Dim option" where
  "GetDim c k = (case indexDim c k of None \<Rightarrow> None | Some i \<Rightarrow> Some (c_Dims c ! i))"

definition mark_dim :: "bool \<Rightarrow> Dim \<Rightarrow> Dim" where
  "mark_dim hide d =
     d\<lparr>d_DimOpts := (d_DimOpts d)\<lparr>do_Obsolete := True,
         do_Hidden := (if hide then True else do_Hidden (d_DimOpts d))\<rparr>,
       d_remove := True\<rparr>"

definition MarkDimRemove :: "Chart \<Rightarrow> string \<Rightarrow> bool \<Rightarrow> charts_error option \<times> Chart" where
  "MarkDimRemove c k hide =
     (case indexDim c k of
        None \<Rightarrow> (Some (DimNotIn (c_ID c) k), c)
      | Some i \<Rightarrow> (None, c\<lparr>c_Dims := (c_Dims c)[i := mark_dim hide (c_Dims c ! i)]\<rparr>))"

definition AddDim :: "Chart \<Rightarrow> Dim \<Rightarrow> charts_error option \<times> Chart" where
  "AddDim c d =
     (case checkDim d of
        Some e \<Rightarrow> (Some (AddDimInvalid (c_ID c) e), c)
      | None \<Rightarrow> if HasDim c (d_ID d) then (Some (DimAlreadyIn (d_ID d) (c_ID c)), c)
                else (None, c\<lparr>c_Dims := c_Dims c @ [d]\<rparr>))"

definition AddVar :: "Chart \<Rightarrow> Var \<Rightarrow> charts_error option \<times> Chart" where
  "AddVar c v =
     (case checkVar v of
        Some e \<Rightarrow> (Some (AddVarInvalid (c_ID c) e), c)
      | None \<Rightarrow> if indexVar c (v_ID v) \<noteq> None then (Some (VarAlreadyIn (v_ID v) (c_ID c)), c)
                else (None, c\<lparr>c_Vars := c_Vars c @ [v]\<rparr>))"

definition RemoveDim :: "Chart \<Rightarrow> string \<Rightarrow> charts_error option \<times> Chart" where
  "RemoveDim c k =
     (case indexDim c k of
        None \<Rightarrow> (Some (DimNotIn (c_ID c) k), c)
      | Some i \<Rightarrow> (None, c\<lparr>c_Dims := remove_at i (c_Dims c)\<rparr>))"

section \<open>Slices searched by key\<close>

text \<open>
  The contract of the three search loops: the index of the first element with the key.  What
  the operations above need of it is proved once.
\<close>

locale keyed_slice =
  fixes key :: "'a \<Rightarrow> string" and index :: "'a list \<Rightarrow> string \<Rightarrow> nat option"
  assumes index_None: "index xs k = None \<longleftrightarrow> k \<notin> key ` set xs"
    and index_Some: "index xs k = Some i \<Longrightarrow>
      i < length xs \<and> key (xs ! i) = k \<and> k \<notin> key ` set (take i xs)"
begin

lemma index_unique: "distinct (map key xs) \<Longrightarrow> i < length xs \<Longrightarrow> index xs (key (xs ! i)) = Some i"
proof (cases "index xs (key (xs ! i))")
  case None
  moreover assume "i < length xs"
  ultimately show ?thesis by (auto simp: index_None)
next
  case (Some j)
  moreover assume "distinct (map key xs)" "i < length xs"
  ultimately show ?thesis using index_Some [OF Some]
    by (metis nth_eq_iff_index_eq length_map nth_map)
qed

lemma index_append_new:
  assumes "key x \<notin> key ` set xs"
  shows "index (xs @ [x]) (key x) = Some (length xs)"
proof (cases "index (xs @ [x]) (key x)")
  case None
  then show ?thesis by (simp add: index_None)
next
  case (Some i)
  have "i = length xs"
  proof (rule ccontr)
    assume "i \<noteq> length xs"
    with index_Some [OF Some] have "i < length xs" "key (xs ! i) = key x"
      by (auto simp: nth_append split: if_splits)
    with assms show False by (metis imageI nth_mem)
  qed
  with Some show ?thesis by simp
qed

lemma index_append_old:
  assumes "k \<in> key ` set xs"
  shows "index (xs @ ys) k = index xs k"
proof -
  obtain i where i: "index xs k = Some i" using assms index_None [of xs k] by auto
  obtain j where j: "index (xs @ ys) k = Some j" using assms index_None [of "xs @ ys" k] by auto
  have "\<not> i < j"
  proof
    assume ij: "i < j"
    with index_Some [OF i] have "(xs @ ys) ! i \<in> set (take j (xs @ ys))"
      using index_Some [OF j] by (metis in_set_conv_nth length_take min.absorb4 nth_take)
    with index_Some [OF i] index_Some [OF j] show False by (auto simp: nth_append)
  qed
  moreover have "\<not> j < i"
  proof
    assume ji: "j < i"
    with index_Some [OF i] have "xs ! j \<in> set (take i xs)"
      by (metis in_set_conv_nth length_take min.absorb4 nth_take)
    moreover have "key (xs ! j) = k" using ji index_Some [OF i] index_Some [OF j]
      by (simp add: nth_append)
    ultimately show False using index_Some [OF i] by auto
  qed
  ultimately show ?thesis using i j by simp
qed

lemma remove_at_filter:
  assumes "distinct (map key xs)" and "index xs k = Some i"
  shows "remove_at i xs = filter (\<lambda>x. key x \<noteq> k) xs"
proof -
  have i: "i < length xs" "key (xs ! i) = k" using index_Some [OF assms(2)] by auto
  have xs: "xs = take i xs @ xs ! i # drop (Suc i) xs" using i(1) by (rule id_take_nth_drop)
  have d: "distinct (map key (take i xs @ xs ! i # drop (Suc i) xs))" using assms(1) xs by simp
  have "\<forall>x \<in> set (take i xs). key x \<noteq> k" "\<forall>x \<in> set (drop (Suc i) xs). key x \<noteq> k"
    using d i(2) by (auto simp: image_iff)
  then have "filter (\<lambda>x. key x \<noteq> k) (take i xs @ xs ! i # drop (Suc i) xs) = remove_at i xs"
    using i(2) by (simp add: remove_at_def)
  then show ?thesis using xs by simp
qed

lemma distinct_filter_keys: "distinct (map key xs) \<Longrightarrow> distinct (map key (filter P xs))"
  by (induction xs) auto

lemma distinct_append_new:
  "distinct (map key xs) \<Longrightarrow> key x \<notin> key ` set xs \<Longrightarrow> distinct (map key (xs @ [x]))"
  by simp

end

interpretation charts: keyed_slice c_ID Charts_index
proof
  show "Charts_index xs k = None \<longleftrightarrow> k \<notin> c_ID ` set xs" for xs k by (induction xs) auto
  show "Charts_index xs k = Some i \<Longrightarrow>
      i < length xs \<and> c_ID (xs ! i) = k \<and> k \<notin> c_ID ` set (take i xs)" for xs k i
    by (induction xs arbitrary: i) (auto split: if_splits)
qed

interpretation dims: keyed_slice d_ID index_dims
proof
  show "index_dims xs k = None \<longleftrightarrow> k \<notin> d_ID ` set xs" for xs k by (induction xs) auto
  show "index_dims xs k = Some i \<Longrightarrow>
      i < length xs \<and> d_ID (xs ! i) = k \<and> k \<notin> d_ID ` set (take i xs)" for xs k i
    by (induction xs arbitrary: i) (auto split: if_splits)
qed

interpretation vars: keyed_slice v_ID index_vars
proof
  show "index_vars xs k = None \<longleftrightarrow> k \<notin> v_ID ` set xs" for xs k by (induction xs) auto
  show "index_vars xs k = Some i \<Longrightarrow>
      i < length xs \<and> v_ID (xs ! i) = k \<and> k \<notin> v_ID ` set (take i xs)" for xs k i
    by (induction xs arbitrary: i) (auto split: if_splits)
qed

section \<open>What the checks accept\<close>

definition id_ok :: "string \<Rightarrow> bool" where
  "id_ok s \<longleftrightarrow> s \<noteq> [] \<and> (\<forall>r \<in> set (runes s). \<not> IsSpace r)"

definition chart_valid :: "Chart \<Rightarrow> bool" where
  "chart_valid c \<longleftrightarrow> id_ok (c_ID c) \<and> c_Title c \<noteq> [] \<and> c_Units c \<noteq> []
     \<and> (\<forall>d \<in> set (c_Dims c). id_ok (d_ID d)) \<and> distinct (map d_ID (c_Dims c))
     \<and> (\<forall>v \<in> set (c_Vars c). id_ok (v_ID v)) \<and> distinct (map v_ID (c_Vars c))"

lemma check_runes_iff: "check_runes rs = -1 \<longleftrightarrow> (\<forall>r \<in> set rs. \<not> IsSpace r)"
  by (induction rs) auto

lemma checkID_ascii: "\<forall>c \<in> set s. byte c < 128 \<and> \<not> IsSpace (byte c) \<Longrightarrow> checkID s = -1"
  by (auto simp: checkID_def check_runes_iff runes_def rune_chunks_ascii)

lemma id_ok_check: "id_ok s \<longleftrightarrow> s \<noteq> [] \<and> checkID s = -1"
  by (simp add: id_ok_def checkID_def check_runes_iff)

lemma checkDim_iff: "checkDim d = None \<longleftrightarrow> id_ok (d_ID d)"
  by (simp add: checkDim_def id_ok_check)

lemma checkVar_iff: "checkVar v = None \<longleftrightarrow> id_ok (v_ID v)"
  by (simp add: checkVar_def id_ok_check)

lemma check_dims_iff: "check_dims seen ds = None \<longleftrightarrow>
   (\<forall>d \<in> set ds. id_ok (d_ID d) \<and> d_ID d \<notin> set seen) \<and> distinct (map d_ID ds)"
  by (induction ds arbitrary: seen) (auto simp: checkDim_iff image_iff)

lemma check_vars_iff: "check_vars seen vs = None \<longleftrightarrow>
   (\<forall>v \<in> set vs. id_ok (v_ID v) \<and> v_ID v \<notin> set seen) \<and> distinct (map v_ID vs)"
  by (induction vs arbitrary: seen) (auto simp: checkVar_iff image_iff)

lemma checkChart_valid: "checkChart c = None \<longleftrightarrow> chart_valid c"
  by (auto simp: checkChart_def chart_valid_def id_ok_check check_dims_iff check_vars_iff)

lemma checkCharts_iff: "checkCharts cs = None \<longleftrightarrow> (\<forall>c \<in> set cs. chart_valid c)"
  by (induction cs) (auto simp: checkChart_valid)

section \<open>Properties\<close>

lemma Charts_Get_None: "Charts_Get cs k = None \<longleftrightarrow> k \<notin> c_ID ` set cs"
  by (auto simp: Charts_Get_def charts.index_None [symmetric] split: option.splits)

lemma Charts_Get_Some: "Charts_Get cs k = Some c \<Longrightarrow> c \<in> set cs \<and> c_ID c = k"
  by (auto simp: Charts_Get_def split: option.splits dest: charts.index_Some)

lemma Charts_Add_prefix:
  "\<exists>k \<le> length new. snd (Charts_Add cs new) = cs @ take k new
     \<and> (fst (Charts_Add cs new) = None \<longleftrightarrow> k = length new)
     \<and> (\<forall>c \<in> set (take k new). chart_valid c)"
proof (induction cs new rule: Charts_Add.induct)
  case (1 cs)
  then show ?case by simp
next
  case (2 cs c new)
  consider e where "checkChart c = Some e" | "checkChart c = None" by (cases "checkChart c") auto
  then show ?case
  proof cases
    case 1
    then show ?thesis by (intro exI [of _ 0]) simp
  next
    case v: 2
    show ?thesis
    proof (cases "\<exists>old. Charts_Get cs (c_ID c) = Some old \<and> \<not> c_remove old")
      case True
      then obtain old where "Charts_Get cs (c_ID c) = Some old" "\<not> c_remove old" by blast
      then show ?thesis using v by (intro exI [of _ 0]) simp
    next
      case False
      then have eq: "Charts_Add cs (c # new) = Charts_Add (cs @ [c]) new"
        using v by (auto split: option.splits)
      from False v "2.IH" obtain k where "k \<le> length new"
        "snd (Charts_Add (cs @ [c]) new) = (cs @ [c]) @ take k new"
        "(fst (Charts_Add (cs @ [c]) new) = None) = (k = length new)"
        "\<forall>c \<in> set (take k new). chart_valid c"
        by (cases "Charts_Get cs (c_ID c)") auto
      moreover have "chart_valid c" using v by (simp add: checkChart_valid)
      ultimately show ?thesis
        by (intro exI [of _ "Suc k"]) (simp add: eq del: Charts_Add.simps)
    qed
  qed
qed

lemma Charts_Add_distinct:
  assumes "\<forall>c \<in> set cs \<union> set new. \<not> c_remove c" and "distinct (map c_ID cs)"
  shows "distinct (map c_ID (snd (Charts_Add cs new)))"
  using assms
proof (induction cs new rule: Charts_Add.induct)
  case (1 cs)
  then show ?case by simp
next
  case (2 cs c new)
  consider e where "checkChart c = Some e"
    | old where "checkChart c = None" "Charts_Get cs (c_ID c) = Some old"
    | "checkChart c = None" "Charts_Get cs (c_ID c) = None"
    by (cases "checkChart c"; cases "Charts_Get cs (c_ID c)") auto
  then show ?case
  proof cases
    case 1
    with "2.prems" show ?thesis by simp
  next
    case (2 old)
    with "2.prems" Charts_Get_Some [OF 2(2)] show ?thesis by simp
  next
    case 3
    then have "c_ID c \<notin> c_ID ` set cs" by (simp add: Charts_Get_None)
    with "2.prems" 3 "2.IH" show ?thesis by simp
  qed
qed

text \<open>
  \<open>checkChart\<close> accepts exactly the charts whose ID, title and units are set, whose ID has
  no space (as Unicode sees it), and whose dimensions and variables have non-empty IDs
  without spaces that differ pairwise.
\<close>

theorem checkChart_iff: "checkChart c = None \<longleftrightarrow> chart_valid c"
  by (rule checkChart_valid)

text \<open>
  \<open>Charts.Add\<close> appends a prefix of its arguments, all valid; the whole list exactly when it
  reports no error.  When no chart is marked for removal it keeps chart IDs distinct.
\<close>

theorem Charts_Add_spec:
  assumes "Charts_Add cs new = (e, cs')"
    and "\<forall>c \<in> set cs \<union> set new. \<not> c_remove c" and "distinct (map c_ID cs)"
  shows "distinct (map c_ID cs') \<and> (\<exists>k \<le> length new. cs' = cs @ take k new
     \<and> (e = None \<longleftrightarrow> k = length new) \<and> (\<forall>c \<in> set (take k new). chart_valid c))"
  using Charts_Add_prefix [of new cs] Charts_Add_distinct [OF assms(2,3)] assms(1) by simp

theorem Charts_Add_spec_witness:
  "let c = zero_chart\<lparr>c_ID := ''a'', c_Title := ''t'', c_Units := ''u''\<rparr>
   in Charts_Add [] [c, zero_chart] = (Some (AddChartInvalid [] EmptyID), [c])
     \<and> distinct (map c_ID [c]) \<and> chart_valid c"
proof -
  define c where "c = zero_chart\<lparr>c_ID := ''a'', c_Title := ''t'', c_Units := ''u''\<rparr>"
  have add: "Charts_Add [] [c, zero_chart] = (Some (AddChartInvalid [] EmptyID), [c])"
    unfolding c_def by code_simp
  have "\<forall>x \<in> set [] \<union> set [c, zero_chart]. \<not> c_remove x" by (simp add: c_def zero_chart_def)
  note spec = Charts_Add_spec [OF add this]
  then have "distinct (map c_ID [c])" by simp
  moreover from spec obtain k where "[c] = take k [c, zero_chart]"
    "\<forall>x \<in> set (take k [c, zero_chart]). chart_valid x" by (simp del: take_Suc_Cons) blast
  then have "chart_valid c" by (metis list.set_intros(1))
  ultimately show ?thesis using add unfolding c_def Let_def by blast
qed

text \<open>
  \<open>Charts.Add\<close> looks only at the first chart with the ID.  After a chart was marked for
  removal and added again, a third chart with the same ID is accepted as well, and two charts
  with that ID are live.
\<close>

theorem Charts_Add_accepts_live_duplicate:
  "\<exists>c cs1 cs2 cs3. Charts_Add [] [c] = (None, cs1)
     \<and> Charts_Add (map MarkRemove cs1) [c] = (None, cs2)
     \<and> Charts_Add cs2 [c] = (None, cs3)
     \<and> length (filter (\<lambda>x. \<not> c_remove x \<and> c_ID x = c_ID c) cs3) = 2"
proof -
  let ?c = "zero_chart\<lparr>c_ID := ''a'', c_Title := ''t'', c_Units := ''u''\<rparr>"
  have 1: "Charts_Add [] [?c] = (None, [?c])" by code_simp
  have 2: "Charts_Add (map MarkRemove [?c]) [?c] = (None, [MarkRemove ?c, ?c])" by code_simp
  have 3: "Charts_Add [MarkRemove ?c, ?c] [?c] = (None, [MarkRemove ?c, ?c, ?c])" by code_simp
  have "length (filter (\<lambda>x. \<not> c_remove x \<and> c_ID x = c_ID ?c) [MarkRemove ?c, ?c, ?c]) = 2"
    by (simp add: MarkRemove_def zero_chart_def)
  with 1 2 3 show ?thesis by blast
qed

lemma GetDim_None: "GetDim c k = None \<longleftrightarrow> k \<notin> d_ID ` set (c_Dims c)"
  by (auto simp: GetDim_def indexDim_def dims.index_None [symmetric] split: option.splits)

lemma HasDim_iff: "HasDim c k \<longleftrightarrow> k \<in> d_ID ` set (c_Dims c)"
  by (simp add: HasDim_def indexDim_def dims.index_None)

lemma GetDim_append_new:
  "d_ID d \<notin> d_ID ` set (c_Dims c) \<Longrightarrow> GetDim (c\<lparr>c_Dims := c_Dims c @ [d]\<rparr>) (d_ID d) = Some d"
  using dims.index_append_new [of d "c_Dims c"] by (simp add: GetDim_def indexDim_def)

lemma GetDim_append_other:
  assumes "k \<noteq> d_ID d"
  shows "GetDim (c\<lparr>c_Dims := c_Dims c @ [d]\<rparr>) k = GetDim c k"
proof (cases "k \<in> d_ID ` set (c_Dims c)")
  case True
  then show ?thesis using dims.index_append_old [OF True, of "[d]"] dims.index_None [of "c_Dims c" k]
    by (auto simp: GetDim_def indexDim_def nth_append dest: dims.index_Some split: option.splits)
next
  case False
  then have "GetDim c k = None" "GetDim (c\<lparr>c_Dims := c_Dims c @ [d]\<rparr>) k = None"
    using assms by (auto simp: GetDim_None)
  then show ?thesis by simp
qed

text \<open>
  \<open>AddDim\<close> on a valid chart either reports an error and changes nothing, or yields a valid
  chart in which \<open>GetDim\<close> finds the new dimension and every other lookup is unchanged.
\<close>

theorem AddDim_spec:
  assumes "chart_valid c"
  shows "case AddDim c d of
      (Some e, c') \<Rightarrow> c' = c
    | (None, c') \<Rightarrow> chart_valid c' \<and> GetDim c' (d_ID d) = Some d
        \<and> (\<forall>k. k \<noteq> d_ID d \<longrightarrow> GetDim c' k = GetDim c k)"
  using assms
  by (auto simp: AddDim_def HasDim_iff checkDim_iff chart_valid_def GetDim_append_new
      GetDim_append_other image_iff split: option.splits)

theorem AddDim_spec_witness:
  "\<exists>c'. AddDim (zero_chart\<lparr>c_ID := ''a'', c_Title := ''t'', c_Units := ''u''\<rparr>)
       (zero_dim\<lparr>d_ID := ''d''\<rparr>) = (None, c')
     \<and> GetDim c' ''d'' = Some (zero_dim\<lparr>d_ID := ''d''\<rparr>)"
proof -
  let ?c = "zero_chart\<lparr>c_ID := ''a'', c_Title := ''t'', c_Units := ''u''\<rparr>"
  let ?d = "zero_dim\<lparr>d_ID := ''d''\<rparr>"
  have "checkChart ?c = None" by code_simp
  then have "chart_valid ?c" by (simp add: checkChart_valid)
  note spec = AddDim_spec [OF this, of ?d]
  have "fst (AddDim ?c ?d) = None" by code_simp
  then obtain c' where "AddDim ?c ?d = (None, c')" by (metis prod.collapse)
  with spec show ?thesis by (simp add: zero_dim_def)
qed

lemma RemoveDim_filter:
  "distinct (map d_ID (c_Dims c)) \<Longrightarrow> RemoveDim c k =
     (if k \<in> d_ID ` set (c_Dims c)
      then (None, c\<lparr>c_Dims := filter (\<lambda>d. d_ID d \<noteq> k) (c_Dims c)\<rparr>)
      else (Some (DimNotIn (c_ID c) k), c))"
  by (auto simp: RemoveDim_def indexDim_def dims.remove_at_filter dims.index_None [symmetric]
      split: option.splits)

text \<open>
  On a valid chart \<open>RemoveDim\<close> deletes exactly the dimension with the given ID and keeps the
  order and the validity of the rest; an unknown ID is an error that changes nothing.
\<close>

theorem RemoveDim_spec:
  assumes "chart_valid c" and "RemoveDim c k = (e, c')"
  shows "(e = None \<longleftrightarrow> HasDim c k) \<and> chart_valid c' \<and> \<not> HasDim c' k
     \<and> c_Dims c' = filter (\<lambda>d. d_ID d \<noteq> k) (c_Dims c)"
proof -
  have d: "distinct (map d_ID (c_Dims c))" using assms(1) by (simp add: chart_valid_def)
  have "filter (\<lambda>d. d_ID d \<noteq> k) (c_Dims c) = c_Dims c" if "k \<notin> d_ID ` set (c_Dims c)"
    using that by (auto simp: filter_id_conv)
  with assms d show ?thesis
    by (auto simp: RemoveDim_filter HasDim_iff chart_valid_def dims.distinct_filter_keys
        split: if_splits)
qed

theorem RemoveDim_spec_witness:
  "\<exists>c'. RemoveDim (zero_chart\<lparr>c_ID := ''a'', c_Title := ''t'', c_Units := ''u'',
       c_Dims := [zero_dim\<lparr>d_ID := ''d''\<rparr>]\<rparr>) ''d'' = (None, c') \<and> c_Dims c' = []"
proof -
  let ?c = "zero_chart\<lparr>c_ID := ''a'', c_Title := ''t'', c_Units := ''u'',
       c_Dims := [zero_dim\<lparr>d_ID := ''d''\<rparr>]\<rparr>"
  have "checkChart ?c = None" by code_simp
  then have v: "chart_valid ?c" by (simp add: checkChart_valid)
  obtain e c' where r: "RemoveDim ?c ''d'' = (e, c')" by (cases "RemoveDim ?c ''d''")
  have "HasDim ?c ''d''" by code_simp
  with RemoveDim_spec [OF v r] r show ?thesis by (simp add: zero_dim_def)
qed

end
