(* ===== verification/Netdata_API.thy ===== *)
theory Netdata_API
  imports Prelude
begin

text \<open>
  Package \<open>agent/netdataapi\<close>: the plugins.d text protocol.  A \<open>command\<close> is one call of a
  method of \<open>API\<close>; \<open>render\<close> gives the bytes that call passes to \<open>Write\<close>.  A writer is the
  embedded \<open>io.Writer\<close>: it takes the bytes of one call and returns an error or nil together
  with its new state.
\<close>

section \<open>Commands and their text\<close>

datatype command =
    CHART string string string string string string string string int int string string string
  | DIMENSION string string string int int string
  | CLABEL string string int
  | CLABELCOMMIT
  | BEGIN string string int
  | SET string int
  | SETEMPTY string
  | VARIABLE string int
  | END
  | DISABLE
  | EMPTYLINE
  | HOSTDEFINE string string
  | HOSTLABEL string string
  | HOSTDEFINEEND
  | HOST string
  | DynCfgEnable string
  | DynCfgReset
  | DyncCfgRegisterModule string
  | DynCfgRegisterJob string string string
  | DynCfgReportJobStatus string string string string
  | FunctionResult string string string string

abbreviation sq :: char where
  "sq \<equiv> CHR 0x27"

abbreviation nl :: char where
  "nl \<equiv> CHR 0x0A"

definition quotes :: string where
  "quotes = [sq, CHR '' '', sq]"

fun functionResult :: "string \<Rightarrow> string \<Rightarrow> string \<Rightarrow> string \<Rightarrow> string" where
  "functionResult uid contentType payload code =
     ''FUNCTION_RESULT_BEGIN '' @ uid @ '' '' @ code @ '' '' @ contentType @ '' 0'' @ [nl]
     @ (if payload \<noteq> [] then payload @ [nl] else [])
     @ ''FUNCTION_RESULT_END'' @ [nl, nl]"

fun render :: "command \<Rightarrow> string" where
  "render (CHART typeID ID name title units family ctx chartType priority updateEvery
     options plugin module) =
     ''CHART '' @ [sq] @ typeID @ ''.'' @ ID @ quotes @ name @ quotes @ title @ quotes
     @ units @ quotes @ family @ quotes @ ctx @ quotes @ chartType @ quotes
     @ Itoa priority @ quotes @ Itoa updateEvery @ quotes @ options @ quotes
     @ plugin @ quotes @ module @ [sq, nl]"
| "render (DIMENSION ID name algorithm multiplier divisor options) =
     ''DIMENSION '' @ [sq] @ ID @ quotes @ name @ quotes @ algorithm @ quotes
     @ Itoa multiplier @ quotes @ Itoa divisor @ quotes @ options @ [sq, nl]"
| "render (CLABEL key val source) =
     ''CLABEL '' @ [sq] @ key @ quotes @ val @ quotes @ Itoa source @ [sq, nl]"
| "render CLABELCOMMIT = ''CLABEL_COMMIT'' @ [nl]"
| "render (BEGIN typeID ID msSince) =
     (if msSince > 0
      then ''BEGIN '' @ [sq] @ typeID @ ''.'' @ ID @ [sq] @ '' '' @ Itoa msSince @ [nl]
      else ''BEGIN '' @ [sq] @ typeID @ ''.'' @ ID @ [sq, nl])"
| "render (SET ID v) = ''SET '' @ [sq] @ ID @ [sq] @ '' = '' @ Itoa v @ [nl]"
| "render (SETEMPTY ID) = ''SET '' @ [sq] @ ID @ [sq] @ '' = '' @ [nl]"
| "render (VARIABLE ID v) =
     ''VARIABLE CHART '' @ [sq] @ ID @ [sq] @ '' = '' @ Itoa v @ [nl]"
| "render END = ''END'' @ [nl, nl]"
| "render DISABLE = ''DISABLE'' @ [nl]"
| "render EMPTYLINE = [nl]"
| "render (HOSTDEFINE guid hostname) =
     ''HOST_DEFINE '' @ [sq] @ guid @ quotes @ hostname @ [sq, nl]"
| "render (HOSTLABEL name val) = ''HOST_LABEL '' @ [sq] @ name @ quotes @ val @ [sq, nl]"
| "render HOSTDEFINEEND = ''HOST_DEFINE_END'' @ [nl, nl]"
| "render (HOST guid) = ''HOST '' @ [sq] @ guid @ [sq, nl, nl]"
| "render (DynCfgEnable pluginName) = ''DYNCFG_ENABLE '' @ [sq] @ pluginName @ [sq, nl, nl]"
| "render DynCfgReset = ''DYNCFG_RESET'' @ [nl]"
| "render (DyncCfgRegisterModule moduleName) =
     ''DYNCFG_REGISTER_MODULE '' @ [sq] @ moduleName @ [sq] @ '' job_array'' @ [nl, nl]"
| "render (DynCfgRegisterJob moduleName jobName jobType) =
     ''DYNCFG_REGISTER_JOB '' @ [sq] @ moduleName @ quotes @ jobName @ quotes @ jobType
     @ [sq] @ '' 0'' @ [nl, nl]"
| "render (DynCfgReportJobStatus moduleName jobName status reason) =
     ''REPORT_JOB_STATUS '' @ [sq] @ moduleName @ quotes @ jobName @ quotes @ status
     @ [sq] @ '' 0 '' @ [sq] @ reason @ [sq, nl, nl]"
| "render (FunctionResult uid contentType payload code) =
     functionResult uid contentType payload code"

declare render.simps [simp del]

definition FunctionResultSuccess :: "string \<Rightarrow> string \<Rightarrow> string \<Rightarrow> command" where
  "FunctionResultSuccess uid contentType payload = FunctionResult uid contentType payload ''1''"

definition FunctionResultReject :: "string \<Rightarrow> string \<Rightarrow> string \<Rightarrow> command" where
  "FunctionResultReject uid contentType payload = FunctionResult uid contentType payload ''0''"

section \<open>Writers\<close>

type_synonym 'w writer = "string \<Rightarrow> 'w \<Rightarrow> go_error option \<times> 'w"

text \<open>Every method but \<open>HOSTINFO\<close> is one \<open>Write\<close>.\<close>

definition api_call :: "'w writer \<Rightarrow> command \<Rightarrow> 'w \<Rightarrow> go_error option \<times> 'w" where
  "api_call w c s = w (render c) s"

text \<open>\<open>HOSTINFO\<close> stops at the first failing write.  \<open>labels\<close> is in iteration order.\<close>

fun hostlabels :: "'w writer \<Rightarrow> (string \<times> string) list \<Rightarrow> 'w \<Rightarrow> go_error option \<times> 'w" where
  "hostlabels w [] s = api_call w HOSTDEFINEEND s"
| "hostlabels w ((k, v) # ls) s =
     (case api_call w (HOSTLABEL k v) s of
        (Some e, s') \<Rightarrow> (Some e, s')
      | (None, s') \<Rightarrow> hostlabels w ls s')"

definition HOSTINFO ::
  "'w writer \<Rightarrow> string \<Rightarrow> string \<Rightarrow> (string \<times> string) list \<Rightarrow> 'w \<Rightarrow> go_error option \<times> 'w" where
  "HOSTINFO w guid hostname labels s =
     (case api_call w (HOSTDEFINE guid hostname) s of
        (Some e, s') \<Rightarrow> (Some e, s')
      | (None, s') \<Rightarrow> hostlabels w labels s')"

text \<open>The commands a \<open>HOSTINFO\<close> call that meets no error amounts to.\<close>

definition hostinfo_commands :: "string \<Rightarrow> string \<Rightarrow> (string \<times> string) list \<Rightarrow> command list" where
  "hostinfo_commands guid hostname labels =
     HOSTDEFINE guid hostname # map (\<lambda>(k, v). HOSTLABEL k v) labels @ [HOSTDEFINEEND]"

text \<open>\<open>bytes.Buffer\<close>: appends and never fails.\<close>

definition buffer_write :: "string writer" where
  "buffer_write t b = (None, b @ t)"

definition render_all :: "command list \<Rightarrow> string" where
  "render_all cs = concat (map render cs)"

lemma render_all_simps [simp]:
  "render_all [] = []"
  "render_all (c # cs) = render c @ render_all cs"
  "render_all (cs @ ds) = render_all cs @ render_all ds"
  by (simp_all add: render_all_def)

text \<open>The interface of a writer that always succeeds and keeps what was written.\<close>

locale reliable_writer =
  fixes emit :: "'w writer" and contents :: "'w \<Rightarrow> string"
  assumes emit_ok: "fst (emit t s) = None"
    and contents_emit: "contents (snd (emit t s)) = contents s @ t"
begin

lemma emit_eq: "emit t s = (None, snd (emit t s))"
  by (metis prod.collapse emit_ok)

lemma call_ok: "fst (api_call emit c s) = None"
  by (simp add: api_call_def emit_ok)

lemma call_contents: "contents (snd (api_call emit c s)) = contents s @ render c"
  by (simp add: api_call_def contents_emit)

lemma call_step:
  obtains s' where "api_call emit c s = (None, s')" and "contents s' = contents s @ render c"
  using call_ok [of c s] call_contents [of c s] by (metis prod.collapse)

lemma hostlabels_contents:
  "fst (hostlabels emit ls s) = None \<and> contents (snd (hostlabels emit ls s))
     = contents s @ render_all (map (\<lambda>(k, v). HOSTLABEL k v) ls @ [HOSTDEFINEEND])"
proof (induction ls arbitrary: s)
  case Nil
  show ?case by (rule call_step [of HOSTDEFINEEND s]) simp
next
  case (Cons kv ls)
  obtain k v where kv: "kv = (k, v)" by (cases kv)
  obtain s' where "api_call emit (HOSTLABEL k v) s = (None, s')"
    and "contents s' = contents s @ render (HOSTLABEL k v)" by (rule call_step)
  then show ?case using Cons.IH [of s'] by (simp add: kv)
qed

lemma hostinfo_contents:
  "fst (HOSTINFO emit guid hostname labels s) = None
   \<and> contents (snd (HOSTINFO emit guid hostname labels s))
     = contents s @ render_all (hostinfo_commands guid hostname labels)"
proof -
  obtain s' where "api_call emit (HOSTDEFINE guid hostname) s = (None, s')"
    and "contents s' = contents s @ render (HOSTDEFINE guid hostname)" by (rule call_step)
  then show ?thesis using hostlabels_contents [of labels s']
    by (simp add: HOSTINFO_def hostinfo_commands_def)
qed

end

interpretation buffer: reliable_writer buffer_write "\<lambda>b. b"
  by unfold_locales (simp_all add: buffer_write_def)

section \<open>What the receiver reads\<close>

text \<open>
  The plugins.d protocol: the receiver cuts the stream at newlines and splits a line into
  words at spaces, where a word may be enclosed in single quotes.
\<close>

function plugin_words :: "string \<Rightarrow> string list" where
  "plugin_words s =
     (case dropWhile (\<lambda>x. x = CHR '' '') s of
        [] \<Rightarrow> []
      | c # cs \<Rightarrow>
          if c = sq
          then takeWhile (\<lambda>x. x \<noteq> sq) cs # plugin_words (drop 1 (dropWhile (\<lambda>x. x \<noteq> sq) cs))
          else takeWhile (\<lambda>x. x \<noteq> CHR '' '') (c # cs)
               # plugin_words (dropWhile (\<lambda>x. x \<noteq> CHR '' '') cs))"
  by pat_completeness auto
termination
proof (relation "measure length", goal_cases)
  case 1
  then show ?case by simp
next
  case (2 s c cs)
  have "length (dropWhile (\<lambda>x. x \<noteq> sq) cs) \<le> length cs" by (rule length_dropWhile_le)
  moreover have "length (dropWhile (\<lambda>x. x = CHR '' '') s) \<le> length s"
    by (rule length_dropWhile_le)
  moreover have "Suc (length cs) = length (dropWhile (\<lambda>x. x = CHR '' '') s)"
    using 2(1) by simp
  ultimately have "length (dropWhile (\<lambda>x. x \<noteq> sq) cs) - 1 < length s" by linarith
  then show ?case by simp
next
  case (3 s c cs)
  have "length (dropWhile (\<lambda>x. x \<noteq> CHR '' '') cs) \<le> length cs" by (rule length_dropWhile_le)
  moreover have "length (dropWhile (\<lambda>x. x = CHR '' '') s) \<le> length s"
    by (rule length_dropWhile_le)
  ultimately show ?case using 3 by auto
qed

declare plugin_words.simps [simp del]

definition first_line :: "string \<Rightarrow> string" where
  "first_line s = takeWhile (\<lambda>c. c \<noteq> nl) s"

text \<open>A field that survives quoting: the code escapes neither quotes nor newlines.\<close>

definition quotable :: "string \<Rightarrow> bool" where
  "quotable w \<longleftrightarrow> sq \<notin> set w \<and> nl \<notin> set w"

text \<open>The words the protocol defines for each command, and the fields that are quoted.\<close>

fun command_words :: "command \<Rightarrow> string list" where
  "command_words (CHART typeID ID name title units family ctx chartType priority updateEvery
     options plugin module) =
     [''CHART'', typeID @ ''.'' @ ID, name, title, units, family, ctx, chartType,
      Itoa priority, Itoa updateEvery, options, plugin, module]"
| "command_words (DIMENSION ID name algorithm multiplier divisor options) =
     [''DIMENSION'', ID, name, algorithm, Itoa multiplier, Itoa divisor, options]"
| "command_words (CLABEL key val source) = [''CLABEL'', key, val, Itoa source]"
| "command_words CLABELCOMMIT = [''CLABEL_COMMIT'']"
| "command_words (BEGIN typeID ID msSince) =
     ''BEGIN'' # (typeID @ ''.'' @ ID) # (if msSince > 0 then [Itoa msSince] else [])"
| "command_words (SET ID v) = [''SET'', ID, ''='', Itoa v]"
| "command_words (SETEMPTY ID) = [''SET'', ID, ''='']"
| "command_words (VARIABLE ID v) = [''VARIABLE'', ''CHART'', ID, ''='', Itoa v]"
| "command_words END = [''END'']"
| "command_words DISABLE = [''DISABLE'']"
| "command_words EMPTYLINE = []"
| "command_words (HOSTDEFINE guid hostname) = [''HOST_DEFINE'', guid, hostname]"
| "command_words (HOSTLABEL name val) = [''HOST_LABEL'', name, val]"
| "command_words HOSTDEFINEEND = [''HOST_DEFINE_END'']"
| "command_words (HOST guid) = [''HOST'', guid]"
| "command_words (DynCfgEnable pluginName) = [''DYNCFG_ENABLE'', pluginName]"
| "command_words DynCfgReset = [''DYNCFG_RESET'']"
| "command_words (DyncCfgRegisterModule m) = [''DYNCFG_REGISTER_MODULE'', m, ''job_array'']"
| "command_words (DynCfgRegisterJob m j t) = [''DYNCFG_REGISTER_JOB'', m, j, t, ''0'']"
| "command_words (DynCfgReportJobStatus m j st r) =
     [''REPORT_JOB_STATUS'', m, j, st, ''0'', r]"
| "command_words (FunctionResult uid ct payload code) =
     [''FUNCTION_RESULT_BEGIN'', uid, code, ct, ''0'']"

fun command_fields :: "command \<Rightarrow> string list" where
  "command_fields (CHART typeID ID name title units family ctx chartType priority updateEvery
     options plugin module) =
     [typeID, ID, name, title, units, family, ctx, chartType, options, plugin, module]"
| "command_fields (DIMENSION ID name algorithm multiplier divisor options) =
     [ID, name, algorithm, options]"
| "command_fields (CLABEL key val source) = [key, val]"
| "command_fields (BEGIN typeID ID msSince) = [typeID, ID]"
| "command_fields (SET ID v) = [ID]"
| "command_fields (SETEMPTY ID) = [ID]"
| "command_fields (VARIABLE ID v) = [ID]"
| "command_fields (HOSTDEFINE guid hostname) = [guid, hostname]"
| "command_fields (HOSTLABEL name val) = [name, val]"
| "command_fields (HOST guid) = [guid]"
| "command_fields (DynCfgEnable pluginName) = [pluginName]"
| "command_fields (DyncCfgRegisterModule m) = [m]"
| "command_fields (DynCfgRegisterJob m j t) = [m, j, t]"
| "command_fields (DynCfgReportJobStatus m j st r) = [m, j, st, r]"
| "command_fields _ = []"

fun is_function_result :: "command \<Rightarrow> bool" where
  "is_function_result (FunctionResult uid ct payload code) = True"
| "is_function_result _ = False"

definition quotable_command :: "command \<Rightarrow> bool" where
  "quotable_command c \<longleftrightarrow> (\<forall>w \<in> set (command_fields c). quotable w) \<and> \<not> is_function_result c"

subsection \<open>Splitting facts\<close>

lemma is_digit_plain: "is_digit c \<Longrightarrow> c \<noteq> sq \<and> c \<noteq> nl \<and> c \<noteq> CHR '' ''"
  by (auto simp: is_digit_def)

lemma Itoa_plain: "sq \<notin> set (Itoa i)" "nl \<notin> set (Itoa i)" "CHR '' '' \<notin> set (Itoa i)"
proof -
  have "c \<noteq> sq \<and> c \<noteq> nl \<and> c \<noteq> CHR '' ''" if "c \<in> set (Itoa i)" for c
    using Itoa_chars [OF that] is_digit_plain [of c] by auto
  then show "sq \<notin> set (Itoa i)" "nl \<notin> set (Itoa i)" "CHR '' '' \<notin> set (Itoa i)" by blast+
qed

lemma first_line_plain: "c \<noteq> nl \<Longrightarrow> first_line (c # s) = c # first_line s"
  by (simp add: first_line_def)

lemma first_line_word: "nl \<notin> set a \<Longrightarrow> first_line (a @ s) = a @ first_line s"
  unfolding first_line_def by (rule takeWhile_append2) auto

lemma first_line_nl [simp]: "first_line (nl # s) = []"
  by (simp add: first_line_def)

lemma plugin_words_Nil [simp]: "plugin_words [] = []"
  by (simp add: plugin_words.simps)

lemma plugin_words_space [simp]: "plugin_words (CHR '' '' # s) = plugin_words s"
  by (subst (1 2) plugin_words.simps) simp

lemma plugin_words_quoted:
  assumes "sq \<notin> set w"
  shows "plugin_words (sq # w @ sq # s) = w # plugin_words s"
proof -
  have "takeWhile (\<lambda>x. x \<noteq> sq) (w @ sq # s) = w" "dropWhile (\<lambda>x. x \<noteq> sq) (w @ sq # s) = sq # s"
    using assms by (simp_all add: takeWhile_tail dropWhile_append3 takeWhile_append dropWhile_append)
  then show ?thesis by (subst plugin_words.simps) simp
qed

lemma plugin_words_quoted_dot:
  "sq \<notin> set a \<Longrightarrow> sq \<notin> set b \<Longrightarrow>
   plugin_words (sq # a @ CHR ''.'' # b @ sq # s) = (a @ CHR ''.'' # b) # plugin_words s"
  using plugin_words_quoted [of "a @ CHR ''.'' # b" s] by simp

lemma plugin_words_bare:
  "c \<noteq> CHR '' '' \<Longrightarrow> c \<noteq> sq \<Longrightarrow> plugin_words (c # cs)
     = (c # takeWhile (\<lambda>x. x \<noteq> CHR '' '') cs) # plugin_words (dropWhile (\<lambda>x. x \<noteq> CHR '' '') cs)"
  by (subst plugin_words.simps) simp

lemma plugin_words_number: "plugin_words (Itoa i) = [Itoa i]"
proof -
  obtain c cs where c: "Itoa i = c # cs" by (cases "Itoa i") auto
  have "CHR '' '' \<notin> set (c # cs)" "sq \<notin> set (c # cs)"
    using Itoa_plain [of i] by (simp_all only: c not_False_eq_True)
  then have "c \<noteq> CHR '' ''" "c \<noteq> sq" "\<forall>x \<in> set cs. x \<noteq> CHR '' ''" by auto
  moreover from this(3) have "dropWhile (\<lambda>x. x \<noteq> CHR '' '') cs = []" by simp
  ultimately show ?thesis unfolding c by (simp add: plugin_words_bare del: dropWhile_eq_Nil_conv)
qed

lemmas plugin_words_rules = plugin_words_quoted plugin_words_quoted_dot plugin_words_bare
  plugin_words_number

lemmas first_line_rules = first_line_plain first_line_word first_line_nl



end
