(* ===== verification/Job.thy ===== *)
theory Job
  imports Charts Netdata_API
begin

text \<open>
  \<open>agent/module/job.go\<close> and the interface \<open>Module\<close> of \<open>agent/module/module.go\<close>: the wrapper
  that runs one collector.  The collector itself is a parameter: a record of the methods the
  job calls, over an arbitrary state type.  A method that may panic returns \<^const>\<open>None\<close> in
  place of its result.  The job and its collector share the charts through a pointer, so
  \<open>Collect\<close> takes the charts and returns them as it leaves them.

  The buffer and the output hold the protocol commands in the order the methods of
  \<open>netdataapi.API\<close> were called; their bytes are \<^const>\<open>render_all\<close> of that list.  Time is in
  nanoseconds and comes in as an argument, like the environment variables and the
  process-wide flags (\<open>env\<close>).
\<close>

section \<open>Data\<close>

type_synonym metrics = "(string \<times> int) list"

record 'm Module =
  m_Init :: "'m \<Rightarrow> bool option \<times> 'm"
  m_Check :: "'m \<Rightarrow> bool option \<times> 'm"
  m_Charts :: "'m \<Rightarrow> Charts option option \<times> 'm"
  m_Collect :: "'m \<Rightarrow> Charts \<Rightarrow> metrics option \<times> Charts \<times> 'm"
  m_Cleanup :: "'m \<Rightarrow> 'm"

record env =
  e_obsoleteCharts :: bool
  e_ndInternalMonitoringDisabled :: bool
  e_vnodesDisabled :: bool
  e_debugTerminal :: bool

record 'm JobConfig =
  jc_PluginName :: string
  jc_Name :: string
  jc_ModuleName :: string
  jc_FullName :: string
  jc_Module :: 'm
  jc_Labels :: "(string \<times> string) list"
  jc_UpdateEvery :: int
  jc_AutoDetectEvery :: int
  jc_Priority :: int
  jc_IsStock :: bool
  jc_VnodeGUID :: string
  jc_VnodeHostname :: string
  jc_VnodeLabels :: "(string \<times> string) list"

record 'm Job =
  j_pluginName :: string
  j_name :: string
  j_moduleName :: string
  j_fullName :: string
  j_updateEvery :: int
  j_AutoDetectEvery :: int
  j_AutoDetectTries :: int
  j_priority :: int
  j_labels :: "(string \<times> string) list"
  j_muted :: bool
  j_isStock :: bool
  j_module :: 'm
  j_initialized :: bool
  j_panicked :: bool
  j_runChart :: Chart
  j_charts :: "Charts option"
  j_out :: "command list"
  j_buf :: "command list"
  j_retries :: int
  j_prevRun :: "int option"
  j_vnodeCreated :: bool
  j_vnodeGUID :: string
  j_vnodeHostname :: string
  j_vnodeLabels :: "(string \<times> string) list"

definition penaltyStep :: int where "penaltyStep = 5"
definition maxPenalty :: int where "maxPenalty = 600"
definition infTries :: int where "infTries = -1"
definition NetdataChartIDMaxLength :: nat where "NetdataChartIDMaxLength = 1200"

section \<open>Helpers\<close>

definition firstNotEmpty :: "string \<Rightarrow> string \<Rightarrow> string" where
  "firstNotEmpty val1 val2 = (if val1 \<noteq> [] then val1 else val2)"

definition handleZero :: "int \<Rightarrow> int" where
  "handleZero v = (if v = 0 then 1 else v)"

definition calcSinceLastRun :: "int \<Rightarrow> int option \<Rightarrow> int" where
  "calcSinceLastRun curTime prevRun =
     (case prevRun of None \<Rightarrow> 0 | Some p \<Rightarrow> (curTime - p) sdiv 1000)"

definition durationTo :: "int \<Rightarrow> int \<Rightarrow> int" where
  "durationTo duration unit = duration sdiv (unit sdiv 1)"

text \<open>\<open>reSpace.ReplaceAllString(s, "_")\<close> with \<open>\s+\<close>: Go's \<open>\s\<close> is tab, newline, form feed,
  carriage return and space.\<close>

fun squash_spaces :: "bool \<Rightarrow> string \<Rightarrow> string" where
  "squash_spaces inrun [] = []"
| "squash_spaces inrun (c # cs) =
     (if re_space c then (if inrun then squash_spaces True cs else CHR ''_'' # squash_spaces True cs)
      else c # squash_spaces False cs)"

definition newRuntimeChart :: "string \<Rightarrow> Chart" where
  "newRuntimeChart pluginName = zero_chart\<lparr>
     c_typ := ''netdata'', c_Title := ''Execution time'', c_Units := ''ms'', c_Fam := pluginName,
     c_Ctx := ''netdata.''
       @ squash_spaces False (if pluginName = ''go.d'' then ''go'' else pluginName)
       @ ''_plugin_execution_time'',
     c_Priority := 145000, c_Dims := [zero_dim\<lparr>d_ID := ''time''\<rparr>]\<rparr>"

definition NewJob :: "'m JobConfig \<Rightarrow> 'm Job" where
  "NewJob cfg = \<lparr>
     j_pluginName = jc_PluginName cfg, j_name = jc_Name cfg, j_moduleName = jc_ModuleName cfg,
     j_fullName = jc_FullName cfg, j_updateEvery = jc_UpdateEvery cfg,
     j_AutoDetectEvery = jc_AutoDetectEvery cfg, j_AutoDetectTries = infTries,
     j_priority = jc_Priority cfg, j_labels = jc_Labels cfg, j_muted = False,
     j_isStock = jc_IsStock cfg, j_module = jc_Module cfg, j_initialized = False,
     j_panicked = False, j_runChart = newRuntimeChart (jc_PluginName cfg), j_charts = None,
     j_out = [], j_buf = [], j_retries = 0, j_prevRun = None, j_vnodeCreated = False,
     j_vnodeGUID = jc_VnodeGUID cfg, j_vnodeHostname = jc_VnodeHostname cfg,
     j_vnodeLabels = jc_VnodeLabels cfg\<rparr>"

definition emit :: "command list \<Rightarrow> 'm Job \<Rightarrow> 'm Job" where
  "emit cs j = j\<lparr>j_buf := j_buf j @ cs\<rparr>"

definition RetryAutoDetection :: "'m Job \<Rightarrow> bool" where
  "RetryAutoDetection j \<longleftrightarrow>
     j_AutoDetectEvery j > 0 \<and> (j_AutoDetectTries j = infTries \<or> j_AutoDetectTries j > 0)"

definition penalty :: "'m Job \<Rightarrow> int" where
  "penalty j = (let v = j_retries j sdiv penaltyStep * penaltyStep * j_updateEvery j sdiv 2
                in if v > maxPenalty then maxPenalty else v)"

section \<open>Chart identity\<close>

definition getChartType :: "'m Job \<Rightarrow> Chart \<Rightarrow> string \<times> Chart" where
  "getChartType j c =
     (if c_typ c \<noteq> [] then (c_typ c, c)
      else let t0 = (if \<not> c_IDSep c then j_fullName j
                     else (case IndexByte (c_ID c) CHR ''.'' of
                             Some i \<Rightarrow> j_fullName j @ ''_'' @ take i (c_ID c)
                           | None \<Rightarrow> j_fullName j));
               t1 = (if c_OverModule c \<noteq> [] then
                       (let v = TrimPrefix t0 (j_moduleName j)
                        in if v \<noteq> t0 then c_OverModule c @ v else t0)
                     else t0)
           in (t1, c\<lparr>c_typ := t1\<rparr>))"

definition getChartID :: "Chart \<Rightarrow> string \<times> Chart" where
  "getChartID c =
     (if c_id c \<noteq> [] then (c_id c, c)
      else if \<not> c_IDSep c then (c_ID c, c)
      else let d = (case IndexByte (c_ID c) CHR ''.'' of
                      Some i \<Rightarrow> drop (i + 1) (c_ID c) | None \<Rightarrow> c_ID c)
           in (d, c\<lparr>c_id := d\<rparr>))"

section \<open>Creating and updating charts\<close>

definition label_commands :: "'m Job \<Rightarrow> Chart \<Rightarrow> command list" where
  "label_commands j c =
     (let own = filter (\<lambda>l. l_Key l \<noteq> []) (c_Labels c); seen = set (map l_Key own)
      in map (\<lambda>l. CLABEL (l_Key l) (l_Value l)
               (if l_Source l = 0 then LabelSourceAuto else l_Source l)) own
         @ map (\<lambda>(k, v). CLABEL k v LabelSourceConf) (filter (\<lambda>(k, v). k \<notin> seen) (j_labels j))
         @ [CLABEL ''_collect_job'' (j_name j) LabelSourceAuto, CLABELCOMMIT])"

definition dim_command :: "Dim \<Rightarrow> command" where
  "dim_command d = DIMENSION (firstNotEmpty (d_Name d) (d_ID d)) (d_Name d)
     (DimAlgo_String (d_Algo d)) (handleZero (d_Mul d)) (handleZero (d_Div d))
     (DimOpts_String (d_DimOpts d))"

definition var_command :: "Var \<Rightarrow> int \<Rightarrow> command" where
  "var_command v x = (if v_Name v \<noteq> [] then VARIABLE (v_Name v) x else VARIABLE (v_ID v) x)"

definition createChart :: "'m Job \<Rightarrow> Chart \<Rightarrow> 'm Job \<times> Chart" where
  "createChart j c =
     (if c_ignore c then (j, c\<lparr>c_created := True\<rparr>)
      else let (j1, c1) = (if c_Priority c = 0
                           then (j\<lparr>j_priority := j_priority j + 1\<rparr>, c\<lparr>c_Priority := j_priority j\<rparr>)
                           else (j, c));
               (ty, c2) = getChartType j1 c1;
               (cid, c3) = getChartID c2;
               cmd = CHART ty cid (c_OverID c3) (c_Title c3) (c_Units c3) (c_Fam c3) (c_Ctx c3)
                       (ChartType_String (c_Type c3)) (c_Priority c3) (j_updateEvery j1)
                       (Opts_String (c_Opts c3)) (j_pluginName j1) (j_moduleName j1)
           in (if c_Obsolete c3 then emit [cmd, EMPTYLINE] j1
               else emit (cmd # label_commands j1 c3 @ map dim_command (c_Dims c3)
                          @ map (\<lambda>v. var_command v (v_Value v)) (c_Vars c3) @ [EMPTYLINE]) j1,
               c3\<lparr>c_created := True\<rparr>))"

text \<open>One iteration of the loop over the dimensions; the state is the commands written and
  the number of values set.\<close>

definition update_dim :: "metrics \<Rightarrow> Dim \<Rightarrow> command list \<times> nat \<Rightarrow> Dim option \<times> command list \<times> nat" where
  "update_dim collected d s =
     (if d_remove d then (None, s)
      else (case map_of collected (d_ID d) of
              None \<Rightarrow> (Some d, fst s @ [SETEMPTY (firstNotEmpty (d_Name d) (d_ID d))], snd s)
            | Some v \<Rightarrow> (Some d, fst s @ [SET (firstNotEmpty (d_Name d) (d_ID d)) v], Suc (snd s))))"

fun update_vars :: "metrics \<Rightarrow> Var list \<Rightarrow> command list" where
  "update_vars collected [] = []"
| "update_vars collected (v # vs) =
     (case map_of collected (v_ID v) of
        None \<Rightarrow> update_vars collected vs
      | Some x \<Rightarrow> var_command v x # update_vars collected vs)"

definition updateChart :: "'m Job \<Rightarrow> Chart \<Rightarrow> metrics \<Rightarrow> int \<Rightarrow> bool \<times> 'm Job \<times> Chart" where
  "updateChart j c collected sinceLastRun =
     (if c_ignore c then (False, j, c\<lparr>c_Dims := filter (\<lambda>d. \<not> d_remove d) (c_Dims c)\<rparr>)
      else let since = (if \<not> c_updated c then 0 else sinceLastRun);
               (ty, c1) = getChartType j c;
               (cid, c2) = getChartID c1;
               (dims, cmds, n) = compact_from (update_dim collected) (c_Dims c2) 0 0 ([], 0);
               up = (n > 0)
           in (up,
               emit (BEGIN ty cid since # cmds @ update_vars collected (c_Vars c2) @ [END]) j,
               c2\<lparr>c_Dims := dims, c_updated := up,
                  c_Retries := (if up then 0 else c_Retries c2 + 1)\<rparr>))"

section \<open>One collection\<close>

definition write_host :: "env \<Rightarrow> 'm Job \<Rightarrow> 'm Job" where
  "write_host e j =
     (if e_vnodesDisabled e then j
      else let j1 = (if \<not> j_vnodeCreated j \<and> j_vnodeGUID j \<noteq> []
                     then (emit (hostinfo_commands (j_vnodeGUID j) (j_vnodeHostname j)
                             (j_vnodeLabels j)) j)\<lparr>j_vnodeCreated := True\<rparr>
                     else j)
           in emit [HOST (j_vnodeGUID j1)] j1)"

definition process_chart ::
  "metrics \<Rightarrow> int \<Rightarrow> Chart \<Rightarrow> 'm Job \<times> nat \<Rightarrow> Chart option \<times> 'm Job \<times> nat" where
  "process_chart metrics sinceLastRun c s =
     (let (j, n) = s;
          (j1, c1) = (if c_created c then (j, c)
                      else createChart j
                        (if NetdataChartIDMaxLength \<le> length (j_fullName j @ ''.'' @ c_ID c)
                         then c\<lparr>c_ignore := True\<rparr> else c))
      in if c_remove c1 then (None, j1, n)
         else if length metrics = 0 \<or> c_Obsolete c1 then (Some c1, j1, n)
         else let (ok, j2, c2) = updateChart j1 c1 metrics sinceLastRun
              in (Some c2, j2, if ok then Suc n else n))"

definition create_run_chart :: "env \<Rightarrow> 'm Job \<Rightarrow> 'm Job" where
  "create_run_chart e j =
     (if \<not> e_ndInternalMonitoringDisabled e \<and> \<not> c_created (j_runChart j)
      then let (j', r) = createChart j
                 ((j_runChart j)\<lparr>c_ID := ''execution_time_of_'' @ j_fullName j\<rparr>)
           in j'\<lparr>j_runChart := r\<rparr>
      else j)"

definition update_run_chart :: "env \<Rightarrow> int \<Rightarrow> int \<Rightarrow> 'm Job \<Rightarrow> 'm Job" where
  "update_run_chart e elapsed sinceLastRun j =
     (if \<not> e_ndInternalMonitoringDisabled e
      then let (ok, j', r) = updateChart j (j_runChart j) [(''time'', elapsed)] sinceLastRun
           in j'\<lparr>j_runChart := r\<rparr>
      else j)"

text \<open>\<^const>\<open>None\<close> is the panic of dereferencing nil charts.\<close>

definition processMetrics :: "env \<Rightarrow> 'm Job \<Rightarrow> metrics \<Rightarrow> int \<Rightarrow> int \<Rightarrow> (bool \<times> 'm Job) option" where
  "processMetrics e j metrics elapsedNs sinceLastRun =
     (let j2 = create_run_chart e (write_host e j);
          elapsed = durationTo elapsedNs 1000000
      in case j_charts j2 of
           None \<Rightarrow> None
         | Some cs \<Rightarrow>
             let (kept, j3, updated) = compact_from (process_chart metrics sinceLastRun) cs 0 0 (j2, 0);
                 j4 = j3\<lparr>j_charts := Some kept\<rparr>
             in if updated = 0 then Some (False, j4)
                else Some (True, update_run_chart e elapsed sinceLastRun j4))"

definition collect :: "'m Module \<Rightarrow> 'm Job \<Rightarrow> metrics \<times> 'm Job" where
  "collect ops j =
     (let cs = (case j_charts j of None \<Rightarrow> [] | Some cs \<Rightarrow> cs);
          (r, cs', m') = m_Collect ops (j_module j) cs;
          j1 = j\<lparr>j_panicked := False, j_module := m', j_charts := map_option (\<lambda>_. cs') (j_charts j)\<rparr>
      in case r of None \<Rightarrow> ([], j1\<lparr>j_panicked := True\<rparr>) | Some ms \<Rightarrow> (ms, j1))"

definition runOnce :: "env \<Rightarrow> 'm Module \<Rightarrow> int \<Rightarrow> int \<Rightarrow> 'm Job \<Rightarrow> 'm Job option" where
  "runOnce e ops curTime elapsedNs j =
     (let sinceLastRun = calcSinceLastRun curTime (j_prevRun j);
          (metrics, j1) = collect ops (j\<lparr>j_prevRun := Some curTime\<rparr>)
      in if j_panicked j1 then Some j1
         else (case processMetrics e j1 metrics elapsedNs sinceLastRun of
                 None \<Rightarrow> None
               | Some (ok, j2) \<Rightarrow>
                   Some (j2\<lparr>j_retries := (if ok then 0 else j_retries j2 + 1),
                            j_out := j_out j2 @ j_buf j2, j_buf := []\<rparr>)))"

section \<open>Cleanup and the main loop\<close>

fun cleanup_charts :: "'m Job \<Rightarrow> Charts \<Rightarrow> 'm Job \<times> Charts" where
  "cleanup_charts j [] = (j, [])"
| "cleanup_charts j (c # cs) =
     (let (j1, c1) = (if c_created c then createChart j (MarkRemove c) else (j, c));
          (j2, cs') = cleanup_charts j1 cs
      in (j2, c1 # cs'))"

definition Cleanup :: "env \<Rightarrow> 'm Job \<Rightarrow> 'm Job" where
  "Cleanup e j0 =
     (let j = j0\<lparr>j_buf := []\<rparr> in
      if \<not> e_obsoleteCharts e then j
      else let j1 = write_host e j;
               j2 = (if c_created (j_runChart j1)
                     then let (j', r) = createChart j1 (MarkRemove (j_runChart j1))
                          in j'\<lparr>j_runChart := r\<rparr>
                     else j1);
               j3 = (case j_charts j2 of
                       None \<Rightarrow> j2
                     | Some cs \<Rightarrow> let (j', cs') = cleanup_charts j2 cs in j'\<lparr>j_charts := Some cs'\<rparr>)
           in if length (j_buf j3) > 0 then j3\<lparr>j_out := j_out j3 @ j_buf j3, j_buf := []\<rparr> else j3)"

text \<open>What the select of \<open>Start\<close> receives: a tick of the clock (with the time of the run and how
  long it took) or the stop request.\<close>

datatype job_event = Ticked int int int | StopRequested

text \<open>The loop of \<open>Start\<close>.  The result says whether it has ended; \<^const>\<open>None\<close> is a panic, of
  the remainder by zero or of the run itself.\<close>

fun Start :: "env \<Rightarrow> 'm Module \<Rightarrow> 'm Job \<Rightarrow> job_event list \<Rightarrow> (bool \<times> 'm Job) option" where
  "Start e ops j [] = Some (False, j)"
| "Start e ops j (StopRequested # evs) =
     Some (True, Cleanup e (j\<lparr>j_module := m_Cleanup ops (j_module j)\<rparr>))"
| "Start e ops j (Ticked t now took # evs) =
     (if j_updateEvery j + penalty j = 0 then None
      else if t smod (j_updateEvery j + penalty j) = 0
      then (case runOnce e ops now took j of None \<Rightarrow> None | Some j' \<Rightarrow> Start e ops j' evs)
      else Start e ops j evs)"

section \<open>Detection\<close>

definition Mute :: "env \<Rightarrow> 'm Job \<Rightarrow> 'm Job" where
  "Mute e j = (if e_debugTerminal e then j else j\<lparr>j_muted := True\<rparr>)"

definition Unmute :: "env \<Rightarrow> 'm Job \<Rightarrow> 'm Job" where
  "Unmute e j = (if e_debugTerminal e then j else j\<lparr>j_muted := False\<rparr>)"

definition disableAutoDetection :: "'m Job \<Rightarrow> 'm Job" where
  "disableAutoDetection j = j\<lparr>j_AutoDetectEvery := 0\<rparr>"

text \<open>The three phases; \<^const>\<open>None\<close> is a panic of the collector.\<close>

definition job_init :: "'m Module \<Rightarrow> 'm Job \<Rightarrow> bool option \<times> 'm Job" where
  "job_init ops j =
     (if j_initialized j then (Some True, j)
      else (case m_Init ops (j_module j) of
              (None, m) \<Rightarrow> (None, j\<lparr>j_module := m\<rparr>)
            | (Some b, m) \<Rightarrow> (Some b, j\<lparr>j_module := m, j_initialized := b\<rparr>)))"

definition job_check :: "'m Module \<Rightarrow> 'm Job \<Rightarrow> bool option \<times> 'm Job" where
  "job_check ops j =
     (case m_Check ops (j_module j) of
        (None, m) \<Rightarrow> (None, j\<lparr>j_module := m\<rparr>)
      | (Some ok, m) \<Rightarrow>
          (let j1 = j\<lparr>j_module := m\<rparr>
           in (Some ok, if \<not> ok \<and> j_AutoDetectTries j1 \<noteq> infTries
                        then j1\<lparr>j_AutoDetectTries := j_AutoDetectTries j1 - 1\<rparr> else j1)))"

definition postCheck :: "'m Module \<Rightarrow> 'm Job \<Rightarrow> bool option \<times> 'm Job" where
  "postCheck ops j =
     (case m_Charts ops (j_module j) of
        (None, m) \<Rightarrow> (None, j\<lparr>j_module := m\<rparr>)
      | (Some None, m) \<Rightarrow> (Some False, j\<lparr>j_module := m, j_charts := None\<rparr>)
      | (Some (Some cs), m) \<Rightarrow>
          (Some (checkCharts cs = None), j\<lparr>j_module := m, j_charts := Some cs\<rparr>))"

text \<open>The deferred function: on a panic it recovers, and whenever detection failed it cleans
  the collector up.\<close>

definition detection_end :: "'m Module \<Rightarrow> bool option \<times> 'm Job \<Rightarrow> bool \<times> 'm Job" where
  "detection_end ops r =
     (let (ok, j) = (case r of
            (None, j) \<Rightarrow> (False, disableAutoDetection (j\<lparr>j_panicked := True\<rparr>))
          | (Some b, j) \<Rightarrow> (b, j))
      in (ok, if ok then j else j\<lparr>j_module := m_Cleanup ops (j_module j)\<rparr>))"

definition detection_body :: "env \<Rightarrow> 'm Module \<Rightarrow> 'm Job \<Rightarrow> bool option \<times> 'm Job" where
  "detection_body e ops j0 =
     (let j = (if j_isStock j0 then Mute e j0 else j0) in
      case job_init ops j of
        (None, j1) \<Rightarrow> (None, j1)
      | (Some False, j1) \<Rightarrow> (Some False, disableAutoDetection (Unmute e j1))
      | (Some True, j1) \<Rightarrow>
          (case job_check ops j1 of
             (None, j2) \<Rightarrow> (None, j2)
           | (Some False, j2) \<Rightarrow> (Some False, Unmute e j2)
           | (Some True, j2) \<Rightarrow>
               (case postCheck ops (Unmute e j2) of
                  (None, j3) \<Rightarrow> (None, j3)
                | (Some False, j3) \<Rightarrow> (Some False, disableAutoDetection j3)
                | (Some True, j3) \<Rightarrow> (Some True, j3))))"

definition AutoDetection :: "env \<Rightarrow> 'm Module \<Rightarrow> 'm Job \<Rightarrow> bool \<times> 'm Job" where
  "AutoDetection e ops j = detection_end ops (detection_body e ops j)"

end
