(* ===== verification/Job_Facts.thy ===== *)
theory Job_Facts
  imports Job
begin

text \<open>
  What the operations of the job do, one call at a time: the penalty, chart updates, one
  collection, cleanup, detection, and the main loop.  The order of the commands on the wire
  is the subject of \<open>Job_Protocol\<close>.
\<close>

text \<open>A job over a stateless collector, the input of the witnesses.\<close>

definition sample_job :: "string \<Rightarrow> int \<Rightarrow> unit Job" where
  "sample_job fullName updateEvery = NewJob \<lparr>jc_PluginName = [], jc_Name = [], jc_ModuleName = [],
      jc_FullName = fullName, jc_Module = (), jc_Labels = [], jc_UpdateEvery = updateEvery,
      jc_AutoDetectEvery = 0, jc_Priority = 0, jc_IsStock = False, jc_VnodeGUID = [],
      jc_VnodeHostname = [], jc_VnodeLabels = []\<rparr>"

definition sample_env :: env where
  "sample_env = \<lparr>e_obsoleteCharts = True, e_ndInternalMonitoringDisabled = True,
       e_vnodesDisabled = True, e_debugTerminal = False\<rparr>"

section \<open>Frames\<close>

lemma emit_simps [simp]:
  "j_buf (emit cs j) = j_buf j @ cs" "j_out (emit cs j) = j_out j"
  "j_fullName (emit cs j) = j_fullName j" "j_moduleName (emit cs j) = j_moduleName j"
  "j_charts (emit cs j) = j_charts j" "j_runChart (emit cs j) = j_runChart j"
  "j_retries (emit cs j) = j_retries j" "j_updateEvery (emit cs j) = j_updateEvery j"
  "j_vnodeGUID (emit cs j) = j_vnodeGUID j"
  by (simp_all add: emit_def)

lemma getChartType_frame [simp]:
  "c_ID (snd (getChartType j c)) = c_ID c" "c_IDSep (snd (getChartType j c)) = c_IDSep c"
  "c_id (snd (getChartType j c)) = c_id c" "c_OverModule (snd (getChartType j c)) = c_OverModule c"
  "c_remove (snd (getChartType j c)) = c_remove c" "c_ignore (snd (getChartType j c)) = c_ignore c"
  "c_Dims (snd (getChartType j c)) = c_Dims c" "c_Vars (snd (getChartType j c)) = c_Vars c"
  "c_Opts (snd (getChartType j c)) = c_Opts c" "c_created (snd (getChartType j c)) = c_created c"
  "c_Retries (snd (getChartType j c)) = c_Retries c"
  by (simp_all add: getChartType_def Let_def)

lemma getChartID_frame [simp]:
  "c_ID (snd (getChartID c)) = c_ID c" "c_IDSep (snd (getChartID c)) = c_IDSep c"
  "c_typ (snd (getChartID c)) = c_typ c" "c_OverModule (snd (getChartID c)) = c_OverModule c"
  "c_remove (snd (getChartID c)) = c_remove c" "c_ignore (snd (getChartID c)) = c_ignore c"
  "c_Dims (snd (getChartID c)) = c_Dims c" "c_Vars (snd (getChartID c)) = c_Vars c"
  "c_Opts (snd (getChartID c)) = c_Opts c" "c_created (snd (getChartID c)) = c_created c"
  "c_Retries (snd (getChartID c)) = c_Retries c"
  by (simp_all add: getChartID_def Let_def)

lemma createChart_chart [simp]:
  "c_ID (snd (createChart j c)) = c_ID c" "c_remove (snd (createChart j c)) = c_remove c"
  "c_ignore (snd (createChart j c)) = c_ignore c" "c_Dims (snd (createChart j c)) = c_Dims c"
  "c_Opts (snd (createChart j c)) = c_Opts c" "c_created (snd (createChart j c))"
  "c_IDSep (snd (createChart j c)) = c_IDSep c"
  "c_OverModule (snd (createChart j c)) = c_OverModule c"
  by (simp_all add: createChart_def Let_def case_prod_beta)

lemma createChart_job [simp]:
  "j_fullName (fst (createChart j c)) = j_fullName j"
  "j_moduleName (fst (createChart j c)) = j_moduleName j"
  "j_charts (fst (createChart j c)) = j_charts j"
  "j_runChart (fst (createChart j c)) = j_runChart j"
  "j_retries (fst (createChart j c)) = j_retries j"
  "j_updateEvery (fst (createChart j c)) = j_updateEvery j"
  "j_out (fst (createChart j c)) = j_out j"
  by (simp_all add: createChart_def Let_def case_prod_beta)

lemma updateChart_chart [simp]:
  "c_ID (snd (snd (updateChart j c m s))) = c_ID c"
  "c_remove (snd (snd (updateChart j c m s))) = c_remove c"
  "c_ignore (snd (snd (updateChart j c m s))) = c_ignore c"
  "c_created (snd (snd (updateChart j c m s))) = c_created c"
  by (simp_all add: updateChart_def Let_def case_prod_beta)

lemma updateChart_job [simp]:
  "j_fullName (fst (snd (updateChart j c m s))) = j_fullName j"
  "j_moduleName (fst (snd (updateChart j c m s))) = j_moduleName j"
  "j_charts (fst (snd (updateChart j c m s))) = j_charts j"
  "j_runChart (fst (snd (updateChart j c m s))) = j_runChart j"
  "j_retries (fst (snd (updateChart j c m s))) = j_retries j"
  "j_updateEvery (fst (snd (updateChart j c m s))) = j_updateEvery j"
  "j_out (fst (snd (updateChart j c m s))) = j_out j"
  by (simp_all add: updateChart_def Let_def case_prod_beta)

lemma write_host_job [simp]:
  "j_fullName (write_host e j) = j_fullName j" "j_moduleName (write_host e j) = j_moduleName j"
  "j_charts (write_host e j) = j_charts j" "j_runChart (write_host e j) = j_runChart j"
  "j_retries (write_host e j) = j_retries j" "j_updateEvery (write_host e j) = j_updateEvery j"
  "j_out (write_host e j) = j_out j"
  by (simp_all add: write_host_def Let_def)

section \<open>Updating a chart\<close>

definition live_dims :: "Chart \<Rightarrow> Dim list" where
  "live_dims c = filter (\<lambda>d. \<not> d_remove d) (c_Dims c)"

definition dim_value :: "metrics \<Rightarrow> Dim \<Rightarrow> command" where
  "dim_value collected d =
     (case map_of collected (d_ID d) of
        None \<Rightarrow> SETEMPTY (firstNotEmpty (d_Name d) (d_ID d))
      | Some v \<Rightarrow> SET (firstNotEmpty (d_Name d) (d_ID d)) v)"

definition has_value :: "metrics \<Rightarrow> Dim \<Rightarrow> bool" where
  "has_value collected d \<longleftrightarrow> map_of collected (d_ID d) \<noteq> None"

lemma keep_map_update_dim:
  "keep_map (update_dim m) ds (cmds, n) =
     (filter (\<lambda>d. \<not> d_remove d) ds,
      cmds @ map (dim_value m) (filter (\<lambda>d. \<not> d_remove d) ds),
      n + length (filter (has_value m) (filter (\<lambda>d. \<not> d_remove d) ds)))"
  by (induction ds arbitrary: cmds n)
    (auto simp: update_dim_def dim_value_def has_value_def split: option.splits)

lemma compact_update_dim:
  "compact_from (update_dim m) (c_Dims c) 0 0 ([], 0) =
     (live_dims c, map (dim_value m) (live_dims c), length (filter (has_value m) (live_dims c)))"
  by (simp add: compact_keep_map keep_map_update_dim live_dims_def)

definition chart_type :: "'m Job \<Rightarrow> Chart \<Rightarrow> string" where
  "chart_type j c = fst (getChartType j c)"

definition chart_id :: "Chart \<Rightarrow> string" where
  "chart_id c = fst (getChartID c)"

lemma chart_id_eq: "chart_id c =
   (if c_id c \<noteq> [] then c_id c else if \<not> c_IDSep c then c_ID c
    else (case IndexByte (c_ID c) CHR ''.'' of Some i \<Rightarrow> drop (i + 1) (c_ID c) | None \<Rightarrow> c_ID c))"
  by (simp add: chart_id_def getChartID_def Let_def)

lemma getChartID_type [simp]: "fst (getChartID (snd (getChartType j c))) = chart_id c"
  by (simp add: chart_id_eq [of c] chart_id_eq [unfolded chart_id_def] split: option.splits)

lemma live_dims_cong: "c_Dims c = c_Dims d \<Longrightarrow> live_dims c = live_dims d"
  by (simp add: live_dims_def)

lemma updateChart_live:
  assumes "\<not> c_ignore c"
  shows "fst (updateChart j c m since) \<longleftrightarrow> (\<exists>d \<in> set (live_dims c). has_value m d)"
    and "c_Dims (snd (snd (updateChart j c m since))) = live_dims c"
    and "j_buf (fst (snd (updateChart j c m since))) = j_buf j
       @ BEGIN (chart_type j c) (chart_id c) (if c_updated c then since else 0)
         # map (dim_value m) (live_dims c) @ update_vars m (c_Vars c) @ [END]"
    and "c_Retries (snd (snd (updateChart j c m since)))
       = (if \<exists>d \<in> set (live_dims c). has_value m d then 0 else c_Retries c + 1)"
proof -
  let ?c = "snd (getChartID (snd (getChartType j c)))"
  have l: "live_dims ?c = live_dims c" by (rule live_dims_cong) simp
  have n: "0 < length (filter (has_value m) (live_dims c)) \<longleftrightarrow>
      (\<exists>d \<in> set (live_dims c). has_value m d)"
    by (metis filter_empty_conv length_greater_0_conv)
  show "fst (updateChart j c m since) \<longleftrightarrow> (\<exists>d \<in> set (live_dims c). has_value m d)"
    "c_Dims (snd (snd (updateChart j c m since))) = live_dims c"
    "c_Retries (snd (snd (updateChart j c m since)))
       = (if \<exists>d \<in> set (live_dims c). has_value m d then 0 else c_Retries c + 1)"
    "j_buf (fst (snd (updateChart j c m since))) = j_buf j
       @ BEGIN (chart_type j c) (chart_id c) (if c_updated c then since else 0)
         # map (dim_value m) (live_dims c) @ update_vars m (c_Vars c) @ [END]"
    using assms n
    by (simp_all add: updateChart_def case_prod_beta Let_def compact_update_dim l chart_type_def)
qed

section \<open>One pass over the charts\<close>

text \<open>The chart is dropped for good: too long an identifier, or ignored before.\<close>

definition ignored :: "'m Job \<Rightarrow> Chart \<Rightarrow> bool" where
  "ignored j c \<longleftrightarrow> c_ignore c \<or>
     (\<not> c_created c \<and> NetdataChartIDMaxLength \<le> length (j_fullName j @ ''.'' @ c_ID c))"

text \<open>The chart counts as updated by a collection: it is live and some live dimension of it got
  a value.\<close>

definition reports :: "'m Job \<Rightarrow> metrics \<Rightarrow> Chart \<Rightarrow> bool" where
  "reports j m c \<longleftrightarrow> \<not> c_remove c \<and> \<not> c_Obsolete c \<and> \<not> ignored j c
     \<and> (\<exists>d \<in> set (live_dims c). has_value m d)"

lemma map_of_value_ne: "has_value m d \<Longrightarrow> m \<noteq> []"
  by (auto simp: has_value_def)

lemma updateChart_ignored: "c_ignore c \<Longrightarrow> \<not> fst (updateChart j c m s)"
  by (simp add: updateChart_def)

lemma updateChart_reports:
  "fst (updateChart j c m s) \<longleftrightarrow> \<not> c_ignore c \<and> (\<exists>d \<in> set (live_dims c). has_value m d)"
  using updateChart_live(1) [of c] updateChart_ignored [of c] by blast

text \<open>What one iteration does to the chart and the count.\<close>

lemma process_chart_spec:
  assumes "process_chart m since c (j, n) = (r, j', n')"
  shows "j_fullName j' = j_fullName j" "j_moduleName j' = j_moduleName j" "j_charts j' = j_charts j"
    "j_runChart j' = j_runChart j" "j_retries j' = j_retries j" "j_updateEvery j' = j_updateEvery j"
    "j_out j' = j_out j" "n' = (if reports j m c then Suc n else n)"
    "case r of None \<Rightarrow> c_remove c
       | Some c' \<Rightarrow> \<not> c_remove c \<and> c_created c' \<and> \<not> c_remove c' \<and> c_ID c' = c_ID c"
proof -
  define c0 where "c0 = (if NetdataChartIDMaxLength \<le> length (j_fullName j @ ''.'' @ c_ID c)
                         then c\<lparr>c_ignore := True\<rparr> else c)"
  define j1 where "j1 = (if c_created c then j else fst (createChart j c0))"
  define c1 where "c1 = (if c_created c then c else snd (createChart j c0))"
  have c0: "c_ID c0 = c_ID c" "c_remove c0 = c_remove c" "c_Dims c0 = c_Dims c" "c_Opts c0 = c_Opts c"
    "\<not> c_created c \<Longrightarrow> c_ignore c0 = ignored j c"
    by (simp_all add: c0_def ignored_def)
  have c1: "c_ID c1 = c_ID c" "c_remove c1 = c_remove c" "c_created c1" "c_Opts c1 = c_Opts c"
    "c_ignore c1 = ignored j c" "live_dims c1 = live_dims c"
    using c0 by (auto simp: c1_def live_dims_def ignored_def)
  have j1: "j_fullName j1 = j_fullName j" "j_moduleName j1 = j_moduleName j" "j_charts j1 = j_charts j"
    "j_runChart j1 = j_runChart j" "j_retries j1 = j_retries j" "j_updateEvery j1 = j_updateEvery j"
    "j_out j1 = j_out j"
    by (simp_all add: j1_def)
  have step: "process_chart m since c (j, n) =
      (if c_remove c1 then (None, j1, n)
       else if length m = 0 \<or> c_Obsolete c1 then (Some c1, j1, n)
       else (Some (snd (snd (updateChart j1 c1 m since))), fst (snd (updateChart j1 c1 m since)),
             if fst (updateChart j1 c1 m since) then Suc n else n))"
    by (simp add: process_chart_def Let_def case_prod_beta c0_def j1_def c1_def)
  show "j_fullName j' = j_fullName j" "j_moduleName j' = j_moduleName j" "j_charts j' = j_charts j"
    "j_runChart j' = j_runChart j" "j_retries j' = j_retries j" "j_updateEvery j' = j_updateEvery j"
    "j_out j' = j_out j"
    using assms j1 by (auto simp: step split: if_splits)
  show "n' = (if reports j m c then Suc n else n)"
    using assms c1 map_of_value_ne [of m]
    by (auto simp: step reports_def updateChart_reports split: if_splits)
  show "case r of None \<Rightarrow> c_remove c
       | Some c' \<Rightarrow> \<not> c_remove c \<and> c_created c' \<and> \<not> c_remove c' \<and> c_ID c' = c_ID c"
    using assms c1 by (auto simp: step split: if_splits)
qed

lemma reports_cong: "j_fullName j' = j_fullName j \<Longrightarrow> reports j' m c = reports j m c"
  by (simp add: reports_def ignored_def)

lemma process_charts_spec:
  assumes "keep_map (process_chart m since) cs (j, n) = (kept, j', n')"
  shows "j_fullName j' = j_fullName j \<and> j_moduleName j' = j_moduleName j
     \<and> j_runChart j' = j_runChart j \<and> j_retries j' = j_retries j
     \<and> j_updateEvery j' = j_updateEvery j \<and> j_out j' = j_out j
     \<and> n' = n + length (filter (reports j m) cs)
     \<and> map c_ID kept = map c_ID (filter (\<lambda>c. \<not> c_remove c) cs)
     \<and> (\<forall>c \<in> set kept. c_created c \<and> \<not> c_remove c)"
  using assms
proof (induction cs arbitrary: j n kept j' n')
  case Nil
  then show ?case by simp
next
  case (Cons c cs)
  obtain r j1 n1 where p: "process_chart m since c (j, n) = (r, j1, n1)"
    by (cases "process_chart m since c (j, n)") auto
  obtain kept1 j2 n2 where k: "keep_map (process_chart m since) cs (j1, n1) = (kept1, j2, n2)"
    by (cases "keep_map (process_chart m since) cs (j1, n1)") auto
  note step = process_chart_spec [OF p] and rest = Cons.IH [OF k]
  have rp: "reports j1 m = reports j m" using step(1) reports_cong by blast
  from Cons.prems p k have res: "j' = j2" "n' = n2"
    "kept = (case r of None \<Rightarrow> kept1 | Some y \<Rightarrow> y # kept1)"
    by (auto split: option.splits)
  show ?case using step rest rp unfolding res by (cases r) auto
qed

section \<open>The penalty\<close>

lemma sdiv_nonneg: "0 \<le> (a::int) \<Longrightarrow> 0 < b \<Longrightarrow> a sdiv b = a div b"
  by (simp add: signed_divide_int_def sgn_if)

lemma penalty_eq:
  assumes "0 \<le> j_retries j" "0 \<le> j_updateEvery j"
  shows "penalty j = min 600 (j_retries j div 5 * 5 * j_updateEvery j div 2)"
proof -
  have "0 \<le> j_retries j div 5 * 5 * j_updateEvery j" using assms by simp
  then show ?thesis using assms
    by (simp add: penalty_def penaltyStep_def maxPenalty_def sdiv_nonneg Let_def)
qed

lemma penalty_range:
  "0 \<le> j_retries j \<Longrightarrow> 0 \<le> j_updateEvery j \<Longrightarrow> 0 \<le> penalty j \<and> penalty j \<le> 600"
  by (simp add: penalty_eq)

lemmas penalty_nonneg = penalty_range [THEN conjunct1]

text \<open>
  With a positive interval and a non-negative retry count the penalty is between 0 and 600
  seconds, it is 0 for the first four failures in a row, and it never shrinks while failures
  accumulate.
\<close>

theorem penalty_bounds:
  assumes "0 \<le> j_retries j" and "0 < j_updateEvery j"
  shows "0 \<le> penalty j \<and> penalty j \<le> 600 \<and> (j_retries j < 5 \<longrightarrow> penalty j = 0)
     \<and> penalty j \<le> penalty (j\<lparr>j_retries := j_retries j + 1\<rparr>)"
proof -
  let ?u = "j_updateEvery j" and ?r = "j_retries j"
  have "?r div 5 * 5 * ?u \<le> (?r + 1) div 5 * 5 * ?u"
    using assms by (intro mult_right_mono) (simp_all add: zdiv_mono1)
  then have "?r div 5 * 5 * ?u div 2 \<le> (?r + 1) div 5 * 5 * ?u div 2" by (rule zdiv_mono1) simp
  moreover have "?r < 5 \<Longrightarrow> ?r div 5 = 0" using assms by simp
  moreover have "0 \<le> ?r div 5 * 5 * ?u div 2" using assms by simp
  ultimately show ?thesis using assms by (simp add: penalty_eq)
qed

theorem penalty_bounds_witness: "penalty (sample_job ''x'' 10) = 0"
  using penalty_bounds [of "sample_job ''x'' 10"] by (simp add: sample_job_def NewJob_def)

text \<open>
  C29.  Updating a chart that is not ignored writes one block: \<open>BEGIN\<close> with the chart's type and
  ID (and the elapsed time only if the previous round updated it), one \<open>SET\<close> per dimension not
  marked for removal, empty when nothing was collected for it, the variables, \<open>END\<close>.  The
  in-place compaction keeps exactly those dimensions in order; the call reports success, and
  resets the chart's retry counter, exactly when one of them got a value.
\<close>

theorem updateChart_spec:
  assumes "\<not> c_ignore c" and "updateChart j c m since = (ok, j', c')"
  shows "j_buf j' = j_buf j @ BEGIN (chart_type j c) (chart_id c) (if c_updated c then since else 0)
       # map (dim_value m) (live_dims c) @ update_vars m (c_Vars c) @ [END]
     \<and> c_Dims c' = live_dims c
     \<and> (ok \<longleftrightarrow> (\<exists>d \<in> set (live_dims c). has_value m d))
     \<and> c_Retries c' = (if ok then 0 else c_Retries c + 1)"
  using updateChart_live [OF assms(1), of j m since] assms(2) by simp

theorem updateChart_spec_witness:
  "\<exists>j' c'. updateChart (sample_job ''x'' 1)
      (zero_chart\<lparr>c_ID := ''a'', c_Dims := [zero_dim\<lparr>d_ID := ''p'', d_remove := True\<rparr>, zero_dim\<lparr>d_ID := ''q''\<rparr>]\<rparr>)
      [(''q'', 7)] 5 = (True, j', c')
    \<and> j_buf j' = [BEGIN ''x'' ''a'' 0, SET ''q'' 7, END] \<and> map d_ID (c_Dims c') = [''q'']"
proof -
  let ?j = "sample_job ''x'' 1"
  let ?c = "zero_chart\<lparr>c_ID := ''a'', c_Dims := [zero_dim\<lparr>d_ID := ''p'', d_remove := True\<rparr>, zero_dim\<lparr>d_ID := ''q''\<rparr>]\<rparr>"
  have "\<not> c_ignore ?c" by (simp add: zero_chart_def)
  moreover obtain ok j' c' where "updateChart ?j ?c [(''q'', 7)] 5 = (ok, j', c')"
    using prod_cases3 by blast
  ultimately show ?thesis using updateChart_spec [of ?c ?j "[(''q'', 7)]" 5 ok j' c']
    by (simp add: sample_job_def NewJob_def zero_chart_def zero_dim_def live_dims_def has_value_def
        dim_value_def firstNotEmpty_def chart_type_def chart_id_eq getChartType_def Let_def)
qed

section \<open>One collection\<close>

lemma create_run_chart_job [simp]:
  "j_fullName (create_run_chart e j) = j_fullName j"
  "j_moduleName (create_run_chart e j) = j_moduleName j"
  "j_charts (create_run_chart e j) = j_charts j"
  "j_retries (create_run_chart e j) = j_retries j"
  "j_updateEvery (create_run_chart e j) = j_updateEvery j"
  "j_out (create_run_chart e j) = j_out j"
  by (simp_all add: create_run_chart_def case_prod_beta)

lemma update_run_chart_job [simp]:
  "j_fullName (update_run_chart e el s j) = j_fullName j"
  "j_moduleName (update_run_chart e el s j) = j_moduleName j"
  "j_charts (update_run_chart e el s j) = j_charts j"
  "j_retries (update_run_chart e el s j) = j_retries j"
  "j_updateEvery (update_run_chart e el s j) = j_updateEvery j"
  "j_out (update_run_chart e el s j) = j_out j"
  by (simp_all add: update_run_chart_def case_prod_beta)

lemma processMetrics_eq:
  assumes "j_charts j = Some cs"
    and "keep_map (process_chart m since) cs (create_run_chart e (write_host e j), 0) = (kept, j3, n)"
  shows "processMetrics e j m el since =
     (if n = 0 then Some (False, j3\<lparr>j_charts := Some kept\<rparr>)
      else Some (True, update_run_chart e (durationTo el 1000000) since (j3\<lparr>j_charts := Some kept\<rparr>)))"
  using assms by (simp add: processMetrics_def compact_keep_map)

lemma processMetrics_spec:
  assumes "j_charts j = Some cs"
  shows "\<exists>ok j' cs'. processMetrics e j m el since = Some (ok, j')
     \<and> (ok \<longleftrightarrow> (\<exists>c \<in> set cs. reports j m c)) \<and> j_charts j' = Some cs'
     \<and> map c_ID cs' = map c_ID (filter (\<lambda>c. \<not> c_remove c) cs)
     \<and> (\<forall>c \<in> set cs'. c_created c \<and> \<not> c_remove c)
     \<and> j_retries j' = j_retries j \<and> j_updateEvery j' = j_updateEvery j"
proof -
  let ?j2 = "create_run_chart e (write_host e j)"
  obtain kept j3 n where k: "keep_map (process_chart m since) cs (?j2, 0) = (kept, j3, n)"
    by (cases "keep_map (process_chart m since) cs (?j2, 0)") auto
  note spec = process_charts_spec [OF k]
  have "reports ?j2 m = reports j m" using reports_cong [of ?j2 j m] by auto
  then have n: "n = 0 \<longleftrightarrow> \<not> (\<exists>c \<in> set cs. reports j m c)"
    using spec by (auto simp: filter_empty_conv)
  show ?thesis using spec n by (auto simp: processMetrics_eq [OF assms k])
qed

text \<open>
  C30.  A collection never panics once detection has set the charts.  It succeeds exactly when some
  chart reported: not marked for removal, not obsolete, not ignored (also not for the length of its
  identifier) and with a value for one of its live dimensions.  Afterwards the charts are those not
  marked for removal, in the same order, all of them created.
\<close>

theorem processMetrics_result:
  assumes "j_charts j = Some cs"
  shows "\<exists>j' cs'. processMetrics e j m el since = Some (\<exists>c \<in> set cs. reports j m c, j')
     \<and> j_charts j' = Some cs' \<and> map c_ID cs' = map c_ID (filter (\<lambda>c. \<not> c_remove c) cs)
     \<and> (\<forall>c \<in> set cs'. c_created c \<and> \<not> c_remove c)"
  using processMetrics_spec [OF assms, of e m el since] by auto

theorem processMetrics_result_witness:
  "\<exists>j' cs'. processMetrics sample_env
     ((sample_job ''x'' 1)\<lparr>j_charts := Some [zero_chart\<lparr>c_ID := ''a'', c_remove := True\<rparr>,
        zero_chart\<lparr>c_ID := ''b''\<rparr>]\<rparr>)
     [(''q'', 7)] 0 0 = Some (False, j') \<and> j_charts j' = Some cs' \<and> map c_ID cs' = [''b'']"
proof -
  define cs where "cs = [zero_chart\<lparr>c_ID := ''a'', c_remove := True\<rparr>, zero_chart\<lparr>c_ID := ''b''\<rparr>]"
  define j where "j = (sample_job ''x'' 1)\<lparr>j_charts := Some cs\<rparr>"
  have f: "map c_ID (filter (\<lambda>c. \<not> c_remove c) cs) = [''b'']"
    and r: "(\<exists>c \<in> set cs. reports j [(''q'', 7)] c) = False"
    by (simp_all add: cs_def reports_def live_dims_def zero_chart_def)
  have "j_charts j = Some cs" by (simp add: j_def)
  from processMetrics_result [OF this, of sample_env "[(''q'', 7)]" 0 0]
  have "\<exists>j' cs'. processMetrics sample_env j [(''q'', 7)] 0 0 = Some (False, j')
     \<and> j_charts j' = Some cs' \<and> map c_ID cs' = [''b'']"
    unfolding f r by (elim exE conjE) (intro exI conjI)
  then show ?thesis unfolding j_def cs_def .
qed

section \<open>The main loop\<close>

lemma collect_job [simp]:
  "j_retries (snd (collect ops j)) = j_retries j"
  "j_updateEvery (snd (collect ops j)) = j_updateEvery j"
  "j_fullName (snd (collect ops j)) = j_fullName j"
  "j_moduleName (snd (collect ops j)) = j_moduleName j"
  "j_out (snd (collect ops j)) = j_out j" "j_buf (snd (collect ops j)) = j_buf j"
  "j_runChart (snd (collect ops j)) = j_runChart j"
  "j_charts (snd (collect ops j)) = None \<longleftrightarrow> j_charts j = None"
  by (simp_all add: collect_def Let_def case_prod_beta split: option.splits)

text \<open>What the loop keeps: charts set, a positive interval, retries counted up from zero.\<close>

definition job_ready :: "'m Job \<Rightarrow> bool" where
  "job_ready j \<longleftrightarrow> j_charts j \<noteq> None \<and> 0 < j_updateEvery j \<and> 0 \<le> j_retries j"

lemma runOnce_ready:
  assumes "job_ready j"
  shows "\<exists>j'. runOnce e ops now took j = Some j' \<and> job_ready j' \<and> j_updateEvery j' = j_updateEvery j"
proof -
  obtain ms j1 where c: "collect ops (j\<lparr>j_prevRun := Some now\<rparr>) = (ms, j1)" by fastforce
  have j1: "j_retries j1 = j_retries j" "j_updateEvery j1 = j_updateEvery j" "j_charts j1 \<noteq> None"
    using collect_job [of ops "j\<lparr>j_prevRun := Some now\<rparr>"] assms
    unfolding c by (auto simp: job_ready_def)
  then obtain cs where cs: "j_charts j1 = Some cs" by blast
  obtain ok j2 cs' where p: "processMetrics e j1 ms took (calcSinceLastRun now (j_prevRun j)) = Some (ok, j2)"
    "j_charts j2 = Some cs'" "j_retries j2 = j_retries j1" "j_updateEvery j2 = j_updateEvery j1"
    using processMetrics_spec [OF cs, of e ms took "calcSinceLastRun now (j_prevRun j)"] by blast
  then show ?thesis using c j1 assms by (simp add: runOnce_def job_ready_def)
qed

lemma Start_ready: "job_ready j \<Longrightarrow> \<exists>r. Start e ops j evs = Some r"
proof (induction e ops j evs rule: Start.induct)
  case (3 e ops j t now took evs)
  have "j_updateEvery j + penalty j \<noteq> 0"
    using penalty_nonneg [of j] "3.prems" by (auto simp: job_ready_def)
  then show ?case using "3.IH" "3.prems" runOnce_ready [of j e ops now took] by auto
qed auto


definition sample_ops :: "unit Module" where
  "sample_ops = \<lparr>m_Init = (\<lambda>m. (Some True, m)), m_Check = (\<lambda>m. (Some True, m)),
     m_Charts = (\<lambda>m. (Some (Some []), m)), m_Collect = (\<lambda>m cs. (None, cs, m)), m_Cleanup = (\<lambda>m. m)\<rparr>"


lemma smod_pos: "0 \<le> (a::int) \<Longrightarrow> 0 < b \<Longrightarrow> a smod b = a mod b"
  using minus_sdiv_mult_eq_smod [of a b] minus_div_mult_eq_mod [of a b] by (simp add: sdiv_nonneg)



section \<open>Detection\<close>

lemma Mute_job [simp]:
  "j_AutoDetectEvery (Mute e j) = j_AutoDetectEvery j" "j_AutoDetectTries (Mute e j) = j_AutoDetectTries j"
  "j_AutoDetectEvery (Unmute e j) = j_AutoDetectEvery j"
  "j_AutoDetectTries (Unmute e j) = j_AutoDetectTries j"
  "j_initialized (Mute e j) = j_initialized j" "j_initialized (Unmute e j) = j_initialized j"
  "j_panicked (Mute e j) = j_panicked j" "j_panicked (Unmute e j) = j_panicked j"
  "j_module (Mute e j) = j_module j" "j_module (Unmute e j) = j_module j"
  "j_fullName (Mute e j) = j_fullName j" "j_fullName (Unmute e j) = j_fullName j"
  by (simp_all add: Mute_def Unmute_def)

lemmas detection_defs = detection_body_def detection_end_def job_init_def job_check_def
  postCheck_def disableAutoDetection_def Let_def

lemma detection_body_Some:
  assumes "detection_body e ops j = (Some ok, j')"
  shows "(ok \<longrightarrow> j_initialized j' \<and> (\<exists>cs. j_charts j' = Some cs \<and> (\<forall>c \<in> set cs. chart_valid c)))
     \<and> (\<not> ok \<longrightarrow> j_AutoDetectEvery j' = 0
         \<or> j_AutoDetectEvery j' = j_AutoDetectEvery j
           \<and> j_AutoDetectTries j' = (if j_AutoDetectTries j = infTries then infTries
                                      else j_AutoDetectTries j - 1))"
  using assms
  by (auto simp: detection_defs checkCharts_iff split: prod.splits option.splits bool.splits if_splits)

text \<open>
  What a detection attempt leaves behind.  On success the collector is initialised and its
  charts are set and valid.  On failure the collector has been cleaned up; and another attempt is
  due only after a failed \<open>Check\<close>, with the retry interval unchanged and, unless it is unlimited,
  one try fewer: a panic, a failed \<open>Init\<close> and bad charts are final.
\<close>

theorem AutoDetection_outcome:
  assumes "AutoDetection e ops j = (ok, j')"
  shows "(ok \<longrightarrow> j_initialized j' \<and> (\<exists>cs. j_charts j' = Some cs \<and> (\<forall>c \<in> set cs. chart_valid c)))
     \<and> (\<not> ok \<longrightarrow> (\<exists>m. j_module j' = m_Cleanup ops m))
     \<and> (\<not> ok \<and> RetryAutoDetection j' \<longrightarrow> j_AutoDetectEvery j' = j_AutoDetectEvery j
          \<and> (if j_AutoDetectTries j = infTries then j_AutoDetectTries j' = infTries
             else j_AutoDetectTries j' = j_AutoDetectTries j - 1 \<and> 0 < j_AutoDetectTries j'
                  \<or> j_AutoDetectTries j = 0 \<and> j_AutoDetectTries j' = infTries))"
proof (cases "detection_body e ops j")
  case (Pair r j1)
  show ?thesis
  proof (cases r)
    case None
    with Pair assms show ?thesis
      by (auto simp: AutoDetection_def detection_end_def disableAutoDetection_def RetryAutoDetection_def)
  next
    case (Some b)
    with Pair have "detection_body e ops j = (Some b, j1)" by simp
    note spec = detection_body_Some [OF this]
    from Some Pair assms have "ok = b" "j' = (if b then j1 else j1\<lparr>j_module := m_Cleanup ops (j_module j1)\<rparr>)"
      by (auto simp: AutoDetection_def detection_end_def)
    with spec show ?thesis by (auto simp: RetryAutoDetection_def infTries_def split: if_splits)
  qed
qed

theorem AutoDetection_outcome_witness:
  "\<exists>j' cs. AutoDetection sample_env sample_ops (sample_job ''x'' 1) = (True, j')
     \<and> j_charts j' = Some cs \<and> j_initialized j'"
proof -
  obtain ok j' where d: "AutoDetection sample_env sample_ops (sample_job ''x'' 1) = (ok, j')"
    by fastforce
  have "fst (AutoDetection sample_env sample_ops (sample_job ''x'' 1))" by code_simp
  with d AutoDetection_outcome [OF d] show ?thesis by auto
qed

text \<open>
  The logger of a stock job is muted during detection.  When the collector panics in \<open>Init\<close> or
  in \<open>Check\<close> nothing unmutes it: the job stays silent, and so does the message about the panic.
\<close>

theorem panic_leaves_stock_job_muted:
  assumes "j_isStock j" and "\<not> e_debugTerminal e" and "\<not> j_initialized j"
    and "fst (m_Init ops (j_module j)) = None"
  shows "\<exists>j'. AutoDetection e ops j = (False, j') \<and> j_panicked j' \<and> j_muted j'"
  using assms
  by (auto simp: AutoDetection_def detection_defs Mute_def split: prod.splits)

theorem panic_leaves_stock_job_muted_witness:
  "\<exists>j'. AutoDetection sample_env (sample_ops\<lparr>m_Init := \<lambda>m. (None, m)\<rparr>)
       ((sample_job ''x'' 1)\<lparr>j_isStock := True\<rparr>) = (False, j') \<and> j_panicked j' \<and> j_muted j'"
  by (rule panic_leaves_stock_job_muted)
    (simp_all add: sample_job_def NewJob_def sample_env_def)

end
