(* ===== verification/Job_Protocol.thy ===== *)
theory Job_Protocol
  imports Job_Facts
begin

text \<open>
  The order of a job's commands on the wire.  \<open>proto\<close> is the plugins.d protocol as an
  automaton: a chart is announced by \<open>CHART\<close> with its labels, dimensions and variables and an
  empty line; data comes in blocks \<open>BEGIN\<close> ... \<open>END\<close>, and only for an announced chart; a host
  is defined in a block of its own.  The result is that everything a job sends is accepted.
\<close>

section \<open>The protocol\<close>

datatype pmode = PIdle | PHost | PChart | PData

type_synonym chart_key = "string \<times> string"

definition proto :: "pmode \<times> chart_key set \<Rightarrow> command \<Rightarrow> (pmode \<times> chart_key set) option" where
  "proto s cmd = (let (md, S) = s in case md of
     PIdle \<Rightarrow> (case cmd of
         CHART t i a b c d e f g h k l m \<Rightarrow> Some (PChart, insert (t, i) S)
       | BEGIN t i ms \<Rightarrow> (if (t, i) \<in> S then Some (PData, S) else None)
       | HOSTDEFINE guid hostname \<Rightarrow> Some (PHost, S)
       | HOST guid \<Rightarrow> Some (PIdle, S)
       | _ \<Rightarrow> None)
   | PHost \<Rightarrow> (case cmd of
         HOSTLABEL k v \<Rightarrow> Some (PHost, S) | HOSTDEFINEEND \<Rightarrow> Some (PIdle, S) | _ \<Rightarrow> None)
   | PChart \<Rightarrow> (case cmd of
         CLABEL k v s \<Rightarrow> Some (PChart, S) | CLABELCOMMIT \<Rightarrow> Some (PChart, S)
       | DIMENSION a b c d e f \<Rightarrow> Some (PChart, S) | VARIABLE k v \<Rightarrow> Some (PChart, S)
       | EMPTYLINE \<Rightarrow> Some (PIdle, S) | _ \<Rightarrow> None)
   | PData \<Rightarrow> (case cmd of
         SET k v \<Rightarrow> Some (PData, S) | SETEMPTY k \<Rightarrow> Some (PData, S)
       | VARIABLE k v \<Rightarrow> Some (PData, S) | END \<Rightarrow> Some (PIdle, S) | _ \<Rightarrow> None))"

lemma proto_simps [simp]:
  "proto (PIdle, S) (CHART t i a b c d e f g h k l m) = Some (PChart, insert (t, i) S)"
  "proto (PIdle, S) (BEGIN t i ms) = (if (t, i) \<in> S then Some (PData, S) else None)"
  "proto (PIdle, S) (HOSTDEFINE a b) = Some (PHost, S)" "proto (PIdle, S) (HOST a) = Some (PIdle, S)"
  "proto (PHost, S) (HOSTLABEL a b) = Some (PHost, S)" "proto (PHost, S) HOSTDEFINEEND = Some (PIdle, S)"
  "proto (PChart, S) (CLABEL a b n) = Some (PChart, S)" "proto (PChart, S) CLABELCOMMIT = Some (PChart, S)"
  "proto (PChart, S) (DIMENSION a b c m1 m2 f) = Some (PChart, S)"
  "proto (PChart, S) (VARIABLE a n) = Some (PChart, S)" "proto (PChart, S) EMPTYLINE = Some (PIdle, S)"
  "proto (PData, S) (SET a n) = Some (PData, S)" "proto (PData, S) (SETEMPTY a) = Some (PData, S)"
  "proto (PData, S) (VARIABLE a n) = Some (PData, S)" "proto (PData, S) END = Some (PIdle, S)"
  by (simp_all add: proto_def)

fun proto_run :: "pmode \<times> chart_key set \<Rightarrow> command list \<Rightarrow> (pmode \<times> chart_key set) option" where
  "proto_run s [] = Some s"
| "proto_run s (c # cs) = (case proto s c of None \<Rightarrow> None | Some s' \<Rightarrow> proto_run s' cs)"

lemma proto_run_append:
  "proto_run s (xs @ ys) = (case proto_run s xs of None \<Rightarrow> None | Some s' \<Rightarrow> proto_run s' ys)"
  by (induction xs arbitrary: s) (auto split: option.splits)

lemma proto_run_const: "\<forall>c \<in> set cs. proto s c = Some s \<Longrightarrow> proto_run s cs = Some s"
  by (induction cs) auto

text \<open>From idle to idle, with the charts announced before and after.\<close>

definition wire :: "chart_key set \<Rightarrow> command list \<Rightarrow> chart_key set \<Rightarrow> bool" where
  "wire S cs S' \<longleftrightarrow> proto_run (PIdle, S) cs = Some (PIdle, S') \<and> S \<subseteq> S'"

lemma wire_Nil [intro!]: "wire S [] S"
  by (simp add: wire_def)

lemma wire_append [intro]: "wire S xs T \<Longrightarrow> wire T ys U \<Longrightarrow> wire S (xs @ ys) U"
  by (auto simp: wire_def proto_run_append)

lemma wire_host: "wire S [HOST g] S"
  by (simp add: wire_def)

lemma wire_hostinfo: "wire S (hostinfo_commands g h ls) S"
proof -
  have "proto_run (PHost, S) (map (\<lambda>(k, v). HOSTLABEL k v) ls) = Some (PHost, S)"
    by (rule proto_run_const) auto
  then show ?thesis by (simp add: wire_def hostinfo_commands_def proto_run_append)
qed

lemma wire_chart:
  assumes "\<forall>c \<in> set cs. \<forall>S. proto (PChart, S) c = Some (PChart, S)"
  shows "wire S (CHART t i a b c d e f g h k l m # cs @ [EMPTYLINE]) (insert (t, i) S)"
proof -
  have "proto_run (PChart, insert (t, i) S) cs = Some (PChart, insert (t, i) S)"
    using assms by (intro proto_run_const) simp
  then show ?thesis by (auto simp: wire_def proto_run_append)
qed

lemma wire_data:
  assumes "(t, i) \<in> S" and "\<forall>c \<in> set cs. proto (PData, S) c = Some (PData, S)"
  shows "wire S (BEGIN t i ms # cs @ [END]) S"
  using assms proto_run_const [of cs "(PData, S)"] by (simp add: wire_def proto_run_append)

section \<open>The identity of a chart\<close>

definition key :: "'m Job \<Rightarrow> Chart \<Rightarrow> chart_key" where
  "key j c = (chart_type j c, chart_id c)"

text \<open>Both parts as functions of the fields they are read from.\<close>

definition default_type :: "string \<Rightarrow> string \<Rightarrow> bool \<Rightarrow> string \<Rightarrow> string \<Rightarrow> string" where
  "default_type full md sep cid over =
     (let t0 = (if \<not> sep then full
                else (case IndexByte cid CHR ''.'' of Some i \<Rightarrow> full @ ''_'' @ take i cid | None \<Rightarrow> full))
      in if over \<noteq> [] \<and> TrimPrefix t0 md \<noteq> t0 then over @ TrimPrefix t0 md else t0)"

definition default_id :: "bool \<Rightarrow> string \<Rightarrow> string" where
  "default_id sep cid =
     (if \<not> sep then cid
      else (case IndexByte cid CHR ''.'' of Some i \<Rightarrow> drop (i + 1) cid | None \<Rightarrow> cid))"

lemma chart_type_text: "chart_type j c = (if c_typ c \<noteq> [] then c_typ c
   else default_type (j_fullName j) (j_moduleName j) (c_IDSep c) (c_ID c) (c_OverModule c))"
  by (simp add: chart_type_def getChartType_def default_type_def Let_def)

lemma chart_id_text: "chart_id c = (if c_id c \<noteq> [] then c_id c else default_id (c_IDSep c) (c_ID c))"
  by (simp add: chart_id_eq default_id_def)

lemma c_typ_getChartType: "c_typ (snd (getChartType j c)) = chart_type j c"
  by (simp add: chart_type_def getChartType_def Let_def)

lemma c_id_getChartID: "c_id (snd (getChartID c)) = (if c_IDSep c \<or> c_id c \<noteq> [] then chart_id c else [])"
  by (simp add: chart_id_def getChartID_def Let_def)

text \<open>The fields a chart's identity is computed from.\<close>

definition same_names :: "Chart \<Rightarrow> Chart \<Rightarrow> bool" where
  "same_names c d \<longleftrightarrow> c_typ c = c_typ d \<and> c_id c = c_id d \<and> c_ID c = c_ID d
     \<and> c_IDSep c = c_IDSep d \<and> c_OverModule c = c_OverModule d"

lemma same_names_key:
  "same_names c d \<Longrightarrow> j_fullName j' = j_fullName j \<Longrightarrow> j_moduleName j' = j_moduleName j \<Longrightarrow>
   key j' c = key j d"
  by (simp add: key_def same_names_def chart_type_text chart_id_text)

text \<open>Reading the identity caches it and does not change it.\<close>

lemma key_named:
  assumes "j_fullName j' = j_fullName j" "j_moduleName j' = j_moduleName j"
  shows "key j' (snd (getChartID (snd (getChartType j c)))) = key j c"
proof -
  let ?d = "snd (getChartID (snd (getChartType j c)))"
  have "chart_type j' ?d = chart_type j c"
    using assms by (simp add: chart_type_text [of j' ?d] c_typ_getChartType)
      (simp add: chart_type_text split: if_splits)
  moreover have "chart_id (snd (getChartType j c)) = chart_id c" by (simp add: chart_id_def)
  then have "chart_id ?d = chart_id c"
    by (simp add: chart_id_text [of ?d] c_id_getChartID) (simp add: chart_id_text split: if_splits)
  ultimately show ?thesis by (simp add: key_def)
qed


section \<open>What each operation sends\<close>

text \<open>A created chart has been announced, unless it is ignored.\<close>

definition announced :: "chart_key set \<Rightarrow> 'm Job \<Rightarrow> Chart \<Rightarrow> bool" where
  "announced S j c \<longleftrightarrow> (c_created c \<and> \<not> c_ignore c \<longrightarrow> key j c \<in> S)"

text \<open>The job's buffer grows by well-formed commands.\<close>

definition sends :: "chart_key set \<Rightarrow> 'm Job \<Rightarrow> chart_key set \<Rightarrow> 'm Job \<Rightarrow> bool" where
  "sends S j S' j' \<longleftrightarrow> (\<exists>cmds. j_buf j' = j_buf j @ cmds \<and> wire S cmds S')
     \<and> j_fullName j' = j_fullName j \<and> j_moduleName j' = j_moduleName j"

lemma sends_refl [intro!]: "sends S j S j"
  by (auto simp: sends_def)

lemma sends_trans [trans]: "sends S j T k \<Longrightarrow> sends T k U l \<Longrightarrow> sends S j U l"
  by (auto simp: sends_def)

lemma sends_cong: "j_buf k = j_buf j' \<Longrightarrow> j_fullName k = j_fullName j' \<Longrightarrow>
   j_moduleName k = j_moduleName j' \<Longrightarrow> sends S j S' j' \<Longrightarrow> sends S j S' k"
  by (simp add: sends_def)

lemma announced_mono: "announced S j c \<Longrightarrow> sends S j S' j' \<Longrightarrow> announced S' j' c"
  by (auto simp: announced_def sends_def wire_def same_names_def
      dest!: same_names_key [of c c j' j, rotated])

lemma announced_names: "same_names c d \<Longrightarrow> c_ignore c = c_ignore d \<Longrightarrow> c_created c = c_created d \<Longrightarrow>
   announced S j d \<Longrightarrow> announced S j c"
  using same_names_key [of c d j j] by (simp add: announced_def)

lemma label_commands_chart: "c \<in> set (label_commands j ch) \<Longrightarrow> proto (PChart, S) c = Some (PChart, S)"
  by (auto simp: label_commands_def Let_def)

lemma createChart_sends:
  obtains S' where "sends S j S' (fst (createChart j c))"
    and "announced S' (fst (createChart j c)) (snd (createChart j c))"
proof (cases "c_ignore c")
  case True
  then show ?thesis using that [of S] by (auto simp: createChart_def announced_def)
next
  case False
  define j1 where "j1 = (if c_Priority c = 0 then j\<lparr>j_priority := j_priority j + 1\<rparr> else j)"
  define c1 where "c1 = (if c_Priority c = 0 then c\<lparr>c_Priority := j_priority j\<rparr> else c)"
  define c3 where "c3 = snd (getChartID (snd (getChartType j1 c1)))"
  define body where "body = (if c_Obsolete c3 then [] else label_commands j1 c3 @ map dim_command (c_Dims c3)
       @ map (\<lambda>v. var_command v (v_Value v)) (c_Vars c3))"
  have n: "j_fullName j1 = j_fullName j" "j_moduleName j1 = j_moduleName j" "j_buf j1 = j_buf j"
    by (simp_all add: j1_def)
  have k: "key j1 c3 = key j1 c1" by (simp add: c3_def key_named)
  have eq: "createChart j c = (emit (CHART (fst (key j1 c1)) (snd (key j1 c1)) (c_OverID c3) (c_Title c3)
      (c_Units c3) (c_Fam c3) (c_Ctx c3) (ChartType_String (c_Type c3)) (c_Priority c3) (j_updateEvery j1)
      (Opts_String (c_Opts c3)) (j_pluginName j1) (j_moduleName j1) # body @ [EMPTYLINE]) j1,
      c3\<lparr>c_created := True\<rparr>)"
    using False by (simp add: createChart_def Let_def case_prod_beta j1_def c1_def c3_def body_def
        key_def chart_type_def)
  have "\<forall>x \<in> set body. \<forall>S. proto (PChart, S) x = Some (PChart, S)"
    by (auto simp: body_def label_commands_chart dim_command_def var_command_def)
  note w = wire_chart [OF this]
  have "sends S j (insert (key j1 c1) S) (fst (createChart j c))"
    using w [of S "fst (key j1 c1)" "snd (key j1 c1)"] n by (simp add: eq sends_def)
  moreover have "key (fst (createChart j c)) (c3\<lparr>c_created := True\<rparr>) = key j1 c3"
    by (rule same_names_key) (simp_all add: same_names_def n)
  then have "announced (insert (key j1 c1) S) (fst (createChart j c)) (snd (createChart j c))"
    using k by (simp add: announced_def eq)
  ultimately show ?thesis by (rule that)
qed

lemma createChart_when:
  assumes "p = (if b then createChart j d else (j, c))" and "announced S j c"
  obtains S' where "sends S j S' (fst p)" and "announced S' (fst p) (snd p)"
proof (cases b)
  case True
  then show ?thesis using assms(1) that by (auto intro: createChart_sends)
next
  case False
  then show ?thesis using assms that [of S] by auto
qed

lemma updateChart_key:
  assumes "\<not> c_ignore c"
  shows "key (fst (snd (updateChart j c m s))) (snd (snd (updateChart j c m s))) = key j c"
proof -
  let ?d = "snd (getChartID (snd (getChartType j c)))"
  have "same_names (snd (snd (updateChart j c m s))) ?d"
    using assms by (simp add: updateChart_def Let_def case_prod_beta same_names_def)
  then have "key (fst (snd (updateChart j c m s))) (snd (snd (updateChart j c m s))) = key j ?d"
    by (rule same_names_key) simp_all
  then show ?thesis by (simp add: key_named)
qed

lemma update_vars_data: "x \<in> set (update_vars m vs) \<Longrightarrow> proto (PData, S) x = Some (PData, S)"
  by (induction vs) (auto simp: var_command_def split: option.splits if_splits)

lemma updateChart_sends:
  assumes "c_created c" and "announced S j c"
  shows "sends S j S (fst (snd (updateChart j c m s)))"
    and "announced S (fst (snd (updateChart j c m s))) (snd (snd (updateChart j c m s)))"
proof -
  have "sends S j S (fst (snd (updateChart j c m s)))
     \<and> announced S (fst (snd (updateChart j c m s))) (snd (snd (updateChart j c m s)))"
  proof (cases "c_ignore c")
    case True
    then show ?thesis by (auto simp: updateChart_def announced_def)
  next
    case False
    with assms have "(chart_type j c, chart_id c) \<in> S" by (simp add: announced_def key_def)
    moreover have "\<forall>x \<in> set (map (dim_value m) (live_dims c) @ update_vars m (c_Vars c)).
        proto (PData, S) x = Some (PData, S)"
      by (auto simp: dim_value_def update_vars_data split: option.splits)
    ultimately have "wire S (BEGIN (chart_type j c) (chart_id c) (if c_updated c then s else 0)
       # (map (dim_value m) (live_dims c) @ update_vars m (c_Vars c)) @ [END]) S"
      by (rule wire_data)
    then show ?thesis using updateChart_live(3) [OF False, of j m s] updateChart_key [OF False, of j m s] assms False
      by (simp add: sends_def announced_def)
  qed
  then show "sends S j S (fst (snd (updateChart j c m s)))"
    and "announced S (fst (snd (updateChart j c m s))) (snd (snd (updateChart j c m s)))" by blast+
qed

lemma write_host_sends: "sends S j S (write_host e j)"
  using wire_append [OF wire_hostinfo wire_host] wire_host
  by (auto simp: write_host_def Let_def sends_def emit_def)

lemma process_chart_sends:
  assumes "announced S j c" and "process_chart m since c (j, n) = (r, j', n')"
  obtains S' where "sends S j S' j'" and "\<And>c'. r = Some c' \<Longrightarrow> announced S' j' c'"
proof -
  define c0 where "c0 = (if NetdataChartIDMaxLength \<le> length (j_fullName j @ ''.'' @ c_ID c)
                         then c\<lparr>c_ignore := True\<rparr> else c)"
  define j1 where "j1 = (if c_created c then j else fst (createChart j c0))"
  define c1 where "c1 = (if c_created c then c else snd (createChart j c0))"
  obtain T where T: "sends S j T j1" "announced T j1 c1"
  proof (rule createChart_when [where p = "(j1, c1)" and b = "\<not> c_created c" and d = c0, OF _ assms(1)])
    show "(j1, c1) = (if \<not> c_created c then createChart j c0 else (j, c))"
      by (simp add: j1_def c1_def)
  qed simp
  have "c_created c1" by (simp add: c1_def)
  note up = updateChart_sends [OF this T(2), of m since]
  have step: "process_chart m since c (j, n) =
      (if c_remove c1 then (None, j1, n)
       else if length m = 0 \<or> c_Obsolete c1 then (Some c1, j1, n)
       else (Some (snd (snd (updateChart j1 c1 m since))), fst (snd (updateChart j1 c1 m since)),
             if fst (updateChart j1 c1 m since) then Suc n else n))"
    by (simp add: process_chart_def Let_def case_prod_beta c0_def j1_def c1_def)
  consider "r = None" "j' = j1" | "r = Some c1" "j' = j1"
    | "r = Some (snd (snd (updateChart j1 c1 m since)))" "j' = fst (snd (updateChart j1 c1 m since))"
    using assms(2) unfolding step by (metis prod.inject)
  then show ?thesis
  proof cases
    case 1 with T that [of T] show ?thesis by simp
  next
    case 2 with T that [of T] show ?thesis by simp
  next
    case 3 with up sends_trans [OF T(1) up(1)] that [of T] show ?thesis by simp
  qed
qed

lemma process_charts_sends:
  assumes "\<forall>c \<in> set cs. announced S j c" and "keep_map (process_chart m since) cs (j, n) = (kept, j', n')"
  shows "\<exists>S'. sends S j S' j' \<and> (\<forall>c \<in> set kept. announced S' j' c)"
  using assms
proof (induction cs arbitrary: S j n kept j' n')
  case Nil
  then show ?case by auto
next
  case (Cons c cs)
  obtain r j1 n1 where p: "process_chart m since c (j, n) = (r, j1, n1)" using prod_cases3 by blast
  obtain kept1 j2 n2 where k: "keep_map (process_chart m since) cs (j1, n1) = (kept1, j2, n2)"
    using prod_cases3 by blast
  obtain T where T: "sends S j T j1" "\<And>c'. r = Some c' \<Longrightarrow> announced T j1 c'"
    using process_chart_sends [OF _ p, of S] Cons.prems(1) by auto
  have "\<forall>c \<in> set cs. announced T j1 c" using Cons.prems(1) announced_mono [OF _ T(1)] by simp
  then obtain U where U: "sends T j1 U j2" "\<forall>c \<in> set kept1. announced U j2 c"
    using Cons.IH [OF _ k] by blast
  have "j' = j2" "kept = (case r of None \<Rightarrow> kept1 | Some y \<Rightarrow> y # kept1)"
    using Cons.prems(2) p k by (auto split: option.splits)
  then show ?case using sends_trans [OF T(1) U(1)] U(2) announced_mono [OF T(2) U(1)]
    by (auto split: option.splits)
qed

text \<open>The invariant of a job between two commands: whatever it has created is announced.\<close>

definition wired :: "chart_key set \<Rightarrow> 'm Job \<Rightarrow> bool" where
  "wired S j \<longleftrightarrow> announced S j (j_runChart j)
     \<and> (\<forall>cs. j_charts j = Some cs \<longrightarrow> (\<forall>c \<in> set cs. announced S j c))"

lemma wired_mono: "wired S j \<Longrightarrow> sends S j S' j' \<Longrightarrow> j_runChart j' = j_runChart j \<Longrightarrow>
   j_charts j' = j_charts j \<Longrightarrow> wired S' j'"
  by (auto simp: wired_def intro: announced_mono)

lemma announced_job: "j_fullName k = j_fullName j \<Longrightarrow> j_moduleName k = j_moduleName j \<Longrightarrow>
   announced S k c = announced S j c"
  using same_names_key [of c c k j] by (simp add: announced_def same_names_def)

lemma wired_run_chart:
  assumes "wired S j"
  shows "\<exists>S'. sends S j S' (create_run_chart e j) \<and> wired S' (create_run_chart e j)"
proof -
  let ?c = "(j_runChart j)\<lparr>c_ID := ''execution_time_of_'' @ j_fullName j\<rparr>"
  obtain T where T: "sends S j T (fst (createChart j ?c))"
      "announced T (fst (createChart j ?c)) (snd (createChart j ?c))" by (rule createChart_sends)
  let ?k = "(fst (createChart j ?c))\<lparr>j_runChart := snd (createChart j ?c)\<rparr>"
  have s: "sends S j T ?k" by (rule sends_cong [OF _ _ _ T(1)]) simp_all
  have "announced T ?k (snd (createChart j ?c))"
    using T(2) announced_job [of ?k "fst (createChart j ?c)"] by simp
  then have "wired T ?k" using assms announced_mono [OF _ s] by (simp add: wired_def)
  with s assms show ?thesis by (auto simp: create_run_chart_def case_prod_beta)
qed

lemma wired_update_run_chart:
  assumes "wired S j" and "\<not> e_ndInternalMonitoringDisabled e \<Longrightarrow> c_created (j_runChart j)"
  shows "sends S j S (update_run_chart e el s j) \<and> wired S (update_run_chart e el s j)"
proof (cases "e_ndInternalMonitoringDisabled e")
  case True
  then show ?thesis using assms by (auto simp: update_run_chart_def)
next
  case False
  let ?u = "updateChart j (j_runChart j) [(''time'', el)] s"
  let ?k = "(fst (snd ?u))\<lparr>j_runChart := snd (snd ?u)\<rparr>"
  have a: "announced S j (j_runChart j)" using assms(1) by (simp add: wired_def)
  note up = updateChart_sends [OF assms(2) [OF False] a, of "[(''time'', el)]" s]
  have s: "sends S j S ?k" by (rule sends_cong [OF _ _ _ up(1)]) simp_all
  have "announced S ?k (snd (snd ?u))" using up(2) announced_job [of ?k "fst (snd ?u)"] by simp
  then have "wired S ?k" using assms(1) announced_mono [OF _ s] by (simp add: wired_def)
  with s False show ?thesis by (simp add: update_run_chart_def case_prod_beta)
qed

lemma created_run_chart: "\<not> e_ndInternalMonitoringDisabled e \<Longrightarrow> c_created (j_runChart (create_run_chart e j))"
  by (simp add: create_run_chart_def case_prod_beta)

lemma processMetrics_sends:
  assumes "wired S j" and "processMetrics e j m el since = Some (ok, j')"
  shows "\<exists>S'. sends S j S' j' \<and> wired S' j' \<and> j_out j' = j_out j"
proof -
  obtain cs where cs: "j_charts j = Some cs"
    using assms(2) by (cases "j_charts j") (simp_all add: processMetrics_def)
  have "wired S (write_host e j)" using wired_mono [OF assms(1) write_host_sends] by simp
  then obtain T where T: "sends S (write_host e j) T (create_run_chart e (write_host e j))"
      "wired T (create_run_chart e (write_host e j))" (is "wired T ?j2")
    using wired_run_chart by blast
  obtain kept j3 n where k: "keep_map (process_chart m since) cs (?j2, 0) = (kept, j3, n)"
    using prod_cases3 by blast
  note spec = process_charts_spec [OF k]
  have "\<forall>c \<in> set cs. announced T ?j2 c" using T(2) cs by (simp add: wired_def)
  then obtain U where U: "sends T ?j2 U j3" "\<forall>c \<in> set kept. announced U j3 c"
    using process_charts_sends [OF _ k] by blast
  let ?j4 = "j3\<lparr>j_charts := Some kept\<rparr>"
  have s: "sends S j U ?j4"
    by (rule sends_cong [OF _ _ _ sends_trans [OF sends_trans [OF write_host_sends T(1)] U(1)]]) simp_all
  have "announced T ?j2 (j_runChart j3)" using T(2) spec by (simp add: wired_def)
  then have w: "wired U ?j4"
    using U announced_mono [OF _ U(1)] announced_job [of ?j4 j3] by (simp add: wired_def)
  have "\<not> e_ndInternalMonitoringDisabled e \<Longrightarrow> c_created (j_runChart ?j4)"
    using spec created_run_chart [of e "write_host e j"] by simp
  then have r: "sends U ?j4 U (update_run_chart e (durationTo el 1000000) since ?j4)
      \<and> wired U (update_run_chart e (durationTo el 1000000) since ?j4)"
    by (rule wired_update_run_chart [OF w])
  show ?thesis
    using assms(2) s w r sends_trans [OF s conjunct1 [OF r]] spec
    by (auto simp: processMetrics_eq [OF cs k] split: if_splits)
qed

section \<open>A whole run\<close>

text \<open>
  What is asked of the collector: a chart it returns as already created is one that was
  created, with the same names.  A collector reaches the flag only through
  \<open>MarkNotCreated\<close>, so this says that it does not rename a chart it has created.
\<close>

definition keeps_identity :: "'m Module \<Rightarrow> bool" where
  "keeps_identity ops \<longleftrightarrow> (\<forall>m cs c. c \<in> set (fst (snd (m_Collect ops m cs))) \<and> c_created c \<and> \<not> c_ignore c
     \<longrightarrow> (\<exists>d \<in> set cs. c_created d \<and> \<not> c_ignore d \<and> same_names c d))"

lemma collect_wired:
  assumes "keeps_identity ops" and "wired S j"
  shows "wired S (snd (collect ops j))"
proof -
  let ?cs = "case j_charts j of None \<Rightarrow> [] | Some cs \<Rightarrow> cs"
  let ?ds = "fst (snd (m_Collect ops (j_module j) ?cs))"
  have ch: "j_charts (snd (collect ops j)) = map_option (\<lambda>_. ?ds) (j_charts j)"
    by (simp add: collect_def Let_def case_prod_beta split: option.splits)
  have "announced S j c" if "c \<in> set ?ds" "j_charts j = Some cs" for c cs
  proof (cases "c_created c \<and> \<not> c_ignore c")
    case True
    with assms(1) that obtain d where d: "d \<in> set cs" "c_created d" "\<not> c_ignore d" "same_names c d"
      unfolding keeps_identity_def by fastforce
    with assms(2) that(2) have "key j d \<in> S" by (simp add: wired_def announced_def)
    then show ?thesis using same_names_key [OF d(4), of j j] by (simp add: announced_def)
  qed (auto simp: announced_def)
  then show ?thesis using assms(2) announced_job [of "snd (collect ops j)" j]
    by (auto simp: wired_def ch)
qed

text \<open>Everything handed to the output is accepted, and nothing is left in the buffer.\<close>

definition job_wire :: "'m Job \<Rightarrow> bool" where
  "job_wire j \<longleftrightarrow> j_buf j = [] \<and> (\<exists>S. wire {} (j_out j) S \<and> wired S j)"

lemma job_wireI: "wire {} (j_out j) S \<Longrightarrow> wired S j \<Longrightarrow> j_buf j = [] \<Longrightarrow> job_wire j"
  by (auto simp: job_wire_def)

lemma wired_cong: "j_runChart k = j_runChart j \<Longrightarrow> j_charts k = j_charts j \<Longrightarrow>
   j_fullName k = j_fullName j \<Longrightarrow> j_moduleName k = j_moduleName j \<Longrightarrow> wired S k = wired S j"
  using announced_job [of k j] by (simp add: wired_def)

text \<open>Handing the buffer over.\<close>

lemma flush_wire:
  assumes "wire {} (j_out j) S" "j_buf j = []" "sends S j S' j'" "j_out j' = j_out j" "wired S' j'"
  shows "job_wire (j'\<lparr>j_retries := r, j_out := j_out j' @ j_buf j', j_buf := []\<rparr>)"
proof (rule job_wireI)
  show "wire {} (j_out (j'\<lparr>j_retries := r, j_out := j_out j' @ j_buf j', j_buf := []\<rparr>)) S'"
    using assms by (auto simp: sends_def)
  show "wired S' (j'\<lparr>j_retries := r, j_out := j_out j' @ j_buf j', j_buf := []\<rparr>)"
    using assms(5) wired_cong [of "j'\<lparr>j_retries := r, j_out := j_out j' @ j_buf j', j_buf := []\<rparr>" j']
    by simp
qed simp

lemma runOnce_wire:
  assumes "keeps_identity ops" and "job_wire j" and "runOnce e ops now took j = Some j'"
  shows "job_wire j'"
proof -
  obtain S where S: "wire {} (j_out j) S" "wired S j" "j_buf j = []"
    using assms(2) by (auto simp: job_wire_def)
  obtain ms j1 where c: "collect ops (j\<lparr>j_prevRun := Some now\<rparr>) = (ms, j1)" by fastforce
  have "wired S (j\<lparr>j_prevRun := Some now\<rparr>)" using S(2) wired_cong [of "j\<lparr>j_prevRun := Some now\<rparr>" j] by simp
  then have w: "wired S j1" using collect_wired [OF assms(1), of S "j\<lparr>j_prevRun := Some now\<rparr>"] c by simp
  have j1: "j_buf j1 = []" "j_out j1 = j_out j"
    using S(3) collect_job [of ops "j\<lparr>j_prevRun := Some now\<rparr>"] c by simp_all
  show ?thesis
  proof (cases "j_panicked j1")
    case True
    then have "j' = j1" using assms(3) c by (simp add: runOnce_def)
    then show ?thesis using w j1 S(1) by (auto intro: job_wireI)
  next
    case False
    then obtain ok j2 where p: "processMetrics e j1 ms took (calcSinceLastRun now (j_prevRun j)) = Some (ok, j2)"
      and r: "j' = j2\<lparr>j_retries := (if ok then 0 else j_retries j2 + 1), j_out := j_out j2 @ j_buf j2, j_buf := []\<rparr>"
      using assms(3) c by (auto simp: runOnce_def split: option.splits)
    obtain S' where S': "sends S j1 S' j2" "wired S' j2" "j_out j2 = j_out j1"
      using processMetrics_sends [OF w p] by blast
    show ?thesis unfolding r using flush_wire [OF _ j1(1) S'(1) S'(3) S'(2)] S(1) j1(2) by simp
  qed
qed

lemma cleanup_charts_sends:
  assumes "cleanup_charts j cs = (j', cs')" and "\<forall>c \<in> set cs. announced S j c"
  shows "\<exists>S'. sends S j S' j' \<and> (\<forall>c \<in> set cs'. announced S' j' c) \<and> j_out j' = j_out j
    \<and> j_runChart j' = j_runChart j"
  using assms
proof (induction cs arbitrary: S j cs' j')
  case Nil
  then show ?case by auto
next
  case (Cons c cs)
  define p where "p = (if c_created c then createChart j (MarkRemove c) else (j, c))"
  obtain j2 ds where k: "cleanup_charts (fst p) cs = (j2, ds)" by fastforce
  have eq: "j' = j2" "cs' = snd p # ds" using Cons.prems(1) k by (auto simp: p_def case_prod_beta Let_def)
  obtain T where T: "sends S j T (fst p)" "announced T (fst p) (snd p)"
    using createChart_when [OF p_def] Cons.prems(2) by auto
  have f: "j_out (fst p) = j_out j" "j_runChart (fst p) = j_runChart j" by (simp_all add: p_def)
  have "\<forall>c \<in> set cs. announced T (fst p) c" using Cons.prems(2) announced_mono [OF _ T(1)] by simp
  then obtain U where U: "sends T (fst p) U j2" "\<forall>c \<in> set ds. announced U j2 c"
      "j_out j2 = j_out (fst p)" "j_runChart j2 = j_runChart (fst p)"
    using Cons.IH [OF k] by blast
  then show ?case using sends_trans [OF T(1) U(1)] announced_mono [OF T(2) U(1)] f
    by (auto simp: eq)
qed

lemma Cleanup_wire:
  assumes "job_wire j"
  shows "job_wire (Cleanup e j)"
proof (cases "e_obsoleteCharts e")
  case False
  moreover have "j\<lparr>j_buf := []\<rparr> = j" using assms by (simp add: job_wire_def)
  ultimately show ?thesis using assms by (simp add: Cleanup_def)
next
  case True
  obtain S where S: "wire {} (j_out j) S" "wired S j" "j_buf j = []"
    using assms by (auto simp: job_wire_def)
  have b: "j\<lparr>j_buf := []\<rparr> = j" using S(3) by simp
  define j1 where "j1 = write_host e j"
  define p where "p = (if c_created (j_runChart j1) then createChart j1 (MarkRemove (j_runChart j1))
                       else (j1, j_runChart j1))"
  define j2 where "j2 = (fst p)\<lparr>j_runChart := snd p\<rparr>"
  have w1: "sends S j S j1" "wired S j1" "j_out j1 = j_out j"
    using wired_mono [OF S(2) write_host_sends] by (simp_all add: j1_def write_host_sends)
  then obtain T where T: "sends S j1 T (fst p)" "announced T (fst p) (snd p)"
    using createChart_when [OF p_def, of S] by (auto simp: wired_def)
  have j2: "(if c_created (j_runChart j1) then case createChart j1 (MarkRemove (j_runChart j1)) of
      (j', r) \<Rightarrow> j'\<lparr>j_runChart := r\<rparr> else j1) = j2"
    by (simp add: j2_def p_def case_prod_beta)
  have f: "j_out j2 = j_out j" "j_charts j2 = j_charts j1" using w1(3) by (simp_all add: p_def j2_def)
  have s2: "sends S j1 T j2" by (rule sends_cong [OF _ _ _ T(1)]) (simp_all add: j2_def)
  have a2: "announced T j2 (j_runChart j2)" using T(2) announced_job [of j2 "fst p"] by (simp add: j2_def)
  have w2: "wired T j2" using a2 w1(2) announced_mono [OF _ s2] by (simp add: wired_def f)
  obtain j3 U where j3: "sends T j2 U j3" "wired U j3" "j_out j3 = j_out j2"
    "(case j_charts j2 of None \<Rightarrow> j2
      | Some cs \<Rightarrow> (case cleanup_charts j2 cs of (j', cs') \<Rightarrow> j'\<lparr>j_charts := Some cs'\<rparr>)) = j3"
  proof (cases "j_charts j2")
    case None
    then show ?thesis using w2 that [of T j2] by auto
  next
    case (Some cs)
    obtain k ds where k: "cleanup_charts j2 cs = (k, ds)" by fastforce
    have "\<forall>c \<in> set cs. announced T j2 c" using w2 Some by (simp add: wired_def)
    then obtain U where U: "sends T j2 U k" "\<forall>c \<in> set ds. announced U k c" "j_out k = j_out j2"
        "j_runChart k = j_runChart j2"
      using cleanup_charts_sends [OF k] by blast
    let ?k = "k\<lparr>j_charts := Some ds\<rparr>"
    have "sends T j2 U ?k" by (rule sends_cong [OF _ _ _ U(1)]) simp_all
    moreover have "wired U ?k"
      using U announced_mono [OF a2 U(1)] announced_job [of ?k k] by (simp add: wired_def)
    ultimately show ?thesis using U(3) Some k that [of U ?k] by simp
  qed
  have eq: "Cleanup e j = (if length (j_buf j3) > 0 then j3\<lparr>j_out := j_out j3 @ j_buf j3, j_buf := []\<rparr> else j3)"
    unfolding Cleanup_def b Let_def j1_def [symmetric] j2 j3(4)
    by (simp only: True not_True_eq_False if_False)
  have fl: "job_wire (j3\<lparr>j_retries := j_retries j3, j_out := j_out j3 @ j_buf j3, j_buf := []\<rparr>)"
    using j3(2,3) f(1)
    by (intro flush_wire [OF S(1) S(3) sends_trans [OF sends_trans [OF w1(1) s2] j3(1)]]) simp_all
  show ?thesis
  proof (cases "j_buf j3 = []")
    case True
    then have e: "j3\<lparr>j_retries := j_retries j3, j_out := j_out j3 @ j_buf j3, j_buf := []\<rparr> = j3" by simp
    from fl have "job_wire j3" unfolding e .
    with True show ?thesis by (simp add: eq)
  next
    case False
    with fl show ?thesis by (simp add: eq)
  qed
qed

lemma Start_wire:
  "keeps_identity ops \<Longrightarrow> job_wire j \<Longrightarrow> Start e ops j evs = Some (fin, j') \<Longrightarrow> job_wire j'"
proof (induction e ops j evs rule: Start.induct)
  case (2 e ops j evs)
  have "job_wire (j\<lparr>j_module := m_Cleanup ops (j_module j)\<rparr>)"
    using "2.prems" wired_cong [of "j\<lparr>j_module := m_Cleanup ops (j_module j)\<rparr>" j] by (simp add: job_wire_def)
  then show ?case using Cleanup_wire "2.prems" by auto
next
  case (3 e ops j t now took evs)
  note run = runOnce_wire [OF "3.prems"(1,2)]
  show ?case using "3.IH" "3.prems" run by (auto split: if_splits option.splits)
qed simp

text \<open>
  C3.  Everything a job writes, from its first collection to the removal of its charts, is a
  sentence of the protocol: data is sent only for a chart announced before, every chart
  definition and every data block is closed before the next command, and host definitions
  are complete.  This holds whatever the collector returns and whenever it panics, as long
  as it does not rename a chart that has been created.
\<close>

theorem job_speaks_protocol:
  assumes "Start e ops j evs = Some (fin, j')" and "keeps_identity ops"
    and "\<not> c_created (j_runChart j)" and "\<forall>cs. j_charts j = Some cs \<longrightarrow> (\<forall>c \<in> set cs. \<not> c_created c)"
    and "j_buf j = []" and "j_out j = []"
  shows "\<exists>S. proto_run (PIdle, {}) (j_out j') = Some (PIdle, S)"
proof -
  have "job_wire j"
    using assms by (intro job_wireI [of _ "{}"]) (auto simp: wired_def announced_def)
  then show ?thesis using Start_wire [OF assms(2) _ assms(1)] by (auto simp: job_wire_def wire_def)
qed

text \<open>One chart collected once, then the job is stopped.\<close>

definition talking_ops :: "unit Module" where
  "talking_ops = sample_ops\<lparr>m_Collect := \<lambda>m cs. (Some [(''q'', 7)], cs, m)\<rparr>"

definition talking_job :: "unit Job" where
  "talking_job = (sample_job ''x'' 1)\<lparr>j_charts :=
     Some [zero_chart\<lparr>c_ID := ''a'', c_Dims := [zero_dim\<lparr>d_ID := ''q''\<rparr>]\<rparr>]\<rparr>"

lemma talking_ops_keep: "keeps_identity talking_ops"
  by (auto simp: keeps_identity_def talking_ops_def same_names_def)

theorem job_speaks_protocol_witness:
  "\<exists>j' S. Start (sample_env\<lparr>e_vnodesDisabled := False\<rparr>) talking_ops talking_job [Ticked 1 100 5, StopRequested]
       = Some (True, j')
     \<and> length (j_out j') = 12 \<and> proto_run (PIdle, {}) (j_out j') = Some (PIdle, S)"
proof -
  let ?e = "sample_env\<lparr>e_vnodesDisabled := False\<rparr>" and ?evs = "[Ticked 1 100 5, StopRequested]"
  have "map_option (\<lambda>(f, j). (f, length (j_out j))) (Start ?e talking_ops talking_job ?evs) = Some (True, 12)"
    by code_simp
  then obtain j' where j': "Start ?e talking_ops talking_job ?evs = Some (True, j')" "length (j_out j') = 12"
    by auto
  have "\<not> c_created (j_runChart talking_job)"
    "\<forall>cs. j_charts talking_job = Some cs \<longrightarrow> (\<forall>c \<in> set cs. \<not> c_created c)"
    "j_buf talking_job = []" "j_out talking_job = []"
    by (simp_all add: talking_job_def sample_job_def NewJob_def newRuntimeChart_def zero_chart_def)
  from job_speaks_protocol [OF j'(1) talking_ops_keep this] j' show ?thesis by blast
qed

end
