(* ===== verification/Confgroup.thy ===== *)
theory Confgroup
  imports Job "HOL-Library.Word"
begin

text \<open>
  \<open>agent/confgroup/group.go\<close> and \<open>registry.go\<close>: job configurations, their accessors, the
  defaults applied to them, and the names jobs get.  A configuration is a map from strings to
  dynamically typed values; a value the code never inspects (a float, a date) is \<open>VOther\<close>.
  The hash of \<open>hashstructure\<close>, the name of the host and the package \<open>net/url\<close> are parameters.
\<close>

section \<open>Data\<close>

datatype gval =
    VString string
  | VInt int
  | VBool bool
  | VOther string
  | VList "gval list"
  | VMap "(gval \<times> gval) list"

type_synonym Config = "string \<rightharpoonup> gval"

type_synonym cfg_hash = "64 word"

record Group =
  g_Configs :: "Config list"
  g_Source :: string

record Default =
  df_MinUpdateEvery :: int
  df_UpdateEvery :: int
  df_AutoDetectionRetry :: int
  df_Priority :: int

type_synonym Registry = "string \<rightharpoonup> Default"

definition Registry_Register :: "Registry \<Rightarrow> string \<Rightarrow> Default \<Rightarrow> Registry" where
  "Registry_Register r name def = (if name \<noteq> [] then r(name \<mapsto> def) else r)"

definition Registry_Lookup :: "Registry \<Rightarrow> string \<Rightarrow> Default option" where
  "Registry_Lookup r name = r name"

text \<open>The constants of \<open>agent/module/registry.go\<close>.\<close>

definition module_UpdateEvery :: int where "module_UpdateEvery = 1"
definition module_AutoDetectionRetry :: int where "module_AutoDetectionRetry = 0"
definition module_Priority :: int where "module_Priority = 70000"

section \<open>Accessors\<close>

definition get_string :: "Config \<Rightarrow> string \<Rightarrow> string" where
  "get_string c k = (case c k of Some (VString s) \<Rightarrow> s | _ \<Rightarrow> [])"

definition get_int :: "Config \<Rightarrow> string \<Rightarrow> int" where
  "get_int c k = (case c k of Some (VInt i) \<Rightarrow> i | _ \<Rightarrow> 0)"

definition Name :: "Config \<Rightarrow> string" where "Name c = get_string c ''name''"
definition Module_name :: "Config \<Rightarrow> string" where "Module_name c = get_string c ''module''"
definition UpdateEvery :: "Config \<Rightarrow> int" where "UpdateEvery c = get_int c ''update_every''"
definition AutoDetectionRetry :: "Config \<Rightarrow> int" where
  "AutoDetectionRetry c = get_int c ''autodetection_retry''"
definition Priority :: "Config \<Rightarrow> int" where "Priority c = get_int c ''priority''"
definition Source :: "Config \<Rightarrow> string" where "Source c = get_string c ''__source__''"
definition Provider :: "Config \<Rightarrow> string" where "Provider c = get_string c ''__provider__''"
definition Vnode :: "Config \<Rightarrow> string" where "Vnode c = get_string c ''vnode''"

definition Labels :: "Config \<Rightarrow> (gval \<times> gval) list" where
  "Labels c = (case c ''labels'' of Some (VMap m) \<Rightarrow> m | _ \<Rightarrow> [])"

definition SetName :: "Config \<Rightarrow> string \<Rightarrow> Config" where "SetName c v = c(''name'' \<mapsto> VString v)"
definition SetModule :: "Config \<Rightarrow> string \<Rightarrow> Config" where "SetModule c v = c(''module'' \<mapsto> VString v)"
definition SetSource :: "Config \<Rightarrow> string \<Rightarrow> Config" where "SetSource c v = c(''__source__'' \<mapsto> VString v)"
definition SetProvider :: "Config \<Rightarrow> string \<Rightarrow> Config" where
  "SetProvider c v = c(''__provider__'' \<mapsto> VString v)"

text \<open>Which keys the hash includes.\<close>

definition HashIncludeMap :: "string \<Rightarrow> bool" where
  "HashIncludeMap s \<longleftrightarrow> \<not> (HasPrefix s ''__'' \<and> HasSuffix s ''__'')"

definition fullName :: "string \<Rightarrow> string \<Rightarrow> string" where
  "fullName name md = (if name = md then name else md @ ''_'' @ name)"

definition FullName :: "Config \<Rightarrow> string" where
  "FullName c = fullName (Name c) (Module_name c)"

definition NameWithHash :: "(Config \<Rightarrow> cfg_hash) \<Rightarrow> Config \<Rightarrow> string" where
  "NameWithHash Hash c = Name c @ ''_'' @ Itoa (uint (Hash c))"

section \<open>Defaults\<close>

fun firstPositive :: "int \<Rightarrow> int list \<Rightarrow> int" where
  "firstPositive v [] = v"
| "firstPositive v (w # ws) = (if v > 0 then v else firstPositive w ws)"

text \<open>\<open>reInvalidCharacters.ReplaceAllString(name, "_")\<close> with \<open>\s+|\.+\<close>: a maximal run of white
  space, or of dots, becomes one underscore.  The first argument is what the run before this
  point is made of.\<close>

datatype run = NoRun | SpaceRun | DotRun

fun clean_from :: "run \<Rightarrow> string \<Rightarrow> string" where
  "clean_from r [] = []"
| "clean_from r (c # cs) =
     (if re_space c then (if r = SpaceRun then clean_from SpaceRun cs else CHR ''_'' # clean_from SpaceRun cs)
      else if c = CHR ''.'' then (if r = DotRun then clean_from DotRun cs else CHR ''_'' # clean_from DotRun cs)
      else c # clean_from NoRun cs)"

definition cleanName :: "string \<Rightarrow> string" where
  "cleanName name = clean_from NoRun name"

definition jobNameResolveHostname :: "string \<Rightarrow> string \<Rightarrow> string" where
  "jobNameResolveHostname host name =
     (if host = [] \<or> \<not> Contains name ''hostname'' then name
      else if name \<noteq> ''hostname'' \<and> \<not> HasPrefix name ''hostname.'' \<and> \<not> HasPrefix name ''hostname_''
      then name
      else ReplaceOnce name ''hostname'' host)"

text \<open>What the code uses of \<open>net/url\<close>, over its type of parsed URLs.\<close>

record 'u url_pkg =
  url_Parse :: "string \<Rightarrow> 'u option"
  url_Hostname :: "'u \<Rightarrow> string"
  url_Host :: "'u \<Rightarrow> string"
  url_set_Host :: "'u \<Rightarrow> string \<Rightarrow> 'u"
  url_String :: "'u \<Rightarrow> string"

definition urlResolveHostname :: "'u url_pkg \<Rightarrow> string \<Rightarrow> string \<Rightarrow> string" where
  "urlResolveHostname pkg host rawURL =
     (if host = [] \<or> \<not> Contains rawURL ''hostname'' then rawURL
      else (case url_Parse pkg rawURL of
              None \<Rightarrow> rawURL
            | Some u \<Rightarrow>
                if url_Hostname pkg u \<noteq> ''hostname'' \<and> \<not> Contains (url_Hostname pkg u) ''hostname.''
                then rawURL
                else url_String pkg (url_set_Host pkg u (ReplaceOnce (url_Host pkg u) ''hostname'' host))))"

text \<open>The steps of \<open>Apply\<close>, in its order.\<close>

definition set_default :: "string \<Rightarrow> int \<Rightarrow> int \<Rightarrow> Config \<Rightarrow> Config" where
  "set_default k v builtin c =
     (if get_int c k \<le> 0 then c(k \<mapsto> VInt (firstPositive v [builtin])) else c)"

definition raise_interval :: "Default \<Rightarrow> Config \<Rightarrow> Config" where
  "raise_interval def c =
     (if UpdateEvery c < df_MinUpdateEvery def \<and> df_MinUpdateEvery def > 0
      then c(''update_every'' \<mapsto> VInt (df_MinUpdateEvery def)) else c)"

definition resolve_name :: "string \<Rightarrow> Config \<Rightarrow> Config" where
  "resolve_name host c =
     (if Name c = [] then c(''name'' \<mapsto> VString (Module_name c))
      else c(''name'' \<mapsto> VString (cleanName (jobNameResolveHostname host (Name c)))))"

definition resolve_url :: "'u url_pkg \<Rightarrow> string \<Rightarrow> Config \<Rightarrow> Config" where
  "resolve_url pkg host c =
     (case c ''url'' of
        Some (VString v) \<Rightarrow> c(''url'' \<mapsto> VString (urlResolveHostname pkg host v))
      | _ \<Rightarrow> c)"

definition Apply :: "'u url_pkg \<Rightarrow> string \<Rightarrow> Default \<Rightarrow> Config \<Rightarrow> Config" where
  "Apply pkg host def c0 =
     (let c1 = set_default ''update_every'' (df_UpdateEvery def) module_UpdateEvery c0;
          c2 = set_default ''autodetection_retry'' (df_AutoDetectionRetry def) module_AutoDetectionRetry c1;
          c3 = set_default ''priority'' (df_Priority def) module_Priority c2;
          c4 = raise_interval def c3;
          c5 = resolve_name host c4
      in resolve_url pkg host c5)"

section \<open>Names\<close>

text \<open>Within one module, different names give different full names.\<close>

lemma fullName_inject: "fullName n1 md = fullName n2 md \<longleftrightarrow> n1 = n2"
  by (auto simp: fullName_def)

lemma clean_from_chars:
  "c \<in> set (clean_from r s) \<Longrightarrow> \<not> re_space c \<and> c \<noteq> CHR ''.''"
  by (induction r s rule: clean_from.induct) (auto simp: re_space_def split: if_splits)

lemma clean_from_ne: "s \<noteq> [] \<Longrightarrow> cleanName s \<noteq> []"
  by (cases s) (auto simp: cleanName_def)

lemma clean_from_same: "\<forall>c \<in> set s. \<not> re_space c \<and> c \<noteq> CHR ''.'' \<Longrightarrow> clean_from r s = s"
  by (induction r s rule: clean_from.induct) auto

text \<open>A cleaned name is clean.\<close>

lemma cleanName_idem: "cleanName (cleanName s) = cleanName s"
  unfolding cleanName_def by (rule clean_from_same) (use clean_from_chars in blast)

lemma ReplaceOnce_ne: "s \<noteq> [] \<Longrightarrow> new \<noteq> [] \<Longrightarrow> ReplaceOnce s old new \<noteq> []"
  by (cases s) auto

lemma jobNameResolve_ne: "n \<noteq> [] \<Longrightarrow> jobNameResolveHostname host n \<noteq> []"
  using ReplaceOnce_ne by (simp add: jobNameResolveHostname_def)

section \<open>What applying the defaults gives\<close>

lemmas accessor_defs = Name_def Module_name_def UpdateEvery_def AutoDetectionRetry_def Priority_def

lemma get_upd [simp]:
  "get_int (c(k \<mapsto> VInt i)) k' = (if k' = k then i else get_int c k')"
  "get_string (c(k \<mapsto> VString s)) k' = (if k' = k then s else get_string c k')"
  "k' \<noteq> k \<Longrightarrow> get_string (c(k \<mapsto> VInt i)) k' = get_string c k'"
  "k' \<noteq> k \<Longrightarrow> get_int (c(k \<mapsto> VString s)) k' = get_int c k'"
  by (simp_all add: get_int_def get_string_def)

lemma set_default_get [simp]:
  "get_int (set_default k v b c) k' =
     (if k' = k \<and> get_int c k \<le> 0 then firstPositive v [b] else get_int c k')"
  "k' \<noteq> k \<Longrightarrow> get_string (set_default k v b c) k' = get_string c k'"
  "k' \<noteq> k \<Longrightarrow> set_default k v b c k' = c k'"
  by (auto simp: set_default_def)

lemma raise_interval_get [simp]:
  "get_int (raise_interval def c) k = (if k = ''update_every'' \<and> UpdateEvery c < df_MinUpdateEvery def
     \<and> df_MinUpdateEvery def > 0 then df_MinUpdateEvery def else get_int c k)"
  "k \<noteq> ''update_every'' \<Longrightarrow> get_string (raise_interval def c) k = get_string c k"
  "k \<noteq> ''update_every'' \<Longrightarrow> raise_interval def c k = c k"
  by (auto simp: raise_interval_def)

lemma resolve_name_get [simp]:
  "k \<noteq> ''name'' \<Longrightarrow> get_int (resolve_name host c) k = get_int c k"
  "get_string (resolve_name host c) ''name'' =
     (if Name c = [] then Module_name c else cleanName (jobNameResolveHostname host (Name c)))"
  "k \<noteq> ''name'' \<Longrightarrow> resolve_name host c k = c k"
  by (auto simp: resolve_name_def)

lemma resolve_url_get [simp]:
  "k \<noteq> ''url'' \<Longrightarrow> get_int (resolve_url pkg host c) k = get_int c k"
  "k \<noteq> ''url'' \<Longrightarrow> get_string (resolve_url pkg host c) k = get_string c k"
  "k \<noteq> ''url'' \<Longrightarrow> resolve_url pkg host c k = c k"
proof -
  show e: "resolve_url pkg host c k = c k" if "k \<noteq> ''url''" for k
    using that by (auto simp: resolve_url_def split: option.splits gval.splits)
  show "k \<noteq> ''url'' \<Longrightarrow> get_int (resolve_url pkg host c) k = get_int c k"
    "k \<noteq> ''url'' \<Longrightarrow> get_string (resolve_url pkg host c) k = get_string c k"
    by (simp_all add: get_int_def get_string_def e)
qed

lemma Apply_UpdateEvery: "UpdateEvery (Apply pkg host def c) =
     (let u = (if UpdateEvery c \<le> 0 then firstPositive (df_UpdateEvery def) [module_UpdateEvery] else UpdateEvery c)
      in if u < df_MinUpdateEvery def \<and> df_MinUpdateEvery def > 0 then df_MinUpdateEvery def else u)"
  by (simp add: Apply_def accessor_defs Let_def del: firstPositive.simps)

lemma Apply_AutoDetectionRetry: "AutoDetectionRetry (Apply pkg host def c) =
     (if AutoDetectionRetry c \<le> 0 then firstPositive (df_AutoDetectionRetry def) [module_AutoDetectionRetry]
      else AutoDetectionRetry c)"
  by (simp add: Apply_def accessor_defs Let_def del: firstPositive.simps)

lemma Apply_Priority: "Priority (Apply pkg host def c) =
     (if Priority c \<le> 0 then firstPositive (df_Priority def) [module_Priority] else Priority c)"
  by (simp add: Apply_def accessor_defs Let_def del: firstPositive.simps)

lemma Apply_Name: "Name (Apply pkg host def c) =
     (if Name c = [] then Module_name c else cleanName (jobNameResolveHostname host (Name c)))"
  by (simp add: Apply_def accessor_defs Let_def)

lemma Apply_other:
  "k \<notin> {''update_every'', ''autodetection_retry'', ''priority'', ''name'', ''url''} \<Longrightarrow>
     Apply pkg host def c k = c k"
  by (simp add: Apply_def Let_def)

text \<open>
  Whatever a configuration holds, applying the defaults of its module to it gives one a job
  can run with: a positive interval not below the module's minimum (the configured interval is
  kept when it satisfies both), a non-negative retry interval, a positive priority, and a name
  that is empty only if the module name is too and that, when it was configured, has neither
  white space nor dots in it, whatever the host is called.  No other key changes but \<open>url\<close>.
\<close>

theorem Apply_spec:
  "1 \<le> UpdateEvery (Apply pkg host def c) \<and> df_MinUpdateEvery def \<le> UpdateEvery (Apply pkg host def c)
   \<and> (0 < UpdateEvery c \<and> df_MinUpdateEvery def \<le> UpdateEvery c \<longrightarrow>
        UpdateEvery (Apply pkg host def c) = UpdateEvery c)
   \<and> 0 \<le> AutoDetectionRetry (Apply pkg host def c) \<and> 0 < Priority (Apply pkg host def c)
   \<and> (Name (Apply pkg host def c) = [] \<longleftrightarrow> Name c = [] \<and> Module_name c = [])
   \<and> (Name c \<noteq> [] \<longrightarrow> (\<forall>x \<in> set (Name (Apply pkg host def c)). \<not> re_space x \<and> x \<noteq> CHR ''.''))
   \<and> (\<forall>k. k \<notin> {''update_every'', ''autodetection_retry'', ''priority'', ''name'', ''url''} \<longrightarrow>
        Apply pkg host def c k = c k)"
proof -
  have u: "1 \<le> UpdateEvery (Apply pkg host def c)" "df_MinUpdateEvery def \<le> UpdateEvery (Apply pkg host def c)"
    "0 < UpdateEvery c \<Longrightarrow> df_MinUpdateEvery def \<le> UpdateEvery c \<Longrightarrow>
        UpdateEvery (Apply pkg host def c) = UpdateEvery c"
    by (auto simp: Apply_UpdateEvery module_UpdateEvery_def Let_def)
  have n: "Name (Apply pkg host def c) = [] \<longleftrightarrow> Name c = [] \<and> Module_name c = []"
    using clean_from_ne jobNameResolve_ne by (simp add: Apply_Name)
  have "\<forall>x \<in> set (cleanName s). \<not> re_space x \<and> x \<noteq> CHR ''.''" for s
    using clean_from_chars by (fastforce simp: cleanName_def)
  then show ?thesis using u n
    by (simp add: Apply_AutoDetectionRetry Apply_Priority Apply_Name Apply_other
        module_AutoDetectionRetry_def module_Priority_def)
qed

text \<open>A URL package that reads a whole string as the host, for the examples.\<close>

definition sample_url :: "string url_pkg" where
  "sample_url = \<lparr>url_Parse = Some, url_Hostname = id, url_Host = id, url_set_Host = (\<lambda>u h. h), url_String = id\<rparr>"

definition sample_default :: Default where
  "sample_default = \<lparr>df_MinUpdateEvery = 5, df_UpdateEvery = 1, df_AutoDetectionRetry = 0, df_Priority = 0\<rparr>"

theorem Apply_spec_witness:
  "Name (Apply sample_url ''box'' sample_default [''name'' \<mapsto> VString ''hostname. x'', ''url'' \<mapsto> VString ''hostname'']) = ''box__x''
   \<and> Apply sample_url ''box'' sample_default [''name'' \<mapsto> VString ''hostname. x'', ''url'' \<mapsto> VString ''hostname''] ''url''
       = Some (VString ''box'')
   \<and> Priority (Apply sample_url ''box'' sample_default [''name'' \<mapsto> VString ''hostname. x'', ''url'' \<mapsto> VString ''hostname'']) > 0
   \<and> df_MinUpdateEvery sample_default
      \<le> UpdateEvery (Apply sample_url ''box'' sample_default [''name'' \<mapsto> VString ''hostname. x'', ''url'' \<mapsto> VString ''hostname''])"
proof -
  let ?c = "[''name'' \<mapsto> VString ''hostname. x'', ''url'' \<mapsto> VString ''hostname'']"
  have "Name (Apply sample_url ''box'' sample_default ?c) = ''box__x''" by code_simp
  moreover have "Apply sample_url ''box'' sample_default ?c ''url'' = Some (VString ''box'')" by code_simp
  ultimately show ?thesis using Apply_spec [of sample_url "''box''" sample_default ?c] by simp
qed

end
