(* ===== verification/Conf_Cache.thy ===== *)
theory Conf_Cache
  imports Confgroup
begin

text \<open>
  \<open>agent/confgroup/cache.go\<close>: the cache that turns the groups the discoverers send into
  additions and removals of configurations.  A configuration is counted once per source that
  has it, by its hash; it is added when the first source brings it and removed when the last
  one drops it.  The counters are unsigned 64-bit integers and wrap around.
\<close>

record Cache =
  ca_hashes :: "cfg_hash \<Rightarrow> nat"
  ca_sources :: "string \<rightharpoonup> (cfg_hash \<times> Config) list"

definition NewCache :: Cache where
  "NewCache = \<lparr>ca_hashes = (\<lambda>_. 0), ca_sources = Map.empty\<rparr>"

definition uint_inc :: "nat \<Rightarrow> nat" where
  "uint_inc n = (n + 1) mod 2 ^ 64"

definition uint_dec :: "nat \<Rightarrow> nat" where
  "uint_dec n = (n + (2 ^ 64 - 1)) mod 2 ^ 64"

text \<open>The loop that gives up entries of a source: count down, report what reaches zero.\<close>

fun release :: "(cfg_hash \<times> Config) list \<Rightarrow> (cfg_hash \<Rightarrow> nat) \<Rightarrow> Config list \<times> (cfg_hash \<Rightarrow> nat)" where
  "release [] hs = ([], hs)"
| "release ((h, cfg) # es) hs =
     (let hs1 = hs(h := uint_dec (hs h)); (removed, hs2) = release es hs1
      in (if hs1 h = 0 then cfg # removed else removed, hs2))"

text \<open>The loop over the configurations of a group: the entries of the source, the counters.\<close>

fun take_in :: "(Config \<Rightarrow> cfg_hash) \<Rightarrow> Config list \<Rightarrow> (cfg_hash \<times> Config) list \<Rightarrow> (cfg_hash \<Rightarrow> nat)
    \<Rightarrow> Config list \<times> (cfg_hash \<times> Config) list \<times> (cfg_hash \<Rightarrow> nat)" where
  "take_in Hash [] es hs = ([], es, hs)"
| "take_in Hash (cfg # cfgs) es hs =
     (let h = Hash cfg in
      if map_of es h \<noteq> None then take_in Hash cfgs es hs
      else let (added, es', hs') = take_in Hash cfgs (AList.update h cfg es) (hs(h := uint_inc (hs h)))
           in (if hs h = 0 then cfg # added else added, es', hs'))"

definition addEmpty :: "Cache \<Rightarrow> Group \<Rightarrow> (Config list \<times> Config list) \<times> Cache" where
  "addEmpty c gr =
     (case ca_sources c (g_Source gr) of
        None \<Rightarrow> (([], []), c)
      | Some es \<Rightarrow>
          let (removed, hs) = release es (ca_hashes c)
          in (([], removed), c\<lparr>ca_hashes := hs, ca_sources := (ca_sources c)(g_Source gr := None)\<rparr>))"

definition addNotEmpty ::
  "(Config \<Rightarrow> cfg_hash) \<Rightarrow> Cache \<Rightarrow> Group \<Rightarrow> (Config list \<times> Config list) \<times> Cache" where
  "addNotEmpty Hash c gr =
     (let old = ca_sources c (g_Source gr);
          es = (case old of None \<Rightarrow> [] | Some es \<Rightarrow> es);
          seen = set (map Hash (g_Configs gr));
          (added, es1, hs1) = take_in Hash (g_Configs gr) es (ca_hashes c)
      in if old = None
         then ((added, []), c\<lparr>ca_hashes := hs1, ca_sources := (ca_sources c)(g_Source gr \<mapsto> es1)\<rparr>)
         else let (removed, hs2) = release (filter (\<lambda>(h, cfg). h \<notin> seen) es1) hs1;
                  es2 = filter (\<lambda>(h, cfg). h \<in> seen) es1
              in ((added, removed),
                  c\<lparr>ca_hashes := hs2,
                    ca_sources := (ca_sources c)(g_Source gr := (if es2 = [] then None else Some es2))\<rparr>))"

definition Cache_Add ::
  "(Config \<Rightarrow> cfg_hash) \<Rightarrow> Cache \<Rightarrow> Group option \<Rightarrow> (Config list \<times> Config list) \<times> Cache" where
  "Cache_Add Hash c gr =
     (case gr of
        None \<Rightarrow> (([], []), c)
      | Some g \<Rightarrow> if length (g_Configs g) = 0 then addEmpty c g else addNotEmpty Hash c g)"

section \<open>The specification\<close>

text \<open>Seen from outside the cache is, for each source, the set of configurations it has; a
  group replaces that set.\<close>

definition offers :: "Cache \<Rightarrow> string \<Rightarrow> cfg_hash set" where
  "offers c s = (case ca_sources c s of None \<Rightarrow> {} | Some es \<Rightarrow> fst ` set es)"

definition live :: "(string \<Rightarrow> cfg_hash set) \<Rightarrow> cfg_hash set" where
  "live f = (\<Union>s. f s)"

definition sources_with :: "Cache \<Rightarrow> cfg_hash \<Rightarrow> string set" where
  "sources_with c h = {s. h \<in> offers c s}"

text \<open>The invariant: an entry is stored under its hash, a source has at least one, and a counter is
  the number of sources that have the configuration.\<close>

definition cache_inv :: "(Config \<Rightarrow> cfg_hash) \<Rightarrow> Cache \<Rightarrow> bool" where
  "cache_inv Hash c \<longleftrightarrow> finite (dom (ca_sources c))
     \<and> (\<forall>s es. ca_sources c s = Some es \<longrightarrow> es \<noteq> [] \<and> go_map es \<and> (\<forall>(h, cfg) \<in> set es. Hash cfg = h))
     \<and> (\<forall>h. ca_hashes c h = card (sources_with c h))"

section \<open>The loops\<close>

lemma uint_dec_pos:
  assumes "0 < n" and "n < 2 ^ 64"
  shows "uint_dec n = n - 1"
proof -
  have "n + (2 ^ 64 - 1) = (n - 1) + 2 ^ 64" using assms(1) by simp
  then show ?thesis using assms(2) unfolding uint_dec_def by (metis less_imp_diff_less mod_add_self2 mod_less)
qed

lemma uint_inc_small: "n + 1 < 2 ^ 64 \<Longrightarrow> uint_inc n = n + 1"
  by (simp add: uint_inc_def)

lemma release_spec:
  assumes "go_map es" and "\<forall>h \<in> fst ` set es. 0 < hs h \<and> hs h < 2 ^ 64"
  shows "release es hs = (map snd (filter (\<lambda>(h, cfg). hs h = 1) es),
     \<lambda>h. if h \<in> fst ` set es then hs h - 1 else hs h)"
  using assms
proof (induction es hs rule: release.induct)
  case (2 h cfg es hs)
  have d: "uint_dec (hs h) = hs h - 1" using "2.prems" by (intro uint_dec_pos) auto
  let ?hs = "hs(h := uint_dec (hs h))"
  have "release es ?hs = (map snd (filter (\<lambda>(k, cfg). ?hs k = 1) es),
      \<lambda>k. if k \<in> fst ` set es then ?hs k - 1 else ?hs k)"
    using "2.prems" by (intro "2.IH" [OF refl]) auto
  moreover have "filter (\<lambda>(k, cfg). ?hs k = 1) es = filter (\<lambda>(k, cfg). hs k = 1) es"
    using "2.prems"(1) by (intro filter_cong refl) (auto simp: image_iff)
  moreover have "0 < hs h" using "2.prems"(2) by simp
  then have "uint_dec (hs h) = 0 \<longleftrightarrow> hs h = 1" using d by auto
  ultimately show ?case using d "2.prems"(1) by (auto simp: Let_def)
qed auto

definition take_in_post :: "(Config \<Rightarrow> cfg_hash) \<Rightarrow> Config list \<Rightarrow> (cfg_hash \<times> Config) list \<Rightarrow> (cfg_hash \<Rightarrow> nat)
    \<Rightarrow> Config list \<Rightarrow> (cfg_hash \<times> Config) list \<Rightarrow> (cfg_hash \<Rightarrow> nat) \<Rightarrow> bool" where
  "take_in_post Hash cfgs es hs added es' hs' \<longleftrightarrow>
     go_map es' \<and> (\<forall>(h, cfg) \<in> set es'. Hash cfg = h)
     \<and> fst ` set es' = fst ` set es \<union> Hash ` set cfgs
     \<and> hs' = (\<lambda>h. if h \<in> Hash ` set cfgs - fst ` set es then hs h + 1 else hs h)
     \<and> distinct (map Hash added) \<and> set added \<subseteq> set cfgs
     \<and> Hash ` set added = {h \<in> Hash ` set cfgs - fst ` set es. hs h = 0}"

lemma set_update_entries: "set (AList.update k v es) \<subseteq> insert (k, v) (set es)"
  by (induction es) auto

lemma take_in_spec:
  assumes "take_in Hash cfgs es hs = (added, es', hs')"
    and "go_map es" and "\<forall>(h, cfg) \<in> set es. Hash cfg = h" and "\<forall>h \<in> Hash ` set cfgs - fst ` set es. hs h + 1 < 2 ^ 64"
  shows "take_in_post Hash cfgs es hs added es' hs'"
  using assms
proof (induction Hash cfgs es hs arbitrary: added es' hs' rule: take_in.induct)
  case (2 Hash cfg cfgs es hs)
  show ?case
  proof (cases "map_of es (Hash cfg) = None")
    case False
    then have "Hash cfg \<in> fst ` set es" by (simp add: map_of_eq_None_iff)
    moreover have "take_in_post Hash cfgs es hs added es' hs'"
      using False "2.prems" by (intro "2.IH"(1) [OF refl]) simp_all
    ultimately show ?thesis by (auto simp: take_in_post_def insert_absorb)
  next
    case True
    let ?h = "Hash cfg"
    have n: "?h \<notin> fst ` set es" using True by (simp add: map_of_eq_None_iff)
    have small: "hs ?h + 1 < 2 ^ 64" using "2.prems"(4) n by auto
    let ?es = "AList.update ?h cfg es" and ?hs = "hs(?h := uint_inc (hs ?h))"
    obtain added1 es1 hs1 where t: "take_in Hash cfgs ?es ?hs = (added1, es1, hs1)"
      using prod_cases3 by blast
    have eq: "added = (if hs ?h = 0 then cfg # added1 else added1)" "es' = es1" "hs' = hs1"
      using "2.prems"(1) True t by (auto simp: Let_def)
    have k: "fst ` set ?es = insert ?h (fst ` set es)" by (rule fst_set_update)
    have "take_in_post Hash cfgs ?es ?hs added1 es1 hs1"
    proof (rule "2.IH"(2) [OF refl _ t])
      show "\<not> map_of es ?h \<noteq> None" using True by simp
      show "go_map ?es" using "2.prems"(2) by (rule go_map_update)
      show "\<forall>(h, c) \<in> set ?es. Hash c = h"
        using "2.prems"(3) set_update_entries [of ?h cfg es] by auto
      show "\<forall>h \<in> Hash ` set cfgs - fst ` set ?es. ?hs h + 1 < 2 ^ 64"
        using "2.prems"(4) k by auto
    qed
    then show ?thesis using small n unfolding take_in_post_def k eq
      by (auto simp: uint_inc_small fun_eq_iff)
  qed
qed (simp add: take_in_post_def)

section \<open>Counting the sources of a configuration\<close>

definition count :: "(string \<Rightarrow> cfg_hash set) \<Rightarrow> cfg_hash \<Rightarrow> nat" where
  "count f h = card {s. h \<in> f s}"

lemma count_upd:
  assumes "finite {s. h \<in> f s}"
  shows "count (f(src := H)) h =
    (if h \<in> H - f src then count f h + 1 else if h \<in> f src - H then count f h - 1 else count f h)"
proof -
  have "{s. h \<in> (f(src := H)) s} = (if h \<in> H then insert src {s. h \<in> f s} else {s. h \<in> f s} - {src})"
    by auto
  then show ?thesis using assms by (simp add: count_def card_insert_if)
qed

lemma count_0: "finite {s. h \<in> f s} \<Longrightarrow> count f h = 0 \<longleftrightarrow> h \<notin> live f"
  by (auto simp: count_def live_def)

lemma live_gain:
  assumes "finite {s. h \<in> f s}"
  shows "h \<in> live (f(src := H)) - live f \<longleftrightarrow> h \<in> H - f src \<and> count f h = 0"
  using count_0 [OF assms] by (auto simp: live_def split: if_splits)

lemma live_loss:
  assumes "finite {s. h \<in> f s}"
  shows "h \<in> live f - live (f(src := H)) \<longleftrightarrow> h \<in> f src - H \<and> count f h = 1"
proof -
  have "finite {s. h \<in> (f(src := H)) s}"
    by (rule finite_subset [OF _ finite.insertI [OF assms, of src]]) (auto split: if_splits)
  from count_0 [where f = "f(src := H)", OF this] count_0 [OF assms] have "h \<in> live f - live (f(src := H)) \<longleftrightarrow>
      count f h \<noteq> 0 \<and> count (f(src := H)) h = 0" by (simp del: fun_upd_apply)
  moreover have "h \<in> f src \<Longrightarrow> count f h \<noteq> 0" using count_0 [OF assms] by (auto simp: live_def)
  ultimately show ?thesis unfolding count_upd [OF assms] by auto
qed

section \<open>Correctness\<close>

lemma inv_facts:
  assumes "cache_inv Hash c"
  shows "finite {s. h \<in> offers c s}" and "ca_hashes c h = count (offers c) h"
    and "ca_hashes c h \<le> card (dom (ca_sources c))"
    and "h \<in> offers c s \<Longrightarrow> 0 < ca_hashes c h"
proof -
  have sub: "{s. h \<in> offers c s} \<subseteq> dom (ca_sources c)" by (auto simp: offers_def split: option.splits)
  have "finite (dom (ca_sources c))" using assms by (simp add: cache_inv_def)
  then show f: "finite {s. h \<in> offers c s}" using sub finite_subset by blast
  show c: "ca_hashes c h = count (offers c) h"
    using assms by (simp add: cache_inv_def sources_with_def count_def)
  show "ca_hashes c h \<le> card (dom (ca_sources c))"
    unfolding c count_def by (rule card_mono [OF _ sub]) (use assms in \<open>simp add: cache_inv_def\<close>)
  show "0 < ca_hashes c h" if "h \<in> offers c s"
    unfolding c using count_0 [OF f] that by (auto simp: live_def)
qed

text \<open>What an operation promises: the group replaces what its source offered, and the two lists
  are the difference between what was live and what is.\<close>

definition add_post ::
  "(Config \<Rightarrow> cfg_hash) \<Rightarrow> Cache \<Rightarrow> Group \<Rightarrow> Config list \<Rightarrow> Config list \<Rightarrow> Cache \<Rightarrow> bool" where
  "add_post Hash c gr added removed c' \<longleftrightarrow> cache_inv Hash c'
     \<and> offers c' = (offers c)(g_Source gr := Hash ` set (g_Configs gr))
     \<and> distinct (map Hash added) \<and> Hash ` set added = live (offers c') - live (offers c)
     \<and> distinct (map Hash removed) \<and> Hash ` set removed = live (offers c) - live (offers c')"

text \<open>The new state, once its parts are known.\<close>

lemma cache_invI:
  assumes inv: "cache_inv Hash c"
    and src: "ca_sources c' = (ca_sources c)(src := v)"
    and v: "\<And>es. v = Some es \<Longrightarrow> es \<noteq> [] \<and> go_map es \<and> (\<forall>(h, cfg) \<in> set es. Hash cfg = h)"
    and off: "offers c' = (offers c)(src := H)"
    and hs: "\<And>h. ca_hashes c' h = (if h \<in> H - offers c src then ca_hashes c h + 1
               else if h \<in> offers c src - H then ca_hashes c h - 1 else ca_hashes c h)"
  shows "cache_inv Hash c'"
proof -
  have "ca_hashes c' h = card (sources_with c' h)" for h
    using hs [of h] count_upd [OF inv_facts(1) [OF inv, of h], of src H] inv_facts(2) [OF inv, of h]
    by (simp add: sources_with_def off count_def)
  then show ?thesis using inv v by (simp add: cache_inv_def src)
qed

lemma offers_upd: "ca_sources c' = (ca_sources c)(src := v) \<Longrightarrow>
   offers c' = (offers c)(src := (case v of None \<Rightarrow> {} | Some es \<Rightarrow> fst ` set es))"
  by (simp add: offers_def fun_eq_iff)

lemma hashes_of_entries:
  assumes "go_map es" and "\<forall>(h, cfg) \<in> set es. Hash cfg = h"
  shows "map (\<lambda>e. Hash (snd e)) es = map fst es" "Hash ` snd ` set es = fst ` set es"
proof -
  show e: "map (\<lambda>e. Hash (snd e)) es = map fst es" using assms(2) by (auto intro!: map_cong)
  from arg_cong [OF e, of set] show "Hash ` snd ` set es = fst ` set es" by (simp add: image_image)
qed

lemma released_hashes:
  assumes "go_map es" and "\<forall>(h, cfg) \<in> set es. Hash cfg = h"
  shows "distinct (map Hash (map snd (filter (\<lambda>(h, cfg). P h) es)))"
    and "Hash ` set (map snd (filter (\<lambda>(h, cfg). P h) es)) = {h \<in> fst ` set es. P h}"
proof -
  let ?es = "filter (\<lambda>(h, cfg). P h) es"
  have d: "go_map ?es" using assms(1) by (induction es) (auto simp: image_iff)
  have h: "\<forall>(h, cfg) \<in> set ?es. Hash cfg = h" using assms(2) by auto
  show "distinct (map Hash (map snd ?es))" unfolding map_map comp_def hashes_of_entries(1) [OF d h] by (rule d)
  show "Hash ` set (map snd ?es) = {h \<in> fst ` set es. P h}"
    using hashes_of_entries(2) [OF d h] by (auto simp: image_iff)
qed

lemma addEmpty_post:
  assumes inv: "cache_inv Hash c" and small: "card (dom (ca_sources c)) < 2 ^ 64"
    and "g_Configs gr = []" and eq: "addEmpty c gr = ((added, removed), c')"
  shows "add_post Hash c gr added removed c'"
proof (cases "ca_sources c (g_Source gr)")
  case None
  then have "(offers c)(g_Source gr := {}) = offers c" by (simp add: offers_def fun_eq_iff)
  then show ?thesis using None assms by (simp add: addEmpty_def add_post_def)
next
  case (Some es)
  have e: "go_map es" "\<forall>(h, cfg) \<in> set es. Hash cfg = h"
    using inv Some by (auto simp: cache_inv_def)
  have o: "offers c (g_Source gr) = fst ` set es" using Some by (simp add: offers_def)
  have "\<forall>h \<in> fst ` set es. 0 < ca_hashes c h \<and> ca_hashes c h < 2 ^ 64"
    using inv_facts(3,4) [OF inv] small o le_less_trans by blast
  note rel = release_spec [OF e(1) this]
  have r: "added = []" "removed = map snd (filter (\<lambda>(h, cfg). ca_hashes c h = 1) es)"
    "ca_sources c' = (ca_sources c)(g_Source gr := None)"
    "ca_hashes c' = (\<lambda>h. if h \<in> fst ` set es then ca_hashes c h - 1 else ca_hashes c h)"
    using eq Some by (auto simp: addEmpty_def rel)
  have off: "offers c' = (offers c)(g_Source gr := {})" using offers_upd [OF r(3)] by simp
  have "cache_inv Hash c'" by (rule cache_invI [OF inv r(3) _ off]) (auto simp: r(4) o)
  moreover have "live (offers c') - live (offers c) = {}" unfolding off by (auto simp: live_def split: if_splits)
  moreover have "live (offers c) - live (offers c') = {h \<in> fst ` set es. ca_hashes c h = 1}"
    unfolding off using live_loss [OF inv_facts(1) [OF inv], of _ "g_Source gr" "{}"]
    by (auto simp: o inv_facts(2) [OF inv])
  ultimately show ?thesis
    using released_hashes [OF e, of "\<lambda>h. ca_hashes c h = 1"] off assms(3)
    by (simp add: add_post_def r(1,2))
qed

text \<open>Counting up what the group brings, then down what it no longer has.\<close>

lemma addNotEmpty_post:
  assumes inv: "cache_inv Hash c" and small: "card (dom (ca_sources c)) + 1 < 2 ^ 64"
    and ne: "g_Configs gr \<noteq> []" and eq: "addNotEmpty Hash c gr = ((added, removed), c')"
  shows "add_post Hash c gr added removed c'"
proof -
  define es where "es = (case ca_sources c (g_Source gr) of None \<Rightarrow> [] | Some es \<Rightarrow> es)"
  define H where "H = Hash ` set (g_Configs gr)"
  define es2 where "es2 = filter (\<lambda>(h, cfg). h \<in> H) (fst (snd (take_in Hash (g_Configs gr) es (ca_hashes c))))"
  have e: "go_map es" "\<forall>(h, cfg) \<in> set es. Hash cfg = h"
    using inv by (cases "ca_sources c (g_Source gr)"; force simp: cache_inv_def es_def)+
  have o: "offers c (g_Source gr) = fst ` set es" by (simp add: offers_def es_def split: option.splits)
  have b: "ca_hashes c h + 1 < 2 ^ 64" for h using inv_facts(3) [OF inv, of h] small by linarith
  obtain added1 es1 hs1 where t: "take_in Hash (g_Configs gr) es (ca_hashes c) = (added1, es1, hs1)"
    using prod_cases3 by blast
  have post: "take_in_post Hash (g_Configs gr) es (ca_hashes c) added1 es1 hs1"
    using b by (intro take_in_spec [OF t e]) simp
  have es1: "go_map es1" "\<forall>(h, cfg) \<in> set es1. Hash cfg = h" "fst ` set es1 = fst ` set es \<union> H"
    and hs1: "hs1 = (\<lambda>h. if h \<in> H - fst ` set es then ca_hashes c h + 1 else ca_hashes c h)"
    and ad: "distinct (map Hash added1)" "Hash ` set added1 = {h \<in> H - fst ` set es. ca_hashes c h = 0}"
    using post by (auto simp: take_in_post_def H_def)
  let ?old = "filter (\<lambda>(h, cfg). h \<notin> H) es1"
  have old: "go_map ?old" "\<forall>(h, cfg) \<in> set ?old. Hash cfg = h" "fst ` set ?old = fst ` set es - H"
  proof -
    show "go_map ?old" using es1(1) by (induction es1) (auto simp: image_iff)
    show "\<forall>(h, cfg) \<in> set ?old. Hash cfg = h" using es1(2) by auto
    have "fst ` set ?old = fst ` set es1 - H" by force
    then show "fst ` set ?old = fst ` set es - H" using es1(3) by auto
  qed
  have "\<forall>h \<in> fst ` set ?old. 0 < hs1 h \<and> hs1 h < 2 ^ 64"
  proof
    fix h assume "h \<in> fst ` set ?old"
    then have h: "h \<in> offers c (g_Source gr)" "h \<notin> H" unfolding old(3) o by auto
    then show "0 < hs1 h \<and> hs1 h < 2 ^ 64"
      using inv_facts(4) [OF inv h(1)] b [of h] by (simp add: hs1)
  qed
  note rel = release_spec [OF old(1) this]
  have new: "go_map es2" "\<forall>(h, cfg) \<in> set es2. Hash cfg = h" "fst ` set es2 = H"
  proof -
    show "go_map es2" using es1(1) unfolding es2_def t by (induction es1) (auto simp: image_iff)
    show "\<forall>(h, cfg) \<in> set es2. Hash cfg = h" using es1(2) by (auto simp: es2_def t)
    have "fst ` set es2 = fst ` set es1 \<inter> H" unfolding es2_def t by force
    then show "fst ` set es2 = H" using es1(3) by auto
  qed
  have "H \<noteq> {}" using ne by (simp add: H_def)
  then have ne2: "es2 \<noteq> []" using new(3) by auto
  have seen: "set (map Hash (g_Configs gr)) = H" by (simp add: H_def)
  have hs: "hs1' = (\<lambda>h. if h \<in> H - offers c (g_Source gr) then ca_hashes c h + 1
      else if h \<in> offers c (g_Source gr) - H then ca_hashes c h - 1 else ca_hashes c h)"
    if "hs1' = (\<lambda>h. if h \<in> fst ` set ?old then hs1 h - 1 else hs1 h)" for hs1'
    unfolding that old(3) hs1 o by (auto simp: fun_eq_iff)
  have r: "added = added1 \<and> removed = map snd (filter (\<lambda>(h, cfg). hs1 h = 1) ?old)
    \<and> ca_sources c' = (ca_sources c)(g_Source gr := Some es2)
    \<and> ca_hashes c' = (\<lambda>h. if h \<in> fst ` set ?old then hs1 h - 1 else hs1 h)"
  proof (cases "ca_sources c (g_Source gr)")
    case None
    then have "es = []" by (simp add: es_def)
    then have "fst ` set ?old = {}" unfolding old(3) by simp
    then have "?old = []" by (simp only: image_is_empty set_empty)
    moreover then have "es2 = es1" unfolding es2_def t by (auto simp: filter_empty_conv intro!: filter_True)
    ultimately show ?thesis using eq None t \<open>es = []\<close> by (auto simp: addNotEmpty_def Let_def)
  next
    case (Some es0)
    then have "es = es0" by (simp add: es_def)
    then show ?thesis using eq Some t rel ne2
      by (auto simp: addNotEmpty_def Let_def seen es2_def simp del: set_map)
  qed
  have off: "offers c' = (offers c)(g_Source gr := H)" using offers_upd [of c' c] r new(3) by simp
  have "cache_inv Hash c'"
    using hs r ne2 new by (intro cache_invI [OF inv _ _ off]) auto
  moreover have "live (offers c') - live (offers c) = {h \<in> H - fst ` set es. ca_hashes c h = 0}"
    unfolding off using live_gain [OF inv_facts(1) [OF inv], of _ "g_Source gr" H]
    by (auto simp: o inv_facts(2) [OF inv])
  moreover have "live (offers c) - live (offers c') = {h \<in> fst ` set ?old. hs1 h = 1}"
    unfolding off old(3) hs1 using live_loss [OF inv_facts(1) [OF inv], of _ "g_Source gr" H]
    by (auto simp: o inv_facts(2) [OF inv])
  ultimately show ?thesis
    using released_hashes [OF old(1,2), of "\<lambda>h. hs1 h = 1"] off ad r
    by (simp add: add_post_def H_def)
qed

lemma Cache_Add_post:
  assumes "cache_inv Hash c" and "card (dom (ca_sources c)) + 1 < 2 ^ 64"
    and "Cache_Add Hash c (Some gr) = ((added, removed), c')"
  shows "add_post Hash c gr added removed c'"
  using assms addEmpty_post [of Hash c gr added removed c'] addNotEmpty_post [of Hash c gr added removed c']
  by (auto simp: Cache_Add_def split: if_splits)

text \<open>
  C5.  The cache computes the difference.  From a state where every counter is the number of
  sources that have the configuration, a group replaces what its source offered and that
  invariant holds again (no counter wraps around); the configurations reported as added are
  exactly those no source had before, each once, and those reported as removed are exactly
  those no source has any more, each once.
\<close>

theorem Cache_Add_spec:
  assumes "cache_inv Hash c" and "card (dom (ca_sources c)) + 1 < 2 ^ 64"
    and "Cache_Add Hash c (Some gr) = ((added, removed), c')"
  shows "cache_inv Hash c' \<and> offers c' = (offers c)(g_Source gr := Hash ` set (g_Configs gr))
     \<and> distinct (map Hash added) \<and> Hash ` set added = live (offers c') - live (offers c)
     \<and> distinct (map Hash removed) \<and> Hash ` set removed = live (offers c) - live (offers c')"
  using Cache_Add_post [OF assms] by (simp add: add_post_def)

text \<open>Two configurations from two sources, with the length of the name as the hash.\<close>

definition named :: "string \<Rightarrow> Config" where
  "named s = [''name'' \<mapsto> VString s]"

definition name_hash :: "Config \<Rightarrow> cfg_hash" where
  "name_hash c = of_nat (length (Name c))"

definition two_sources :: Cache where
  "two_sources = \<lparr>ca_hashes = (\<lambda>_. 0)(1 := 2, 2 := 1),
     ca_sources = [''a'' \<mapsto> [(1, named ''x'')], ''b'' \<mapsto> [(1, named ''x''), (2, named ''xy'')]]\<rparr>"

lemma name_hash_named [simp]: "name_hash (named s) = of_nat (length s)"
  by (simp add: name_hash_def named_def Name_def get_string_def)

lemma two_sources_inv: "cache_inv name_hash two_sources"
proof -
  have s: "sources_with two_sources h = (if h = 1 then {''a'', ''b''} else if h = 2 then {''b''} else {})" for h
    by (auto simp: sources_with_def offers_def two_sources_def split: if_splits)
  have "card (sources_with two_sources h) = ca_hashes two_sources h" for h
    unfolding s by (simp add: two_sources_def)
  then show ?thesis by (auto simp: cache_inv_def two_sources_def split: if_splits)
qed

theorem Cache_Add_spec_witness:
  "\<exists>added removed c'. Cache_Add name_hash two_sources (Some \<lparr>g_Configs = [], g_Source = ''b''\<rparr>)
      = ((added, removed), c') \<and> cache_inv name_hash c' \<and> added = [] \<and> name_hash ` set removed = {2}"
proof -
  let ?g = "\<lparr>g_Configs = [], g_Source = ''b''\<rparr>"
  obtain added removed c' where e: "Cache_Add name_hash two_sources (Some ?g) = ((added, removed), c')"
    by (metis surj_pair)
  have "card (dom (ca_sources two_sources)) + 1 < 2 ^ 64" by (simp add: two_sources_def)
  note spec = Cache_Add_spec [OF two_sources_inv this e]
  have "added = []" using e by (auto simp: Cache_Add_def addEmpty_def two_sources_def split: prod.splits)
  moreover have "live (offers two_sources) = {1, 2}"
    by (auto simp: live_def offers_def two_sources_def split: if_splits)
  moreover have "live ((offers two_sources)(''b'' := {})) = {1}"
    by (auto simp: live_def offers_def two_sources_def split: if_splits)
  ultimately show ?thesis using spec e by auto
qed

end
