(* ===== verification/Services.thy ===== *)
theory Services
  imports Confgroup
begin

text \<open>
  The interfaces of \<open>agent/jobmgr/di.go\<close>: what the job manager asks of the lock, of the status
  file and of dynamic configuration.  Each interface is a locale: the operations the manager
  calls, an observation of the provider's state, and the laws the provider promises.  The
  providers discharge them in \<open>Filelock\<close>, \<open>Filestatus\<close> and \<open>Dyncfg\<close>.
\<close>

record VirtualNode =
  vn_GUID :: string
  vn_Hostname :: string
  vn_Labels :: "(string \<times> string) list"

type_synonym 'l lock_fun = "string \<Rightarrow> 'l \<Rightarrow> (bool \<times> go_error option) \<times> 'l"
type_synonym 'l unlock_fun = "string \<Rightarrow> 'l \<Rightarrow> go_error option \<times> 'l"

text \<open>\<open>FileLocker\<close>.  The laws hold for the names that can be the name of a lock file.\<close>

locale file_locker =
  fixes Lock :: "'l lock_fun" and Unlock :: "'l unlock_fun"
    and held :: "'l \<Rightarrow> string set" and invar :: "'l \<Rightarrow> bool" and lockable :: "string \<Rightarrow> bool"
  assumes Lock_invar: "invar l \<Longrightarrow> invar (snd (Lock n l))"
    and Unlock_invar: "invar l \<Longrightarrow> invar (snd (Unlock n l))"
    and Lock_held: "invar l \<Longrightarrow> lockable n \<Longrightarrow> held (snd (Lock n l))
      = (if fst (fst (Lock n l)) then insert n (held l) else held l)"
    and Unlock_held: "invar l \<Longrightarrow> lockable n \<Longrightarrow> held (snd (Unlock n l)) = held l - {n}"
begin

lemma Lock_ok: "invar l \<Longrightarrow> lockable n \<Longrightarrow> Lock n l = ((True, e), l') \<Longrightarrow> held l' = insert n (held l)"
  using Lock_held [of l n] by auto

lemma Lock_failed: "invar l \<Longrightarrow> lockable n \<Longrightarrow> Lock n l = ((False, e), l') \<Longrightarrow> held l' = held l"
  using Lock_held [of l n] by auto

text \<open>A lock taken and released leaves nothing behind.\<close>

lemma Lock_Unlock:
  "invar l \<Longrightarrow> lockable n \<Longrightarrow> held (snd (Unlock n (snd (Lock n l)))) = held l - {n}"
  using Lock_held [of l n] Unlock_held [of "snd (Lock n l)" n] Lock_invar [of l n] by auto

text \<open>Releasing the locks of a list of names.\<close>

lemma Unlock_all:
  assumes "\<forall>n \<in> set ns. lockable n" and "invar l"
  shows "held (fold (\<lambda>n l. snd (Unlock n l)) ns l) = held l - set ns
     \<and> invar (fold (\<lambda>n l. snd (Unlock n l)) ns l)"
  using assms by (induction ns arbitrary: l) (auto simp: Unlock_held Unlock_invar)

end

text \<open>\<open>StatusSaver\<close> with \<open>StatusStore\<close>: a map from configurations, up to the identity the store
  knows them by, to statuses.\<close>

locale status_store =
  fixes Save :: "Config \<Rightarrow> string \<Rightarrow> 's \<Rightarrow> 's" and Remove :: "Config \<Rightarrow> 's \<Rightarrow> 's"
    and status :: "'s \<Rightarrow> Config \<Rightarrow> string option" and same :: "Config \<Rightarrow> Config \<Rightarrow> bool"
  assumes Save_status: "status (Save c v s) d = (if same c d then Some v else status s d)"
    and Remove_status: "status (Remove c s) d = (if same c d then None else status s d)"
    and same_refl: "same c c"
begin

text \<open>The last call for a configuration decides.\<close>

lemma Save_same: "status (Save c v s) c = Some v" "status (Remove c s) c = None"
  by (simp_all add: Save_status Remove_status same_refl)

lemma Save_other: "\<not> same c d \<Longrightarrow> status (Save c v s) d = status s d"
  "\<not> same c d \<Longrightarrow> status (Remove c s) d = status s d"
  by (simp_all add: Save_status Remove_status)

end

text \<open>\<open>Dyncfg\<close>: which configurations are registered.  Reporting a status registers nothing.\<close>

locale config_registry =
  fixes Register :: "Config \<Rightarrow> 'd \<Rightarrow> 'd" and Unregister :: "Config \<Rightarrow> 'd \<Rightarrow> 'd"
    and UpdateStatus :: "Config \<Rightarrow> string \<Rightarrow> string \<Rightarrow> 'd \<Rightarrow> 'd"
    and registered :: "'d \<Rightarrow> string \<Rightarrow> Config option" and reg_key :: "Config \<Rightarrow> string"
  assumes Register_reg: "registered (Register c d) = (registered d)(reg_key c \<mapsto> c)"
    and Unregister_reg: "registered (Unregister c d) = (registered d)(reg_key c := None)"
    and UpdateStatus_reg: "registered (UpdateStatus c s p d) = registered d"

end
