(* ===== verification/Jobmgr.thy ===== *)
theory Jobmgr
  imports Job_Facts Conf_Cache Services
begin

text \<open>
  \<open>agent/jobmgr\<close>: the manager that creates jobs from configurations, detects, starts, retries and
  stops them.  What it calls through the interfaces of \<open>di.go\<close>, and the collector modules, are
  the fields of \<open>services\<close>.  A job in the queue comes with the methods of its collector.

  A retry is a goroutine that waits and then sends the configuration again.  The model keeps
  the goroutines in \<open>mg_tasks\<close>, each with a number, its configuration and whether its context
  was cancelled; the table of retrying jobs refers to them by number.
\<close>

section \<open>Data\<close>

text \<open>\<open>module.Creator\<close>: the module to create, its methods, and the defaults of its jobs.\<close>

record Defaults =
  dt_UpdateEvery :: int
  dt_AutoDetectionRetry :: int
  dt_Priority :: int
  dt_Disabled :: bool

record 'm Creator =
  cr_Defaults :: Defaults
  cr_Create :: 'm
  cr_ops :: "'m Module"
  cr_JobConfigSchema :: string

text \<open>\<open>module.Registry.Register\<close> panics on a name it has.\<close>

definition Modules_Register :: "(string \<rightharpoonup> 'm Creator) \<Rightarrow> string \<Rightarrow> 'm Creator \<Rightarrow> (string \<rightharpoonup> 'm Creator) option" where
  "Modules_Register r name creator = (if r name \<noteq> None then None else Some (r(name \<mapsto> creator)))"

record ('m, 'l, 's, 'd) services =
  sv_env :: env
  sv_k8s :: bool
  sv_Hash :: "Config \<Rightarrow> cfg_hash"
  sv_unmarshal :: "Config \<Rightarrow> 'm \<Rightarrow> go_error option \<times> 'm"
  sv_Lock :: "'l lock_fun"
  sv_Unlock :: "'l unlock_fun"
  sv_Save :: "Config \<Rightarrow> string \<Rightarrow> 's \<Rightarrow> 's"
  sv_Remove :: "Config \<Rightarrow> 's \<Rightarrow> 's"
  sv_Contains :: "Config \<Rightarrow> string list \<Rightarrow> bool"
  sv_Lookup :: "string \<Rightarrow> VirtualNode option"
  sv_Register :: "Config \<Rightarrow> 'd \<Rightarrow> 'd"
  sv_Unregister :: "Config \<Rightarrow> 'd \<Rightarrow> 'd"
  sv_UpdateStatus :: "Config \<Rightarrow> string \<Rightarrow> string \<Rightarrow> 'd \<Rightarrow> 'd"

record retryTask =
  rt_cancel :: nat
  rt_timeout :: int
  rt_retries :: int

record ('m, 'l, 's, 'd) Manager =
  mg_PluginName :: string
  mg_Out :: "command list"
  mg_Modules :: "string \<rightharpoonup> 'm Creator"
  mg_FileLock :: 'l
  mg_StatusSaver :: 's
  mg_Dyncfg :: 'd
  mg_confGroupCache :: Cache
  mg_runningJobs :: "(string \<times> bool) list"
  mg_retryingJobs :: "(cfg_hash \<times> retryTask) list"
  mg_queue :: "('m Module \<times> 'm Job) list"
  mg_tasks :: "(nat \<times> Config \<times> bool) list"
  mg_next :: nat

definition NewManager :: "string \<Rightarrow> (string \<rightharpoonup> 'm Creator) \<Rightarrow> 'l \<Rightarrow> 's \<Rightarrow> 'd \<Rightarrow> ('m, 'l, 's, 'd) Manager" where
  "NewManager plugin modules l s d = \<lparr>mg_PluginName = plugin, mg_Out = [], mg_Modules = modules,
     mg_FileLock = l, mg_StatusSaver = s, mg_Dyncfg = d, mg_confGroupCache = NewCache,
     mg_runningJobs = [], mg_retryingJobs = [], mg_queue = [], mg_tasks = [], mg_next = 0\<rparr>"

definition jobStatusRunning :: string where "jobStatusRunning = ''running''"
definition jobStatusRetrying :: string where "jobStatusRetrying = ''retrying''"
definition jobStatusStoppedFailed :: string where "jobStatusStoppedFailed = ''stopped_failed''"
definition jobStatusStoppedDupLocal :: string where "jobStatusStoppedDupLocal = ''stopped_duplicate_local''"
definition jobStatusStoppedDupGlobal :: string where "jobStatusStoppedDupGlobal = ''stopped_duplicate_global''"
definition jobStatusStoppedRegErr :: string where "jobStatusStoppedRegErr = ''stopped_registration_error''"
definition jobStatusStoppedCreateErr :: string where "jobStatusStoppedCreateErr = ''stopped_creation_error''"

section \<open>The tables of running and retrying jobs\<close>

definition running_put :: "Config \<Rightarrow> (string \<times> bool) list \<Rightarrow> (string \<times> bool) list" where
  "running_put cfg c = AList.update (FullName cfg) True c"

definition running_remove :: "Config \<Rightarrow> (string \<times> bool) list \<Rightarrow> (string \<times> bool) list" where
  "running_remove cfg c = AList.delete (FullName cfg) c"

definition running_has :: "Config \<Rightarrow> (string \<times> bool) list \<Rightarrow> bool" where
  "running_has cfg c = (case map_of c (FullName cfg) of None \<Rightarrow> False | Some b \<Rightarrow> b)"

definition retrying_put ::
  "(Config \<Rightarrow> cfg_hash) \<Rightarrow> Config \<Rightarrow> retryTask \<Rightarrow> (cfg_hash \<times> retryTask) list \<Rightarrow> (cfg_hash \<times> retryTask) list" where
  "retrying_put Hash cfg retry c = AList.update (Hash cfg) retry c"

definition retrying_remove ::
  "(Config \<Rightarrow> cfg_hash) \<Rightarrow> Config \<Rightarrow> (cfg_hash \<times> retryTask) list \<Rightarrow> (cfg_hash \<times> retryTask) list" where
  "retrying_remove Hash cfg c = AList.delete (Hash cfg) c"

definition retrying_lookup ::
  "(Config \<Rightarrow> cfg_hash) \<Rightarrow> Config \<Rightarrow> (cfg_hash \<times> retryTask) list \<Rightarrow> retryTask option" where
  "retrying_lookup Hash cfg c = map_of c (Hash cfg)"

definition cancel_task :: "nat \<Rightarrow> (nat \<times> Config \<times> bool) list \<Rightarrow> (nat \<times> Config \<times> bool) list" where
  "cancel_task k ts = map (\<lambda>(i, cfg, c). (i, cfg, c \<or> i = k)) ts"

section \<open>The queue of started jobs\<close>

text \<open>\<open>Stop\<close> hands the stop request to the main loop of the job and waits until it has cleaned up.\<close>

definition Stop :: "env \<Rightarrow> 'm Module \<times> 'm Job \<Rightarrow> 'm Job" where
  "Stop e qj = (case Start e (fst qj) (snd qj) [StopRequested] of Some (fin, j) \<Rightarrow> j | None \<Rightarrow> snd qj)"

text \<open>What a job has written goes to the output of the manager.\<close>

definition send_output :: "'m Job \<Rightarrow> ('m, 'l, 's, 'd) Manager \<Rightarrow> ('m, 'l, 's, 'd) Manager" where
  "send_output j m = m\<lparr>mg_Out := mg_Out m @ j_out j\<rparr>"

definition startJob :: "'m Module \<Rightarrow> 'm Job \<Rightarrow> ('m, 'l, 's, 'd) Manager \<Rightarrow> ('m, 'l, 's, 'd) Manager" where
  "startJob ops job m = m\<lparr>mg_queue := mg_queue m @ [(ops, job)]\<rparr>"

fun index_job :: "string \<Rightarrow> ('m Module \<times> 'm Job) list \<Rightarrow> nat option" where
  "index_job name [] = None"
| "index_job name (q # qs) = (if j_fullName (snd q) = name then Some 0 else map_option Suc (index_job name qs))"

definition stopJob :: "env \<Rightarrow> string \<Rightarrow> ('m, 'l, 's, 'd) Manager \<Rightarrow> ('m, 'l, 's, 'd) Manager" where
  "stopJob e name m =
     (case index_job name (mg_queue m) of
        None \<Rightarrow> m
      | Some idx \<Rightarrow>
          (send_output (Stop e (mg_queue m ! idx)) m)\<lparr>mg_queue := remove_at idx (mg_queue m)\<rparr>)"

definition stopRunningJobs :: "env \<Rightarrow> ('m, 'l, 's, 'd) Manager \<Rightarrow> ('m, 'l, 's, 'd) Manager" where
  "stopRunningJobs e m = (fold (\<lambda>q. send_output (Stop e q)) (mg_queue m) m)\<lparr>mg_queue := []\<rparr>"

text \<open>One tick: a job whose loop is waiting takes it, with the times of its run; a busy one
  (\<^const>\<open>None\<close>) skips it.  \<^const>\<open>None\<close> as the result is a panic.\<close>

fun tick_jobs :: "env \<Rightarrow> int \<Rightarrow> (int \<times> int) option list \<Rightarrow> ('m Module \<times> 'm Job) list
    \<Rightarrow> (command list \<times> ('m Module \<times> 'm Job) list) option" where
  "tick_jobs e clock ts [] = Some ([], [])"
| "tick_jobs e clock ts (q # qs) =
     (case (case ts of Some (now, took) # _ \<Rightarrow> Start e (fst q) (snd q) [Ticked clock now took]
            | _ \<Rightarrow> Some (False, snd q)) of
        None \<Rightarrow> None
      | Some (fin, j) \<Rightarrow>
          (case tick_jobs e clock (tl ts) qs of
             None \<Rightarrow> None
           | Some (out, qs') \<Rightarrow> Some (j_out j @ out, (fst q, j\<lparr>j_out := []\<rparr>) # qs')))"

definition notifyRunningJobs :: "env \<Rightarrow> int \<Rightarrow> (int \<times> int) option list \<Rightarrow> ('m, 'l, 's, 'd) Manager
    \<Rightarrow> ('m, 'l, 's, 'd) Manager option" where
  "notifyRunningJobs e clock ts m =
     map_option (\<lambda>(out, qs). m\<lparr>mg_Out := mg_Out m @ out, mg_queue := qs\<rparr>) (tick_jobs e clock ts (mg_queue m))"

section \<open>Creating a job\<close>

definition isTooManyOpenFiles :: "go_error option \<Rightarrow> bool" where
  "isTooManyOpenFiles err = (case err of None \<Rightarrow> False | Some s \<Rightarrow> Contains s ''too many open files'')"

definition isStockConfig :: "Config \<Rightarrow> bool" where
  "isStockConfig cfg \<longleftrightarrow> HasPrefix (Provider cfg) ''file'' \<and> \<not> Contains (Source cfg) ''/etc/netdata''"

fun string_labels :: "(gval \<times> gval) list \<Rightarrow> (string \<times> string) list" where
  "string_labels [] = []"
| "string_labels ((VString n, VString v) # m) = AList.update n v (string_labels m)"
| "string_labels (_ # m) = string_labels m"

definition createJob :: "('m, 'l, 's, 'd) services \<Rightarrow> Config \<Rightarrow> ('m, 'l, 's, 'd) Manager
    \<Rightarrow> go_error + 'm Module \<times> 'm Job" where
  "createJob sv cfg m =
     (case mg_Modules m (Module_name cfg) of
        None \<Rightarrow> Inl (''can not find '' @ Module_name cfg @ '' module'')
      | Some creator \<Rightarrow>
          (case sv_unmarshal sv cfg (cr_Create creator) of
             (Some err, md) \<Rightarrow> Inl err
           | (None, md) \<Rightarrow>
               let jobCfg = \<lparr>jc_PluginName = mg_PluginName m, jc_Name = Name cfg, jc_ModuleName = Module_name cfg,
                     jc_FullName = FullName cfg, jc_Module = md, jc_Labels = string_labels (Labels cfg),
                     jc_UpdateEvery = UpdateEvery cfg, jc_AutoDetectEvery = AutoDetectionRetry cfg,
                     jc_Priority = Priority cfg, jc_IsStock = isStockConfig cfg, jc_VnodeGUID = [],
                     jc_VnodeHostname = [], jc_VnodeLabels = []\<rparr>
               in if Vnode cfg \<noteq> []
                  then (case sv_Lookup sv (Vnode cfg) of
                          None \<Rightarrow> Inl (''vnode '' @ [sq] @ Vnode cfg @ [sq] @ '' is not found'')
                        | Some n \<Rightarrow> Inr (cr_ops creator, NewJob (jobCfg\<lparr>jc_VnodeGUID := vn_GUID n,
                             jc_VnodeHostname := vn_Hostname n, jc_VnodeLabels := vn_Labels n\<rparr>)))
                  else Inr (cr_ops creator, NewJob jobCfg)))"

definition detection :: "env \<Rightarrow> 'm Module \<Rightarrow> 'm Job \<Rightarrow> string \<times> 'm Job" where
  "detection e ops job =
     (let (ok, job') = AutoDetection e ops job
      in (if \<not> ok then (if RetryAutoDetection job' then jobStatusRetrying else jobStatusStoppedFailed)
          else jobStatusRunning, job'))"

section \<open>Adding and removing a configuration\<close>

definition save :: "('m, 'l, 's, 'd) services \<Rightarrow> Config \<Rightarrow> string \<Rightarrow> ('m, 'l, 's, 'd) Manager \<Rightarrow> ('m, 'l, 's, 'd) Manager" where
  "save sv cfg st m = m\<lparr>mg_StatusSaver := sv_Save sv cfg st (mg_StatusSaver m)\<rparr>"

definition report :: "('m, 'l, 's, 'd) services \<Rightarrow> Config \<Rightarrow> string \<Rightarrow> string \<Rightarrow> ('m, 'l, 's, 'd) Manager
    \<Rightarrow> ('m, 'l, 's, 'd) Manager" where
  "report sv cfg st payload m = m\<lparr>mg_Dyncfg := sv_UpdateStatus sv cfg st payload (mg_Dyncfg m)\<rparr>"

definition cancel_retry :: "('m, 'l, 's, 'd) services \<Rightarrow> Config \<Rightarrow> retryTask \<Rightarrow> ('m, 'l, 's, 'd) Manager
    \<Rightarrow> ('m, 'l, 's, 'd) Manager" where
  "cancel_retry sv cfg task m = m\<lparr>mg_tasks := cancel_task (rt_cancel task) (mg_tasks m),
     mg_retryingJobs := retrying_remove (sv_Hash sv) cfg (mg_retryingJobs m)\<rparr>"

text \<open>The retry settings of a new job.\<close>

definition recovery :: "('m, 'l, 's, 'd) services \<Rightarrow> Config \<Rightarrow> retryTask option \<Rightarrow> 'm Job \<Rightarrow> 'm Job" where
  "recovery sv cfg retry job =
     (case retry of
        Some task \<Rightarrow> job\<lparr>j_AutoDetectEvery := rt_timeout task, j_AutoDetectTries := rt_retries task\<rparr>
      | None \<Rightarrow>
          if j_AutoDetectEvery job = 0 then
            (if sv_Contains sv cfg [jobStatusRunning, jobStatusRetrying]
             then job\<lparr>j_AutoDetectEvery := 30, j_AutoDetectTries := 11\<rparr>
             else if sv_k8s sv \<and> Provider cfg = ''file watcher''
             then job\<lparr>j_AutoDetectEvery := 10, j_AutoDetectTries := 7\<rparr>
             else job)
          else job)"

text \<open>The deferred cleanup of a job that was not started.\<close>

definition discard :: "env \<Rightarrow> 'm Job \<Rightarrow> ('m, 'l, 's, 'd) Manager \<Rightarrow> ('m, 'l, 's, 'd) Manager" where
  "discard e job m = send_output (Cleanup e job) m"

definition put_retry :: "('m, 'l, 's, 'd) services \<Rightarrow> Config \<Rightarrow> 'm Job \<Rightarrow> ('m, 'l, 's, 'd) Manager
    \<Rightarrow> ('m, 'l, 's, 'd) Manager" where
  "put_retry sv cfg job m = m\<lparr>
     mg_retryingJobs := retrying_put (sv_Hash sv) cfg \<lparr>rt_cancel = mg_next m,
       rt_timeout = j_AutoDetectEvery job, rt_retries = j_AutoDetectTries job\<rparr> (mg_retryingJobs m),
     mg_tasks := mg_tasks m @ [(mg_next m, cfg, False)], mg_next := Suc (mg_next m)\<rparr>"

text \<open>The switch on the outcome of detection.\<close>

definition settle :: "('m, 'l, 's, 'd) services \<Rightarrow> Config \<Rightarrow> 'm Module \<Rightarrow> string \<Rightarrow> 'm Job
    \<Rightarrow> ('m, 'l, 's, 'd) Manager \<Rightarrow> ('m, 'l, 's, 'd) Manager" where
  "settle sv cfg ops status job m =
     (if status = jobStatusRunning then
        (let ((ok, err), l) = sv_Lock sv (FullName cfg) (mg_FileLock m); m1 = m\<lparr>mg_FileLock := l\<rparr>
         in if ok \<or> err \<noteq> None \<and> \<not> isTooManyOpenFiles err
            then startJob ops job (report sv cfg ''running'' [] (save sv cfg jobStatusRunning
                   (m1\<lparr>mg_runningJobs := running_put cfg (mg_runningJobs m1)\<rparr>)))
            else if isTooManyOpenFiles err
            then discard (sv_env sv) job
                   (report sv cfg ''error'' ''too many open files'' (save sv cfg jobStatusStoppedRegErr m1))
            else discard (sv_env sv) job
                   (report sv cfg ''error'' ''duplicate, served by another plugin''
                     (save sv cfg jobStatusStoppedDupGlobal m1)))
      else if status = jobStatusRetrying then
        discard (sv_env sv) job
          (report sv cfg ''error'' ''job detection failed, will retry later''
            (save sv cfg jobStatusRetrying (put_retry sv cfg job m)))
      else if status = jobStatusStoppedFailed then
        discard (sv_env sv) job
          (report sv cfg ''error'' ''job detection failed, stopping it'' (save sv cfg jobStatusStoppedFailed m))
      else discard (sv_env sv) job m)"

definition addConfig :: "('m, 'l, 's, 'd) services \<Rightarrow> Config \<Rightarrow> ('m, 'l, 's, 'd) Manager
    \<Rightarrow> ('m, 'l, 's, 'd) Manager" where
  "addConfig sv cfg m0 =
     (let retry = retrying_lookup (sv_Hash sv) cfg (mg_retryingJobs m0);
          m = (case retry of
                 Some task \<Rightarrow> cancel_retry sv cfg task m0
               | None \<Rightarrow> m0\<lparr>mg_Dyncfg := sv_Register sv cfg (mg_Dyncfg m0)\<rparr>)
      in if running_has cfg (mg_runningJobs m)
         then report sv cfg ''error'' ''duplicate, served by another job'' (save sv cfg jobStatusStoppedDupLocal m)
         else (case createJob sv cfg m of
                 Inl err \<Rightarrow> report sv cfg ''error'' (''build error: '' @ err) (save sv cfg jobStatusStoppedCreateErr m)
               | Inr (ops, job) \<Rightarrow>
                   let (status, job') = detection (sv_env sv) ops (recovery sv cfg retry job)
                   in settle sv cfg ops status job' m))"

definition removeConfig :: "('m, 'l, 's, 'd) services \<Rightarrow> Config \<Rightarrow> ('m, 'l, 's, 'd) Manager
    \<Rightarrow> ('m, 'l, 's, 'd) Manager" where
  "removeConfig sv cfg m0 =
     (let m1 = (if running_has cfg (mg_runningJobs m0)
                then let m = stopJob (sv_env sv) (FullName cfg) m0
                     in m\<lparr>mg_FileLock := snd (sv_Unlock sv (FullName cfg) (mg_FileLock m)),
                          mg_runningJobs := running_remove cfg (mg_runningJobs m)\<rparr>
                else m0);
          m2 = (case retrying_lookup (sv_Hash sv) cfg (mg_retryingJobs m1) of
                  Some task \<Rightarrow> cancel_retry sv cfg task m1
                | None \<Rightarrow> m1)
      in m2\<lparr>mg_StatusSaver := sv_Remove sv cfg (mg_StatusSaver m2),
            mg_Dyncfg := sv_Unregister sv cfg (mg_Dyncfg m2)\<rparr>)"

definition mgr_cleanup :: "('m, 'l, 's, 'd) services \<Rightarrow> ('m, 'l, 's, 'd) Manager \<Rightarrow> ('m, 'l, 's, 'd) Manager" where
  "mgr_cleanup sv m =
     (let m1 = m\<lparr>mg_tasks := fold (\<lambda>(h, task). cancel_task (rt_cancel task)) (mg_retryingJobs m) (mg_tasks m)\<rparr>;
          m2 = m1\<lparr>mg_FileLock := fold (\<lambda>n l. snd (sv_Unlock sv n l)) (map fst (mg_runningJobs m1)) (mg_FileLock m1)\<rparr>
      in stopRunningJobs (sv_env sv) m2)"

section \<open>The goroutines\<close>

text \<open>What the goroutine of \<open>runConfigGroupsHandling\<close> still has to send for the group it is at.\<close>

datatype change = Removed Config | Added Config

record ('m, 'l, 's, 'd) system =
  sy_mgr :: "('m, 'l, 's, 'd) Manager"
  sy_pending :: "change list"

definition receive_group :: "('m, 'l, 's, 'd) services \<Rightarrow> Group \<Rightarrow> ('m, 'l, 's, 'd) Manager
    \<Rightarrow> change list \<times> ('m, 'l, 's, 'd) Manager" where
  "receive_group sv gr m =
     (let ((added, removed), c) = Cache_Add (sv_Hash sv) (mg_confGroupCache m) (Some gr)
      in (map Removed removed @ map Added added, m\<lparr>mg_confGroupCache := c\<rparr>))"

text \<open>The steps of the three goroutines of \<open>Run\<close> and of the retry goroutines.  A retry goroutine whose
  context was cancelled may still find its channel ready first: the select then sends.  The groups
  that come in have configurations that satisfy \<open>allowed\<close>.\<close>

inductive mgr_step :: "('m, 'l, 's, 'd) services \<Rightarrow> (Config \<Rightarrow> bool)
    \<Rightarrow> ('m, 'l, 's, 'd) system \<Rightarrow> ('m, 'l, 's, 'd) system \<Rightarrow> bool"
  for sv allowed where
  group_in: "sy_pending s = [] \<Longrightarrow> \<forall>cfg \<in> set (g_Configs gr). allowed cfg \<Longrightarrow>
     receive_group sv gr (sy_mgr s) = (chs, m) \<Longrightarrow>
     mgr_step sv allowed s \<lparr>sy_mgr = m, sy_pending = chs\<rparr>"
| removed: "sy_pending s = Removed cfg # chs \<Longrightarrow>
     mgr_step sv allowed s \<lparr>sy_mgr = removeConfig sv cfg (sy_mgr s), sy_pending = chs\<rparr>"
| added: "sy_pending s = Added cfg # chs \<Longrightarrow>
     mgr_step sv allowed s \<lparr>sy_mgr = addConfig sv cfg (sy_mgr s), sy_pending = chs\<rparr>"
| retry: "(k, cfg, c) \<in> set (mg_tasks (sy_mgr s)) \<Longrightarrow>
     mgr_step sv allowed s (s\<lparr>sy_mgr := addConfig sv cfg
       ((sy_mgr s)\<lparr>mg_tasks := filter (\<lambda>t. fst t \<noteq> k) (mg_tasks (sy_mgr s))\<rparr>)\<rparr>)"
| give_up: "(k, cfg, True) \<in> set (mg_tasks (sy_mgr s)) \<Longrightarrow>
     mgr_step sv allowed s (s\<lparr>sy_mgr := (sy_mgr s)\<lparr>mg_tasks := filter (\<lambda>t. fst t \<noteq> k) (mg_tasks (sy_mgr s))\<rparr>\<rparr>)"
| tick: "notifyRunningJobs (sv_env sv) clock ts (sy_mgr s) = Some m \<Longrightarrow> mgr_step sv allowed s (s\<lparr>sy_mgr := m\<rparr>)"

inductive mgr_reachable :: "('m, 'l, 's, 'd) services \<Rightarrow> (Config \<Rightarrow> bool)
    \<Rightarrow> ('m, 'l, 's, 'd) system \<Rightarrow> ('m, 'l, 's, 'd) system \<Rightarrow> bool"
  for sv allowed s0 where
  start: "mgr_reachable sv allowed s0 s0"
| step: "mgr_reachable sv allowed s0 s \<Longrightarrow> mgr_step sv allowed s s' \<Longrightarrow> mgr_reachable sv allowed s0 s'"

end
