(* ===== verification/Jobmgr_Facts.thy ===== *)
theory Jobmgr_Facts
  imports Jobmgr
begin

text \<open>
  What the job manager keeps: the invariant of its tables, for every interleaving of its
  goroutines, and what each operation promises.  The facts are proved against the interfaces
  of \<open>Services\<close>; \<open>Agent\<close> applies them to the providers the agent uses.
\<close>

section \<open>Frames\<close>

definition queue_names :: "('m, 'l, 's, 'd) Manager \<Rightarrow> string list" where
  "queue_names m = map (\<lambda>q. j_fullName (snd q)) (mg_queue m)"

definition running_names :: "('m, 'l, 's, 'd) Manager \<Rightarrow> string set" where
  "running_names m = {n. map_of (mg_runningJobs m) n = Some True}"

lemma save_frame [simp]:
  "mg_queue (save sv cfg st m) = mg_queue m" "mg_runningJobs (save sv cfg st m) = mg_runningJobs m"
  "mg_retryingJobs (save sv cfg st m) = mg_retryingJobs m" "mg_tasks (save sv cfg st m) = mg_tasks m"
  "mg_next (save sv cfg st m) = mg_next m" "mg_FileLock (save sv cfg st m) = mg_FileLock m"
  "mg_confGroupCache (save sv cfg st m) = mg_confGroupCache m" "mg_Dyncfg (save sv cfg st m) = mg_Dyncfg m"
  "mg_StatusSaver (save sv cfg st m) = sv_Save sv cfg st (mg_StatusSaver m)"
  by (simp_all add: save_def)

lemma report_frame [simp]:
  "mg_queue (report sv cfg st p m) = mg_queue m" "mg_runningJobs (report sv cfg st p m) = mg_runningJobs m"
  "mg_retryingJobs (report sv cfg st p m) = mg_retryingJobs m" "mg_tasks (report sv cfg st p m) = mg_tasks m"
  "mg_next (report sv cfg st p m) = mg_next m" "mg_FileLock (report sv cfg st p m) = mg_FileLock m"
  "mg_confGroupCache (report sv cfg st p m) = mg_confGroupCache m"
  "mg_StatusSaver (report sv cfg st p m) = mg_StatusSaver m"
  by (simp_all add: report_def)

lemma discard_frame [simp]:
  "mg_queue (discard e j m) = mg_queue m" "mg_runningJobs (discard e j m) = mg_runningJobs m"
  "mg_retryingJobs (discard e j m) = mg_retryingJobs m" "mg_tasks (discard e j m) = mg_tasks m"
  "mg_next (discard e j m) = mg_next m" "mg_FileLock (discard e j m) = mg_FileLock m"
  "mg_confGroupCache (discard e j m) = mg_confGroupCache m"
  "mg_StatusSaver (discard e j m) = mg_StatusSaver m" "mg_Dyncfg (discard e j m) = mg_Dyncfg m"
  by (simp_all add: discard_def send_output_def)

lemma startJob_frame [simp]:
  "mg_queue (startJob ops j m) = mg_queue m @ [(ops, j)]"
  "mg_runningJobs (startJob ops j m) = mg_runningJobs m"
  "mg_retryingJobs (startJob ops j m) = mg_retryingJobs m" "mg_tasks (startJob ops j m) = mg_tasks m"
  "mg_next (startJob ops j m) = mg_next m" "mg_FileLock (startJob ops j m) = mg_FileLock m"
  "mg_confGroupCache (startJob ops j m) = mg_confGroupCache m"
  "mg_StatusSaver (startJob ops j m) = mg_StatusSaver m"
  by (simp_all add: startJob_def)

lemma cancel_retry_frame [simp]:
  "mg_queue (cancel_retry sv cfg t m) = mg_queue m"
  "mg_runningJobs (cancel_retry sv cfg t m) = mg_runningJobs m"
  "mg_next (cancel_retry sv cfg t m) = mg_next m" "mg_FileLock (cancel_retry sv cfg t m) = mg_FileLock m"
  "mg_confGroupCache (cancel_retry sv cfg t m) = mg_confGroupCache m"
  "mg_StatusSaver (cancel_retry sv cfg t m) = mg_StatusSaver m"
  "mg_Dyncfg (cancel_retry sv cfg t m) = mg_Dyncfg m"
  by (simp_all add: cancel_retry_def)

lemma put_retry_frame [simp]:
  "mg_queue (put_retry sv cfg j m) = mg_queue m" "mg_runningJobs (put_retry sv cfg j m) = mg_runningJobs m"
  "mg_FileLock (put_retry sv cfg j m) = mg_FileLock m"
  "mg_confGroupCache (put_retry sv cfg j m) = mg_confGroupCache m"
  "mg_StatusSaver (put_retry sv cfg j m) = mg_StatusSaver m" "mg_Dyncfg (put_retry sv cfg j m) = mg_Dyncfg m"
  by (simp_all add: put_retry_def)

lemma index_job_None: "index_job n qs = None \<longleftrightarrow> n \<notin> (\<lambda>q. j_fullName (snd q)) ` set qs"
  by (induction qs) auto

lemma index_job_remove:
  "index_job n qs = Some i \<Longrightarrow> i < length qs \<and> j_fullName (snd (qs ! i)) = n
     \<and> map (\<lambda>q. j_fullName (snd q)) (remove_at i qs) = remove1 n (map (\<lambda>q. j_fullName (snd q)) qs)"
  by (induction qs arbitrary: i) (auto simp: remove_at_def split: if_splits)

lemma stopJob_frame [simp]:
  "mg_runningJobs (stopJob e n m) = mg_runningJobs m"
  "mg_retryingJobs (stopJob e n m) = mg_retryingJobs m" "mg_tasks (stopJob e n m) = mg_tasks m"
  "mg_next (stopJob e n m) = mg_next m" "mg_FileLock (stopJob e n m) = mg_FileLock m"
  "mg_confGroupCache (stopJob e n m) = mg_confGroupCache m"
  "mg_StatusSaver (stopJob e n m) = mg_StatusSaver m" "mg_Dyncfg (stopJob e n m) = mg_Dyncfg m"
  "queue_names (stopJob e n m) = remove1 n (queue_names m)"
  using index_job_remove [of n "mg_queue m"] index_job_None [of n "mg_queue m"]
  by (auto simp: stopJob_def send_output_def queue_names_def remove1_idem image_iff split: option.splits)

text \<open>A job keeps its name.\<close>

lemma phase_fullName:
  "job_init ops j = (r, j') \<Longrightarrow> j_fullName j' = j_fullName j"
  "job_check ops j = (r, j') \<Longrightarrow> j_fullName j' = j_fullName j"
  "postCheck ops j = (r, j') \<Longrightarrow> j_fullName j' = j_fullName j"
  by (auto simp: job_init_def job_check_def postCheck_def Let_def split: if_splits prod.splits option.splits)

lemma detection_body_fullName: "detection_body e ops j = (r, j') \<Longrightarrow> j_fullName j' = j_fullName j"
  by (auto simp: detection_body_def Let_def disableAutoDetection_def dest!: phase_fullName
      split: prod.splits option.splits bool.splits if_splits)

lemma AutoDetection_fullName: "AutoDetection e ops j = (r, j') \<Longrightarrow> j_fullName j' = j_fullName j"
  by (auto simp: AutoDetection_def detection_end_def disableAutoDetection_def dest!: detection_body_fullName
      split: prod.splits option.splits if_splits)

lemma createJob_fullName: "createJob sv cfg m = Inr (ops, j) \<Longrightarrow> j_fullName j = FullName cfg"
  by (auto simp: createJob_def NewJob_def Let_def split: option.splits prod.splits if_splits)

lemma recovery_fullName [simp]: "j_fullName (recovery sv cfg r j) = j_fullName j"
  by (simp add: recovery_def split: option.splits)

lemma detection_fullName: "detection e ops j = (st, j') \<Longrightarrow> j_fullName j' = j_fullName j"
  by (auto simp: detection_def dest!: AutoDetection_fullName split: prod.splits)

section \<open>The running jobs\<close>

text \<open>The table of running jobs has exactly the names of the jobs in the queue, each once.\<close>

definition running_ok :: "('m, 'l, 's, 'd) Manager \<Rightarrow> bool" where
  "running_ok m \<longleftrightarrow> go_map (mg_runningJobs m) \<and> (\<forall>e \<in> set (mg_runningJobs m). snd e)
     \<and> distinct (queue_names m) \<and> set (queue_names m) = fst ` set (mg_runningJobs m)"

lemma running_has_iff:
  "\<forall>e \<in> set c. snd e \<Longrightarrow> running_has cfg c \<longleftrightarrow> FullName cfg \<in> fst ` set c"
  by (induction c) (auto simp: running_has_def)

lemma running_ok_cong:
  "mg_queue m' = mg_queue m \<Longrightarrow> mg_runningJobs m' = mg_runningJobs m \<Longrightarrow> running_ok m' = running_ok m"
  by (simp add: running_ok_def queue_names_def)

lemma running_put_all: "\<forall>e \<in> set c. snd e \<Longrightarrow> \<forall>e \<in> set (running_put cfg c). snd e"
  using set_update_entries [of "FullName cfg" True c] by (auto simp: running_put_def)

text \<open>Starting a job whose name is not taken.\<close>

lemma running_ok_start:
  assumes "running_ok m" and "\<not> running_has cfg (mg_runningJobs m)" and "j_fullName job = FullName cfg"
    and "mg_queue m' = mg_queue m @ [(ops, job)]"
    and "mg_runningJobs m' = running_put cfg (mg_runningJobs m)"
  shows "running_ok m'"
proof -
  have all: "\<forall>e \<in> set (mg_runningJobs m). snd e" using assms(1) by (simp add: running_ok_def)
  have q: "queue_names m' = queue_names m @ [FullName cfg]" using assms(3,4) by (simp add: queue_names_def)
  have "FullName cfg \<notin> set (queue_names m)"
    using assms(1,2) running_has_iff [OF all] by (simp add: running_ok_def)
  then show ?thesis using assms(1,5) q running_put_all [OF all, of cfg]
    by (auto simp: running_ok_def running_put_def go_map_update fst_set_update)
qed

lemma running_ok_stop:
  assumes "running_ok m" and "queue_names m' = remove1 (FullName cfg) (queue_names m)"
    and "mg_runningJobs m' = running_remove cfg (mg_runningJobs m)"
  shows "running_ok m'"
proof -
  have "set (AList.delete k c) \<subseteq> set c" for k and c :: "(string \<times> bool) list"
    by (auto simp: AList.delete_eq)
  then show ?thesis using assms
    by (auto simp: running_ok_def running_remove_def go_map_delete fst_set_delete set_remove1_eq)
qed

section \<open>The retrying jobs\<close>

text \<open>Every entry of the table of retrying jobs has its goroutine, not cancelled, and every goroutine
  that is not cancelled has its entry; \<open>except h\<close> allows the goroutine of \<open>h\<close> to be gone.\<close>

definition retry_ok_except :: "(Config \<Rightarrow> cfg_hash) \<Rightarrow> cfg_hash set \<Rightarrow> ('m, 'l, 's, 'd) Manager \<Rightarrow> bool" where
  "retry_ok_except Hash X m \<longleftrightarrow> distinct (map fst (mg_tasks m))
     \<and> (\<forall>t \<in> set (mg_tasks m). fst t < mg_next m)
     \<and> (\<forall>h t. map_of (mg_retryingJobs m) h = Some t \<longrightarrow> rt_cancel t < mg_next m)
     \<and> (\<forall>h t h' t'. map_of (mg_retryingJobs m) h = Some t \<and> map_of (mg_retryingJobs m) h' = Some t'
          \<and> rt_cancel t = rt_cancel t' \<longrightarrow> h = h')
     \<and> (\<forall>h t. map_of (mg_retryingJobs m) h = Some t \<and> h \<notin> X \<longrightarrow>
          (\<exists>cfg. (rt_cancel t, cfg, False) \<in> set (mg_tasks m) \<and> Hash cfg = h))
     \<and> (\<forall>k cfg. (k, cfg, False) \<in> set (mg_tasks m) \<longrightarrow>
          (\<exists>t. map_of (mg_retryingJobs m) (Hash cfg) = Some t \<and> rt_cancel t = k))"

abbreviation retry_ok :: "(Config \<Rightarrow> cfg_hash) \<Rightarrow> ('m, 'l, 's, 'd) Manager \<Rightarrow> bool" where
  "retry_ok Hash m \<equiv> retry_ok_except Hash {} m"

lemma retry_ok_cong:
  "mg_retryingJobs m' = mg_retryingJobs m \<Longrightarrow> mg_tasks m' = mg_tasks m \<Longrightarrow> mg_next m' = mg_next m \<Longrightarrow>
   retry_ok_except Hash X m' = retry_ok_except Hash X m"
  by (simp add: retry_ok_except_def)

lemma retry_okD:
  assumes "retry_ok_except Hash X m"
  shows "distinct (map fst (mg_tasks m))" and "t \<in> set (mg_tasks m) \<Longrightarrow> fst t < mg_next m"
    and "map_of (mg_retryingJobs m) h = Some u \<Longrightarrow> rt_cancel u < mg_next m"
    and "map_of (mg_retryingJobs m) h = Some u \<Longrightarrow> map_of (mg_retryingJobs m) h' = Some u' \<Longrightarrow>
      rt_cancel u = rt_cancel u' \<Longrightarrow> h = h'"
    and "map_of (mg_retryingJobs m) h = Some u \<Longrightarrow> h \<notin> X \<Longrightarrow>
      \<exists>cfg. (rt_cancel u, cfg, False) \<in> set (mg_tasks m) \<and> Hash cfg = h"
    and "(k, cfg, False) \<in> set (mg_tasks m) \<Longrightarrow> \<exists>u. map_of (mg_retryingJobs m) (Hash cfg) = Some u \<and> rt_cancel u = k"
  using assms unfolding retry_ok_except_def by blast+

lemma cancel_task_mem:
  "(i, cfg, c) \<in> set (cancel_task k ts) \<longleftrightarrow> (\<exists>c0. (i, cfg, c0) \<in> set ts \<and> c = (c0 \<or> i = k))"
  by (force simp: cancel_task_def)

lemma cancel_task_fst [simp]: "map fst (cancel_task k ts) = map fst ts"
  by (induction ts) (auto simp: cancel_task_def)

text \<open>Cancelling the retry of a configuration.\<close>

lemma retry_ok_cancel:
  assumes ok: "retry_ok_except Hash X m" and "X \<subseteq> {Hash cfg}"
    and t: "retrying_lookup Hash cfg (mg_retryingJobs m) = Some task" and "sv_Hash sv = Hash"
  shows "retry_ok Hash (cancel_retry sv cfg task m)"
    and "retrying_lookup Hash cfg (mg_retryingJobs (cancel_retry sv cfg task m)) = None"
proof -
  let ?m = "cancel_retry sv cfg task m"
  have r: "map_of (mg_retryingJobs ?m) = (map_of (mg_retryingJobs m))(Hash cfg := None)"
    "mg_tasks ?m = cancel_task (rt_cancel task) (mg_tasks m)"
    using assms by (simp_all add: cancel_retry_def retrying_remove_def map_of_delete)
  have other: "map_of (mg_retryingJobs m) h = Some u \<and> h \<noteq> Hash cfg"
    if "map_of (mg_retryingJobs ?m) h = Some u" for h u using that by (simp add: r(1) split: if_splits)
  have own: "map_of (mg_retryingJobs m) (Hash cfg) = Some task" using t by (simp add: retrying_lookup_def)
  show "retry_ok Hash ?m"
    unfolding retry_ok_except_def
  proof (intro conjI allI impI ballI; (elim conjE)?)
    show "distinct (map fst (mg_tasks ?m))" using retry_okD(1) [OF ok] by (simp add: r(2))
    show "fst u < mg_next ?m" if "u \<in> set (mg_tasks ?m)" for u
      using retry_okD(2) [OF ok] that by (fastforce simp: r(2) cancel_task_def)
    show "rt_cancel u < mg_next ?m" if "map_of (mg_retryingJobs ?m) h = Some u" for h u
      using retry_okD(3) [OF ok, of h u] other [OF that] by simp
    show "h = h'" if "map_of (mg_retryingJobs ?m) h = Some u" "map_of (mg_retryingJobs ?m) h' = Some u'"
        "rt_cancel u = rt_cancel u'" for h u h' u'
      using retry_okD(4) [OF ok] other [OF that(1)] other [OF that(2)] that(3) by blast
    show "\<exists>c. (rt_cancel u, c, False) \<in> set (mg_tasks ?m) \<and> Hash c = h"
      if "map_of (mg_retryingJobs ?m) h = Some u" for h u
    proof -
      have h: "map_of (mg_retryingJobs m) h = Some u" "h \<noteq> Hash cfg" using other [OF that] by blast+
      then have "rt_cancel u \<noteq> rt_cancel task" using retry_okD(4) [OF ok h(1) own] by blast
      moreover obtain c where "(rt_cancel u, c, False) \<in> set (mg_tasks m)" "Hash c = h"
        using retry_okD(5) [OF ok h(1)] assms(2) h(2) by blast
      ultimately show ?thesis by (auto simp: r(2) cancel_task_mem)
    qed
    show "\<exists>u. map_of (mg_retryingJobs ?m) (Hash c) = Some u \<and> rt_cancel u = k"
      if "(k, c, False) \<in> set (mg_tasks ?m)" for k c
    proof -
      have k: "(k, c, False) \<in> set (mg_tasks m)" "k \<noteq> rt_cancel task" using that by (auto simp: r(2) cancel_task_mem)
      then obtain u where u: "map_of (mg_retryingJobs m) (Hash c) = Some u" "rt_cancel u = k"
        using retry_okD(6) [OF ok] by blast
      then have "Hash c \<noteq> Hash cfg" using own k(2) by auto
      then show ?thesis using u by (simp add: r(1))
    qed
  qed
  show "retrying_lookup Hash cfg (mg_retryingJobs ?m) = None" by (simp add: retrying_lookup_def r(1))
qed

text \<open>Without an entry of its own there is nothing to except.\<close>

lemma retry_ok_no_entry:
  "retry_ok_except Hash {Hash cfg} m \<Longrightarrow> retrying_lookup Hash cfg (mg_retryingJobs m) = None \<Longrightarrow> retry_ok Hash m"
  unfolding retry_ok_except_def retrying_lookup_def by (elim conjE, intro conjI) (auto, fastforce?)

lemma retry_ok_put:
  assumes ok: "retry_ok Hash m" and "retrying_lookup Hash cfg (mg_retryingJobs m) = None" and "sv_Hash sv = Hash"
  shows "retry_ok Hash (put_retry sv cfg job m)"
proof -
  let ?m = "put_retry sv cfg job m"
  let ?t = "\<lparr>rt_cancel = mg_next m, rt_timeout = j_AutoDetectEvery job, rt_retries = j_AutoDetectTries job\<rparr>"
  have r: "map_of (mg_retryingJobs ?m) = (map_of (mg_retryingJobs m))(Hash cfg \<mapsto> ?t)"
    "mg_tasks ?m = mg_tasks m @ [(mg_next m, cfg, False)]" "mg_next ?m = Suc (mg_next m)"
    using assms by (simp_all add: put_retry_def retrying_put_def map_of_update)
  have none: "map_of (mg_retryingJobs m) (Hash cfg) = None" using assms(2) by (simp add: retrying_lookup_def)
  have cases: "h = Hash cfg \<and> u = ?t \<or> h \<noteq> Hash cfg \<and> map_of (mg_retryingJobs m) h = Some u \<and> rt_cancel u < mg_next m"
    if "map_of (mg_retryingJobs ?m) h = Some u" for h u
    using that retry_okD(3) [OF ok, of h u] by (auto simp: r(1) split: if_splits)
  show ?thesis
    unfolding retry_ok_except_def
  proof (intro conjI allI impI ballI; (elim conjE)?)
    show "distinct (map fst (mg_tasks ?m))" using retry_okD(1) [OF ok] retry_okD(2) [OF ok, of "(mg_next m, _, _)"]
      by (fastforce simp: r(2))
    show "fst u < mg_next ?m" if "u \<in> set (mg_tasks ?m)" for u
      using retry_okD(2) [OF ok, of u] that by (auto simp: r(2,3))
    show "rt_cancel u < mg_next ?m" if "map_of (mg_retryingJobs ?m) h = Some u" for h u
      using cases [OF that] by (auto simp: r(3))
    show "h = h'" if "map_of (mg_retryingJobs ?m) h = Some u" "map_of (mg_retryingJobs ?m) h' = Some u'"
        "rt_cancel u = rt_cancel u'" for h u h' u'
      using cases [OF that(1)] cases [OF that(2)] that(3) retry_okD(4) [OF ok, of h u h' u'] by auto
    show "\<exists>c. (rt_cancel u, c, False) \<in> set (mg_tasks ?m) \<and> Hash c = h"
      if "map_of (mg_retryingJobs ?m) h = Some u" for h u
      using cases [OF that] retry_okD(5) [OF ok, of h u] by (auto simp: r(2))
    show "\<exists>u. map_of (mg_retryingJobs ?m) (Hash c) = Some u \<and> rt_cancel u = k"
      if "(k, c, False) \<in> set (mg_tasks ?m)" for k c
      using that retry_okD(6) [OF ok, of k c] none by (auto simp: r(1,2))
  qed
qed

text \<open>A goroutine that ends: one that was not cancelled leaves its own entry behind.\<close>

lemma retry_ok_end:
  assumes ok: "retry_ok Hash m" and "(k, cfg, c) \<in> set (mg_tasks m)"
  shows "retry_ok_except Hash (if c then {} else {Hash cfg}) (m\<lparr>mg_tasks := filter (\<lambda>t. fst t \<noteq> k) (mg_tasks m)\<rparr>)"
    (is "retry_ok_except Hash ?X ?m")
proof -
  have uniq: "t = (k, cfg, c)" if "t \<in> set (mg_tasks m)" "fst t = k" for t
    using eq_key_imp_eq_value [OF retry_okD(1) [OF ok], of k "snd t" "(cfg, c)"] that assms(2) by (cases t) auto
  show ?thesis
    unfolding retry_ok_except_def
  proof (intro conjI allI impI ballI; (elim conjE)?)
    show "distinct (map fst (mg_tasks ?m))" using retry_okD(1) [OF ok] by (simp add: distinct_map_filter)
    show "fst u < mg_next ?m" if "u \<in> set (mg_tasks ?m)" for u using retry_okD(2) [OF ok, of u] that by simp
    show "rt_cancel u < mg_next ?m" if "map_of (mg_retryingJobs ?m) h = Some u" for h u
      using retry_okD(3) [OF ok, of h u] that by simp
    show "h = h'" if "map_of (mg_retryingJobs ?m) h = Some u" "map_of (mg_retryingJobs ?m) h' = Some u'"
        "rt_cancel u = rt_cancel u'" for h u h' u'
      using retry_okD(4) [OF ok, of h u h' u'] that by simp
    show "\<exists>d. (rt_cancel u, d, False) \<in> set (mg_tasks ?m) \<and> Hash d = h"
      if e: "map_of (mg_retryingJobs ?m) h = Some u" and x: "h \<notin> ?X" for h u
    proof -
      obtain d where d: "(rt_cancel u, d, False) \<in> set (mg_tasks m)" "Hash d = h"
        using retry_okD(5) [OF ok, of h u] e by auto
      moreover have "rt_cancel u \<noteq> k" using uniq [OF d(1)] d(2) x by (auto split: if_splits)
      ultimately show ?thesis by auto
    qed
    show "\<exists>u. map_of (mg_retryingJobs ?m) (Hash d) = Some u \<and> rt_cancel u = i"
      if "(i, d, False) \<in> set (mg_tasks ?m)" for i d
      using retry_okD(6) [OF ok, of i d] that by simp
  qed
qed

section \<open>Adding a configuration\<close>

lemmas job_status_defs = jobStatusRunning_def jobStatusRetrying_def jobStatusStoppedFailed_def
  jobStatusStoppedDupLocal_def jobStatusStoppedDupGlobal_def jobStatusStoppedRegErr_def
  jobStatusStoppedCreateErr_def

text \<open>Two managers agree on everything but the status file, dynamic configuration and the output.\<close>

definition same_tables :: "('m, 'l, 's, 'd) Manager \<Rightarrow> ('m, 'l, 's, 'd) Manager \<Rightarrow> bool" where
  "same_tables m' m \<longleftrightarrow> mg_queue m' = mg_queue m \<and> mg_runningJobs m' = mg_runningJobs m
     \<and> mg_retryingJobs m' = mg_retryingJobs m \<and> mg_tasks m' = mg_tasks m \<and> mg_next m' = mg_next m
     \<and> mg_confGroupCache m' = mg_confGroupCache m"

lemma settle_cases:
  assumes "status \<in> {jobStatusRunning, jobStatusRetrying, jobStatusStoppedFailed}"
  obtains
    (started) err ok l where "status = jobStatusRunning" "sv_Lock sv (FullName cfg) (mg_FileLock m) = ((ok, err), l)"
      "ok \<or> err \<noteq> None" "mg_FileLock (settle sv cfg ops status job m) = l"
      "mg_queue (settle sv cfg ops status job m) = mg_queue m @ [(ops, job)]"
      "mg_runningJobs (settle sv cfg ops status job m) = running_put cfg (mg_runningJobs m)"
      "mg_retryingJobs (settle sv cfg ops status job m) = mg_retryingJobs m"
      "mg_tasks (settle sv cfg ops status job m) = mg_tasks m" "mg_next (settle sv cfg ops status job m) = mg_next m"
      "mg_confGroupCache (settle sv cfg ops status job m) = mg_confGroupCache m"
      "mg_StatusSaver (settle sv cfg ops status job m) = sv_Save sv cfg jobStatusRunning (mg_StatusSaver m)"
  | (refused) err l st where "status = jobStatusRunning" "sv_Lock sv (FullName cfg) (mg_FileLock m) = ((False, err), l)"
      "mg_FileLock (settle sv cfg ops status job m) = l" "same_tables (settle sv cfg ops status job m) m"
      "st \<in> {jobStatusStoppedRegErr, jobStatusStoppedDupGlobal}"
      "mg_StatusSaver (settle sv cfg ops status job m) = sv_Save sv cfg st (mg_StatusSaver m)"
  | (retry) "status = jobStatusRetrying" "same_tables (settle sv cfg ops status job m) (put_retry sv cfg job m)"
      "mg_FileLock (settle sv cfg ops status job m) = mg_FileLock m"
      "mg_StatusSaver (settle sv cfg ops status job m) = sv_Save sv cfg jobStatusRetrying (mg_StatusSaver m)"
  | (failed) "status = jobStatusStoppedFailed" "same_tables (settle sv cfg ops status job m) m"
      "mg_FileLock (settle sv cfg ops status job m) = mg_FileLock m"
      "mg_StatusSaver (settle sv cfg ops status job m) = sv_Save sv cfg jobStatusStoppedFailed (mg_StatusSaver m)"
proof -
  obtain ok err l where l: "sv_Lock sv (FullName cfg) (mg_FileLock m) = ((ok, err), l)" by (metis surj_pair)
  consider "status = jobStatusRunning" "ok \<or> err \<noteq> None \<and> \<not> isTooManyOpenFiles err"
    | "status = jobStatusRunning" "\<not> ok" "isTooManyOpenFiles err"
    | "status = jobStatusRunning" "\<not> ok" "\<not> isTooManyOpenFiles err" "err = None"
    | "status = jobStatusRetrying" | "status = jobStatusStoppedFailed"
    using assms by blast
  then show ?thesis
  proof cases
    case 1
    then show ?thesis using l by (intro started [of ok err l]) (auto simp: settle_def)
  next
    case 2
    then show ?thesis using l
      by (intro refused [of err l jobStatusStoppedRegErr]) (simp_all add: settle_def same_tables_def)
  next
    case 3
    then show ?thesis using l
      by (intro refused [of err l jobStatusStoppedDupGlobal]) (simp_all add: settle_def same_tables_def)
  next
    case 4 then show ?thesis by (intro retry) (simp_all add: settle_def same_tables_def job_status_defs)
  next
    case 5 then show ?thesis by (intro failed) (simp_all add: settle_def same_tables_def job_status_defs)
  qed
qed

lemma same_tables_ok:
  assumes "same_tables m' m"
  shows "running_ok m' = running_ok m" "retry_ok_except Hash X m' = retry_ok_except Hash X m"
    "queue_names m' = queue_names m"
  using assms running_ok_cong [of m' m] retry_ok_cong [of m' m]
  by (simp_all add: same_tables_def queue_names_def)

lemma detection_status:
  "detection e ops j = (st, j') \<Longrightarrow> st \<in> {jobStatusRunning, jobStatusRetrying, jobStatusStoppedFailed}"
  by (auto simp: detection_def split: prod.splits if_splits)

text \<open>The state after the retry was cancelled or the configuration registered.\<close>

definition prepared :: "('m, 'l, 's, 'd) services \<Rightarrow> Config \<Rightarrow> ('m, 'l, 's, 'd) Manager \<Rightarrow> ('m, 'l, 's, 'd) Manager" where
  "prepared sv cfg m0 = (case retrying_lookup (sv_Hash sv) cfg (mg_retryingJobs m0) of
       Some task \<Rightarrow> cancel_retry sv cfg task m0
     | None \<Rightarrow> m0\<lparr>mg_Dyncfg := sv_Register sv cfg (mg_Dyncfg m0)\<rparr>)"

lemma prepared_frame [simp]:
  "mg_queue (prepared sv cfg m) = mg_queue m" "mg_runningJobs (prepared sv cfg m) = mg_runningJobs m"
  "mg_FileLock (prepared sv cfg m) = mg_FileLock m" "mg_StatusSaver (prepared sv cfg m) = mg_StatusSaver m"
  "mg_confGroupCache (prepared sv cfg m) = mg_confGroupCache m" "mg_next (prepared sv cfg m) = mg_next m"
  by (simp_all add: prepared_def split: option.splits)

lemma prepared_tasks: "(k, d, c) \<in> set (mg_tasks (prepared sv cfg m)) \<Longrightarrow> \<exists>c0. (k, d, c0) \<in> set (mg_tasks m)"
  by (auto simp: prepared_def cancel_retry_def cancel_task_mem split: option.splits)

lemma prepared_retry:
  assumes "retry_ok_except (sv_Hash sv) X m" and "X \<subseteq> {sv_Hash sv cfg}"
  shows "retry_ok (sv_Hash sv) (prepared sv cfg m)"
    and "retrying_lookup (sv_Hash sv) cfg (mg_retryingJobs (prepared sv cfg m)) = None"
proof -
  have "retry_ok (sv_Hash sv) (prepared sv cfg m)
     \<and> retrying_lookup (sv_Hash sv) cfg (mg_retryingJobs (prepared sv cfg m)) = None"
  proof (cases "retrying_lookup (sv_Hash sv) cfg (mg_retryingJobs m)")
    case None
    have "retry_ok_except (sv_Hash sv) {sv_Hash sv cfg} m"
      using assms unfolding retry_ok_except_def by blast
    then have "retry_ok (sv_Hash sv) m" using None by (rule retry_ok_no_entry)
    moreover have "retry_ok (sv_Hash sv) (prepared sv cfg m) = retry_ok (sv_Hash sv) m"
      using None by (intro retry_ok_cong) (simp_all add: prepared_def)
    ultimately show ?thesis using None by (simp add: prepared_def)
  next
    case (Some task)
    then show ?thesis using retry_ok_cancel [OF assms Some refl] by (simp add: prepared_def)
  qed
  then show "retry_ok (sv_Hash sv) (prepared sv cfg m)"
    and "retrying_lookup (sv_Hash sv) cfg (mg_retryingJobs (prepared sv cfg m)) = None" by blast+
qed

lemma addConfig_cases:
  obtains
    (duplicate) "running_has cfg (mg_runningJobs m)" "same_tables (addConfig sv cfg m) (prepared sv cfg m)"
      "mg_FileLock (addConfig sv cfg m) = mg_FileLock m"
      "mg_StatusSaver (addConfig sv cfg m) = sv_Save sv cfg jobStatusStoppedDupLocal (mg_StatusSaver m)"
  | (not_created) "\<not> running_has cfg (mg_runningJobs m)" "same_tables (addConfig sv cfg m) (prepared sv cfg m)"
      "mg_FileLock (addConfig sv cfg m) = mg_FileLock m"
      "mg_StatusSaver (addConfig sv cfg m) = sv_Save sv cfg jobStatusStoppedCreateErr (mg_StatusSaver m)"
  | (detected) ops job0 st job where "\<not> running_has cfg (mg_runningJobs m)"
      "createJob sv cfg (prepared sv cfg m) = Inr (ops, job0)"
      "detection (sv_env sv) ops (recovery sv cfg (retrying_lookup (sv_Hash sv) cfg (mg_retryingJobs m)) job0) = (st, job)"
      "st \<in> {jobStatusRunning, jobStatusRetrying, jobStatusStoppedFailed}" "j_fullName job = FullName cfg"
      "addConfig sv cfg m = settle sv cfg ops st job (prepared sv cfg m)"
proof -
  have eq: "addConfig sv cfg m =
     (if running_has cfg (mg_runningJobs m)
      then report sv cfg ''error'' ''duplicate, served by another job''
             (save sv cfg jobStatusStoppedDupLocal (prepared sv cfg m))
      else (case createJob sv cfg (prepared sv cfg m) of
              Inl err \<Rightarrow> report sv cfg ''error'' (''build error: '' @ err)
                (save sv cfg jobStatusStoppedCreateErr (prepared sv cfg m))
            | Inr (ops, job) \<Rightarrow>
                let (status, job') = detection (sv_env sv) ops
                      (recovery sv cfg (retrying_lookup (sv_Hash sv) cfg (mg_retryingJobs m)) job)
                in settle sv cfg ops status job' (prepared sv cfg m)))"
    unfolding addConfig_def Let_def prepared_def [symmetric] by simp
  show ?thesis
  proof (cases "running_has cfg (mg_runningJobs m)")
    case True
    then show ?thesis by (intro duplicate) (simp_all add: eq same_tables_def)
  next
    case False
    show ?thesis
    proof (cases "createJob sv cfg (prepared sv cfg m)")
      case (Inl err)
      then show ?thesis using False by (intro not_created) (simp_all add: eq same_tables_def)
    next
      case (Inr r)
      obtain ops job0 where r: "r = (ops, job0)" by (cases r)
      obtain st job where d: "detection (sv_env sv) ops
          (recovery sv cfg (retrying_lookup (sv_Hash sv) cfg (mg_retryingJobs m)) job0) = (st, job)" by fastforce
      show ?thesis
        using False Inr r d detection_status [OF d] detection_fullName [OF d] createJob_fullName [of sv cfg]
        by (intro detected [of ops job0 st job]) (simp_all add: eq)
    qed
  qed
qed

section \<open>Ticks\<close>

lemma processMetrics_fullName:
  assumes "processMetrics e j ms el since = Some (ok, j')"
  shows "j_fullName j' = j_fullName j"
proof -
  obtain cs where cs: "j_charts j = Some cs" using assms by (cases "j_charts j") (simp_all add: processMetrics_def)
  obtain kept j3 n where k: "keep_map (process_chart ms since) cs (create_run_chart e (write_host e j), 0) = (kept, j3, n)"
    using prod_cases3 by blast
  show ?thesis using assms process_charts_spec [OF k] by (auto simp: processMetrics_eq [OF cs k] split: if_splits)
qed

lemma runOnce_fullName:
  assumes "runOnce e ops now took j = Some j'"
  shows "j_fullName j' = j_fullName j"
proof -
  obtain ms j1 where c: "collect ops (j\<lparr>j_prevRun := Some now\<rparr>) = (ms, j1)" by fastforce
  have "j_fullName j1 = j_fullName j" using collect_job(3) [of ops "j\<lparr>j_prevRun := Some now\<rparr>"] c by simp
  then show ?thesis using assms c
    by (auto simp: runOnce_def dest!: processMetrics_fullName split: if_splits option.splits)
qed

lemma tick_fullName: "Start e ops j [Ticked t now took] = Some (fin, j') \<Longrightarrow> j_fullName j' = j_fullName j"
  by (auto dest!: runOnce_fullName split: if_splits option.splits)

lemma tick_jobs_names:
  "tick_jobs e clock ts qs = Some (out, qs') \<Longrightarrow> map (\<lambda>q. j_fullName (snd q)) qs' = map (\<lambda>q. j_fullName (snd q)) qs"
proof (induction e clock ts qs arbitrary: out qs' rule: tick_jobs.induct)
  case (2 e clock ts q qs)
  obtain fin j where j: "(case ts of Some (now, took) # _ \<Rightarrow> Start e (fst q) (snd q) [Ticked clock now took]
      | _ \<Rightarrow> Some (False, snd q)) = Some (fin, j)"
    using "2.prems" by (auto split: option.splits)
  have "j_fullName j = j_fullName (snd q)"
    using j tick_fullName [of e "fst q" "snd q"] by (auto split: list.splits option.splits prod.splits)
  moreover obtain out1 qs1 where k: "tick_jobs e clock (tl ts) qs = Some (out1, qs1)" "qs' = (fst q, j\<lparr>j_out := []\<rparr>) # qs1"
    using "2.prems" j by (auto split: option.splits)
  moreover have "map (\<lambda>q. j_fullName (snd q)) qs1 = map (\<lambda>q. j_fullName (snd q)) qs"
    using "2.IH" [OF j refl k(1)] .
  ultimately show ?case by simp
qed simp

lemma notify_frame:
  assumes "notifyRunningJobs e clock ts m = Some m'"
  shows "queue_names m' = queue_names m" "mg_runningJobs m' = mg_runningJobs m"
    "mg_retryingJobs m' = mg_retryingJobs m" "mg_tasks m' = mg_tasks m" "mg_next m' = mg_next m"
    "mg_FileLock m' = mg_FileLock m" "mg_confGroupCache m' = mg_confGroupCache m"
  using assms tick_jobs_names [of e clock ts "mg_queue m"]
  by (auto simp: notifyRunningJobs_def queue_names_def)

section \<open>Which configurations the cache hands out\<close>

definition cache_all :: "(Config \<Rightarrow> bool) \<Rightarrow> Cache \<Rightarrow> bool" where
  "cache_all P c \<longleftrightarrow> (\<forall>s es. ca_sources c s = Some es \<longrightarrow> (\<forall>e \<in> set es. P (snd e)))"

lemma release_from: "set (fst (release es hs)) \<subseteq> snd ` set es"
proof (induction es hs rule: release.induct)
  case (2 h cfg es hs)
  have "set (fst (release ((h, cfg) # es) hs)) \<subseteq> insert cfg (set (fst (release es (hs(h := uint_dec (hs h))))))"
    by (auto simp: Let_def case_prod_beta)
  then show ?case using "2.IH" [OF refl] by fastforce
qed simp

lemma take_in_from:
  "take_in Hash cfgs es hs = (added, es', hs') \<Longrightarrow>
   set added \<subseteq> set cfgs \<and> snd ` set es' \<subseteq> snd ` set es \<union> set cfgs"
proof (induction Hash cfgs es hs arbitrary: added es' hs' rule: take_in.induct)
  case (2 Hash cfg cfgs es hs)
  obtain added1 es1 hs1 where t: "take_in Hash cfgs (AList.update (Hash cfg) cfg es) (hs(Hash cfg := uint_inc (hs (Hash cfg))))
      = (added1, es1, hs1)" using prod_cases3 by blast
  show ?case
  proof (cases "map_of es (Hash cfg) = None")
    case True
    then have "set added1 \<subseteq> set cfgs \<and> snd ` set es1 \<subseteq> snd ` set (AList.update (Hash cfg) cfg es) \<union> set cfgs"
      using "2.IH"(2) [OF refl _ t] by simp
    moreover have "snd ` set (AList.update (Hash cfg) cfg es) \<subseteq> insert cfg (snd ` set es)"
      using set_update_entries [of "Hash cfg" cfg es] by auto
    moreover have "es' = es1" "set added \<subseteq> insert cfg (set added1)"
      using True "2.prems" t by (auto simp: Let_def split: if_splits)
    ultimately show ?thesis by (simp add: subset_iff) blast
  next
    case False
    then show ?thesis using "2.IH"(1) [OF refl, of added es' hs'] "2.prems" by (auto simp: Let_def)
  qed
qed simp

lemma Cache_Add_from:
  assumes "cache_all P c" and "\<forall>cfg \<in> set (g_Configs gr). P cfg"
    and "Cache_Add Hash c (Some gr) = ((added, removed), c')"
  shows "cache_all P c' \<and> (\<forall>cfg \<in> set added \<union> set removed. P cfg)"
proof -
  define es where "es = (case ca_sources c (g_Source gr) of None \<Rightarrow> [] | Some es \<Rightarrow> es)"
  have es: "\<forall>e \<in> set es. P (snd e)"
    using assms(1) by (cases "ca_sources c (g_Source gr)") (simp_all add: cache_all_def es_def)
  obtain added1 es1 hs1 where t: "take_in Hash (g_Configs gr) es (ca_hashes c) = (added1, es1, hs1)"
    using prod_cases3 by blast
  have es1: "\<forall>e \<in> set es1. P (snd e)" "\<forall>cfg \<in> set added1. P cfg"
    using take_in_from [OF t] es assms(2) by (auto simp: subset_iff image_iff) fastforce?
  have rel: "\<forall>cfg \<in> set (fst (release fs hs)). P cfg" if "\<forall>e \<in> set fs. P (snd e)" for fs hs
    using release_from [of fs hs] that by fastforce
  have upd: "cache_all P (c\<lparr>ca_hashes := hs, ca_sources := (ca_sources c)(src := v)\<rparr>)"
    if "\<forall>fs. v = Some fs \<longrightarrow> (\<forall>e \<in> set fs. P (snd e))" for hs src v
    using assms(1) that by (auto simp: cache_all_def)
  show ?thesis
  proof (cases "g_Configs gr = []")
    case True
    show ?thesis
    proof (cases "ca_sources c (g_Source gr)")
      case None
      then show ?thesis using assms(1,3) True by (simp add: Cache_Add_def addEmpty_def)
    next
      case (Some es0)
      then have "added = []" "removed = fst (release es (ca_hashes c))"
        "c' = c\<lparr>ca_hashes := snd (release es (ca_hashes c)), ca_sources := (ca_sources c)(g_Source gr := None)\<rparr>"
        using assms(3) True by (simp_all add: Cache_Add_def addEmpty_def es_def case_prod_beta)
      then show ?thesis using rel [OF es] upd [of None] by simp
    qed
  next
    case False
    let ?seen = "set (map Hash (g_Configs gr))"
    let ?r = "release (filter (\<lambda>(h, cfg). h \<notin> ?seen) es1) hs1"
    let ?es2 = "filter (\<lambda>(h, cfg). h \<in> ?seen) es1"
    have "Cache_Add Hash c (Some gr) = (if ca_sources c (g_Source gr) = None
        then ((added1, []), c\<lparr>ca_hashes := hs1, ca_sources := (ca_sources c)(g_Source gr \<mapsto> es1)\<rparr>)
        else ((added1, fst ?r), c\<lparr>ca_hashes := snd ?r,
               ca_sources := (ca_sources c)(g_Source gr := (if ?es2 = [] then None else Some ?es2))\<rparr>))"
      using False t [unfolded es_def] by (simp add: Cache_Add_def addNotEmpty_def Let_def split: prod.splits)
    moreover have "cache_all P (c\<lparr>ca_hashes := hs1, ca_sources := (ca_sources c)(g_Source gr \<mapsto> es1)\<rparr>)"
      using es1(1) by (intro upd) simp
    moreover have "cache_all P (c\<lparr>ca_hashes := snd ?r,
               ca_sources := (ca_sources c)(g_Source gr := (if ?es2 = [] then None else Some ?es2))\<rparr>)"
      using es1(1) by (intro upd) auto
    moreover have "\<forall>cfg \<in> set (fst ?r). P cfg" using es1(1) by (intro rel) auto
    ultimately show ?thesis using es1(2) assms(3) by (auto split: if_splits)
  qed
qed

section \<open>The manager over its services\<close>

text \<open>Every lock held is the lock of a job in the queue.\<close>

definition lock_ok :: "('l \<Rightarrow> string set) \<Rightarrow> ('l \<Rightarrow> bool) \<Rightarrow> ('m, 'l, 's, 'd) Manager \<Rightarrow> bool" where
  "lock_ok held invar m \<longleftrightarrow> invar (mg_FileLock m) \<and> held (mg_FileLock m) \<subseteq> set (queue_names m)"

text \<open>The invariant of the manager, for the observations of a lock.\<close>

definition mgr_ok :: "('l \<Rightarrow> string set) \<Rightarrow> ('l \<Rightarrow> bool) \<Rightarrow> (Config \<Rightarrow> cfg_hash) \<Rightarrow> cfg_hash set
    \<Rightarrow> ('m, 'l, 's, 'd) Manager \<Rightarrow> bool" where
  "mgr_ok held invar Hash X m \<longleftrightarrow> running_ok m \<and> retry_ok_except Hash X m \<and> lock_ok held invar m"

text \<open>What the manager may rely on: the lock and the status file keep their contracts.\<close>

locale job_manager =
  lk: file_locker "sv_Lock sv" "sv_Unlock sv" held invar lockable +
  st: status_store "sv_Save sv" "sv_Remove sv" status same
  for sv :: "('m, 'l, 's, 'd) services" and held invar lockable status same
begin

lemma tasks_update_ok [simp]:
  "running_ok (m\<lparr>mg_tasks := ts\<rparr>) = running_ok m" "lock_ok h i (m\<lparr>mg_tasks := ts\<rparr>) = lock_ok h i m"
  by (simp_all add: running_ok_def lock_ok_def queue_names_def)

lemma mgr_ok_same:
  "same_tables m' m \<Longrightarrow> mg_FileLock m' = mg_FileLock m \<Longrightarrow> mgr_ok held invar (sv_Hash sv) X m' = mgr_ok held invar (sv_Hash sv) X m"
  using same_tables_ok [of m' m] by (simp add: mgr_ok_def lock_ok_def)

lemma mgr_ok_settle:
  assumes ok: "mgr_ok held invar (sv_Hash sv) {} m" and n: "retrying_lookup (sv_Hash sv) cfg (mg_retryingJobs m) = None"
    and "\<not> running_has cfg (mg_runningJobs m)" and "j_fullName job = FullName cfg" and "lockable (FullName cfg)"
    and st: "outcome \<in> {jobStatusRunning, jobStatusRetrying, jobStatusStoppedFailed}"
  shows "mgr_ok held invar (sv_Hash sv) {} (settle sv cfg ops outcome job m)"
proof -
  let ?m = "settle sv cfg ops outcome job m"
  have inv: "invar (mg_FileLock m)" and run: "running_ok m" and ret: "retry_ok (sv_Hash sv) m"
    and sub: "held (mg_FileLock m) \<subseteq> set (queue_names m)"
    using ok by (simp_all add: mgr_ok_def lock_ok_def)
  have lock: "invar l \<and> held l \<subseteq> insert (FullName cfg) (held (mg_FileLock m))"
    if "sv_Lock sv (FullName cfg) (mg_FileLock m) = ((b, err), l)" for b err l
    using lk.Lock_held [OF inv assms(5)] lk.Lock_invar [OF inv, of "FullName cfg"] that by (auto split: if_splits)
  from st show ?thesis
  proof (cases rule: settle_cases [where sv = sv and cfg = cfg and ops = ops and job = job and m = m])
    case (started err b l)
    have q: "queue_names ?m = queue_names m @ [FullName cfg]" using started assms(4) by (simp add: queue_names_def)
    have "running_ok ?m" using running_ok_start [OF run assms(3,4)] started by blast
    moreover have "retry_ok (sv_Hash sv) ?m" using retry_ok_cong [of ?m m] started ret by simp
    moreover have "lock_ok held invar ?m" using lock [OF started(2)] sub started q by (auto simp: lock_ok_def)
    ultimately show ?thesis by (simp add: mgr_ok_def)
  next
    case (refused err l s)
    then have "lock_ok held invar ?m" using lk.Lock_held [OF inv assms(5)] lk.Lock_invar [OF inv, of "FullName cfg"] sub
        same_tables_ok(3) [OF refused(4)] by (auto simp: lock_ok_def)
    then show ?thesis using same_tables_ok [OF refused(4)] run ret by (simp add: mgr_ok_def)
  next
    case retry
    have "mgr_ok held invar (sv_Hash sv) {} (put_retry sv cfg job m)"
      using retry_ok_put [OF ret n refl] run running_ok_cong [of "put_retry sv cfg job m" m] ok
      by (simp add: mgr_ok_def lock_ok_def queue_names_def)
    then show ?thesis using mgr_ok_same [OF retry(2)] retry(3) by simp
  next
    case failed
    show ?thesis using mgr_ok_same [OF failed(2,3)] ok by simp
  qed
qed

lemma mgr_ok_addConfig:
  assumes ok: "mgr_ok held invar (sv_Hash sv) X m" and "X \<subseteq> {sv_Hash sv cfg}" and "lockable (FullName cfg)"
  shows "mgr_ok held invar (sv_Hash sv) {} (addConfig sv cfg m)"
proof -
  have ret: "retry_ok_except (sv_Hash sv) X m" using ok by (simp add: mgr_ok_def)
  note prep = prepared_retry [OF ret assms(2)]
  have p: "mgr_ok held invar (sv_Hash sv) {} (prepared sv cfg m)"
    using ok prep(1) running_ok_cong [of "prepared sv cfg m" m]
    by (simp add: mgr_ok_def lock_ok_def queue_names_def)
  show ?thesis
  proof (cases rule: addConfig_cases [where cfg = cfg and m = m and sv = sv])
    case duplicate
    show ?thesis using mgr_ok_same [OF duplicate(2)] duplicate(3) p by simp
  next
    case not_created
    show ?thesis using mgr_ok_same [OF not_created(2)] not_created(3) p by simp
  next
    case (detected ops job0 stat job)
    then show ?thesis using mgr_ok_settle [OF p prep(2)] assms(3) by simp
  qed
qed

lemma removeConfig_eq:
  "removeConfig sv cfg m = (let m1 = (if running_has cfg (mg_runningJobs m)
      then (stopJob (sv_env sv) (FullName cfg) m)\<lparr>
             mg_FileLock := snd (sv_Unlock sv (FullName cfg) (mg_FileLock m)),
             mg_runningJobs := running_remove cfg (mg_runningJobs m)\<rparr> else m);
     m2 = (case retrying_lookup (sv_Hash sv) cfg (mg_retryingJobs m) of
             Some task \<Rightarrow> cancel_retry sv cfg task m1 | None \<Rightarrow> m1)
   in m2\<lparr>mg_StatusSaver := sv_Remove sv cfg (mg_StatusSaver m), mg_Dyncfg := sv_Unregister sv cfg (mg_Dyncfg m)\<rparr>)"
  by (simp add: removeConfig_def Let_def split: option.splits)

lemma removeConfig_parts:
  shows "mg_runningJobs (removeConfig sv cfg m) = (if running_has cfg (mg_runningJobs m)
      then running_remove cfg (mg_runningJobs m) else mg_runningJobs m)"
    and "queue_names (removeConfig sv cfg m) = (if running_has cfg (mg_runningJobs m)
      then remove1 (FullName cfg) (queue_names m) else queue_names m)"
    and "mg_FileLock (removeConfig sv cfg m) = (if running_has cfg (mg_runningJobs m)
      then snd (sv_Unlock sv (FullName cfg) (mg_FileLock m)) else mg_FileLock m)"
    and "mg_retryingJobs (removeConfig sv cfg m) = mg_retryingJobs (case retrying_lookup (sv_Hash sv) cfg (mg_retryingJobs m) of
             Some task \<Rightarrow> cancel_retry sv cfg task m | None \<Rightarrow> m)"
    and "mg_tasks (removeConfig sv cfg m) = mg_tasks (case retrying_lookup (sv_Hash sv) cfg (mg_retryingJobs m) of
             Some task \<Rightarrow> cancel_retry sv cfg task m | None \<Rightarrow> m)"
    and "mg_next (removeConfig sv cfg m) = mg_next m"
    and "mg_confGroupCache (removeConfig sv cfg m) = mg_confGroupCache m"
    and "mg_StatusSaver (removeConfig sv cfg m) = sv_Remove sv cfg (mg_StatusSaver m)"
    and "mg_Dyncfg (removeConfig sv cfg m) = sv_Unregister sv cfg (mg_Dyncfg m)"
  by (simp_all add: removeConfig_eq Let_def cancel_retry_def queue_names_def split: option.splits)
    (simp_all add: queue_names_def [symmetric])

lemma mgr_ok_removeConfig:
  assumes ok: "mgr_ok held invar (sv_Hash sv) {} m" and "lockable (FullName cfg)"
  shows "mgr_ok held invar (sv_Hash sv) {} (removeConfig sv cfg m)"
    and "retrying_lookup (sv_Hash sv) cfg (mg_retryingJobs (removeConfig sv cfg m)) = None"
    and "FullName cfg \<notin> set (queue_names (removeConfig sv cfg m))"
proof -
  let ?m = "removeConfig sv cfg m"
  have inv: "invar (mg_FileLock m)" and run: "running_ok m" and ret: "retry_ok (sv_Hash sv) m"
    and sub: "held (mg_FileLock m) \<subseteq> set (queue_names m)"
    using ok by (simp_all add: mgr_ok_def lock_ok_def)
  have has: "running_has cfg (mg_runningJobs m) \<longleftrightarrow> FullName cfg \<in> set (queue_names m)"
    using run running_has_iff [of "mg_runningJobs m" cfg] by (simp add: running_ok_def)
  have d: "distinct (queue_names m)" using run by (simp add: running_ok_def)
  show gone: "FullName cfg \<notin> set (queue_names ?m)" using d has by (simp add: removeConfig_parts)
  have "running_ok ?m"
  proof (cases "running_has cfg (mg_runningJobs m)")
    case True
    then show ?thesis by (intro running_ok_stop [OF run, of _ cfg]) (simp_all add: removeConfig_parts)
  next
    case False
    then show ?thesis using run by (simp add: running_ok_def removeConfig_parts)
  qed
  moreover have "lock_ok held invar ?m"
    using lk.Unlock_held [OF inv assms(2)] lk.Unlock_invar [OF inv, of "FullName cfg"] sub inv d
    by (auto simp: lock_ok_def removeConfig_parts)
  moreover have "retry_ok (sv_Hash sv) ?m
      \<and> retrying_lookup (sv_Hash sv) cfg (mg_retryingJobs ?m) = None"
  proof (cases "retrying_lookup (sv_Hash sv) cfg (mg_retryingJobs m)")
    case None
    then show ?thesis using ret retry_ok_cong [of ?m m] by (simp add: removeConfig_parts)
  next
    case (Some task)
    have "retry_ok (sv_Hash sv) ?m = retry_ok (sv_Hash sv) (cancel_retry sv cfg task m)"
      using Some by (intro retry_ok_cong) (simp_all add: removeConfig_parts)
    then show ?thesis using retry_ok_cancel [OF ret _ Some refl] Some by (simp add: removeConfig_parts)
  qed
  ultimately show "mgr_ok held invar (sv_Hash sv) {} ?m"
    and "retrying_lookup (sv_Hash sv) cfg (mg_retryingJobs ?m) = None" by (simp_all add: mgr_ok_def)
qed

text \<open>The invariant of the whole, with the configurations under way.\<close>

definition sys_ok :: "('m, 'l, 's, 'd) system \<Rightarrow> bool" where
  "sys_ok s \<longleftrightarrow> mgr_ok held invar (sv_Hash sv) {} (sy_mgr s)
     \<and> (\<forall>ch \<in> set (sy_pending s). lockable (FullName (case ch of Removed cfg \<Rightarrow> cfg | Added cfg \<Rightarrow> cfg)))
     \<and> (\<forall>(k, cfg, c) \<in> set (mg_tasks (sy_mgr s)). lockable (FullName cfg))
     \<and> cache_all (\<lambda>cfg. lockable (FullName cfg)) (mg_confGroupCache (sy_mgr s))"

lemma addConfig_tasks:
  assumes t: "(k, d, c) \<in> set (mg_tasks (addConfig sv cfg m))"
  shows "d = cfg \<or> (\<exists>c0. (k, d, c0) \<in> set (mg_tasks m))"
proof -
  have "set (mg_tasks (addConfig sv cfg m)) \<subseteq> insert (mg_next m, cfg, False) (set (mg_tasks (prepared sv cfg m)))"
  proof (cases rule: addConfig_cases [where cfg = cfg and m = m and sv = sv])
    case (detected ops job0 stat job)
    from detected(4) show ?thesis
      by (cases rule: settle_cases [where sv = sv and cfg = cfg and ops = ops and job = job and m = "prepared sv cfg m"])
        (auto simp: detected(6) same_tables_def put_retry_def)
  qed (auto simp: same_tables_def)
  then show ?thesis using t prepared_tasks [of k d c sv cfg m] by auto
qed

lemma addConfig_tasks_lockable:
  assumes "\<forall>(k, d, c) \<in> set (mg_tasks m). lockable (FullName d)" and "lockable (FullName cfg)"
  shows "\<forall>(k, d, c) \<in> set (mg_tasks (addConfig sv cfg m)). lockable (FullName d)"
  using assms addConfig_tasks by blast

lemma addConfig_cache: "mg_confGroupCache (addConfig sv cfg m) = mg_confGroupCache m"
proof (cases rule: addConfig_cases [where cfg = cfg and m = m and sv = sv])
  case (detected ops job0 stat job)
  from detected(4) show ?thesis
    by (cases rule: settle_cases [where sv = sv and cfg = cfg and ops = ops and job = job and m = "prepared sv cfg m"])
      (simp_all add: detected(6) same_tables_def)
qed (simp_all add: same_tables_def)

lemma removeConfig_tasks:
  "(k, d, c) \<in> set (mg_tasks (removeConfig sv cfg m)) \<Longrightarrow> \<exists>c0. (k, d, c0) \<in> set (mg_tasks m)"
  by (auto simp: removeConfig_parts cancel_retry_def cancel_task_mem split: option.splits)

lemma removeConfig_tasks_lockable:
  assumes "\<forall>(k, d, c) \<in> set (mg_tasks m). lockable (FullName d)"
  shows "\<forall>(k, d, c) \<in> set (mg_tasks (removeConfig sv cfg m)). lockable (FullName d)"
  using assms removeConfig_tasks by blast

lemma sys_ok_step:
  assumes "mgr_step sv (\<lambda>cfg. lockable (FullName cfg)) s s'" and ok: "sys_ok s"
  shows "sys_ok s'"
  using assms(1)
proof cases
  case (group_in gr chs m)
  obtain added removed c where c: "Cache_Add (sv_Hash sv) (mg_confGroupCache (sy_mgr s)) (Some gr) = ((added, removed), c)"
    by (metis surj_pair)
  have m: "m = (sy_mgr s)\<lparr>mg_confGroupCache := c\<rparr>" "chs = map Removed removed @ map Added added"
    using group_in c by (auto simp: receive_group_def)
  have "mgr_ok held invar (sv_Hash sv) {} m = mgr_ok held invar (sv_Hash sv) {} (sy_mgr s)"
    by (simp add: m mgr_ok_def running_ok_def retry_ok_except_def lock_ok_def queue_names_def)
  then show ?thesis using ok Cache_Add_from [OF _ group_in(3) c] group_in(1) m
    by (auto simp: sys_ok_def)
next
  case (removed cfg chs)
  have l: "lockable (FullName cfg)" using ok removed by (simp add: sys_ok_def)
  show ?thesis using ok removed mgr_ok_removeConfig(1) [OF _ l, of "sy_mgr s"]
      removeConfig_tasks_lockable [of "sy_mgr s" cfg]
    by (simp add: sys_ok_def removeConfig_parts(7))
next
  case (added cfg chs)
  have l: "lockable (FullName cfg)" using ok added by (simp add: sys_ok_def)
  show ?thesis using ok added mgr_ok_addConfig [OF _ _ l, of "{}" "sy_mgr s"]
      addConfig_tasks_lockable [OF _ l, of "sy_mgr s"]
    by (simp add: sys_ok_def addConfig_cache)
next
  case (retry k cfg c)
  let ?m = "(sy_mgr s)\<lparr>mg_tasks := filter (\<lambda>t. fst t \<noteq> k) (mg_tasks (sy_mgr s))\<rparr>"
  have l: "lockable (FullName cfg)" using ok retry by (fastforce simp: sys_ok_def)
  have "retry_ok_except (sv_Hash sv) (if c then {} else {sv_Hash sv cfg}) ?m"
    using retry_ok_end [OF _ retry(2)] ok by (simp add: sys_ok_def mgr_ok_def)
  then have "mgr_ok held invar (sv_Hash sv) (if c then {} else {sv_Hash sv cfg}) ?m"
    using ok by (simp add: sys_ok_def mgr_ok_def)
  then have "mgr_ok held invar (sv_Hash sv) {} (addConfig sv cfg ?m)"
    by (rule mgr_ok_addConfig [OF _ _ l]) simp
  moreover have "\<forall>(k, d, c) \<in> set (mg_tasks (addConfig sv cfg ?m)). lockable (FullName d)"
    using ok by (intro addConfig_tasks_lockable [OF _ l]) (auto simp: sys_ok_def)
  ultimately show ?thesis using ok retry by (simp add: sys_ok_def addConfig_cache)
next
  case (give_up k cfg)
  let ?m = "(sy_mgr s)\<lparr>mg_tasks := filter (\<lambda>t. fst t \<noteq> k) (mg_tasks (sy_mgr s))\<rparr>"
  have "retry_ok (sv_Hash sv) ?m" using retry_ok_end [OF _ give_up(2)] ok by (simp add: sys_ok_def mgr_ok_def)
  then show ?thesis using ok give_up by (auto simp: sys_ok_def mgr_ok_def)
next
  case (tick clock ts m)
  note f = notify_frame [OF tick(2)]
  have "running_ok m = running_ok (sy_mgr s)" "lock_ok held invar m = lock_ok held invar (sy_mgr s)"
    by (simp_all add: running_ok_def lock_ok_def f)
  then have "mgr_ok held invar (sv_Hash sv) {} m"
    using ok f retry_ok_cong [of m "sy_mgr s"] by (simp add: sys_ok_def mgr_ok_def)
  then show ?thesis using ok tick f by (simp add: sys_ok_def)
qed

lemma sys_ok_reachable:
  "mgr_reachable sv (\<lambda>cfg. lockable (FullName cfg)) s0 s \<Longrightarrow> sys_ok s0 \<Longrightarrow> sys_ok s"
  by (induction rule: mgr_reachable.induct) (auto intro: sys_ok_step)

lemma sys_ok_init:
  "invar l \<Longrightarrow> held l = {} \<Longrightarrow> sys_ok \<lparr>sy_mgr = NewManager plugin modules l s d, sy_pending = []\<rparr>"
  by (simp add: sys_ok_def mgr_ok_def running_ok_def retry_ok_except_def lock_ok_def queue_names_def
      cache_all_def NewManager_def NewCache_def)

text \<open>The status recorded for a configuration after it was added says what became of it.\<close>

lemma addConfig_status:
  assumes ok: "mgr_ok held invar (sv_Hash sv) X m" and "X \<subseteq> {sv_Hash sv cfg}"
  shows "\<exists>r. status (mg_StatusSaver (addConfig sv cfg m)) cfg = Some r
     \<and> (r = jobStatusRunning \<longleftrightarrow> queue_names (addConfig sv cfg m) = queue_names m @ [FullName cfg])
     \<and> (r \<noteq> jobStatusRunning \<longrightarrow> queue_names (addConfig sv cfg m) = queue_names m)
     \<and> (r = jobStatusRetrying \<longleftrightarrow> retrying_lookup (sv_Hash sv) cfg (mg_retryingJobs (addConfig sv cfg m)) \<noteq> None)"
proof -
  have "retry_ok_except (sv_Hash sv) X m" using ok by (simp add: mgr_ok_def)
  note none = prepared_retry(2) [OF this assms(2)]
  show ?thesis
  proof (cases rule: addConfig_cases [where cfg = cfg and m = m and sv = sv])
    case duplicate
    then show ?thesis using none st.Save_same(1) by (simp add: same_tables_def queue_names_def job_status_defs)
  next
    case not_created
    then show ?thesis using none st.Save_same(1) by (simp add: same_tables_def queue_names_def job_status_defs)
  next
    case (detected ops job0 stat job)
    from detected(4) show ?thesis
    proof (cases rule: settle_cases [where sv = sv and cfg = cfg and ops = ops and job = job and m = "prepared sv cfg m"])
      case started
      then show ?thesis using none st.Save_same(1) detected(5,6)
        by (simp add: queue_names_def job_status_defs)
    next
      case (refused err l r)
      then show ?thesis using none st.Save_same(1) [of cfg r] detected(6)
        by (auto simp: same_tables_def queue_names_def job_status_defs)
    next
      case retry
      then show ?thesis using st.Save_same(1) detected(6)
        by (simp add: same_tables_def queue_names_def job_status_defs put_retry_def retrying_put_def
            retrying_lookup_def map_of_update)
    next
      case failed
      then show ?thesis using none st.Save_same(1) detected(6)
        by (simp add: same_tables_def queue_names_def job_status_defs)
    qed
  qed
qed

end

section \<open>Retries end\<close>

text \<open>A failed detection that will be retried used up one try.\<close>

lemma AutoDetection_retry:
  assumes "AutoDetection e ops j = (False, j')" and "RetryAutoDetection j'"
  shows "j_AutoDetectEvery j' = j_AutoDetectEvery j \<and> (0 < j_AutoDetectTries j \<longrightarrow>
      j_AutoDetectTries j' = j_AutoDetectTries j - 1 \<and> 0 < j_AutoDetectTries j')"
proof (cases "detection_body e ops j")
  case (Pair r j1)
  show ?thesis
  proof (cases r)
    case None
    with Pair assms show ?thesis
      by (auto simp: AutoDetection_def detection_end_def disableAutoDetection_def RetryAutoDetection_def)
  next
    case (Some b)
    with Pair assms have "detection_body e ops j = (Some False, j1)" "j' = j1\<lparr>j_module := m_Cleanup ops (j_module j1)\<rparr>"
      by (auto simp: AutoDetection_def detection_end_def split: if_splits)
    with detection_body_Some [of e ops j False j1] assms(2) show ?thesis
      by (auto simp: RetryAutoDetection_def infTries_def split: if_splits)
  qed
qed

lemma retry_uses_a_try:
  assumes "retry_ok_except (sv_Hash sv) {sv_Hash sv cfg} m"
    and "retrying_lookup (sv_Hash sv) cfg (mg_retryingJobs m) = Some task"
    and "retrying_lookup (sv_Hash sv) cfg (mg_retryingJobs (addConfig sv cfg m)) = Some task'"
    and "0 < rt_retries task"
  shows "rt_retries task' = rt_retries task - 1 \<and> 0 < rt_retries task' \<and> rt_timeout task' = rt_timeout task"
proof -
  note none = prepared_retry(2) [OF assms(1) subset_refl]
  obtain ops job0 job where d: "detection (sv_env sv) ops (recovery sv cfg (Some task) job0) = (jobStatusRetrying, job)"
    and t: "rt_retries task' = j_AutoDetectTries job" "rt_timeout task' = j_AutoDetectEvery job"
  proof (cases rule: addConfig_cases [where cfg = cfg and m = m and sv = sv])
    case (detected ops job0 stat job)
    from detected(4) show ?thesis
    proof (cases rule: settle_cases [where sv = sv and cfg = cfg and ops = ops and job = job and m = "prepared sv cfg m"])
      case retry
      then show ?thesis using detected assms(2,3)
        by (intro that [of ops job0 job])
          (auto simp: same_tables_def put_retry_def retrying_put_def retrying_lookup_def map_of_update)
    qed (use none assms(3) detected(6) in \<open>simp_all add: same_tables_def\<close>)
  qed (use none assms(3) in \<open>simp_all add: same_tables_def\<close>)
  let ?j = "recovery sv cfg (Some task) job0"
  have "AutoDetection (sv_env sv) ops ?j = (False, job)" "RetryAutoDetection job"
    using d by (auto simp: detection_def job_status_defs split: prod.splits if_splits)
  from AutoDetection_retry [OF this] show ?thesis using t assms(4) by (simp add: recovery_def)
qed

end
