(* ===== verification/Filepath.thy ===== *)
theory Filepath
  imports Prelude
begin

text \<open>
  What the sources use of \<open>path/filepath\<close>, as it behaves on Unix: \<open>Clean\<close>, \<open>Join\<close>, \<open>Ext\<close> and
  \<open>Base\<close>.
\<close>

abbreviation slash :: char where
  "slash \<equiv> CHR ''/''"

text \<open>The elements of a path are read from left to right; the first list is the path so far, last
  element first.\<close>

fun clean_elems :: "bool \<Rightarrow> string list \<Rightarrow> string list \<Rightarrow> string list" where
  "clean_elems rooted out [] = rev out"
| "clean_elems rooted out (e # es) =
     (if e = [] \<or> e = ''.'' then clean_elems rooted out es
      else if e = ''..'' then
        (case out of
           [] \<Rightarrow> clean_elems rooted (if rooted then [] else [''..'']) es
         | o1 # os \<Rightarrow> if o1 = ''..'' then clean_elems rooted (''..'' # out) es
                      else clean_elems rooted os es)
      else clean_elems rooted (e # out) es)"

definition Clean :: "string \<Rightarrow> string" where
  "Clean p =
     (if p = [] then ''.''
      else let rooted = (hd p = slash); es = clean_elems rooted [] (SplitByte p slash)
           in if rooted then slash # Join es [slash]
              else if es = [] then ''.'' else Join es [slash])"

definition filepath_Join :: "string list \<Rightarrow> string" where
  "filepath_Join es = (let es' = dropWhile (\<lambda>e. e = []) es
                       in if es' = [] then [] else Clean (Join es' [slash]))"

fun ext_rev :: "string \<Rightarrow> string \<Rightarrow> string" where
  "ext_rev acc [] = []"
| "ext_rev acc (c # cs) =
     (if c = slash then [] else if c = CHR ''.'' then c # acc else ext_rev (c # acc) cs)"

definition Ext :: "string \<Rightarrow> string" where
  "Ext p = ext_rev [] (rev p)"

definition Base :: "string \<Rightarrow> string" where
  "Base p =
     (if p = [] then ''.''
      else let q = rev (dropWhile (\<lambda>c. c = slash) (rev p)); b = rev (takeWhile (\<lambda>c. c \<noteq> slash) (rev q))
           in if b = [] then [slash] else b)"

section \<open>Joining a directory and a file name\<close>

lemma SplitByte_app_sep: "SplitByte (s @ c # t) c = SplitByte s c @ SplitByte t c"
  by (induction s) (auto split: list.splits)

definition file_name :: "string \<Rightarrow> bool" where
  "file_name f \<longleftrightarrow> f \<noteq> [] \<and> slash \<notin> set f \<and> f \<noteq> ''.'' \<and> f \<noteq> ''..''"

lemma clean_elems_snoc:
  "file_name f \<Longrightarrow> clean_elems r out (es @ [f]) = clean_elems r out es @ [f]"
  by (induction r out es rule: clean_elems.induct) (auto simp: file_name_def split: list.splits)

lemma Join_snoc: "Join (es @ [f]) sep = (if es = [] then f else Join es sep @ sep @ f)"
  by (induction es sep rule: Join.induct) auto

text \<open>The file name is the last element of the joined path, whatever the directory.\<close>

lemma Clean_file:
  assumes "file_name f" and "d \<noteq> []"
  shows "\<exists>p. \<forall>g. file_name g \<longrightarrow> Clean (d @ slash # g) = p @ g"
proof -
  let ?r = "hd d = slash" and ?es = "clean_elems (hd d = slash) [] (SplitByte d slash)"
  let ?p = "if ?r then slash # (if ?es = [] then [] else Join ?es [slash] @ [slash])
            else if ?es = [] then [] else Join ?es [slash] @ [slash]"
  have "Clean (d @ slash # g) = ?p @ g" if g: "file_name g" for g
  proof -
    have "SplitByte (d @ slash # g) slash = SplitByte d slash @ [g]"
      using g by (simp add: SplitByte_app_sep SplitByte_no_sep_id file_name_def)
    then have "clean_elems (hd (d @ slash # g) = slash) [] (SplitByte (d @ slash # g) slash) = ?es @ [g]"
      using clean_elems_snoc [OF g] assms(2) by simp
    then show ?thesis using assms(2)
      by (cases "hd d = slash") (simp_all add: Clean_def Let_def Join_snoc)
  qed
  then show ?thesis by blast
qed

lemma filepath_Join_inject:
  assumes "file_name f" and "file_name g"
  shows "filepath_Join [d, f] = filepath_Join [d, g] \<longleftrightarrow> f = g"
proof (cases "d = []")
  case True
  have "Clean h = h" if "file_name h" for h
    using that by (cases h) (auto simp: Clean_def file_name_def SplitByte_no_sep_id)
  then show ?thesis using True assms by (simp add: filepath_Join_def file_name_def)
next
  case False
  obtain p where "\<forall>g. file_name g \<longrightarrow> Clean (d @ slash # g) = p @ g"
    using Clean_file [OF assms(1) False] by blast
  then show ?thesis using False assms by (simp add: filepath_Join_def)
qed

end
