(* ===== verification/Filelock.thy ===== *)
theory Filelock
  imports Services Filepath
begin

text \<open>
  \<open>agent/filelock/filelock.go\<close>: one lock file per job name.  The package \<open>gofrs/flock\<close> is a
  parameter: \<open>TryLock\<close> and \<open>Close\<close> on a path, over the state \<open>'os\<close> of the operating system.
\<close>

record 'os Locker =
  lk_suffix :: string
  lk_dir :: string
  lk_locks :: "string list"
  lk_os :: 'os

record 'os flock =
  fk_TryLock :: "string \<Rightarrow> 'os \<Rightarrow> (bool \<times> go_error option) \<times> 'os"
  fk_Close :: "string \<Rightarrow> 'os \<Rightarrow> go_error option \<times> 'os"

definition NewLocker :: "string \<Rightarrow> 'os \<Rightarrow> 'os Locker" where
  "NewLocker dir os0 = \<lparr>lk_suffix = ''.collector.lock'', lk_dir = dir, lk_locks = [], lk_os = os0\<rparr>"

definition lock_path :: "'os Locker \<Rightarrow> string \<Rightarrow> string" where
  "lock_path l name = filepath_Join [lk_dir l, name @ lk_suffix l]"

definition Locker_Lock :: "'os flock \<Rightarrow> 'os Locker lock_fun" where
  "Locker_Lock fk n l =
     (let name = lock_path l n in
      if name \<in> set (lk_locks l) then ((True, None), l)
      else let ((ok, err), os1) = fk_TryLock fk name (lk_os l)
           in if ok then ((ok, err), l\<lparr>lk_locks := name # lk_locks l, lk_os := os1\<rparr>)
              else ((ok, err), l\<lparr>lk_os := snd (fk_Close fk name os1)\<rparr>))"

definition Locker_Unlock :: "'os flock \<Rightarrow> 'os Locker unlock_fun" where
  "Locker_Unlock fk n l =
     (let name = lock_path l n in
      if name \<notin> set (lk_locks l) then (None, l)
      else let (err, os1) = fk_Close fk name (lk_os l)
           in (err, l\<lparr>lk_locks := removeAll name (lk_locks l), lk_os := os1\<rparr>))"

section \<open>The contract of the lock\<close>

text \<open>Names with a slash can denote the file of another name; the others cannot.\<close>

definition lockable :: "string \<Rightarrow> bool" where
  "lockable n \<longleftrightarrow> slash \<notin> set n"

definition Locker_held :: "'os Locker \<Rightarrow> string set" where
  "Locker_held l = {n. lockable n \<and> lock_path l n \<in> set (lk_locks l)}"

text \<open>The suffix is the one \<open>New\<close> sets; no operation changes it.\<close>

definition Locker_inv :: "'os Locker \<Rightarrow> bool" where
  "Locker_inv l \<longleftrightarrow> lk_suffix l = ''.collector.lock''"

lemma lock_file_name: "lockable n \<Longrightarrow> file_name (n @ ''.collector.lock'')"
  by (auto simp: lockable_def file_name_def append_eq_Cons_conv)

lemma lock_path_inject:
  "Locker_inv l \<Longrightarrow> lockable n \<Longrightarrow> lockable m \<Longrightarrow> lock_path l n = lock_path l m \<longleftrightarrow> n = m"
  using filepath_Join_inject [OF lock_file_name lock_file_name, of n m "lk_dir l"]
  by (simp add: lock_path_def Locker_inv_def)

lemma Locker_frame [simp]:
  "lk_suffix (snd (Locker_Lock fk n l)) = lk_suffix l" "lk_dir (snd (Locker_Lock fk n l)) = lk_dir l"
  "lk_suffix (snd (Locker_Unlock fk n l)) = lk_suffix l" "lk_dir (snd (Locker_Unlock fk n l)) = lk_dir l"
  by (simp_all add: Locker_Lock_def Locker_Unlock_def Let_def case_prod_beta)

lemma lock_path_frame [simp]:
  "lock_path (snd (Locker_Lock fk n l)) = lock_path l" "lock_path (snd (Locker_Unlock fk n l)) = lock_path l"
  by (simp_all add: lock_path_def fun_eq_iff)

lemma Locker_Lock_locks: "set (lk_locks (snd (Locker_Lock fk n l)))
   = (if fst (fst (Locker_Lock fk n l)) then insert (lock_path l n) (set (lk_locks l)) else set (lk_locks l))"
  by (auto simp: Locker_Lock_def Let_def case_prod_beta)

lemma Locker_Unlock_locks:
  "set (lk_locks (snd (Locker_Unlock fk n l))) = set (lk_locks l) - {lock_path l n}"
  by (auto simp: Locker_Unlock_def Let_def case_prod_beta)

interpretation filelock: file_locker "Locker_Lock fk" "Locker_Unlock fk" Locker_held Locker_inv lockable
proof
  fix l :: "'a Locker" and n assume inv: "Locker_inv l"
  show "Locker_inv (snd (Locker_Lock fk n l))" "Locker_inv (snd (Locker_Unlock fk n l))"
    using inv by (simp_all add: Locker_inv_def)
  assume n: "lockable n"
  show "Locker_held (snd (Locker_Lock fk n l))
      = (if fst (fst (Locker_Lock fk n l)) then insert n (Locker_held l) else Locker_held l)"
    using lock_path_inject [OF inv _ n] n by (auto simp: Locker_held_def Locker_Lock_locks)
  show "Locker_held (snd (Locker_Unlock fk n l)) = Locker_held l - {n}"
    using lock_path_inject [OF inv _ n] n by (auto simp: Locker_held_def Locker_Unlock_locks)
qed

text \<open>
  Among job names without a slash, the lock of a name is its own: a successful \<open>Lock\<close> adds
  that name to the names held and no other, a refused one adds none, and \<open>Unlock\<close> releases
  that name alone, wherever the directory of the lock files is.  A second \<open>Lock\<close> of a name
  held succeeds without asking the operating system.
\<close>

theorem Locker_spec:
  assumes "lockable n" and "lk_suffix l = ''.collector.lock''"
  shows "Locker_held (snd (Locker_Lock fk n l))
      = (if fst (fst (Locker_Lock fk n l)) then insert n (Locker_held l) else Locker_held l)
    \<and> Locker_held (snd (Locker_Unlock fk n l)) = Locker_held l - {n}
    \<and> (n \<in> Locker_held l \<longrightarrow> Locker_Lock fk n l = ((True, None), l))"
proof -
  have inv: "Locker_inv l" using assms(2) by (simp add: Locker_inv_def)
  have "n \<in> Locker_held l \<Longrightarrow> Locker_Lock fk n l = ((True, None), l)"
    by (simp add: Locker_held_def Locker_Lock_def)
  then show ?thesis
    using filelock.Lock_held [OF inv assms(1)] filelock.Unlock_held [OF inv assms(1)] by blast
qed

text \<open>An operating system on which the files in a list are locked by another process.\<close>

definition sample_flock :: "string list flock" where
  "sample_flock = \<lparr>fk_TryLock = (\<lambda>p busy. ((p \<notin> set busy, None), busy)), fk_Close = (\<lambda>p busy. (None, busy))\<rparr>"

theorem Locker_spec_witness:
  "fst (Locker_Lock sample_flock ''a'' (NewLocker ''/run'' [''/run/b.collector.lock''])) = (True, None)
   \<and> fst (Locker_Lock sample_flock ''b'' (NewLocker ''/run'' [''/run/b.collector.lock''])) = (False, None)
   \<and> Locker_held (snd (Locker_Lock sample_flock ''a'' (NewLocker ''/run'' [''/run/b.collector.lock'']))) = {''a''}"
proof -
  let ?l = "NewLocker ''/run'' [''/run/b.collector.lock'']"
  have "fst (Locker_Lock sample_flock ''a'' ?l) = (True, None)"
    "fst (Locker_Lock sample_flock ''b'' ?l) = (False, None)" by code_simp+
  moreover have "Locker_held ?l = {}" by (simp add: Locker_held_def NewLocker_def)
  ultimately show ?thesis using Locker_spec [of "''a''" ?l sample_flock]
    by (simp add: lockable_def NewLocker_def)
qed

end
