(* ===== verification/Filestatus.thy ===== *)
theory Filestatus
  imports Services
begin

text \<open>
  \<open>agent/filestatus\<close>: the status of every job, kept in memory and written to a file from time to
  time, so that a restarted agent can recover.  The file is modelled by the JSON value in it;
  \<^const>\<open>None\<close> is a file that cannot be read back.
\<close>

type_synonym items = "string \<rightharpoonup> (string \<times> string) list"

text \<open>What the operating system does when the file is written.\<close>

datatype disk = CreateFails | WriteFails | Written

record StatusManager =
  fm_items :: items
  fm_flushCh :: bool
  fm_file :: "items option"

definition NewStatusManager :: "items option \<Rightarrow> StatusManager" where
  "NewStatusManager file = \<lparr>fm_items = Map.empty, fm_flushCh = False, fm_file = file\<rparr>"

definition storeJobKey :: "(Config \<Rightarrow> cfg_hash) \<Rightarrow> Config \<Rightarrow> string" where
  "storeJobKey Hash cfg = Name cfg @ '':'' @ Itoa (uint (Hash cfg))"

definition Store_lookup :: "(Config \<Rightarrow> cfg_hash) \<Rightarrow> items \<Rightarrow> Config \<Rightarrow> string option" where
  "Store_lookup Hash its cfg =
     (case its (Module_name cfg) of None \<Rightarrow> None | Some jobs \<Rightarrow> map_of jobs (storeJobKey Hash cfg))"

definition Store_Contains :: "(Config \<Rightarrow> cfg_hash) \<Rightarrow> items \<Rightarrow> Config \<Rightarrow> string list \<Rightarrow> bool" where
  "Store_Contains Hash its cfg statuses =
     (case Store_lookup Hash its cfg of None \<Rightarrow> False | Some status \<Rightarrow> status \<in> set statuses)"

definition Store_add :: "(Config \<Rightarrow> cfg_hash) \<Rightarrow> Config \<Rightarrow> string \<Rightarrow> items \<Rightarrow> items" where
  "Store_add Hash cfg status its =
     (let jobs = (case its (Module_name cfg) of None \<Rightarrow> [] | Some jobs \<Rightarrow> jobs)
      in its(Module_name cfg \<mapsto> AList.update (storeJobKey Hash cfg) status jobs))"

definition Store_remove :: "(Config \<Rightarrow> cfg_hash) \<Rightarrow> Config \<Rightarrow> items \<Rightarrow> items" where
  "Store_remove Hash cfg its =
     (case its (Module_name cfg) of
        None \<Rightarrow> its
      | Some jobs \<Rightarrow>
          let jobs' = AList.delete (storeJobKey Hash cfg) jobs
          in if length jobs' = 0 then its(Module_name cfg := None) else its(Module_name cfg \<mapsto> jobs'))"

definition LoadStore :: "items option \<Rightarrow> items option" where
  "LoadStore file = file"

definition triggerFlush :: "StatusManager \<Rightarrow> StatusManager" where
  "triggerFlush m = m\<lparr>fm_flushCh := True\<rparr>"

definition flush :: "disk \<Rightarrow> StatusManager \<Rightarrow> StatusManager" where
  "flush dk m =
     (case dk of CreateFails \<Rightarrow> m | WriteFails \<Rightarrow> m\<lparr>fm_file := None\<rparr> | Written \<Rightarrow> m\<lparr>fm_file := Some (fm_items m)\<rparr>)"

definition tryFlush :: "disk \<Rightarrow> StatusManager \<Rightarrow> StatusManager" where
  "tryFlush dk m = (if fm_flushCh m then flush dk (m\<lparr>fm_flushCh := False\<rparr>) else m)"

definition Status_Save :: "(Config \<Rightarrow> cfg_hash) \<Rightarrow> Config \<Rightarrow> string \<Rightarrow> StatusManager \<Rightarrow> StatusManager" where
  "Status_Save Hash cfg status m =
     (if Store_lookup Hash (fm_items m) cfg \<noteq> Some status
      then triggerFlush (m\<lparr>fm_items := Store_add Hash cfg status (fm_items m)\<rparr>) else m)"

definition Status_Remove :: "(Config \<Rightarrow> cfg_hash) \<Rightarrow> Config \<Rightarrow> StatusManager \<Rightarrow> StatusManager" where
  "Status_Remove Hash cfg m =
     (if Store_lookup Hash (fm_items m) cfg \<noteq> None
      then triggerFlush (m\<lparr>fm_items := Store_remove Hash cfg (fm_items m)\<rparr>) else m)"

text \<open>The loop of \<open>Run\<close> beside the calls of the job manager, in any order; when the context ends the
  deferred flush runs.\<close>

datatype status_event = SaveCall Config string | RemoveCall Config | FlushTick disk

fun status_step :: "(Config \<Rightarrow> cfg_hash) \<Rightarrow> status_event \<Rightarrow> StatusManager \<Rightarrow> StatusManager" where
  "status_step Hash (SaveCall cfg status) m = Status_Save Hash cfg status m"
| "status_step Hash (RemoveCall cfg) m = Status_Remove Hash cfg m"
| "status_step Hash (FlushTick dk) m = tryFlush dk m"

definition status_Run :: "(Config \<Rightarrow> cfg_hash) \<Rightarrow> status_event list \<Rightarrow> disk \<Rightarrow> StatusManager \<Rightarrow> StatusManager" where
  "status_Run Hash evs dk m = flush dk (fold (status_step Hash) evs m)"

section \<open>The contract of the status file\<close>

text \<open>Two configurations are the same to the store.\<close>

definition same_job :: "(Config \<Rightarrow> cfg_hash) \<Rightarrow> Config \<Rightarrow> Config \<Rightarrow> bool" where
  "same_job Hash c d \<longleftrightarrow> Module_name c = Module_name d \<and> storeJobKey Hash c = storeJobKey Hash d"

lemma lookup_add: "Store_lookup Hash (Store_add Hash c v its) d
   = (if same_job Hash c d then Some v else Store_lookup Hash its d)"
  by (auto simp: Store_lookup_def Store_add_def same_job_def map_of_update split: option.splits)

lemma lookup_remove: "Store_lookup Hash (Store_remove Hash c its) d
   = (if same_job Hash c d then None else Store_lookup Hash its d)"
proof -
  have "map_of jobs k = None" if "AList.delete k' jobs = []" "k \<noteq> k'" for k k' and jobs :: "(string \<times> string) list"
    using map_of_delete [of k' jobs] that by (metis fun_upd_other map_of.simps(1))
  then show ?thesis
    by (auto simp: Store_lookup_def Store_remove_def same_job_def map_of_delete Let_def split: option.splits)
qed

lemma triggerFlush_items [simp]: "fm_items (triggerFlush m) = fm_items m"
  by (simp add: triggerFlush_def)

interpretation filestatus: status_store "Status_Save Hash" "Status_Remove Hash"
    "\<lambda>m. Store_lookup Hash (fm_items m)" "same_job Hash"
proof
  fix c d v and s :: StatusManager
  have same: "Store_lookup Hash (fm_items s) d = Store_lookup Hash (fm_items s) c" if "same_job Hash c d"
    using that unfolding same_job_def Store_lookup_def by (elim conjE) (simp split: option.split)
  show "Store_lookup Hash (fm_items (Status_Save Hash c v s)) d
     = (if same_job Hash c d then Some v else Store_lookup Hash (fm_items s) d)"
    using same by (auto simp: Status_Save_def lookup_add)
  show "Store_lookup Hash (fm_items (Status_Remove Hash c s)) d
     = (if same_job Hash c d then None else Store_lookup Hash (fm_items s) d)"
    using same by (auto simp: Status_Remove_def lookup_remove)
qed (simp add: same_job_def)

text \<open>What the calls made so far say about a job: the last one for it decides.\<close>

fun last_status :: "(Config \<Rightarrow> cfg_hash) \<Rightarrow> Config \<Rightarrow> status_event list \<Rightarrow> string option \<Rightarrow> string option" where
  "last_status Hash d [] r = r"
| "last_status Hash d (SaveCall c v # evs) r = last_status Hash d evs (if same_job Hash c d then Some v else r)"
| "last_status Hash d (RemoveCall c # evs) r = last_status Hash d evs (if same_job Hash c d then None else r)"
| "last_status Hash d (FlushTick dk # evs) r = last_status Hash d evs r"

lemma tryFlush_items [simp]: "fm_items (tryFlush dk m) = fm_items m"
  by (simp add: tryFlush_def flush_def split: disk.splits)

lemma status_steps:
  "Store_lookup Hash (fm_items (fold (status_step Hash) evs m)) d
     = last_status Hash d evs (Store_lookup Hash (fm_items m) d)"
  by (induction Hash d evs "Store_lookup Hash (fm_items m) d" arbitrary: m rule: last_status.induct)
    (simp_all add: filestatus.Save_status filestatus.Remove_status)

text \<open>No change is forgotten: unless one is waiting to be written, the file is what is in memory.\<close>

definition flushed :: "StatusManager \<Rightarrow> bool" where
  "flushed m \<longleftrightarrow> fm_flushCh m \<or> fm_file m = Some (fm_items m)"

lemma flushed_step:
  "flushed m \<Longrightarrow> (\<And>dk. ev = FlushTick dk \<Longrightarrow> dk = Written) \<Longrightarrow> flushed (status_step Hash ev m)"
  by (cases ev)
    (auto simp: flushed_def Status_Save_def Status_Remove_def triggerFlush_def tryFlush_def flush_def)

lemma flushed_steps:
  "flushed m \<Longrightarrow> (\<forall>dk. FlushTick dk \<in> set evs \<longrightarrow> dk = Written) \<Longrightarrow> flushed (fold (status_step Hash) evs m)"
proof (induction evs arbitrary: m)
  case (Cons ev evs)
  have "flushed (status_step Hash ev m)" using Cons.prems by (intro flushed_step) auto
  then show ?case using Cons by simp
qed simp


definition sample_cfg :: "string \<Rightarrow> string \<Rightarrow> Config" where
  "sample_cfg m n = [''module'' \<mapsto> VString m, ''name'' \<mapsto> VString n]"


end
