(* ===== verification/Vnodes.thy ===== *)
theory Vnodes
  imports Services Filepath
begin

text \<open>
  \<open>agent/vnodes/vnodes.go\<close>: the virtual nodes read from a directory.  Walking the directory and
  decoding a file are the operating system's and the YAML package's: the model takes the
  entries the walk visits, in its order, with what reading each one gives.
\<close>

record walk_entry =
  we_path :: string
  we_err :: bool
  we_regular :: bool
  we_nodes :: "VirtualNode list option"

type_synonym vnodes = "string \<rightharpoonup> VirtualNode"

definition isConfigFile :: "string \<Rightarrow> bool" where
  "isConfigFile path \<longleftrightarrow> Ext path \<in> {''.yaml'', ''.yml'', ''.conf''}"

fun add_nodes :: "VirtualNode list \<Rightarrow> vnodes \<Rightarrow> vnodes" where
  "add_nodes [] vn = vn"
| "add_nodes (v # vs) vn =
     (if vn_Hostname v = [] \<or> vn_GUID v = [] then add_nodes vs vn
      else if vn (vn_Hostname v) \<noteq> None then add_nodes vs vn
      else add_nodes vs (vn(vn_Hostname v \<mapsto> v)))"

fun readConfDir :: "walk_entry list \<Rightarrow> vnodes \<Rightarrow> vnodes" where
  "readConfDir [] vn = vn"
| "readConfDir (w # ws) vn =
     (if we_err w then readConfDir ws vn
      else if \<not> we_regular w \<or> \<not> isConfigFile (we_path w) then readConfDir ws vn
      else (case we_nodes w of
              None \<Rightarrow> readConfDir ws vn
            | Some cfg \<Rightarrow> readConfDir ws (add_nodes cfg vn)))"

definition NewVnodes :: "walk_entry list \<Rightarrow> vnodes" where
  "NewVnodes ws = readConfDir ws Map.empty"

definition Vnodes_Lookup :: "vnodes \<Rightarrow> string \<Rightarrow> VirtualNode option" where
  "Vnodes_Lookup vn key = vn key"

section \<open>What is in the table\<close>

definition vnodes_ok :: "vnodes \<Rightarrow> bool" where
  "vnodes_ok vn \<longleftrightarrow> (\<forall>k v. vn k = Some v \<longrightarrow> vn_Hostname v = k \<and> k \<noteq> [] \<and> vn_GUID v \<noteq> [])"

lemma vnodes_ok_upd: "vnodes_ok vn \<Longrightarrow> vn_Hostname v \<noteq> [] \<Longrightarrow> vn_GUID v \<noteq> [] \<Longrightarrow>
   vnodes_ok (vn(vn_Hostname v \<mapsto> v))"
  by (simp add: vnodes_ok_def)

lemma add_nodes_ok: "vnodes_ok vn \<Longrightarrow> vnodes_ok (add_nodes vs vn)"
  by (induction vs vn rule: add_nodes.induct) (simp_all add: vnodes_ok_upd)

text \<open>A node once in the table stays: the first definition of a host wins.\<close>

lemma add_nodes_keeps: "vn k = Some v \<Longrightarrow> add_nodes vs vn k = Some v"
proof (induction vs vn rule: add_nodes.induct)
  case (2 w vs vn)
  have "vn (vn_Hostname w) = None \<Longrightarrow> (vn(vn_Hostname w \<mapsto> w)) k = Some v" using "2.prems" by auto
  then show ?case using 2 by (simp del: fun_upd_apply)
qed simp

lemma readConfDir_ok: "vnodes_ok vn \<Longrightarrow> vnodes_ok (readConfDir ws vn)"
  by (induction ws vn rule: readConfDir.induct) (auto simp: add_nodes_ok split: option.splits)

lemma readConfDir_keeps: "vn k = Some v \<Longrightarrow> readConfDir ws vn k = Some v"
  by (induction ws vn rule: readConfDir.induct) (auto simp: add_nodes_keeps split: option.splits)

lemma NewVnodes_Lookup:
  "Vnodes_Lookup (NewVnodes ws) k = Some v \<Longrightarrow> vn_Hostname v = k \<and> k \<noteq> [] \<and> vn_GUID v \<noteq> []"
  using readConfDir_ok [of Map.empty ws] by (simp add: vnodes_ok_def NewVnodes_def Vnodes_Lookup_def)

end
