(* ===== verification/Functions.thy ===== *)
theory Functions
  imports Prelude
begin

text \<open>
  \<open>agent/functions\<close>: function calls read from standard input, one per line, some followed by a
  payload.  A registered function is a transformer of an arbitrary state.  The model takes the
  lines the scanner delivers.
\<close>

section \<open>Parsing a call\<close>

record Function =
  fn_key :: string
  fn_UID :: string
  fn_Timeout :: int
  fn_Name :: string
  fn_Args :: "string list"
  fn_Payload :: string

text \<open>\<open>encoding/csv\<close> with a space as the separator, for one line: a field that starts with a quote
  ends at the next quote that is not doubled, and a separator or the end must follow; any other
  field ends at the separator and has no quote in it.  \<^const>\<open>None\<close> is an error.\<close>

abbreviation dquote :: char where
  "dquote \<equiv> CHR 0x22"

abbreviation blank :: char where
  "blank \<equiv> CHR '' ''"

fun csv_quoted :: "string \<Rightarrow> string \<Rightarrow> (string \<times> string option) option" where
  "csv_quoted acc [] = None"
| "csv_quoted acc [c] = (if c = dquote then Some (acc, None) else None)"
| "csv_quoted acc (c # d # cs) =
     (if c \<noteq> dquote then csv_quoted (acc @ [c]) (d # cs)
      else if d = dquote then csv_quoted (acc @ [dquote]) cs
      else if d = blank then Some (acc, Some cs)
      else None)"

lemma csv_quoted_shorter: "csv_quoted acc s = Some (f, Some r) \<Longrightarrow> length r < length s"
  by (induction acc s rule: csv_quoted.induct) (auto split: if_splits)

function csv_fields :: "string \<Rightarrow> string list option" where
  "csv_fields line =
     (if line \<noteq> [] \<and> hd line = dquote
      then (case csv_quoted [] (tl line) of
              None \<Rightarrow> None
            | Some (f, None) \<Rightarrow> Some [f]
            | Some (f, Some r) \<Rightarrow> map_option (\<lambda>fs. f # fs) (csv_fields r))
      else let f = takeWhile (\<lambda>c. c \<noteq> blank) line; r = dropWhile (\<lambda>c. c \<noteq> blank) line
           in if dquote \<in> set f then None
              else if r = [] then Some [f]
              else map_option (\<lambda>fs. f # fs) (csv_fields (tl r)))"
  by pat_completeness auto
termination
proof (relation "measure length", goal_cases)
  case (2 line x f o1 r)
  then have "length r < length (tl line)" using csv_quoted_shorter [of "[]" "tl line" f r] by simp
  with 2 show ?case by (cases line) auto
next
  case (3 line f r)
  have "length (dropWhile (\<lambda>c. c \<noteq> blank) line) \<le> length line" by (rule length_dropWhile_le)
  with 3 show ?case by (cases "dropWhile (\<lambda>c. c \<noteq> blank) line") auto
qed simp

declare csv_fields.simps [simp del]

text \<open>The reader drops one carriage return at the end of the input.\<close>

definition csv_Read :: "string \<Rightarrow> string list option" where
  "csv_Read s = csv_fields (if s \<noteq> [] \<and> last s = CHR 0x0D then butlast s else s)"

datatype parse_error = CsvError | WordCount nat | TimeoutError

definition parseFunction :: "string \<Rightarrow> parse_error + Function" where
  "parseFunction s =
     (case csv_Read s of
        None \<Rightarrow> Inl CsvError
      | Some parts \<Rightarrow>
          if length parts \<noteq> 4 then Inl (WordCount (length parts))
          else (case ParseInt64 (parts ! 2) of
                  None \<Rightarrow> Inl TimeoutError
                | Some timeout \<Rightarrow>
                    let cmd = SplitByte (parts ! 3) blank
                    in Inr \<lparr>fn_key = parts ! 0, fn_UID = parts ! 1, fn_Timeout = int64 (timeout * 1000000000),
                            fn_Name = hd cmd, fn_Args = tl cmd, fn_Payload = []\<rparr>))"

definition payload_end :: string where
  "payload_end = ''FUNCTION_PAYLOAD_END''"

text \<open>The lines of a payload and what comes after its end marker.\<close>

fun read_payload :: "string list \<Rightarrow> string list \<times> string list" where
  "read_payload [] = ([], [])"
| "read_payload (l # ls) =
     (if l = payload_end then ([], ls) else (let (p, rest) = read_payload ls in (l # p, rest)))"

definition parseFunctionWithPayload :: "string \<Rightarrow> string list \<Rightarrow> (parse_error + Function) \<times> string list" where
  "parseFunctionWithPayload s ls =
     (case parseFunction s of
        Inl e \<Rightarrow> (Inl e, ls)
      | Inr fn \<Rightarrow> let (p, rest) = read_payload ls
                  in (Inr (fn\<lparr>fn_Payload := fn_Payload fn @ Join p [CHR 0x0A]\<rparr>), rest))"

section \<open>The registry and the loop\<close>

type_synonym 'w registry = "string \<rightharpoonup> (Function \<Rightarrow> 'w \<Rightarrow> 'w)"

text \<open>\<open>Register\<close>; \<^const>\<open>None\<close> is a nil function.\<close>

definition Functions_Register :: "'w registry \<Rightarrow> string \<Rightarrow> (Function \<Rightarrow> 'w \<Rightarrow> 'w) option \<Rightarrow> 'w registry" where
  "Functions_Register reg name fn = (case fn of None \<Rightarrow> reg | Some f \<Rightarrow> reg(name \<mapsto> f))"

definition execute :: "'w registry \<Rightarrow> parse_error + Function \<Rightarrow> 'w \<Rightarrow> 'w" where
  "execute reg r w =
     (case r of
        Inl e \<Rightarrow> w
      | Inr fn \<Rightarrow> (case reg (fn_Name fn) of None \<Rightarrow> w | Some f \<Rightarrow> f fn w))"

lemma read_payload_shorter: "length (snd (read_payload ls)) \<le> length ls"
  by (induction ls) (auto simp: case_prod_beta)

lemma payload_rest_shorter: "length (snd (parseFunctionWithPayload s ls)) \<le> length ls"
  using read_payload_shorter [of ls]
  by (auto simp: parseFunctionWithPayload_def case_prod_beta split: sum.splits)

function functions_run :: "'w registry \<Rightarrow> string list \<Rightarrow> 'w \<Rightarrow> 'w" where
  "functions_run reg [] w = w"
| "functions_run reg (l # ls) w =
     (if HasPrefix l ''FUNCTION '' then functions_run reg ls (execute reg (parseFunction l) w)
      else if HasPrefix l ''FUNCTION_PAYLOAD ''
      then functions_run reg (snd (parseFunctionWithPayload l ls))
             (execute reg (fst (parseFunctionWithPayload l ls)) w)
      else functions_run reg ls w)"
  by pat_completeness auto
termination
  by (relation "measure (\<lambda>(reg, ls, w). length ls)") (auto simp: le_imp_less_Suc payload_rest_shorter)

section \<open>Calls that are understood\<close>

text \<open>A call as it is sent: a word without blanks and quotes for each of the first three fields, and
  the function with its arguments in quotes.\<close>

definition plain :: "string \<Rightarrow> bool" where
  "plain w \<longleftrightarrow> blank \<notin> set w \<and> dquote \<notin> set w \<and> CHR 0x0D \<notin> set w"

definition call_line :: "string \<Rightarrow> string \<Rightarrow> int \<Rightarrow> string list \<Rightarrow> string" where
  "call_line key uid timeout cmd =
     Join [key, uid, Itoa timeout, [dquote] @ Join cmd [blank] @ [dquote]] [blank]"

lemma takeWhile_plain: "plain w \<Longrightarrow> takeWhile (\<lambda>c. c \<noteq> blank) (w @ blank # s) = w"
  "plain w \<Longrightarrow> dropWhile (\<lambda>c. c \<noteq> blank) (w @ blank # s) = blank # s"
  by (induction w) (auto simp: plain_def)

lemma csv_fields_plain:
  assumes "plain w"
  shows "csv_fields (w @ blank # s) = map_option (\<lambda>fs. w # fs) (csv_fields s)"
proof -
  have "w @ blank # s \<noteq> []" "hd (w @ blank # s) \<noteq> dquote" using assms by (cases w; auto simp: plain_def)+
  then show ?thesis using assms takeWhile_plain [OF assms, of s]
    by (subst csv_fields.simps) (simp add: Let_def plain_def)
qed

lemma csv_quoted_all: "dquote \<notin> set s \<Longrightarrow> csv_quoted acc (s @ [dquote]) = Some (acc @ s, None)"
proof (induction s arbitrary: acc)
  case (Cons c s)
  then show ?case by (cases s) auto
qed simp

lemma csv_fields_quoted: "dquote \<notin> set s \<Longrightarrow> csv_fields (dquote # s @ [dquote]) = Some [s]"
  by (subst csv_fields.simps) (simp add: csv_quoted_all)

lemma Itoa_word_plain: "plain (Itoa n)"
  using Itoa_chars [of _ n] by (fastforce simp: plain_def is_digit_def)

lemma Join_plain: "\<forall>w \<in> set ws. dquote \<notin> set w \<Longrightarrow> dquote \<notin> set (Join ws [blank])"
  by (induction ws "[blank]" rule: Join.induct) auto

lemma parse_call_line:
  assumes "plain key" "plain uid" "cmd \<noteq> []" "\<forall>w \<in> set cmd. plain w" "- (2 ^ 63) \<le> t" "t < 2 ^ 63"
  shows "parseFunction (call_line key uid t cmd) = Inr \<lparr>fn_key = key, fn_UID = uid,
      fn_Timeout = int64 (t * 1000000000), fn_Name = hd cmd, fn_Args = tl cmd, fn_Payload = []\<rparr>"
proof -
  let ?c = "Join cmd [blank]"
  have line: "call_line key uid t cmd = key @ blank # uid @ blank # Itoa t @ blank # dquote # ?c @ [dquote]"
    by (simp add: call_line_def)
  have q: "dquote \<notin> set ?c" using assms(4) by (intro Join_plain) (simp add: plain_def)
  have "csv_Read (call_line key uid t cmd) = Some [key, uid, Itoa t, ?c]"
    using assms(1,2) Itoa_word_plain [of t]
    by (simp add: csv_Read_def line csv_fields_plain csv_fields_quoted [OF q])
  moreover have "SplitByte ?c blank = cmd" using assms(3,4) by (intro SplitByte_Join) (auto simp: plain_def)
  ultimately show ?thesis using ParseInt64_Itoa [OF assms(5,6)] by (simp add: parseFunction_def)
qed

text \<open>Calls as the other side sends them, with or without a payload, and the lines they make.\<close>

datatype request = Call string int "string list" | CallWith string int "string list" "string list"

fun request_lines :: "request \<Rightarrow> string list" where
  "request_lines (Call uid t cmd) = [call_line ''FUNCTION'' uid t cmd]"
| "request_lines (CallWith uid t cmd p) = call_line ''FUNCTION_PAYLOAD'' uid t cmd # p @ [payload_end]"

fun request_fn :: "request \<Rightarrow> Function" where
  "request_fn (Call uid t cmd) = \<lparr>fn_key = ''FUNCTION'', fn_UID = uid, fn_Timeout = int64 (t * 1000000000),
     fn_Name = hd cmd, fn_Args = tl cmd, fn_Payload = []\<rparr>"
| "request_fn (CallWith uid t cmd p) = \<lparr>fn_key = ''FUNCTION_PAYLOAD'', fn_UID = uid,
     fn_Timeout = int64 (t * 1000000000), fn_Name = hd cmd, fn_Args = tl cmd, fn_Payload = Join p [CHR 0x0A]\<rparr>"

fun request_ok :: "request \<Rightarrow> bool" where
  "request_ok (Call uid t cmd) \<longleftrightarrow> plain uid \<and> cmd \<noteq> [] \<and> (\<forall>w \<in> set cmd. plain w) \<and> - (2 ^ 63) \<le> t \<and> t < 2 ^ 63"
| "request_ok (CallWith uid t cmd p) \<longleftrightarrow> plain uid \<and> cmd \<noteq> [] \<and> (\<forall>w \<in> set cmd. plain w) \<and> - (2 ^ 63) \<le> t \<and> t < 2 ^ 63
     \<and> payload_end \<notin> set p"

lemma read_payload_lines: "payload_end \<notin> set p \<Longrightarrow> read_payload (p @ payload_end # rest) = (p, rest)"
  by (induction p) auto

lemma run_request:
  assumes "request_ok r"
  shows "functions_run reg (request_lines r @ ls) w = functions_run reg ls (execute reg (Inr (request_fn r)) w)"
proof (cases r)
  case (Call uid t cmd)
  have "HasPrefix (call_line ''FUNCTION'' uid t cmd) ''FUNCTION ''" by (simp add: call_line_def)
  moreover have "plain ''FUNCTION''" by (simp add: plain_def)
  ultimately show ?thesis using assms Call by (simp add: parse_call_line)
next
  case (CallWith uid t cmd p)
  let ?l = "call_line ''FUNCTION_PAYLOAD'' uid t cmd"
  have k: "plain ''FUNCTION_PAYLOAD''" by (simp add: plain_def)
  have pre: "HasPrefix ?l ''FUNCTION_PAYLOAD ''" "\<not> HasPrefix ?l ''FUNCTION ''" by (simp_all add: call_line_def)
  have "parseFunctionWithPayload ?l (p @ payload_end # ls) = (Inr (request_fn r), ls)"
    using assms CallWith read_payload_lines [of p ls] k
    by (simp add: parseFunctionWithPayload_def parse_call_line)
  then show ?thesis using CallWith pre by simp
qed



text \<open>
  When the header of a call with a payload does not parse, its payload is not skipped: the loop
  goes on with the first payload line as if it were a command of its own.
\<close>

theorem bad_header_runs_payload:
  assumes "HasPrefix h ''FUNCTION_PAYLOAD ''" and "parseFunction h = Inl e"
  shows "functions_run reg (h # p @ payload_end # ls) w = functions_run reg (p @ payload_end # ls) w"
proof -
  have "\<not> HasPrefix h ''FUNCTION ''"
    using assms(1) by (auto simp: HasPrefix_iff)
  then show ?thesis using assms by (simp add: parseFunctionWithPayload_def execute_def)
qed

theorem bad_header_runs_payload_witness:
  "functions_run [''delete_job'' \<mapsto> (\<lambda>fn w. w @ [fn_Args fn])]
     [''FUNCTION_PAYLOAD abc soon x'', ''FUNCTION u 1 '' @ [dquote] @ ''delete_job m j'' @ [dquote], payload_end] []
   = [[''m'', ''j'']]"
proof -
  let ?h = "''FUNCTION_PAYLOAD abc soon x''" and ?p = "''FUNCTION u 1 '' @ [dquote] @ ''delete_job m j'' @ [dquote]"
  have "HasPrefix ?h ''FUNCTION_PAYLOAD ''" "parseFunction ?h = Inl TimeoutError" by code_simp+
  note run = bad_header_runs_payload [OF this, of "[''delete_job'' \<mapsto> (\<lambda>fn w. w @ [fn_Args fn])]" "[?p]" "[]" "[]"]
  let ?r = "Call ''u'' 1 [''delete_job'', ''m'', ''j'']"
  have "Itoa 1 = ''1''" by code_simp
  then have "request_lines ?r = [?p]" by (simp add: call_line_def)
  moreover have "request_ok ?r" by (simp add: plain_def)
  ultimately have "functions_run [''delete_job'' \<mapsto> (\<lambda>fn w. w @ [fn_Args fn])] [?p, payload_end] [] = [[''m'', ''j'']]"
    using run_request [of ?r "[''delete_job'' \<mapsto> (\<lambda>fn w. w @ [fn_Args fn])]" "[payload_end]" "[]"]
    by (simp add: execute_def payload_end_def)
  with run show ?thesis by simp
qed

end
