(* ===== verification/Dyncfg.thy ===== *)
theory Dyncfg
  imports Services Functions
begin

text \<open>
  \<open>agent/discovery/dyncfg\<close>: job configurations set from the dashboard.  The functions the plugin
  answers, the table of configurations it knows, and the groups it sends to the discovery
  manager.  Parameters are the YAML package, the name of the host, the package \<open>net/url\<close> and the
  text \<open>fmt.Errorf\<close> makes of a message that is used as a format.
\<close>

section \<open>Data\<close>

record 'u dyncfg_env =
  de_url :: "'u url_pkg"
  de_host :: string
  de_Hash :: "Config \<Rightarrow> cfg_hash"
  de_Marshal :: "Config \<Rightarrow> go_error + string"
  de_Decode :: "string \<Rightarrow> go_error + Config option"
  de_Errorf :: "string \<Rightarrow> string"

record Discovery =
  dy_Plugin :: string
  dy_Modules :: "(string \<times> string) list"
  dy_ModuleConfigDefaults :: Registry
  dy_configs :: "string \<rightharpoonup> Config"
  dy_API :: "command list"
  dy_in :: "Group list"

definition dynCfg :: string where "dynCfg = ''dyncfg''"

definition NewDiscovery :: "string \<Rightarrow> (string \<times> string) list \<Rightarrow> Discovery" where
  "NewDiscovery plugin modules = \<lparr>dy_Plugin = plugin, dy_Modules = modules, dy_ModuleConfigDefaults = Map.empty,
     dy_configs = Map.empty, dy_API = [], dy_in = []\<rparr>"

definition api :: "command \<Rightarrow> Discovery \<Rightarrow> Discovery" where
  "api c d = d\<lparr>dy_API := dy_API d @ [c]\<rparr>"

text \<open>The start of \<open>Run\<close>; the modules are registered in the order the map yields them.\<close>

definition Dyncfg_Run :: "bool \<Rightarrow> Discovery \<Rightarrow> Discovery" where
  "Dyncfg_Run reload d =
     (let d1 = (if reload then api DynCfgReset d else d);
          d2 = api (DynCfgEnable (dy_Plugin d1)) d1
      in fold (\<lambda>(k, schema). api (DyncCfgRegisterModule k)) (dy_Modules d2) d2)"

section \<open>Helpers\<close>

definition source :: "string \<Rightarrow> string \<Rightarrow> string" where
  "source modName jobName = dynCfg @ ''/'' @ modName @ ''/'' @ jobName"

definition cfgJobName :: "(Config \<Rightarrow> cfg_hash) \<Rightarrow> Config \<Rightarrow> string" where
  "cfgJobName Hash cfg = (if HasPrefix (Source cfg) ''dyncfg'' then Name cfg else NameWithHash Hash cfg)"

definition isSetFunction :: "Function \<Rightarrow> bool" where
  "isSetFunction fn = HasPrefix (fn_Name fn) ''set_''"

definition jsonErrorf :: "string \<Rightarrow> string" where
  "jsonErrorf msg = ''{ '' @ [dquote] @ ''error'' @ [dquote] @ '': '' @ [dquote]
     @ map (\<lambda>c. if c = nl then CHR '' '' else c) msg @ [dquote] @ '' }'' @ [nl]"

text \<open>A list of strings as the verb \<open>%v\<close> prints it.\<close>

definition list_text :: "string list \<Rightarrow> string" where
  "list_text ws = ''['' @ Join ws '' '' @ '']''"

definition quoted_text :: "string \<Rightarrow> string" where
  "quoted_text s = [sq] @ s @ [sq]"

definition apiSuccessJSON :: "Function \<Rightarrow> string \<Rightarrow> Discovery \<Rightarrow> Discovery" where
  "apiSuccessJSON fn payload = api (FunctionResultSuccess (fn_UID fn) ''application/json'' payload)"

definition apiSuccessYAML :: "Function \<Rightarrow> string \<Rightarrow> Discovery \<Rightarrow> Discovery" where
  "apiSuccessYAML fn payload = api (FunctionResultSuccess (fn_UID fn) ''application/x-yaml'' payload)"

definition apiReject :: "Function \<Rightarrow> string \<Rightarrow> Discovery \<Rightarrow> Discovery" where
  "apiReject fn msg = api (FunctionResultReject (fn_UID fn) ''application/json'' msg)"

definition verifyFn :: "'u dyncfg_env \<Rightarrow> Function \<Rightarrow> nat \<Rightarrow> go_error option" where
  "verifyFn de fn wantArgs =
     (if length (fn_Args fn) \<noteq> wantArgs
      then Some (de_Errorf de (jsonErrorf (''wrong number of arguments: want '' @ Itoa (int wantArgs) @ '', got ''
                  @ Itoa (int (length (fn_Args fn))) @ '' (args: '' @ quoted_text (list_text (fn_Args fn)) @ '')'')))
      else if isSetFunction fn \<and> length (fn_Payload fn) = 0 then Some (de_Errorf de (jsonErrorf ''no payload''))
      else None)"

definition notImplemented :: "Function \<Rightarrow> Discovery \<Rightarrow> Discovery" where
  "notImplemented fn = apiReject fn (jsonErrorf (''function '' @ quoted_text (fn_Name fn) @ '' is not implemented''))"

section \<open>The table of configurations\<close>

definition Register :: "(Config \<Rightarrow> cfg_hash) \<Rightarrow> Config \<Rightarrow> Discovery \<Rightarrow> Discovery" where
  "Register Hash cfg d =
     (let name = cfgJobName Hash cfg;
          d1 = (if Provider cfg \<noteq> dynCfg then api (DynCfgRegisterJob (Module_name cfg) name ''stock'') d else d)
      in d1\<lparr>dy_configs := (dy_configs d1)(Module_name cfg @ ''_'' @ name \<mapsto> cfg)\<rparr>)"

definition Unregister :: "(Config \<Rightarrow> cfg_hash) \<Rightarrow> Config \<Rightarrow> Discovery \<Rightarrow> Discovery" where
  "Unregister Hash cfg d = d\<lparr>dy_configs := (dy_configs d)(Module_name cfg @ ''_'' @ cfgJobName Hash cfg := None)\<rparr>"

definition UpdateStatus :: "(Config \<Rightarrow> cfg_hash) \<Rightarrow> Config \<Rightarrow> string \<Rightarrow> string \<Rightarrow> Discovery \<Rightarrow> Discovery" where
  "UpdateStatus Hash cfg status payload =
     api (DynCfgReportJobStatus (Module_name cfg) (cfgJobName Hash cfg) status payload)"

definition getConfigBytes :: "'u dyncfg_env \<Rightarrow> Discovery \<Rightarrow> string \<Rightarrow> go_error + string" where
  "getConfigBytes de d key =
     (case dy_configs d key of None \<Rightarrow> Inl ''config not found'' | Some cfg \<Rightarrow> de_Marshal de cfg)"

section \<open>The functions\<close>

definition getJobConfig :: "'u dyncfg_env \<Rightarrow> Function \<Rightarrow> Discovery \<Rightarrow> Discovery" where
  "getJobConfig de fn d =
     (case verifyFn de fn 2 of
        Some err \<Rightarrow> apiReject fn err d
      | None \<Rightarrow>
          (case getConfigBytes de d (fn_Args fn ! 0 @ ''_'' @ fn_Args fn ! 1) of
             Inl err \<Rightarrow> apiReject fn err d
           | Inr bs \<Rightarrow> apiSuccessYAML fn bs d))"

definition getJobConfigSchema :: "'u dyncfg_env \<Rightarrow> Function \<Rightarrow> Discovery \<Rightarrow> Discovery" where
  "getJobConfigSchema de fn d =
     (case verifyFn de fn 1 of
        Some err \<Rightarrow> apiReject fn err d
      | None \<Rightarrow>
          (case map_of (dy_Modules d) (fn_Args fn ! 0) of
             None \<Rightarrow> apiReject fn (jsonErrorf (''module '' @ fn_Args fn ! 0 @ '' is not registered'')) d
           | Some schema \<Rightarrow> apiSuccessJSON fn schema d))"

text \<open>The configuration a call of \<open>set_job_config\<close> stands for.\<close>

definition set_config :: "'u dyncfg_env \<Rightarrow> Registry \<Rightarrow> string \<Rightarrow> string \<Rightarrow> Config \<Rightarrow> Config" where
  "set_config de defaults modName jobName cfg =
     (let def = (case Registry_Lookup defaults modName of
                   Some def \<Rightarrow> def
                 | None \<Rightarrow> \<lparr>df_MinUpdateEvery = 0, df_UpdateEvery = 0, df_AutoDetectionRetry = 0, df_Priority = 0\<rparr>)
      in Apply (de_url de) (de_host de) def
           (SetName (SetModule (SetSource (SetProvider cfg dynCfg) (source modName jobName)) modName) jobName))"

text \<open>\<^const>\<open>None\<close> is a panic: a payload that decodes to a nil map cannot be written to.\<close>

definition setJobConfig :: "'u dyncfg_env \<Rightarrow> Function \<Rightarrow> Discovery \<Rightarrow> Discovery option" where
  "setJobConfig de fn d =
     (case verifyFn de fn 2 of
        Some err \<Rightarrow> Some (apiReject fn err d)
      | None \<Rightarrow>
          (case de_Decode de (fn_Payload fn) of
             Inl err \<Rightarrow> Some (apiReject fn err d)
           | Inr None \<Rightarrow> None
           | Inr (Some cfg) \<Rightarrow>
               let modName = fn_Args fn ! 0; jobName = fn_Args fn ! 1;
                   cfg' = set_config de (dy_ModuleConfigDefaults d) modName jobName cfg
               in Some (apiSuccessJSON fn [] (d\<lparr>dy_in := dy_in d @
                    [\<lparr>g_Configs = [cfg'], g_Source = source modName jobName\<rparr>]\<rparr>))))"

definition deleteJobName :: "'u dyncfg_env \<Rightarrow> Function \<Rightarrow> Discovery \<Rightarrow> Discovery" where
  "deleteJobName de fn d =
     (case verifyFn de fn 2 of
        Some err \<Rightarrow> apiReject fn err d
      | None \<Rightarrow>
          let modName = fn_Args fn ! 0; jobName = fn_Args fn ! 1;
              what = ''module '' @ quoted_text modName @ '' job '' @ quoted_text jobName
          in (case dy_configs d (modName @ ''_'' @ jobName) of
                None \<Rightarrow> apiReject fn (jsonErrorf (what @ '': not registered'')) d
              | Some cfg \<Rightarrow>
                  if Provider cfg \<noteq> dynCfg
                  then apiReject fn (jsonErrorf (what @ '': can'' @ [sq] @ ''t remove non Dyncfg job'')) d
                  else apiSuccessJSON fn [] (d\<lparr>dy_in := dy_in d @
                         [\<lparr>g_Configs = [], g_Source = source modName jobName\<rparr>]\<rparr>)))"

text \<open>The handlers \<open>registerFunctions\<close> installs.\<close>

definition registerFunctions :: "'u dyncfg_env \<Rightarrow> Discovery option registry \<Rightarrow> Discovery option registry" where
  "registerFunctions de reg =
     (let lift = (\<lambda>f fn w. map_option (f fn) w);
          put = (\<lambda>name f r. Functions_Register r name (Some f))
      in (put ''delete_job'' (lift (deleteJobName de)) \<circ>
          put ''set_job_config'' (\<lambda>fn w. Option.bind w (setJobConfig de fn)) \<circ>
          put ''get_job_config_schema'' (lift (getJobConfigSchema de)) \<circ>
          put ''get_job_config'' (lift (getJobConfig de)) \<circ>
          put ''set_module_config'' (lift notImplemented) \<circ>
          put ''get_module_config_schema'' (lift notImplemented) \<circ>
          put ''get_module_config'' (lift notImplemented) \<circ>
          put ''set_plugin_config'' (lift notImplemented) \<circ>
          put ''get_plugin_config_schema'' (lift notImplemented) \<circ>
          put ''get_plugin_config'' (lift notImplemented)) reg)"

section \<open>The contract of the registry\<close>

lemma api_frame [simp]: "dy_configs (api c d) = dy_configs d" "dy_in (api c d) = dy_in d"
  "dy_Modules (api c d) = dy_Modules d" "dy_ModuleConfigDefaults (api c d) = dy_ModuleConfigDefaults d"
  by (simp_all add: api_def)

definition reg_key :: "(Config \<Rightarrow> cfg_hash) \<Rightarrow> Config \<Rightarrow> string" where
  "reg_key Hash cfg = Module_name cfg @ ''_'' @ cfgJobName Hash cfg"

interpretation dyncfg: config_registry "Register Hash" "Unregister Hash" "UpdateStatus Hash" dy_configs "reg_key Hash"
  by unfold_locales (simp_all add: Register_def Unregister_def UpdateStatus_def reg_key_def Let_def)

section \<open>A job under its name\<close>

text \<open>The name a job set from the dashboard ends up with.\<close>

definition job_name :: "'u dyncfg_env \<Rightarrow> string \<Rightarrow> string" where
  "job_name de jobName = cleanName (jobNameResolveHostname (de_host de) jobName)"

lemma set_config_fields:
  assumes "jo \<noteq> []"
  shows "Name (set_config de defs mo jo cfg) = job_name de jo" "Module_name (set_config de defs mo jo cfg) = mo"
    "Provider (set_config de defs mo jo cfg) = dynCfg" "Source (set_config de defs mo jo cfg) = source mo jo"
proof -
  define c where "c = SetName (SetModule (SetSource (SetProvider cfg dynCfg) (source mo jo)) mo) jo"
  obtain def where sc: "set_config de defs mo jo cfg = Apply (de_url de) (de_host de) def c"
    by (simp add: set_config_def c_def Let_def)
  have c: "Name c = jo" "c ''module'' = Some (VString mo)" "c ''__provider__'' = Some (VString dynCfg)"
    "c ''__source__'' = Some (VString (source mo jo))"
    by (simp_all add: c_def SetName_def SetModule_def SetSource_def SetProvider_def Name_def)
  show "Name (set_config de defs mo jo cfg) = job_name de jo"
    using assms c(1) by (simp add: sc Apply_Name job_name_def)
  show "Module_name (set_config de defs mo jo cfg) = mo" "Provider (set_config de defs mo jo cfg) = dynCfg"
    "Source (set_config de defs mo jo cfg) = source mo jo"
    using c by (simp_all add: sc Module_name_def Provider_def Source_def get_string_def Apply_other)
qed

lemma set_config_key:
  "jo \<noteq> [] \<Longrightarrow> reg_key Hash (set_config de defs mo jo cfg) = mo @ ''_'' @ job_name de jo"
  using set_config_fields [of jo de defs mo cfg]
  by (simp add: reg_key_def cfgJobName_def source_def dynCfg_def)

lemma Register_dyncfg: "Provider cfg = dynCfg \<Longrightarrow>
   Register Hash cfg d = d\<lparr>dy_configs := (dy_configs d)(reg_key Hash cfg \<mapsto> cfg)\<rparr>"
  by (simp add: Register_def reg_key_def Let_def)

lemma verify_two: "fn_Args fn = [a, b] \<Longrightarrow> isSetFunction fn \<longrightarrow> fn_Payload fn \<noteq> [] \<Longrightarrow> verifyFn de fn 2 = None"
  by (simp add: verifyFn_def)

lemma setJobConfig_ok:
  assumes "fn_Args fn = [mo, jo]" and "fn_Payload fn \<noteq> []" and "de_Decode de (fn_Payload fn) = Inr (Some cfg)"
  shows "setJobConfig de fn d = Some (apiSuccessJSON fn [] (d\<lparr>dy_in := dy_in d @
     [\<lparr>g_Configs = [set_config de (dy_ModuleConfigDefaults d) mo jo cfg], g_Source = source mo jo\<rparr>]\<rparr>))"
  using assms verify_two [of fn mo jo de] by (simp add: setJobConfig_def Let_def)

text \<open>
  A job set from the dashboard can be read back and deleted under its name, provided the name
  is one the agent leaves as it is (no white space, no dots, not the placeholder for the host
  name).  Setting it sends one group with the configuration; once the job manager has
  registered that, \<open>get_job_config\<close> answers with exactly this configuration and \<open>delete_job\<close>
  sends the empty group for the same source.
\<close>

theorem set_then_get_and_delete:
  assumes "fn_Args fn = [mo, jo]" and "fn_Payload fn \<noteq> []" and "de_Decode de (fn_Payload fn) = Inr (Some cfg)"
    and "jo \<noteq> []" and "job_name de jo = jo"
    and "fn_Args g = [mo, jo]" and "\<not> isSetFunction g"
  shows "\<exists>d1 cfg'. setJobConfig de fn d = Some d1
     \<and> dy_in d1 = dy_in d @ [\<lparr>g_Configs = [cfg'], g_Source = source mo jo\<rparr>]
     \<and> Name cfg' = jo \<and> Module_name cfg' = mo
     \<and> getJobConfig de g (Register Hash cfg' d1) = (case de_Marshal de cfg' of
          Inl err \<Rightarrow> apiReject g err (Register Hash cfg' d1) | Inr y \<Rightarrow> apiSuccessYAML g y (Register Hash cfg' d1))
     \<and> dy_in (deleteJobName de g (Register Hash cfg' d1)) = dy_in d1 @ [\<lparr>g_Configs = [], g_Source = source mo jo\<rparr>]"
proof -
  let ?c = "set_config de (dy_ModuleConfigDefaults d) mo jo cfg"
  let ?d = "apiSuccessJSON fn [] (d\<lparr>dy_in := dy_in d @ [\<lparr>g_Configs = [?c], g_Source = source mo jo\<rparr>]\<rparr>)"
  note f = set_config_fields [OF assms(4), of de "dy_ModuleConfigDefaults d" mo cfg]
  have "dy_configs (Register Hash ?c ?d) (mo @ ''_'' @ jo) = Some ?c"
    using dyncfg.Register_reg [of Hash ?c ?d] set_config_key [OF assms(4), of Hash de _ mo cfg] assms(5) by simp
  moreover have "verifyFn de g 2 = None" using assms(6,7) by (intro verify_two) auto
  moreover have "dy_in (Register Hash ?c ?d) = dy_in ?d" using f(3) by (simp add: Register_dyncfg)
  ultimately show ?thesis
    using setJobConfig_ok [OF assms(1,2,3), of d] f assms(5,6)
    by (intro exI [of _ ?d] exI [of _ ?c])
      (simp add: getJobConfig_def getConfigBytes_def deleteJobName_def Let_def apiSuccessJSON_def
        split: sum.splits)
qed

text \<open>A YAML package that reads every payload as the empty map, for the examples.\<close>

definition sample_dyncfg :: "string dyncfg_env" where
  "sample_dyncfg = \<lparr>de_url = sample_url, de_host = ''box'', de_Hash = (\<lambda>_. 0), de_Marshal = (\<lambda>_. Inr ''yaml''),
     de_Decode = (\<lambda>_. Inr (Some Map.empty)), de_Errorf = id\<rparr>"

definition sample_call :: "string \<Rightarrow> string list \<Rightarrow> Function" where
  "sample_call name args = \<lparr>fn_key = ''FUNCTION'', fn_UID = ''u'', fn_Timeout = 0, fn_Name = name, fn_Args = args,
     fn_Payload = ''{}''\<rparr>"

theorem set_then_get_and_delete_witness:
  "\<exists>d1 cfg'. setJobConfig sample_dyncfg (sample_call ''set_job_config'' [''m'', ''j'']) (NewDiscovery ''go.d'' []) = Some d1
     \<and> Name cfg' = ''j'' \<and> getJobConfig sample_dyncfg (sample_call ''get_job_config'' [''m'', ''j'']) (Register (\<lambda>_. 0) cfg' d1)
        = apiSuccessYAML (sample_call ''get_job_config'' [''m'', ''j'']) ''yaml'' (Register (\<lambda>_. 0) cfg' d1)"
proof -
  let ?s = "sample_call ''set_job_config'' [''m'', ''j'']" and ?g = "sample_call ''get_job_config'' [''m'', ''j'']"
  have "fn_Args ?s = [''m'', ''j'']" "fn_Payload ?s \<noteq> []" "de_Decode sample_dyncfg (fn_Payload ?s) = Inr (Some Map.empty)"
    "''j'' \<noteq> []" "job_name sample_dyncfg ''j'' = ''j''" "fn_Args ?g = [''m'', ''j'']" "\<not> isSetFunction ?g"
    by (simp_all add: sample_call_def sample_dyncfg_def job_name_def jobNameResolveHostname_def cleanName_def
        re_space_def isSetFunction_def)
  from set_then_get_and_delete [OF this, of "NewDiscovery ''go.d'' []" "\<lambda>_. 0"]
  show ?thesis by (auto simp: sample_dyncfg_def)
qed

text \<open>
  With any other name the job is lost to the dashboard.  It runs under the cleaned name, so
  under the name it was set with nothing is found: \<open>get_job_config\<close> and \<open>delete_job\<close> are rejected;
  and deleting it under the cleaned name sends a removal for another source, which leaves the
  job's own source untouched.
\<close>

theorem renamed_job_unreachable:
  assumes "fn_Args fn = [mo, jo]" and "fn_Payload fn \<noteq> []" and "de_Decode de (fn_Payload fn) = Inr (Some cfg)"
    and "jo \<noteq> []" and "job_name de jo \<noteq> jo" and "dy_configs d = Map.empty"
    and "fn_Args g = [mo, jo]" and "\<not> isSetFunction g" and "fn_Args g' = [mo, job_name de jo]" and "\<not> isSetFunction g'"
  shows "\<exists>d1 cfg'. setJobConfig de fn d = Some d1
     \<and> dy_in d1 = dy_in d @ [\<lparr>g_Configs = [cfg'], g_Source = source mo jo\<rparr>]
     \<and> getJobConfig de g (Register Hash cfg' d1) = apiReject g ''config not found'' (Register Hash cfg' d1)
     \<and> dy_in (deleteJobName de g (Register Hash cfg' d1)) = dy_in d1
     \<and> (\<exists>src. src \<noteq> source mo jo
          \<and> dy_in (deleteJobName de g' (Register Hash cfg' d1)) = dy_in d1 @ [\<lparr>g_Configs = [], g_Source = src\<rparr>])"
proof -
  let ?c = "set_config de (dy_ModuleConfigDefaults d) mo jo cfg"
  let ?d = "apiSuccessJSON fn [] (d\<lparr>dy_in := dy_in d @ [\<lparr>g_Configs = [?c], g_Source = source mo jo\<rparr>]\<rparr>)"
  note f = set_config_fields [OF assms(4), of de "dy_ModuleConfigDefaults d" mo cfg]
  have r: "dy_configs (Register Hash ?c ?d) = [mo @ ''_'' @ job_name de jo \<mapsto> ?c]"
    using dyncfg.Register_reg [of Hash ?c ?d] set_config_key [OF assms(4), of Hash de _ mo cfg] assms(6)
    by (simp add: apiSuccessJSON_def)
  have v: "verifyFn de g 2 = None" "verifyFn de g' 2 = None" using assms(7,8,9,10) verify_two by blast+
  have i: "dy_in (Register Hash ?c ?d) = dy_in ?d" using f(3) by (simp add: Register_dyncfg)
  have s: "source mo (job_name de jo) \<noteq> source mo jo" using assms(5) by (simp add: source_def)
  show ?thesis
    using setJobConfig_ok [OF assms(1,2,3), of d] f assms(5,7,9) r v i s
    by (intro exI [of _ ?d] exI [of _ ?c] conjI exI [of _ "source mo (job_name de jo)"])
      (simp_all add: getJobConfig_def getConfigBytes_def deleteJobName_def Let_def apiSuccessJSON_def apiReject_def)
qed

theorem renamed_job_unreachable_witness:
  "\<exists>d1 cfg'. setJobConfig sample_dyncfg (sample_call ''set_job_config'' [''m'', ''a.b'']) (NewDiscovery ''go.d'' []) = Some d1
     \<and> getJobConfig sample_dyncfg (sample_call ''get_job_config'' [''m'', ''a.b'']) (Register (\<lambda>_. 0) cfg' d1)
        = apiReject (sample_call ''get_job_config'' [''m'', ''a.b'']) ''config not found'' (Register (\<lambda>_. 0) cfg' d1)"
proof -
  let ?s = "sample_call ''set_job_config'' [''m'', ''a.b'']" and ?g = "sample_call ''get_job_config'' [''m'', ''a.b'']"
  let ?g' = "sample_call ''delete_job'' [''m'', ''a_b'']"
  have n: "job_name sample_dyncfg ''a.b'' = ''a_b''" by code_simp
  have "fn_Args ?s = [''m'', ''a.b'']" "fn_Payload ?s \<noteq> []" "de_Decode sample_dyncfg (fn_Payload ?s) = Inr (Some Map.empty)"
    "''a.b'' \<noteq> []" "job_name sample_dyncfg ''a.b'' \<noteq> ''a.b''" "dy_configs (NewDiscovery ''go.d'' []) = Map.empty"
    "fn_Args ?g = [''m'', ''a.b'']" "\<not> isSetFunction ?g" "fn_Args ?g' = [''m'', job_name sample_dyncfg ''a.b'']"
    "\<not> isSetFunction ?g'"
    unfolding n by (simp_all add: sample_call_def sample_dyncfg_def isSetFunction_def NewDiscovery_def)
  from renamed_job_unreachable [OF this, of "\<lambda>_. 0"] show ?thesis by blast
qed

end
