(* ===== verification/Agent.thy ===== *)
theory Agent
  imports Jobmgr_Facts Filelock Filestatus Vnodes Dyncfg
begin

text \<open>
  The job manager with the providers \<open>agent/agent.go\<close> gives it when the plugin runs under Netdata
  (with a lock directory and a state file): the file lock, the status file, the virtual nodes.
  Dynamic configuration is commented out in \<open>run\<close>, so its interface has the empty implementation of
  \<open>jobmgr/noop.go\<close>; the prepared wiring is modelled beside it, and the properties hold for both.
  The general facts of \<open>Jobmgr_Facts\<close> are interpreted here.
\<close>

section \<open>The empty providers\<close>

definition noop_Contains :: "Config \<Rightarrow> string list \<Rightarrow> bool" where
  "noop_Contains cfg statuses = False"

definition noop_Lookup :: "string \<Rightarrow> VirtualNode option" where
  "noop_Lookup name = None"

definition noop_Register :: "Config \<Rightarrow> 'd \<Rightarrow> 'd" where
  "noop_Register cfg d = d"

definition noop_Unregister :: "Config \<Rightarrow> 'd \<Rightarrow> 'd" where
  "noop_Unregister cfg d = d"

definition noop_UpdateStatus :: "Config \<Rightarrow> string \<Rightarrow> string \<Rightarrow> 'd \<Rightarrow> 'd" where
  "noop_UpdateStatus cfg status payload d = d"

section \<open>The wiring\<close>

text \<open>What comes from outside the repository: locking files, unmarshalling a configuration into a
  module, hashing, and the environment; and whether dynamic configuration is wired in.\<close>

record ('m, 'os) outside =
  os_env :: env
  os_k8s :: bool
  os_Hash :: "Config \<Rightarrow> cfg_hash"
  os_unmarshal :: "Config \<Rightarrow> 'm \<Rightarrow> go_error option \<times> 'm"
  os_flock :: "'os flock"
  os_dyncfg :: bool

text \<open>The wiring of \<open>run\<close>: the store loaded at the start decides what was running before.\<close>

definition agent_services :: "('m, 'os) outside \<Rightarrow> vnodes \<Rightarrow> items option
    \<Rightarrow> ('m, 'os Locker, StatusManager, Discovery) services" where
  "agent_services o1 vn store = \<lparr>
     sv_env = os_env o1, sv_k8s = os_k8s o1, sv_Hash = os_Hash o1, sv_unmarshal = os_unmarshal o1,
     sv_Lock = Locker_Lock (os_flock o1), sv_Unlock = Locker_Unlock (os_flock o1),
     sv_Save = Status_Save (os_Hash o1), sv_Remove = Status_Remove (os_Hash o1),
     sv_Contains = (\<lambda>cfg statuses. case LoadStore store of
        None \<Rightarrow> noop_Contains cfg statuses | Some its \<Rightarrow> Store_Contains (os_Hash o1) its cfg statuses),
     sv_Lookup = (if vn = Map.empty then noop_Lookup else Vnodes_Lookup vn),
     sv_Register = (if os_dyncfg o1 then Register (os_Hash o1) else noop_Register),
     sv_Unregister = (if os_dyncfg o1 then Unregister (os_Hash o1) else noop_Unregister),
     sv_UpdateStatus = (if os_dyncfg o1 then UpdateStatus (os_Hash o1) else noop_UpdateStatus)\<rparr>"

lemma agent_services_simps [simp]:
  "sv_env (agent_services o1 vn store) = os_env o1" "sv_Hash (agent_services o1 vn store) = os_Hash o1"
  "sv_Lock (agent_services o1 vn store) = Locker_Lock (os_flock o1)"
  "sv_Unlock (agent_services o1 vn store) = Locker_Unlock (os_flock o1)"
  "sv_Save (agent_services o1 vn store) = Status_Save (os_Hash o1)"
  "sv_Remove (agent_services o1 vn store) = Status_Remove (os_Hash o1)"
  "os_dyncfg o1 \<Longrightarrow> sv_Unregister (agent_services o1 vn store) = Unregister (os_Hash o1)"
  "sv_unmarshal (agent_services o1 vn store) = os_unmarshal o1"
  by (simp_all add: agent_services_def)

interpretation agent: job_manager "agent_services o1 vn store" Locker_held Locker_inv lockable
    "\<lambda>m. Store_lookup (os_Hash o1) (fm_items m)" "same_job (os_Hash o1)"
  by (rule job_manager.intro) (simp_all add: filelock.file_locker_axioms filestatus.status_store_axioms)

text \<open>The agent at the start.\<close>

definition agent_start :: "string \<Rightarrow> (string \<rightharpoonup> 'm Creator) \<Rightarrow> string \<Rightarrow> 'os \<Rightarrow> items option \<Rightarrow> (string \<times> string) list
    \<Rightarrow> ('m, 'os Locker, StatusManager, Discovery) system" where
  "agent_start plugin modules lockDir os0 file schemas = \<lparr>
     sy_mgr = NewManager plugin modules (NewLocker lockDir os0) (NewStatusManager file) (NewDiscovery plugin schemas),
     sy_pending = []\<rparr>"

lemma agent_start_ok: "agent.sys_ok o1 vn store (agent_start plugin modules lockDir os0 file schemas)"
  unfolding agent_start_def
  by (rule agent.sys_ok_init) (simp_all add: Locker_inv_def Locker_held_def NewLocker_def)

section \<open>The invariant, in every reachable state\<close>

abbreviation lock_name :: "Config \<Rightarrow> bool" where
  "lock_name cfg \<equiv> lockable (FullName cfg)"

lemma agent_reachable:
  assumes "mgr_reachable (agent_services o1 vn store) lock_name
     (agent_start plugin modules lockDir os0 file schemas) s"
  shows "mgr_ok Locker_held Locker_inv (os_Hash o1) {} (sy_mgr s)"
  using agent.sys_ok_reachable [OF assms agent_start_ok] by (simp add: agent.sys_ok_def)


text \<open>A module that always works, a free lock, and a configuration for it.\<close>

definition sample_outside :: "(unit, string list) outside" where
  "sample_outside = \<lparr>os_env = sample_env, os_k8s = False, os_Hash = (\<lambda>cfg. of_nat (length (Name cfg))),
     os_unmarshal = (\<lambda>cfg md. (None, md)), os_flock = sample_flock, os_dyncfg = False\<rparr>"

definition sample_Defaults :: Defaults where
  "sample_Defaults = \<lparr>dt_UpdateEvery = 0, dt_AutoDetectionRetry = 0, dt_Priority = 0, dt_Disabled = False\<rparr>"

definition sample_modules :: "string \<rightharpoonup> unit Creator" where
  "sample_modules = [''m'' \<mapsto> \<lparr>cr_Defaults = sample_Defaults, cr_Create = (), cr_ops = sample_ops, cr_JobConfigSchema = []\<rparr>]"

definition sample_start :: "(unit, string list Locker, StatusManager, Discovery) system" where
  "sample_start = agent_start ''go.d'' sample_modules ''/run'' [] None []"

definition sample_added :: "(unit, string list Locker, StatusManager, Discovery) system" where
  "sample_added = \<lparr>sy_mgr = addConfig (agent_services sample_outside Map.empty None) (sample_cfg ''m'' ''a'')
       (snd (receive_group (agent_services sample_outside Map.empty None)
          \<lparr>g_Configs = [sample_cfg ''m'' ''a''], g_Source = ''f''\<rparr> (sy_mgr sample_start))), sy_pending = []\<rparr>"

lemma sample_added_reachable:
  "mgr_reachable (agent_services sample_outside Map.empty None) lock_name sample_start sample_added"
proof -
  let ?sv = "agent_services sample_outside Map.empty None" and ?c = "sample_cfg ''m'' ''a''"
  let ?g = "\<lparr>g_Configs = [?c], g_Source = ''f''\<rparr>"
  let ?r = "receive_group ?sv ?g (sy_mgr sample_start)"
  have f: "FullName ?c = ''m_a''" by code_simp
  have p: "fst ?r = [Added ?c]"
    by (simp add: receive_group_def sample_start_def agent_start_def NewManager_def Cache_Add_def addNotEmpty_def
        NewCache_def Let_def)
  have "mgr_step ?sv lock_name sample_start \<lparr>sy_mgr = snd ?r, sy_pending = fst ?r\<rparr>"
    by (rule mgr_step.group_in) (simp_all add: sample_start_def agent_start_def f lockable_def)
  moreover have "mgr_step ?sv lock_name \<lparr>sy_mgr = snd ?r, sy_pending = fst ?r\<rparr> sample_added"
    using mgr_step.added [of "\<lparr>sy_mgr = snd ?r, sy_pending = fst ?r\<rparr>" ?c "[]" ?sv lock_name] p
    by (simp add: sample_added_def)
  ultimately show ?thesis by (blast intro: mgr_reachable.intros)
qed

text \<open>What adding a configuration does when nothing is in its way.\<close>

lemma addConfig_starts:
  assumes "retrying_lookup (sv_Hash sv) cfg (mg_retryingJobs m) = None" and "\<not> running_has cfg (mg_runningJobs m)"
    and "createJob sv cfg (m\<lparr>mg_Dyncfg := sv_Register sv cfg (mg_Dyncfg m)\<rparr>) = Inr (ops, job0)"
    and "detection (sv_env sv) ops (recovery sv cfg None job0) = (jobStatusRunning, job)"
    and "fst (fst (sv_Lock sv (FullName cfg) (mg_FileLock m)))"
  shows "queue_names (addConfig sv cfg m) = queue_names m @ [j_fullName job]"
    and "mg_retryingJobs (addConfig sv cfg m) = mg_retryingJobs m"
  using assms
  by (simp_all add: addConfig_def settle_def Let_def case_prod_beta queue_names_def)

lemma sample_detection:
  "RetryAutoDetection j = b \<Longrightarrow> \<not> j_isStock j \<Longrightarrow>
   detection sample_env sample_ops j = (jobStatusRunning, snd (AutoDetection sample_env sample_ops j))"
  by (auto simp: detection_def AutoDetection_def detection_defs sample_ops_def split: if_splits)

lemma sample_outside_simps:
  "os_env sample_outside = sample_env" "os_unmarshal sample_outside = (\<lambda>cfg md. (None, md))"
  "os_flock sample_outside = sample_flock"
  by (simp_all add: sample_outside_def)

lemma sample_cfg_fields:
  "FullName (sample_cfg ''m'' ''a'') = ''m_a''" "Module_name (sample_cfg ''m'' ''a'') = ''m''"
  "Vnode (sample_cfg ''m'' ''a'') = []" "isStockConfig (sample_cfg ''m'' ''a'') = False"
  by code_simp+

lemma sample_createJob:
  assumes "mg_Modules m = sample_modules"
  shows "\<exists>job. createJob (agent_services sample_outside vn store) (sample_cfg ''m'' ''a'') m = Inr (sample_ops, job)
     \<and> \<not> j_isStock job \<and> j_fullName job = ''m_a''"
  using assms
  by (simp add: createJob_def sample_modules_def sample_outside_simps sample_cfg_fields Let_def NewJob_def)

lemma sample_added_facts:
  "queue_names (sy_mgr sample_added) = [''m_a'']" "mg_retryingJobs (sy_mgr sample_added) = []"
proof -
  define sv where "sv = agent_services sample_outside Map.empty None"
  define m where "m = snd (receive_group sv \<lparr>g_Configs = [sample_cfg ''m'' ''a''], g_Source = ''f''\<rparr> (sy_mgr sample_start))"
  have m: "mg_Modules m = sample_modules" "mg_retryingJobs m = []" "mg_runningJobs m = []" "mg_queue m = []"
    "mg_FileLock m = NewLocker ''/run'' []"
    by (simp_all add: m_def receive_group_def case_prod_beta sample_start_def agent_start_def NewManager_def)
  obtain job0 where j: "createJob sv (sample_cfg ''m'' ''a'') (m\<lparr>mg_Dyncfg := sv_Register sv (sample_cfg ''m'' ''a'') (mg_Dyncfg m)\<rparr>)
      = Inr (sample_ops, job0)" "\<not> j_isStock job0" "j_fullName job0 = ''m_a''"
    using sample_createJob [of "m\<lparr>mg_Dyncfg := sv_Register sv (sample_cfg ''m'' ''a'') (mg_Dyncfg m)\<rparr>" Map.empty None] m(1)
    by (auto simp: sv_def)
  define j1 where "j1 = recovery sv (sample_cfg ''m'' ''a'') None job0"
  have "\<not> j_isStock j1" using j(2) by (simp add: j1_def recovery_def)
  then have d: "detection (sv_env sv) sample_ops j1 = (jobStatusRunning, snd (AutoDetection sample_env sample_ops j1))"
    using sample_detection by (simp add: sv_def sample_outside_simps)
  have "j_fullName j1 = ''m_a''" using j(3) by (simp add: j1_def)
  then have n: "j_fullName (snd (AutoDetection sample_env sample_ops j1)) = ''m_a''"
    using AutoDetection_fullName [of sample_env sample_ops j1] by (metis prod.collapse)
  have l: "fst (fst (sv_Lock sv (FullName (sample_cfg ''m'' ''a'')) (mg_FileLock m)))"
    unfolding m sv_def by (simp add: sample_outside_simps Locker_Lock_def NewLocker_def sample_flock_def Let_def)
  have h: "retrying_lookup (sv_Hash sv) (sample_cfg ''m'' ''a'') (mg_retryingJobs m) = None"
    "\<not> running_has (sample_cfg ''m'' ''a'') (mg_runningJobs m)"
    by (simp_all add: m retrying_lookup_def running_has_def)
  have s: "sy_mgr sample_added = addConfig sv (sample_cfg ''m'' ''a'') m"
    by (simp add: sample_added_def sv_def m_def)
  show "queue_names (sy_mgr sample_added) = [''m_a'']" "mg_retryingJobs (sy_mgr sample_added) = []"
    using addConfig_starts [OF h j(1) d [unfolded j1_def] l] n m unfolding s
    by (simp_all add: queue_names_def j1_def)
qed


section \<open>Removing a configuration\<close>

lemma filter_neq: "filter (\<lambda>n. n \<noteq> x) xs = removeAll x xs"
  by (induction xs) auto



text \<open>
  C38.  A configuration refused as a duplicate still owns the job it duplicates.  When a second
  configuration arrives whose full name is taken by a running job, it is not started; but when
  that second configuration is later removed, the running job is stopped, although its own
  configuration is still there and its status still says it is running.
\<close>

theorem removing_duplicate_stops_job:
  assumes "mgr_reachable (agent_services o1 vn store) lock_name
       (agent_start plugin modules lockDir os0 file schemas) s"
    and "m = sy_mgr s" and "lockable (FullName cfg2)" and "FullName cfg2 = FullName cfg1"
    and "FullName cfg1 \<in> set (queue_names m)" and "\<not> same_job (os_Hash o1) cfg2 cfg1"
    and "m1 = addConfig (agent_services o1 vn store) cfg2 m"
    and "m2 = removeConfig (agent_services o1 vn store) cfg2 m1"
  shows "queue_names m1 = queue_names m \<and> FullName cfg1 \<notin> set (queue_names m2)
     \<and> Store_lookup (os_Hash o1) (fm_items (mg_StatusSaver m2)) cfg1
       = Store_lookup (os_Hash o1) (fm_items (mg_StatusSaver m)) cfg1"
proof -
  let ?sv = "agent_services o1 vn store"
  have ok: "mgr_ok Locker_held Locker_inv (os_Hash o1) {} m" using agent_reachable [OF assms(1)] assms(2) by simp
  have has: "running_has cfg2 (mg_runningJobs m)"
    using ok running_has_iff [of "mg_runningJobs m" cfg2] assms(4,5) by (simp add: mgr_ok_def running_ok_def)
  have ok1: "mgr_ok Locker_held Locker_inv (os_Hash o1) {} m1"
    using agent.mgr_ok_addConfig [of o1 vn store "{}" m cfg2] ok assms(3,7) by simp
  have gone: "FullName cfg2 \<notin> set (queue_names m2)"
    using agent.mgr_ok_removeConfig(3) [of o1 vn store m1 cfg2] ok1 assms(3,8) by simp
  show ?thesis
  proof (cases rule: addConfig_cases [where cfg = cfg2 and m = m and sv = ?sv])
    case duplicate
    have "queue_names m1 = queue_names m" using duplicate(2) by (simp add: assms(7) same_tables_def queue_names_def)
    moreover have "Store_lookup (os_Hash o1) (fm_items (mg_StatusSaver m2)) cfg1
       = Store_lookup (os_Hash o1) (fm_items (mg_StatusSaver m)) cfg1"
      using duplicate(4) assms(6) filestatus.Save_other
      by (simp add: assms(7,8) agent.removeConfig_parts(8))
    ultimately show ?thesis using gone assms(4) by simp
  qed (use has in simp_all)
qed

theorem removing_duplicate_stops_job_witness:
  "queue_names (addConfig (agent_services sample_outside Map.empty None)
       ((sample_cfg ''m'' ''a'')(''module'' \<mapsto> VString ''m_a'', ''name'' \<mapsto> VString ''m_a'')) (sy_mgr sample_added)) = [''m_a'']
   \<and> ''m_a'' \<notin> set (queue_names (removeConfig (agent_services sample_outside Map.empty None)
       ((sample_cfg ''m'' ''a'')(''module'' \<mapsto> VString ''m_a'', ''name'' \<mapsto> VString ''m_a''))
       (addConfig (agent_services sample_outside Map.empty None)
         ((sample_cfg ''m'' ''a'')(''module'' \<mapsto> VString ''m_a'', ''name'' \<mapsto> VString ''m_a'')) (sy_mgr sample_added))))"
proof -
  let ?c2 = "(sample_cfg ''m'' ''a'')(''module'' \<mapsto> VString ''m_a'', ''name'' \<mapsto> VString ''m_a'')"
  have f: "FullName ?c2 = ''m_a''" "Module_name ?c2 = ''m_a''" by code_simp+
  have "lockable (FullName ?c2)" "FullName ?c2 = FullName (sample_cfg ''m'' ''a'')"
    "FullName (sample_cfg ''m'' ''a'') \<in> set (queue_names (sy_mgr sample_added))"
    "\<not> same_job (os_Hash sample_outside) ?c2 (sample_cfg ''m'' ''a'')"
    unfolding f sample_cfg_fields sample_added_facts same_job_def by (simp_all add: lockable_def)
  from removing_duplicate_stops_job [OF sample_added_reachable [unfolded sample_start_def] refl this refl refl]
  show ?thesis unfolding sample_added_facts sample_cfg_fields by blast
qed

section \<open>Adding a configuration\<close>

text \<open>
  C15.  After a configuration was added, its recorded status says what became of it: \<open>running\<close> exactly
  when its job was put into the queue, \<open>retrying\<close> exactly when a retry is pending, and in all
  other cases the queue is as it was.
\<close>

theorem addConfig_status_faithful:
  assumes "mgr_reachable (agent_services o1 vn store) lock_name
       (agent_start plugin modules lockDir os0 file schemas) s"
    and "m = sy_mgr s" and "m' = addConfig (agent_services o1 vn store) cfg m"
  shows "\<exists>r. Store_lookup (os_Hash o1) (fm_items (mg_StatusSaver m')) cfg = Some r
     \<and> (r = jobStatusRunning \<longleftrightarrow> queue_names m' = queue_names m @ [FullName cfg])
     \<and> (r \<noteq> jobStatusRunning \<longrightarrow> queue_names m' = queue_names m)
     \<and> (r = jobStatusRetrying \<longleftrightarrow> retrying_lookup (os_Hash o1) cfg (mg_retryingJobs m') \<noteq> None)"
  using agent.addConfig_status [of o1 vn store "{}" m cfg] agent_reachable [OF assms(1)] assms(2,3) by simp

theorem addConfig_status_faithful_witness:
  "\<exists>r. Store_lookup (os_Hash sample_outside) (fm_items (mg_StatusSaver
      (addConfig (agent_services sample_outside Map.empty None) (sample_cfg ''x'' ''b'') (sy_mgr sample_start)))) (sample_cfg ''x'' ''b'') = Some r
    \<and> r \<noteq> jobStatusRunning"
proof -
  let ?sv = "agent_services sample_outside Map.empty None" and ?c = "sample_cfg ''x'' ''b''"
  let ?m = "addConfig ?sv ?c (sy_mgr sample_start)"
  have "mgr_reachable ?sv lock_name sample_start sample_start" by (rule mgr_reachable.start)
  from addConfig_status_faithful [OF this [unfolded sample_start_def] refl refl, of ?c] obtain r where
    r: "Store_lookup (os_Hash sample_outside) (fm_items (mg_StatusSaver ?m)) ?c = Some r"
    "r = jobStatusRunning \<longleftrightarrow> queue_names ?m = queue_names (sy_mgr sample_start) @ [FullName ?c]"
    by (auto simp: sample_start_def)
  have "Module_name ?c = ''x''" by code_simp
  then have "mg_queue ?m = mg_queue (sy_mgr sample_start)"
    by (simp add: addConfig_def sample_start_def agent_start_def NewManager_def retrying_lookup_def running_has_def
        createJob_def sample_modules_def)
  then show ?thesis using r by (simp add: queue_names_def)
qed

text \<open>
  C16.  Retries come to an end.  A configuration that is retrying with a finite number of tries left is,
  after its next attempt, either no longer retrying or retrying with exactly one try fewer, at
  the same interval; and a new job gets a finite number only from the recovery settings (11 or 7).
\<close>

theorem retries_decrease:
  assumes "mgr_reachable (agent_services o1 vn store) lock_name
       (agent_start plugin modules lockDir os0 file schemas) s"
    and "m = sy_mgr s" and "retrying_lookup (os_Hash o1) cfg (mg_retryingJobs m) = Some task" and "0 < rt_retries task"
    and "retrying_lookup (os_Hash o1) cfg (mg_retryingJobs (addConfig (agent_services o1 vn store) cfg m)) = Some task'"
  shows "rt_retries task' = rt_retries task - 1 \<and> 0 < rt_retries task' \<and> rt_timeout task' = rt_timeout task"
proof (rule retry_uses_a_try [of "agent_services o1 vn store" cfg m])
  have "retry_ok (os_Hash o1) m" using agent_reachable [OF assms(1)] assms(2) by (simp add: mgr_ok_def)
  then show "retry_ok_except (sv_Hash (agent_services o1 vn store)) {sv_Hash (agent_services o1 vn store) cfg} m"
    unfolding agent_services_simps retry_ok_except_def by blast
qed (use assms in simp_all)

text \<open>A module whose check fails, and a store in which its job was running before.\<close>

definition failing_ops :: "unit Module" where
  "failing_ops = sample_ops\<lparr>m_Check := \<lambda>m. (Some False, m)\<rparr>"

definition failing_services :: "(unit, string list Locker, StatusManager, Discovery) services" where
  "failing_services = agent_services sample_outside Map.empty
     (Some (Store_add (os_Hash sample_outside) (sample_cfg ''m'' ''a'') jobStatusRunning Map.empty))"

definition failing_start :: "(unit, string list Locker, StatusManager, Discovery) system" where
  "failing_start = agent_start ''go.d'' [''m'' \<mapsto> \<lparr>cr_Defaults = sample_Defaults, cr_Create = (), cr_ops = failing_ops, cr_JobConfigSchema = []\<rparr>] ''/run'' [] None []"

definition failing_received :: "(unit, string list Locker, StatusManager, Discovery) Manager" where
  "failing_received = snd (receive_group failing_services
      \<lparr>g_Configs = [sample_cfg ''m'' ''a''], g_Source = ''f''\<rparr> (sy_mgr failing_start))"

definition failing_added :: "(unit, string list Locker, StatusManager, Discovery) system" where
  "failing_added = \<lparr>sy_mgr = addConfig failing_services (sample_cfg ''m'' ''a'') failing_received, sy_pending = []\<rparr>"

lemma failing_added_reachable: "mgr_reachable failing_services lock_name failing_start failing_added"
proof -
  let ?c = "sample_cfg ''m'' ''a''"
  let ?g = "\<lparr>g_Configs = [?c], g_Source = ''f''\<rparr>"
  let ?r = "receive_group failing_services ?g (sy_mgr failing_start)"
  have p: "fst ?r = [Added ?c]"
    by (simp add: receive_group_def failing_start_def agent_start_def NewManager_def Cache_Add_def addNotEmpty_def
        NewCache_def Let_def)
  have "mgr_step failing_services lock_name failing_start \<lparr>sy_mgr = snd ?r, sy_pending = fst ?r\<rparr>"
    by (rule mgr_step.group_in) (simp_all add: failing_start_def agent_start_def sample_cfg_fields lockable_def)
  moreover have "mgr_step failing_services lock_name \<lparr>sy_mgr = snd ?r, sy_pending = fst ?r\<rparr> failing_added"
    using mgr_step.added [of "\<lparr>sy_mgr = snd ?r, sy_pending = fst ?r\<rparr>" ?c "[]" failing_services lock_name] p
    by (simp add: failing_added_def failing_received_def)
  ultimately show ?thesis by (blast intro: mgr_reachable.intros)
qed

lemma addConfig_retries:
  assumes "\<not> running_has cfg (mg_runningJobs m)" and "createJob sv cfg (prepared sv cfg m) = Inr (ops, job0)"
    and "detection (sv_env sv) ops (recovery sv cfg (retrying_lookup (sv_Hash sv) cfg (mg_retryingJobs m)) job0)
       = (jobStatusRetrying, job)"
  shows "retrying_lookup (sv_Hash sv) cfg (mg_retryingJobs (addConfig sv cfg m))
     = Some \<lparr>rt_cancel = mg_next m, rt_timeout = j_AutoDetectEvery job, rt_retries = j_AutoDetectTries job\<rparr>"
    and "mg_runningJobs (addConfig sv cfg m) = mg_runningJobs m"
    and "mg_Modules (addConfig sv cfg m) = mg_Modules m"
proof -
  have eq: "addConfig sv cfg m = settle sv cfg ops jobStatusRetrying job (prepared sv cfg m)"
    unfolding addConfig_def Let_def prepared_def [symmetric] using assms by simp
  show "retrying_lookup (sv_Hash sv) cfg (mg_retryingJobs (addConfig sv cfg m))
     = Some \<lparr>rt_cancel = mg_next m, rt_timeout = j_AutoDetectEvery job, rt_retries = j_AutoDetectTries job\<rparr>"
    "mg_runningJobs (addConfig sv cfg m) = mg_runningJobs m"
    by (simp_all add: eq settle_def job_status_defs put_retry_def retrying_put_def retrying_lookup_def map_of_update)
  show "mg_Modules (addConfig sv cfg m) = mg_Modules m"
    by (simp add: eq settle_def job_status_defs put_retry_def discard_def send_output_def report_def save_def
        prepared_def cancel_retry_def split: option.splits)
qed

lemma failing_detection:
  assumes "\<not> j_isStock j" and "0 < j_AutoDetectEvery j" and "1 < j_AutoDetectTries j"
  shows "\<exists>j'. detection sample_env failing_ops j = (jobStatusRetrying, j')
     \<and> j_AutoDetectEvery j' = j_AutoDetectEvery j \<and> j_AutoDetectTries j' = j_AutoDetectTries j - 1"
  using assms
  by (auto simp: detection_def AutoDetection_def detection_defs failing_ops_def sample_ops_def
      RetryAutoDetection_def infTries_def sample_env_def Unmute_def)

lemma failing_createJob:
  assumes "mg_Modules m = [''m'' \<mapsto> \<lparr>cr_Defaults = sample_Defaults, cr_Create = (), cr_ops = failing_ops, cr_JobConfigSchema = []\<rparr>]"
  shows "\<exists>job. createJob failing_services (sample_cfg ''m'' ''a'') m = Inr (failing_ops, job) \<and> \<not> j_isStock job
     \<and> j_AutoDetectEvery job = 0"
proof -
  have "AutoDetectionRetry (sample_cfg ''m'' ''a'') = 0" by code_simp
  then show ?thesis using assms
    by (simp add: createJob_def failing_services_def sample_outside_simps sample_cfg_fields Let_def NewJob_def)
qed

lemma failing_contains: "sv_Contains failing_services (sample_cfg ''m'' ''a'') [jobStatusRunning, jobStatusRetrying]"
  by (simp add: failing_services_def agent_services_def LoadStore_def Store_Contains_def lookup_add same_job_def)

lemma failing_attempt:
  assumes "mg_Modules m = [''m'' \<mapsto> \<lparr>cr_Defaults = sample_Defaults, cr_Create = (), cr_ops = failing_ops, cr_JobConfigSchema = []\<rparr>]"
    and "mg_runningJobs m = []"
    and "retrying_lookup (os_Hash sample_outside) (sample_cfg ''m'' ''a'') (mg_retryingJobs m) = r"
    and "t = (case r of None \<Rightarrow> 11 | Some task \<Rightarrow> rt_retries task)" and "1 < t"
    and "\<And>task. r = Some task \<Longrightarrow> rt_timeout task = 30"
  shows "\<exists>task. retrying_lookup (os_Hash sample_outside) (sample_cfg ''m'' ''a'')
       (mg_retryingJobs (addConfig failing_services (sample_cfg ''m'' ''a'') m)) = Some task
     \<and> rt_retries task = t - 1 \<and> rt_timeout task = 30
     \<and> mg_runningJobs (addConfig failing_services (sample_cfg ''m'' ''a'') m) = []
     \<and> mg_Modules (addConfig failing_services (sample_cfg ''m'' ''a'') m) = mg_Modules m"
proof -
  let ?c = "sample_cfg ''m'' ''a''"
  have h: "sv_Hash failing_services = os_Hash sample_outside" "sv_env failing_services = sample_env"
    by (simp_all add: failing_services_def sample_outside_simps)
  have "mg_Modules (prepared failing_services ?c m) = mg_Modules m"
    by (simp add: prepared_def cancel_retry_def split: option.splits)
  then obtain job0 where j: "createJob failing_services ?c (prepared failing_services ?c m) = Inr (failing_ops, job0)"
    "\<not> j_isStock job0" "j_AutoDetectEvery job0 = 0" using failing_createJob assms(1) by metis
  let ?j = "recovery failing_services ?c r job0"
  have "\<not> j_isStock ?j" "j_AutoDetectEvery ?j = 30" "j_AutoDetectTries ?j = t"
    using j(2,3) failing_contains assms(4,6) by (auto simp: recovery_def split: option.splits)
  then obtain j' where d: "detection sample_env failing_ops ?j = (jobStatusRetrying, j')"
    "j_AutoDetectEvery j' = 30" "j_AutoDetectTries j' = t - 1" using failing_detection [of ?j] assms(5) by auto
  have run: "\<not> running_has ?c (mg_runningJobs m)" using assms(2) by (simp add: running_has_def)
  note a = addConfig_retries [OF run j(1), unfolded h assms(3), OF d(1)]
  show ?thesis using a d(2,3) assms(2) by simp
qed

theorem retries_decrease_witness:
  "\<exists>task'. retrying_lookup (os_Hash sample_outside) (sample_cfg ''m'' ''a'')
       (mg_retryingJobs (addConfig failing_services (sample_cfg ''m'' ''a'') (sy_mgr failing_added))) = Some task'
     \<and> rt_retries task' = 9 \<and> rt_timeout task' = 30"
proof -
  let ?c = "sample_cfg ''m'' ''a''" and ?H = "os_Hash sample_outside"
  let ?mods = "[''m'' \<mapsto> \<lparr>cr_Defaults = sample_Defaults, cr_Create = (), cr_ops = failing_ops, cr_JobConfigSchema = []\<rparr>]"
  have m0: "mg_Modules failing_received = ?mods" "mg_runningJobs failing_received = []"
    "retrying_lookup ?H ?c (mg_retryingJobs failing_received) = None"
    by (simp_all add: failing_received_def receive_group_def case_prod_beta failing_start_def agent_start_def
        NewManager_def retrying_lookup_def)
  obtain task where t: "retrying_lookup ?H ?c (mg_retryingJobs (sy_mgr failing_added)) = Some task"
    "rt_retries task = 10" "rt_timeout task = 30" "mg_runningJobs (sy_mgr failing_added) = []"
    "mg_Modules (sy_mgr failing_added) = ?mods"
    using failing_attempt [OF m0, of 11] m0(1) by (auto simp: failing_added_def)
  obtain task' where t': "retrying_lookup ?H ?c (mg_retryingJobs (addConfig failing_services ?c (sy_mgr failing_added))) = Some task'"
    using failing_attempt [OF t(5,4,1), of 10] t(2,3) by auto
  have "0 < rt_retries task" using t(2) by simp
  from retries_decrease [OF failing_added_reachable [unfolded failing_services_def failing_start_def] refl t(1) this
      t' [unfolded failing_services_def]]
  show ?thesis using t t' by auto
qed

end
