(* ===== verification/File_Discovery.thy ===== *)
theory File_Discovery
  imports Confgroup Filepath
begin

text \<open>
  \<open>agent/discovery/file\<close> and \<open>agent/discovery/dummy\<close>: where configuration groups come from.  The file
  system, the YAML decoder and the notification library are parameters: a file system is what
  the calls of one refresh return, in whatever way they agree or disagree with each other.
\<close>

section \<open>Parsing a file\<close>

datatype format = unknownFormat | unknownEmptyFormat | staticFormat | sdFormat

text \<open>What decoding bytes as \<open>interface{}\<close>, as a \<open>staticConfig\<close> and as an \<open>sdConfig\<close> gives; a list
  element that is not there is a nil map.\<close>

datatype yaml_kind = YNil | YMap | YList | YOther

record yaml_pkg =
  ym_kind :: "string \<Rightarrow> yaml_kind option"
  ym_static :: "string \<Rightarrow> go_error + Default \<times> Config option list"
  ym_sd :: "string \<Rightarrow> go_error + Config option list"

definition cfgFormat :: "yaml_pkg \<Rightarrow> string \<Rightarrow> format" where
  "cfgFormat yaml bs =
     (case ym_kind yaml bs of
        None \<Rightarrow> unknownFormat
      | Some YNil \<Rightarrow> unknownEmptyFormat
      | Some YMap \<Rightarrow> staticFormat
      | Some YList \<Rightarrow> sdFormat
      | Some YOther \<Rightarrow> unknownFormat)"

definition fileName :: "string \<Rightarrow> string" where
  "fileName path = (let file = rev (takeWhile (\<lambda>c. c \<noteq> slash) (rev path))
                    in take (length file - length (Ext path)) file)"

definition mergeDef :: "Default \<Rightarrow> Default \<Rightarrow> Default" where
  "mergeDef a b = \<lparr>
     df_MinUpdateEvery = firstPositive (df_MinUpdateEvery a) [df_MinUpdateEvery b],
     df_UpdateEvery = firstPositive (df_UpdateEvery a) [df_UpdateEvery b],
     df_AutoDetectionRetry = firstPositive (df_AutoDetectionRetry a) [df_AutoDetectionRetry b],
     df_Priority = firstPositive (df_Priority a) [df_Priority b]\<rparr>"

text \<open>What the loops use besides their arguments: the URL package and the host name of \<open>Apply\<close>.\<close>

type_synonym 'u applier = "'u url_pkg \<times> string"

text \<open>The loop over the jobs of a module file: setting a key of a nil map panics.\<close>

fun static_jobs :: "'u applier \<Rightarrow> string \<Rightarrow> Default \<Rightarrow> Config option list \<Rightarrow> Config list option" where
  "static_jobs ap name def [] = Some []"
| "static_jobs ap name def (None # jobs) = None"
| "static_jobs ap name def (Some cfg # jobs) =
     (case static_jobs ap name def jobs of
        None \<Rightarrow> None
      | Some cfgs \<Rightarrow> Some (Apply (fst ap) (snd ap) def (SetModule cfg name) # cfgs))"

text \<open>The outer option is a panic, the inner one the nil group.\<close>

type_synonym parsed = "(go_error + Group option) option"

definition parseStaticFormat :: "yaml_pkg \<Rightarrow> 'u applier \<Rightarrow> Registry \<Rightarrow> string \<Rightarrow> string \<Rightarrow> parsed" where
  "parseStaticFormat yaml ap reg path bs =
     (let name0 = fileName path; name = (if name0 = ''wmi'' then ''windows'' else name0)
      in case Registry_Lookup reg name of
           None \<Rightarrow> Some (Inr None)
         | Some modDef \<Rightarrow>
             (case ym_static yaml bs of
                Inl err \<Rightarrow> Some (Inl err)
              | Inr (def, jobs) \<Rightarrow>
                  map_option (\<lambda>cfgs. Inr (Some \<lparr>g_Configs = cfgs, g_Source = path\<rparr>))
                    (static_jobs ap name (mergeDef def modDef) jobs)))"

text \<open>The loop over the list of a service discovery file, which keeps the configurations of
  registered modules; a nil map has no module.\<close>

fun sd_configs :: "'u applier \<Rightarrow> Registry \<Rightarrow> Config option list \<Rightarrow> Config list" where
  "sd_configs ap reg [] = []"
| "sd_configs ap reg (None # cfgs) = sd_configs ap reg cfgs"
| "sd_configs ap reg (Some cfg # cfgs) =
     (case Registry_Lookup reg (Module_name cfg) of
        Some def \<Rightarrow>
          if Module_name cfg \<noteq> [] then Apply (fst ap) (snd ap) def cfg # sd_configs ap reg cfgs
          else sd_configs ap reg cfgs
      | None \<Rightarrow> sd_configs ap reg cfgs)"

definition parseSDFormat :: "yaml_pkg \<Rightarrow> 'u applier \<Rightarrow> Registry \<Rightarrow> string \<Rightarrow> string \<Rightarrow> parsed" where
  "parseSDFormat yaml ap reg path bs =
     (case ym_sd yaml bs of
        Inl err \<Rightarrow> Some (Inl err)
      | Inr cfgs \<Rightarrow> Some (Inr (Some \<lparr>g_Configs = sd_configs ap reg cfgs, g_Source = path\<rparr>)))"

definition parse :: "yaml_pkg \<Rightarrow> 'u applier \<Rightarrow> Registry \<Rightarrow> string \<Rightarrow> go_error + string \<Rightarrow> parsed" where
  "parse yaml ap reg path contents =
     (case contents of
        Inl err \<Rightarrow> Some (Inl err)
      | Inr bs \<Rightarrow>
          if bs = [] then Some (Inr None)
          else (case cfgFormat yaml bs of
                  staticFormat \<Rightarrow> parseStaticFormat yaml ap reg path bs
                | sdFormat \<Rightarrow> parseSDFormat yaml ap reg path bs
                | unknownEmptyFormat \<Rightarrow> Some (Inr None)
                | unknownFormat \<Rightarrow> Some (Inl (''unknown file format: '' @ [CHR 0x27] @ path @ [CHR 0x27]))))"

section \<open>The reader\<close>

record fs =
  fs_Glob :: "string \<Rightarrow> string list option"
  fs_Stat :: "string \<Rightarrow> bool"
  fs_Lstat :: "string \<Rightarrow> (int \<times> bool) option"
  fs_ReadFile :: "string \<Rightarrow> go_error + string"
  fs_Match :: "string \<Rightarrow> string \<Rightarrow> bool"

text \<open>The paths of all patterns, in order.  A malformed pattern has none.\<close>

definition listFiles :: "fs \<Rightarrow> string list \<Rightarrow> string list" where
  "listFiles f paths = concat (map (\<lambda>p. case fs_Glob f p of None \<Rightarrow> [] | Some ms \<Rightarrow> ms) paths)"

definition mark_configs :: "string \<Rightarrow> Group \<Rightarrow> Group" where
  "mark_configs prov g = g\<lparr>g_Configs := map (\<lambda>cfg. SetProvider (SetSource cfg (g_Source g)) prov) (g_Configs g)\<rparr>"

definition Reader_Name :: string where "Reader_Name = ''file reader''"

text \<open>The groups a parsed file adds: none after an error, an empty one for the nil group.\<close>

definition file_groups :: "string \<Rightarrow> go_error + Group option \<Rightarrow> Group list" where
  "file_groups path r =
     (case r of
        Inl err \<Rightarrow> []
      | Inr None \<Rightarrow> [\<lparr>g_Configs = [], g_Source = path\<rparr>]
      | Inr (Some g) \<Rightarrow> [g])"

text \<open>The two nested loops over patterns and matches are one loop over the paths.\<close>

fun read_files :: "yaml_pkg \<Rightarrow> 'u applier \<Rightarrow> fs \<Rightarrow> Registry \<Rightarrow> string list \<Rightarrow> Group list option" where
  "read_files yaml ap f reg [] = Some []"
| "read_files yaml ap f reg (path # paths) =
     (if \<not> fs_Stat f path then read_files yaml ap f reg paths
      else (case parse yaml ap reg path (fs_ReadFile f path) of
              None \<Rightarrow> None
            | Some r \<Rightarrow> map_option (\<lambda>gs. file_groups path r @ gs) (read_files yaml ap f reg paths)))"

definition Reader_groups :: "yaml_pkg \<Rightarrow> 'u applier \<Rightarrow> fs \<Rightarrow> Registry \<Rightarrow> string list \<Rightarrow> Group list option" where
  "Reader_groups yaml ap f reg paths =
     map_option (map (mark_configs Reader_Name)) (read_files yaml ap f reg (listFiles f paths))"

section \<open>The watcher\<close>

text \<open>The cache maps the path of a file to its modification time.\<close>

record Watcher =
  w_paths :: "string list"
  w_reg :: Registry
  w_cache :: "(string \<times> int) list"
  w_dirs :: "string list"

definition NewWatcher :: "Registry \<Rightarrow> string list \<Rightarrow> Watcher" where
  "NewWatcher reg paths = \<lparr>w_paths = paths, w_reg = reg, w_cache = [], w_dirs = []\<rparr>"

definition fileMatches :: "fs \<Rightarrow> Watcher \<Rightarrow> string \<Rightarrow> bool" where
  "fileMatches f w file \<longleftrightarrow> (\<exists>pattern \<in> set (w_paths w). fs_Match f pattern file)"

text \<open>The loop of \<open>refresh\<close> over the files: the cache, the files seen, the groups.\<close>

fun refresh_files :: "yaml_pkg \<Rightarrow> 'u applier \<Rightarrow> fs \<Rightarrow> Registry \<Rightarrow> string list \<Rightarrow> (string \<times> int) list
    \<Rightarrow> ((string \<times> int) list \<times> string list \<times> Group list) option" where
  "refresh_files yaml ap f reg [] cache = Some (cache, [], [])"
| "refresh_files yaml ap f reg (file # files) cache =
     (case fs_Lstat f file of
        None \<Rightarrow> refresh_files yaml ap f reg files cache
      | Some (mtime, regular) \<Rightarrow>
          if \<not> regular then refresh_files yaml ap f reg files cache
          else if map_of cache file = Some mtime
          then map_option (\<lambda>(c, seen, gs). (c, file # seen, gs)) (refresh_files yaml ap f reg files cache)
          else (case parse yaml ap reg file (fs_ReadFile f file) of
                  None \<Rightarrow> None
                | Some r \<Rightarrow>
                    map_option (\<lambda>(c, seen, gs). (c, file # seen, file_groups file r @ gs))
                      (refresh_files yaml ap f reg files (AList.update file mtime cache))))"

text \<open>\<open>watchDirs\<close>: the directory of a pattern is what stands before its last slash.\<close>

definition watch_dir :: "string \<Rightarrow> string" where
  "watch_dir path = (if slash \<in> set path then rev (tl (dropWhile (\<lambda>c. c \<noteq> slash) (rev path))) else ''./'')"

text \<open>A refresh: the groups to send (nothing is sent when there are none) and the new watcher.
  The loop over the cache is in the order of the map.\<close>

definition Watcher_refresh :: "yaml_pkg \<Rightarrow> 'u applier \<Rightarrow> fs \<Rightarrow> Watcher \<Rightarrow> (Group list \<times> Watcher) option" where
  "Watcher_refresh yaml ap f w =
     map_option (\<lambda>(cache, seen, gs).
         let gone = filter (\<lambda>name. name \<notin> set seen) (map fst cache);
             groups = gs @ map (\<lambda>name. \<lparr>g_Configs = [], g_Source = name\<rparr>) gone
         in (map (mark_configs ''file watcher'') groups,
             w\<lparr>w_cache := filter (\<lambda>(name, t). name \<in> set seen) cache,
               w_dirs := w_dirs w @ map watch_dir (w_paths w)\<rparr>))
       (refresh_files yaml ap f (w_reg w) (listFiles f (w_paths w)) (w_cache w))"

text \<open>The events of the loop of \<open>Run\<close>, with the operations of \<open>fsnotify\<close> as bits and its \<open>Has\<close>.\<close>

record fsnotify =
  ev_Has :: "32 word \<Rightarrow> 32 word \<Rightarrow> bool"
  ev_Create :: "32 word"
  ev_Chmod :: "32 word"

unbundle bit_operations_syntax

definition isChmodOnly :: "fsnotify \<Rightarrow> 32 word \<Rightarrow> bool" where
  "isChmodOnly fn op \<longleftrightarrow> op XOR ev_Chmod fn = 0"

datatype watch_event = RefreshTick | FileEvent string "32 word" | WatchError

text \<open>Does an event cause a refresh?\<close>

fun event_refreshes :: "fsnotify \<Rightarrow> fs \<Rightarrow> Watcher \<Rightarrow> watch_event \<Rightarrow> bool" where
  "event_refreshes fn f w RefreshTick = True"
| "event_refreshes fn f w (FileEvent name op) =
     (\<not> (name = [] \<or> isChmodOnly fn op \<or> \<not> fileMatches f w name)
      \<and> \<not> (ev_Has fn op (ev_Create fn) \<and> map_of (w_cache w) name \<noteq> None))"
| "event_refreshes fn f w WatchError = False"

text \<open>\<open>Run\<close>: a refresh at the start, then one for each event that asks for it; every event sees the
  file system of its time.  The result is what was sent, in order.\<close>

fun watch_loop :: "yaml_pkg \<Rightarrow> 'u applier \<Rightarrow> fsnotify \<Rightarrow> (watch_event \<times> fs) list \<Rightarrow> Watcher
    \<Rightarrow> (Group list list \<times> Watcher) option" where
  "watch_loop yaml ap fn [] w = Some ([], w)"
| "watch_loop yaml ap fn ((e, f) # es) w =
     (if event_refreshes fn f w e
      then (case Watcher_refresh yaml ap f w of
              None \<Rightarrow> None
            | Some (gs, w') \<Rightarrow>
                map_option (\<lambda>(sent, w''). ((if gs = [] then sent else gs # sent), w'')) (watch_loop yaml ap fn es w'))
      else watch_loop yaml ap fn es w)"

definition Watcher_Run :: "yaml_pkg \<Rightarrow> 'u applier \<Rightarrow> fsnotify \<Rightarrow> fs \<Rightarrow> (watch_event \<times> fs) list \<Rightarrow> Watcher
    \<Rightarrow> (Group list list \<times> Watcher) option" where
  "Watcher_Run yaml ap fn f0 es w = watch_loop yaml ap fn ((RefreshTick, f0) # es) w"

section \<open>The dummy discovery\<close>

definition newCfgGroup :: "'u applier \<Rightarrow> Registry \<Rightarrow> string \<Rightarrow> Group option" where
  "newCfgGroup ap reg name =
     (case Registry_Lookup reg name of
        None \<Rightarrow> None
      | Some def \<Rightarrow>
          let cfg = SetProvider (SetSource (SetModule Map.empty name) name) ''dummy''
          in Some \<lparr>g_Configs = [Apply (fst ap) (snd ap) def cfg], g_Source = name\<rparr>)"

definition Dummy_groups :: "'u applier \<Rightarrow> Registry \<Rightarrow> string list \<Rightarrow> Group option list" where
  "Dummy_groups ap reg names = map (newCfgGroup ap reg) names"

section \<open>Configurations that jobs can be made of\<close>

definition cfg_ready :: "Registry \<Rightarrow> Config \<Rightarrow> bool" where
  "cfg_ready reg cfg \<longleftrightarrow>
     (case Registry_Lookup reg (Module_name cfg) of
        None \<Rightarrow> False
      | Some def \<Rightarrow> df_MinUpdateEvery def \<le> UpdateEvery cfg)
     \<and> Name cfg \<noteq> [] \<and> 1 \<le> UpdateEvery cfg \<and> 0 < Priority cfg"

definition group_ready :: "Registry \<Rightarrow> string \<Rightarrow> Group \<Rightarrow> bool" where
  "group_ready reg prov g \<longleftrightarrow>
     (\<forall>cfg \<in> set (g_Configs g). cfg_ready reg cfg \<and> Source cfg = g_Source g \<and> Provider cfg = prov)"

lemma Apply_Module [simp]: "Module_name (Apply pkg host def c) = Module_name c"
  by (simp add: Module_name_def get_string_def Apply_other)

lemma Apply_marks [simp]:
  "Source (Apply pkg host def c) = Source c" "Provider (Apply pkg host def c) = Provider c"
  by (simp_all add: Source_def Provider_def get_string_def Apply_other)

lemma Apply_ready:
  assumes "Registry_Lookup reg (Module_name c) = Some def" and "Module_name c \<noteq> []"
    and "0 < df_MinUpdateEvery def \<longrightarrow> df_MinUpdateEvery def \<le> df_MinUpdateEvery def'"
  shows "cfg_ready reg (Apply pkg host def' c)"
  using assms clean_from_ne jobNameResolve_ne [of "Name c"]
  by (auto simp: cfg_ready_def Apply_UpdateEvery Apply_Priority Apply_Name module_UpdateEvery_def module_Priority_def Let_def)

text \<open>Marking where a configuration comes from does not touch what makes it ready.\<close>

lemma marks_frame [simp]:
  "Module_name (SetSource c s) = Module_name c" "Module_name (SetProvider c s) = Module_name c"
  "Module_name (SetModule c n) = n"
  "Name (SetSource c s) = Name c" "Name (SetProvider c s) = Name c"
  "UpdateEvery (SetSource c s) = UpdateEvery c" "UpdateEvery (SetProvider c s) = UpdateEvery c"
  "Priority (SetSource c s) = Priority c" "Priority (SetProvider c s) = Priority c"
  "Source (SetProvider (SetSource c s) t) = s" "Provider (SetProvider c t) = t"
  by (simp_all add: accessor_defs Source_def Provider_def SetSource_def SetProvider_def SetModule_def)

lemma marked_ready: "cfg_ready reg (SetProvider (SetSource c s) t) = cfg_ready reg c"
  by (simp add: cfg_ready_def split: option.splits)

lemma mark_source [simp]: "g_Source (mark_configs prov g) = g_Source g"
  by (simp add: mark_configs_def)

lemma mark_ready: "(\<forall>cfg \<in> set (g_Configs g). cfg_ready reg cfg) \<Longrightarrow> group_ready reg prov (mark_configs prov g)"
  by (auto simp: group_ready_def mark_configs_def marked_ready)

text \<open>What the YAML decoder promises: the minimum interval has the tag \<open>-\<close> and is never decoded.\<close>

definition yaml_no_min :: "yaml_pkg \<Rightarrow> bool" where
  "yaml_no_min yaml \<longleftrightarrow> (\<forall>bs def jobs. ym_static yaml bs = Inr (def, jobs) \<longrightarrow> df_MinUpdateEvery def = 0)"

lemma static_jobs_ready:
  assumes "Registry_Lookup reg name = Some modDef" and "name \<noteq> []" and "df_MinUpdateEvery def = 0"
  shows "static_jobs ap name (mergeDef def modDef) jobs = Some cfgs \<Longrightarrow> \<forall>cfg \<in> set cfgs. cfg_ready reg cfg"
proof (induction jobs arbitrary: cfgs)
  case (Cons job jobs)
  have "cfg_ready reg (Apply (fst ap) (snd ap) (mergeDef def modDef) (SetModule cfg name))" for cfg
    by (rule Apply_ready [where def = modDef]) (use assms in \<open>simp_all add: mergeDef_def\<close>)
  then show ?case using Cons by (cases job) (auto split: option.splits)
qed simp

lemma sd_configs_ready: "\<forall>cfg \<in> set (sd_configs ap reg cfgs). cfg_ready reg cfg"
proof (induction ap reg cfgs rule: sd_configs.induct)
  case (3 ap reg cfg cfgs)
  have "cfg_ready reg (Apply (fst ap) (snd ap) def cfg)"
    if "Registry_Lookup reg (Module_name cfg) = Some def" "Module_name cfg \<noteq> []" for def
    using that by (intro Apply_ready [where def = def]) simp_all
  then show ?case using 3 by (auto split: option.splits)
qed simp_all

text \<open>What a parsed file is: a group of that file with ready configurations.\<close>

lemma parse_source: "parse yaml ap reg path contents = Some (Inr (Some g)) \<Longrightarrow> g_Source g = path"
  by (auto simp: parse_def parseStaticFormat_def parseSDFormat_def Let_def
      split: sum.splits if_splits format.splits option.splits prod.splits)

lemma parse_ready:
  assumes "parse yaml ap reg path contents = Some (Inr (Some g))" and "yaml_no_min yaml" and "Registry_Lookup reg [] = None"
  shows "\<forall>cfg \<in> set (g_Configs g). cfg_ready reg cfg"
proof -
  have "\<forall>cfg \<in> set (g_Configs g). cfg_ready reg cfg" if static: "parseStaticFormat yaml ap reg path bs = Some (Inr (Some g))" for bs
  proof -
    obtain name modDef def jobs where m: "Registry_Lookup reg name = Some modDef" "ym_static yaml bs = Inr (def, jobs)"
      "static_jobs ap name (mergeDef def modDef) jobs = Some (g_Configs g)"
      using static by (auto simp: parseStaticFormat_def Let_def split: option.splits sum.splits prod.splits)
    moreover have "name \<noteq> []" using m(1) assms(3) by auto
    moreover have "df_MinUpdateEvery def = 0" using m(2) assms(2) unfolding yaml_no_min_def by blast
    ultimately show ?thesis by (intro static_jobs_ready)
  qed
  moreover have "\<forall>cfg \<in> set (g_Configs g). cfg_ready reg cfg" if "parseSDFormat yaml ap reg path bs = Some (Inr (Some g))" for bs
    using that sd_configs_ready [of ap reg] by (auto simp: parseSDFormat_def split: sum.splits)
  ultimately show ?thesis using assms(1) by (auto simp: parse_def split: sum.splits if_splits format.splits)
qed

lemma file_groups_source: "parse yaml ap reg path contents = Some r \<Longrightarrow> g \<in> set (file_groups path r) \<Longrightarrow> g_Source g = path"
  using parse_source [of yaml ap] by (auto simp: file_groups_def split: sum.splits option.splits)

lemma file_groups_ready:
  assumes "parse yaml ap reg path contents = Some r" and "g \<in> set (file_groups path r)"
    and "yaml_no_min yaml" and "Registry_Lookup reg [] = None"
  shows "\<forall>cfg \<in> set (g_Configs g). cfg_ready reg cfg"
  using assms parse_ready [OF _ assms(3,4), of ap] by (auto simp: file_groups_def split: sum.splits option.splits)

lemma read_files_ready:
  assumes "yaml_no_min yaml" and "Registry_Lookup reg [] = None"
  shows "read_files yaml ap f reg paths = Some gs \<Longrightarrow> g \<in> set gs \<Longrightarrow> \<forall>cfg \<in> set (g_Configs g). cfg_ready reg cfg"
proof (induction paths arbitrary: gs)
  case (Cons path paths)
  then show ?case using file_groups_ready [OF _ _ assms, where ap = ap]
    by (fastforce split: if_splits option.splits)
qed simp

text \<open>One file of a refresh.\<close>

lemma refresh_Cons:
  assumes "refresh_files yaml ap f reg (file # files) cache = Some (c, seen, gs)"
  obtains (skip) "\<not> (\<exists>t. fs_Lstat f file = Some (t, True))" "refresh_files yaml ap f reg files cache = Some (c, seen, gs)"
  | (same) t seen' where "fs_Lstat f file = Some (t, True)" "map_of cache file = Some t" "seen = file # seen'"
      "refresh_files yaml ap f reg files cache = Some (c, seen', gs)"
  | (changed) t r seen' gs' where "fs_Lstat f file = Some (t, True)" "parse yaml ap reg file (fs_ReadFile f file) = Some r"
      "seen = file # seen'" "gs = file_groups file r @ gs'"
      "refresh_files yaml ap f reg files (AList.update file t cache) = Some (c, seen', gs')"
  using assms by (auto split: option.splits prod.splits if_splits)

lemma refresh_files_ready:
  assumes "yaml_no_min yaml" and "Registry_Lookup reg [] = None"
  shows "refresh_files yaml ap f reg files cache = Some (c, seen, gs) \<Longrightarrow> g \<in> set gs \<Longrightarrow>
    \<forall>cfg \<in> set (g_Configs g). cfg_ready reg cfg"
proof (induction files arbitrary: cache c seen gs)
  case (Cons p files)
  from Cons.prems(1) show ?case
  proof (cases rule: refresh_Cons)
    case (changed t r seen' gs')
    then show ?thesis using Cons file_groups_ready [OF changed(2) _ assms] by auto
  qed (use Cons in blast)+
qed simp

lemma refresh_ready:
  assumes "Watcher_refresh yaml ap f w = Some (gs, w')" and "g \<in> set gs"
    and "yaml_no_min yaml" and "Registry_Lookup (w_reg w) [] = None"
  shows "group_ready (w_reg w) ''file watcher'' g" and "w_reg w' = w_reg w"
proof -
  obtain c seen gs0 where r: "refresh_files yaml ap f (w_reg w) (listFiles f (w_paths w)) (w_cache w) = Some (c, seen, gs0)"
    using assms(1) by (auto simp: Watcher_refresh_def)
  then obtain g0 where g0: "g = mark_configs ''file watcher'' g0" "g0 \<in> set gs0 \<or> g_Configs g0 = []"
    using assms(1,2) by (auto simp: Watcher_refresh_def Let_def)
  then have "\<forall>cfg \<in> set (g_Configs g0). cfg_ready (w_reg w) cfg"
    using refresh_files_ready [OF assms(3,4) r] by auto
  then show "group_ready (w_reg w) ''file watcher'' g" using g0(1) mark_ready by simp
  show "w_reg w' = w_reg w" using assms(1) r by (auto simp: Watcher_refresh_def Let_def)
qed

lemma watch_loop_ready:
  "yaml_no_min yaml \<Longrightarrow> watch_loop yaml ap fn es w = Some (sent, w') \<Longrightarrow> Registry_Lookup (w_reg w) [] = None \<Longrightarrow>
     gs \<in> set sent \<Longrightarrow> g \<in> set gs \<Longrightarrow> group_ready (w_reg w) ''file watcher'' g"
proof (induction yaml ap fn es w arbitrary: sent rule: watch_loop.induct)
  case (2 yaml ap fn e f es w)
  show ?case
  proof (cases "event_refreshes fn f w e")
    case True
    obtain gs1 w1 sent' where r: "Watcher_refresh yaml ap f w = Some (gs1, w1)" "watch_loop yaml ap fn es w1 = Some (sent', w')"
      "sent = (if gs1 = [] then sent' else gs1 # sent')"
      using "2.prems"(2) True by (auto split: option.splits prod.splits)
    note ready = refresh_ready [OF r(1) _ "2.prems"(1,3)]
    have "gs \<in> set sent' \<or> gs = gs1" using r(3) "2.prems"(4) by (auto split: if_splits)
    then show ?thesis
    proof
      assume "gs \<in> set sent'"
      moreover have "w_reg w1 = w_reg w" using r(1) by (auto simp: Watcher_refresh_def Let_def)
      ultimately show ?thesis using "2.IH"(1) [OF True r(1) refl "2.prems"(1) r(2)] "2.prems" by simp
    next
      assume "gs = gs1"
      then show ?thesis using ready(1) "2.prems"(5) by simp
    qed
  next
    case False
    then show ?thesis using 2 by auto
  qed
qed simp

section \<open>The watcher keeps up with the files\<close>

text \<open>The last group of a source in what was sent.\<close>

definition latest :: "string \<Rightarrow> Group list \<Rightarrow> Group option" where
  "latest src gs = find (\<lambda>g. g_Source g = src) (rev gs)"

lemma find_append: "find P (xs @ ys) = (case find P xs of None \<Rightarrow> find P ys | Some x \<Rightarrow> Some x)"
  by (induction xs) auto

lemma latest_simps [simp]:
  "latest src [] = None"
  "latest src (gs @ hs) = (case latest src hs of None \<Rightarrow> latest src gs | Some g \<Rightarrow> Some g)"
  "latest src [g] = (if g_Source g = src then Some g else None)"
  by (simp_all add: latest_def find_append split: option.splits)

lemma latest_None_iff: "latest src gs = None \<longleftrightarrow> (\<forall>g \<in> set gs. g_Source g \<noteq> src)"
  by (auto simp: latest_def find_None_iff)

lemma latest_SomeD: "latest src gs = Some g \<Longrightarrow> g \<in> set gs \<and> g_Source g = src"
  unfolding latest_def find_Some_iff by (metis length_rev nth_mem set_rev)

text \<open>What was sent up to a point agrees with the cache: for a file in it that parses at the time
  noted there, the last group is what the file has; for any other path the last group, if
  there is one, is empty.  The contents of a file are a function of its modification time.\<close>

definition in_sync :: "yaml_pkg \<Rightarrow> 'u applier \<Rightarrow> Registry \<Rightarrow> (string \<Rightarrow> int \<Rightarrow> go_error + string)
    \<Rightarrow> (string \<rightharpoonup> int) \<Rightarrow> Group list \<Rightarrow> bool" where
  "in_sync yaml ap reg contents cache gs \<longleftrightarrow>
     (\<forall>p t r g. cache p = Some t \<and> parse yaml ap reg p (contents p t) = Some r \<and> file_groups p r = [g] \<longrightarrow>
        latest p gs = Some (mark_configs ''file watcher'' g))
     \<and> (\<forall>p g. cache p = None \<and> latest p gs = Some g \<longrightarrow> g_Configs g = [])"

definition same_contents :: "(string \<Rightarrow> int \<Rightarrow> go_error + string) \<Rightarrow> fs \<Rightarrow> bool" where
  "same_contents contents f \<longleftrightarrow> (\<forall>p t. fs_Lstat f p = Some (t, True) \<longrightarrow> fs_ReadFile f p = contents p t)"

lemma file_groups_le: "file_groups p r = [] \<or> (\<exists>g. file_groups p r = [g])"
  by (auto simp: file_groups_def split: sum.splits option.splits)

lemma in_sync_put:
  assumes "in_sync yaml ap reg contents cache gs" and "parse yaml ap reg p (contents p t) = Some r"
  shows "in_sync yaml ap reg contents (cache(p \<mapsto> t)) (gs @ map (mark_configs ''file watcher'') (file_groups p r))"
proof (cases "file_groups p r")
  case Nil
  then show ?thesis using assms unfolding in_sync_def by auto
next
  case (Cons g gs')
  then have g: "file_groups p r = [g]" using file_groups_le [of p r] by auto
  then have "g_Source g = p" using file_groups_source [OF assms(2), of g] by simp
  then show ?thesis using assms g unfolding in_sync_def by auto
qed

lemma in_sync_drop:
  assumes "in_sync yaml ap reg contents cache gs"
  shows "in_sync yaml ap reg contents (cache(p := None)) (gs @ [mark_configs prov \<lparr>g_Configs = [], g_Source = p\<rparr>])"
  using assms unfolding in_sync_def by (auto simp: mark_configs_def)

lemma refresh_files_sync:
  assumes "same_contents contents f"
  shows "refresh_files yaml ap f reg files cache = Some (c, seen, gs) \<Longrightarrow>
     in_sync yaml ap reg contents (map_of cache) old \<Longrightarrow>
     in_sync yaml ap reg contents (map_of c) (old @ map (mark_configs ''file watcher'') gs)
     \<and> set seen = {p \<in> set files. \<exists>t. fs_Lstat f p = Some (t, True)}
     \<and> (\<forall>p t. p \<in> set seen \<and> fs_Lstat f p = Some (t, True) \<longrightarrow> map_of c p = Some t)
     \<and> (\<forall>p. p \<notin> set seen \<longrightarrow> map_of c p = map_of cache p)
     \<and> (go_map cache \<longrightarrow> go_map c)"
proof (induction files arbitrary: cache c seen gs old)
  case (Cons p files)
  from Cons.prems(1) show ?case
  proof (cases rule: refresh_Cons)
    case skip
    then show ?thesis using Cons.IH [OF skip(2) Cons.prems(2)] by auto
  next
    case (same t seen')
    then show ?thesis using Cons.IH [OF same(4) Cons.prems(2)] by (cases "p \<in> set files") auto
  next
    case (changed t r seen' gs')
    have "fs_ReadFile f p = contents p t" using changed(1) assms by (simp add: same_contents_def)
    then have "in_sync yaml ap reg contents (map_of (AList.update p t cache))
        (old @ map (mark_configs ''file watcher'') (file_groups p r))"
      unfolding map_of_update using in_sync_put [OF Cons.prems(2)] changed(2) by simp
    note ih = Cons.IH [OF changed(5) this]
    show ?thesis using ih changed(1,3,4) by (cases "p \<in> set files") (auto simp: go_map_rules)
  qed
qed simp

lemma drop_gone:
  assumes "in_sync yaml ap reg contents (map_of c) gs"
  shows "in_sync yaml ap reg contents (\<lambda>p. if p \<in> set ps then None else map_of c p)
     (gs @ map (mark_configs prov) (map (\<lambda>name. \<lparr>g_Configs = [], g_Source = name\<rparr>) ps))"
proof (induction ps rule: rev_induct)
  case (snoc p ps)
  have "(\<lambda>q. if q \<in> set (ps @ [p]) then None else map_of c q) = (\<lambda>q. if q \<in> set ps then None else map_of c q)(p := None)"
    by auto
  then show ?case using in_sync_drop [OF snoc, of p prov] by simp
qed (use assms in simp)

lemma map_of_filter_key: "map_of (filter (\<lambda>(k, v). P k) m) = (\<lambda>k. if P k then map_of m k else None)"
  by (induction m) auto

text \<open>After a refresh the cache has exactly the regular files there are, with their times.\<close>

lemma refresh_sync:
  assumes "Watcher_refresh yaml ap f w = Some (gs, w')" and "same_contents contents f"
    and "in_sync yaml ap (w_reg w) contents (map_of (w_cache w)) old"
  shows "in_sync yaml ap (w_reg w) contents (map_of (w_cache w')) (old @ gs)"
    and "map_of (w_cache w') = (\<lambda>p. if p \<in> set (listFiles f (w_paths w))
           then (case fs_Lstat f p of Some (t, True) \<Rightarrow> Some t | _ \<Rightarrow> None) else None)"
    and "w_reg w' = w_reg w" and "w_paths w' = w_paths w"
proof -
  obtain c seen gs0 where r: "refresh_files yaml ap f (w_reg w) (listFiles f (w_paths w)) (w_cache w) = Some (c, seen, gs0)"
    using assms(1) by (auto simp: Watcher_refresh_def)
  define gone where "gone = filter (\<lambda>name. name \<notin> set seen) (map fst c)"
  have eq: "gs = map (mark_configs ''file watcher'') gs0
      @ map (mark_configs ''file watcher'') (map (\<lambda>name. \<lparr>g_Configs = [], g_Source = name\<rparr>) gone)"
    "w' = w\<lparr>w_cache := filter (\<lambda>(name, t). name \<in> set seen) c, w_dirs := w_dirs w @ map watch_dir (w_paths w)\<rparr>"
    using assms(1) r by (auto simp: Watcher_refresh_def Let_def gone_def)
  note post = refresh_files_sync [OF assms(2) r assms(3)]
  have "map_of (w_cache w') = (\<lambda>p. if p \<in> set gone then None else map_of c p)"
    by (auto simp: eq(2) map_of_filter_key gone_def fun_eq_iff eq_commute [of None] map_of_eq_None_iff)
  then show "in_sync yaml ap (w_reg w) contents (map_of (w_cache w')) (old @ gs)"
    using drop_gone [OF conjunct1 [OF post], of gone "''file watcher''"] eq(1) by simp
  show "map_of (w_cache w') = (\<lambda>p. if p \<in> set (listFiles f (w_paths w))
           then (case fs_Lstat f p of Some (t, True) \<Rightarrow> Some t | _ \<Rightarrow> None) else None)"
    using post by (auto simp: eq(2) map_of_filter_key fun_eq_iff split: option.splits bool.splits)
  show "w_reg w' = w_reg w" "w_paths w' = w_paths w" by (simp_all add: eq(2))
qed

lemma watch_loop_Cons:
  assumes "watch_loop yaml ap fn ((e, f) # es) w = Some (sent, w')"
  obtains (no) "\<not> event_refreshes fn f w e" "watch_loop yaml ap fn es w = Some (sent, w')"
  | (yes) gs w1 sent' where "event_refreshes fn f w e" "Watcher_refresh yaml ap f w = Some (gs, w1)"
      "watch_loop yaml ap fn es w1 = Some (sent', w')" "concat sent = gs @ concat sent'"
  using assms by (auto split: if_splits option.splits prod.splits)

lemma watch_loop_sync:
  assumes "watch_loop yaml ap fn es w = Some (sent, w')" and "\<forall>(e, f) \<in> set es. same_contents contents f"
    and "in_sync yaml ap (w_reg w) contents (map_of (w_cache w)) old"
  shows "in_sync yaml ap (w_reg w) contents (map_of (w_cache w')) (old @ concat sent)
     \<and> w_reg w' = w_reg w \<and> w_paths w' = w_paths w"
  using assms
proof (induction es arbitrary: w sent old)
  case (Cons ev es)
  obtain e f where ev: "ev = (e, f)" by (cases ev)
  from Cons.prems(1) [unfolded ev] show ?case
  proof (cases rule: watch_loop_Cons)
    case no
    then show ?thesis using Cons.IH [OF no(2)] Cons.prems(2,3) by simp
  next
    case (yes gs w1 sent')
    have "same_contents contents f" using Cons.prems(2) ev by simp
    note r = refresh_sync [OF yes(2) this Cons.prems(3)]
    show ?thesis using Cons.IH [OF yes(3) _ r(1) [folded r(3)]] Cons.prems(2) r(3,4) yes(4) by simp
  qed
qed simp

lemma watch_loop_snoc:
  "watch_loop yaml ap fn (es @ [(RefreshTick, f)]) w = Some (sent, w') \<longleftrightarrow>
     (\<exists>sent1 w1 gs. watch_loop yaml ap fn es w = Some (sent1, w1) \<and> Watcher_refresh yaml ap f w1 = Some (gs, w')
        \<and> sent = sent1 @ (if gs = [] then [] else [gs]))"
proof (induction es arbitrary: w sent)
  case Nil
  show ?case by (auto split: option.splits prod.splits)
next
  case (Cons ev es)
  show ?case using Cons by (cases ev) (auto split: option.splits prod.splits if_splits; fastforce)
qed


text \<open>A file with one job that is there at first and then gone.\<close>

definition sample_yaml :: yaml_pkg where
  "sample_yaml = \<lparr>ym_kind = (\<lambda>bs. Some YList), ym_static = (\<lambda>bs. Inl ''bad''),
     ym_sd = (\<lambda>bs. Inr [Some [''module'' \<mapsto> VString ''m'']])\<rparr>"

definition sample_fs :: "bool \<Rightarrow> fs" where
  "sample_fs there = \<lparr>fs_Glob = (\<lambda>p. if there then Some [''/d/a''] else Some []), fs_Stat = (\<lambda>p. there),
     fs_Lstat = (\<lambda>p. if there then Some (7, True) else None), fs_ReadFile = (\<lambda>p. Inr ''x''),
     fs_Match = (\<lambda>p f. True)\<rparr>"

definition sample_fsnotify :: fsnotify where
  "sample_fsnotify = \<lparr>ev_Has = (\<lambda>op h. op AND h = h), ev_Create = 1, ev_Chmod = 16\<rparr>"

definition sample_reg :: Registry where
  "sample_reg = [''m'' \<mapsto> sample_default]"

lemmas sample_fs_simps = sample_fs_def sample_yaml_def sample_fsnotify_def sample_reg_def Watcher_refresh_def
  NewWatcher_def listFiles_def parse_def cfgFormat_def parseSDFormat_def


text \<open>
  C37.  What discovery sends can be made into jobs.  Every configuration that the reader, the watcher or
  the dummy discovery sends has the name of a registered module, a non-empty name of its own,
  a positive interval not below the minimum of its module, and a positive priority; it carries
  its source and its provider.
\<close>

theorem discovered_ready:
  assumes "Registry_Lookup reg [] = None" and "yaml_no_min yaml"
  shows "(Reader_groups yaml ap f reg paths = Some gs \<and> g \<in> set gs \<longrightarrow> group_ready reg Reader_Name g)
     \<and> (Watcher_Run yaml ap fn f es (NewWatcher reg paths) = Some (sent, w) \<and> g \<in> set (concat sent) \<longrightarrow>
          group_ready reg ''file watcher'' g)
     \<and> (Some g \<in> set (Dummy_groups ap reg names) \<longrightarrow> group_ready reg ''dummy'' g)"
proof (intro conjI impI)
  assume "Reader_groups yaml ap f reg paths = Some gs \<and> g \<in> set gs"
  then show "group_ready reg Reader_Name g"
    using read_files_ready [OF assms(2,1)] mark_ready by (fastforce simp: Reader_groups_def)
next
  assume "Watcher_Run yaml ap fn f es (NewWatcher reg paths) = Some (sent, w) \<and> g \<in> set (concat sent)"
  then show "group_ready reg ''file watcher'' g"
    using watch_loop_ready [OF assms(2), of ap fn "(RefreshTick, f) # es" "NewWatcher reg paths" sent w] assms(1)
    by (auto simp: Watcher_Run_def NewWatcher_def)
next
  assume "Some g \<in> set (Dummy_groups ap reg names)"
  then obtain name def where n: "Registry_Lookup reg name = Some def"
    "g = \<lparr>g_Configs = [Apply (fst ap) (snd ap) def (SetProvider (SetSource (SetModule Map.empty name) name) ''dummy'')], g_Source = name\<rparr>"
    by (auto simp: Dummy_groups_def newCfgGroup_def Let_def split: option.splits)
  have "name \<noteq> []" using n(1) assms(1) by auto
  then have "cfg_ready reg (Apply (fst ap) (snd ap) def (SetProvider (SetSource (SetModule Map.empty name) name) ''dummy''))"
    by (intro Apply_ready [where def = def]) (use n(1) in simp_all)
  then show "group_ready reg ''dummy'' g" by (simp add: n(2) group_ready_def)
qed

theorem discovered_ready_witness:
  "\<exists>g. Dummy_groups (sample_url, ''h'') sample_reg [''m''] = [Some g] \<and> length (g_Configs g) = 1 \<and> group_ready sample_reg ''dummy'' g"
proof -
  obtain g where g: "Dummy_groups (sample_url, ''h'') sample_reg [''m''] = [Some g]" "length (g_Configs g) = 1"
    by (simp add: Dummy_groups_def newCfgGroup_def sample_reg_def Registry_Lookup_def)
  have "Registry_Lookup sample_reg [] = None" "yaml_no_min sample_yaml"
    by (simp_all add: sample_reg_def Registry_Lookup_def yaml_no_min_def sample_yaml_def)
  from discovered_ready [OF this, of "(sample_url, ''h'')" _ _ _ g _ _ _ _ "[''m'']"] g show ?thesis by simp
qed

end
