(* ===== verification/Discovery_Manager.thy ===== *)
theory Discovery_Manager
  imports File_Discovery "HOL-Library.Multiset" "HOL-Library.Sublist"
begin

text \<open>
  \<open>agent/discovery/manager.go\<close>, \<open>cache.go\<close>, \<open>config.go\<close>, with the constructors of the file and the
  dummy discovery: how the discoverers are set up, and how their groups are gathered and handed
  to the job manager.  The goroutines of \<open>Run\<close> are a step relation; what was received from the
  discoverers and what was handed over are kept as two histories of the state.
\<close>

section \<open>Setting up\<close>

record file_Config =
  fc_Registry :: Registry
  fc_Read :: "string list"
  fc_Watch :: "string list"

record dummy_Config =
  dc_Registry :: Registry
  dc_Names :: "string list"

record disc_Config =
  cf_Registry :: Registry
  cf_File :: file_Config
  cf_Dummy :: dummy_Config

datatype file_discoverer = Reader Registry "string list" | Watch Watcher

datatype discoverer = FileDiscovery "file_discoverer list" | DummyDiscovery Registry "string list"

definition file_validateConfig :: "file_Config \<Rightarrow> go_error option" where
  "file_validateConfig cfg =
     (if fc_Registry cfg = Map.empty then Some ''empty config registry''
      else if length (fc_Read cfg) + length (fc_Watch cfg) = 0 then Some ''discoverers not set''
      else None)"

definition file_registerDiscoverers :: "file_Config \<Rightarrow> go_error + file_discoverer list" where
  "file_registerDiscoverers cfg =
     (let ds = (if length (fc_Read cfg) \<noteq> 0 then [Reader (fc_Registry cfg) (fc_Read cfg)] else [])
             @ (if length (fc_Watch cfg) \<noteq> 0 then [Watch (NewWatcher (fc_Registry cfg) (fc_Watch cfg))] else [])
      in if ds = [] then Inl ''zero registered discoverers'' else Inr ds)"

definition file_NewDiscovery :: "file_Config \<Rightarrow> go_error + discoverer" where
  "file_NewDiscovery cfg =
     (case file_validateConfig cfg of
        Some err \<Rightarrow> Inl (''file discovery config validation: '' @ err)
      | None \<Rightarrow>
          (case file_registerDiscoverers cfg of
             Inl err \<Rightarrow> Inl (''file discovery initialization: '' @ err)
           | Inr ds \<Rightarrow> Inr (FileDiscovery ds)))"

definition dummy_validateConfig :: "dummy_Config \<Rightarrow> go_error option" where
  "dummy_validateConfig cfg =
     (if dc_Registry cfg = Map.empty then Some ''empty config registry''
      else if length (dc_Names cfg) = 0 then Some ''names not set''
      else None)"

definition dummy_NewDiscovery :: "dummy_Config \<Rightarrow> go_error + discoverer" where
  "dummy_NewDiscovery cfg =
     (case dummy_validateConfig cfg of
        Some err \<Rightarrow> Inl (''config validation: '' @ err)
      | None \<Rightarrow> Inr (DummyDiscovery (dc_Registry cfg) (dc_Names cfg)))"

definition validateConfig :: "disc_Config \<Rightarrow> go_error option" where
  "validateConfig cfg =
     (if cf_Registry cfg = Map.empty then Some ''empty config registry''
      else if length (fc_Read (cf_File cfg)) + length (fc_Watch (cf_File cfg)) = 0
              \<and> length (dc_Names (cf_Dummy cfg)) = 0
      then Some ''discoverers not set''
      else None)"

text \<open>\<open>registerDiscoverers\<close>: an error of a constructor ends it.\<close>

definition registerDiscoverers :: "disc_Config \<Rightarrow> go_error + discoverer list" where
  "registerDiscoverers cfg =
     (let files = (if length (fc_Read (cf_File cfg)) > 0 \<or> length (fc_Watch (cf_File cfg)) > 0
                   then (case file_NewDiscovery ((cf_File cfg)\<lparr>fc_Registry := cf_Registry cfg\<rparr>) of
                           Inl err \<Rightarrow> Inl err | Inr d \<Rightarrow> Inr [d])
                   else Inr [])
      in case files of
           Inl err \<Rightarrow> Inl err
         | Inr ds \<Rightarrow>
             (let dummies = (if length (dc_Names (cf_Dummy cfg)) > 0
                             then (case dummy_NewDiscovery ((cf_Dummy cfg)\<lparr>dc_Registry := cf_Registry cfg\<rparr>) of
                                     Inl err \<Rightarrow> Inl err | Inr d \<Rightarrow> Inr [d])
                             else Inr [])
              in case dummies of
                   Inl err \<Rightarrow> Inl err
                 | Inr ds' \<Rightarrow> if ds @ ds' = [] then Inl ''zero registered discoverers'' else Inr (ds @ ds')))"

section \<open>The cache\<close>

text \<open>A map from sources to groups; its list is in the order of iteration.\<close>

type_synonym disc_cache = "(string \<times> Group) list"

fun cache_update :: "Group option list \<Rightarrow> disc_cache \<Rightarrow> disc_cache" where
  "cache_update [] c = c"
| "cache_update (None # gs) c = cache_update gs c"
| "cache_update (Some g # gs) c = cache_update gs (AList.update (g_Source g) g c)"

fun non_nil :: "Group option list \<Rightarrow> Group list" where
  "non_nil [] = []"
| "non_nil (None # gs) = non_nil gs"
| "non_nil (Some g # gs) = g # non_nil gs"

definition cache_reset :: "disc_cache \<Rightarrow> disc_cache" where
  "cache_reset c = []"

text \<open>The list \<open>groups()\<close> makes is in an order of its own.\<close>

definition cache_groups :: "disc_cache \<Rightarrow> Group list \<Rightarrow> bool" where
  "cache_groups c gs \<longleftrightarrow> mset gs = mset (map snd c)"

section \<open>The goroutines\<close>

text \<open>Where \<open>sendLoop\<close> is: in \<open>mustSend\<close> before or after it took the groups, or in its loop.\<close>

datatype send_phase = MustWait | MustHold "Group list" | Looping

record disc_Manager =
  dm_discoverers :: "discoverer list"
  dm_cache :: disc_cache
  dm_send :: bool
  dm_phase :: send_phase
  dm_received :: "Group list"
  dm_delivered :: "Group list list"

definition disc_NewManager :: "disc_Config \<Rightarrow> go_error + disc_Manager" where
  "disc_NewManager cfg =
     (case validateConfig cfg of
        Some err \<Rightarrow> Inl (''discovery manager config validation: '' @ err)
      | None \<Rightarrow>
          (case registerDiscoverers cfg of
             Inl err \<Rightarrow> Inl (''discovery manager initializaion: '' @ err)
           | Inr ds \<Rightarrow> Inr \<lparr>dm_discoverers = ds, dm_cache = [], dm_send = False, dm_phase = MustWait,
                          dm_received = [], dm_delivered = []\<rparr>))"

definition triggerSend :: "disc_Manager \<Rightarrow> disc_Manager" where
  "triggerSend m = m\<lparr>dm_send := True\<rparr>"

text \<open>One round of \<open>runDiscoverer\<close>.\<close>

definition discoverer_update :: "Group option list \<Rightarrow> disc_Manager \<Rightarrow> disc_Manager" where
  "discoverer_update gs m =
     triggerSend (m\<lparr>dm_cache := cache_update gs (dm_cache m), dm_received := dm_received m @ non_nil gs\<rparr>)"

text \<open>\<open>mustSend\<close>, up to the release of the lock and after it.\<close>

definition mustSend_take :: "Group list \<Rightarrow> disc_Manager \<Rightarrow> disc_Manager" where
  "mustSend_take gs m = m\<lparr>dm_send := False, dm_cache := cache_reset (dm_cache m), dm_phase := MustHold gs\<rparr>"

definition mustSend_deliver :: "Group list \<Rightarrow> disc_Manager \<Rightarrow> disc_Manager" where
  "mustSend_deliver gs m = m\<lparr>dm_phase := Looping, dm_delivered := dm_delivered m @ [gs]\<rparr>"

text \<open>A tick of \<open>sendLoop\<close>: nothing without the token, else \<open>trySend\<close> with a receiver that is ready
  or not.\<close>

definition trySend :: "bool \<Rightarrow> Group list \<Rightarrow> disc_Manager \<Rightarrow> disc_Manager" where
  "trySend ready gs m =
     (if ready then m\<lparr>dm_delivered := dm_delivered m @ [gs], dm_cache := cache_reset (dm_cache m)\<rparr>
      else triggerSend m)"

definition sendLoop_tick :: "bool \<Rightarrow> Group list \<Rightarrow> disc_Manager \<Rightarrow> disc_Manager" where
  "sendLoop_tick ready gs m = (if dm_send m then trySend ready gs (m\<lparr>dm_send := False\<rparr>) else m)"

inductive disc_step :: "disc_Manager \<Rightarrow> disc_Manager \<Rightarrow> bool" where
  update: "disc_step m (discoverer_update gs m)"
| take: "dm_phase m = MustWait \<Longrightarrow> dm_send m \<Longrightarrow> cache_groups (dm_cache m) gs \<Longrightarrow> disc_step m (mustSend_take gs m)"
| deliver: "dm_phase m = MustHold gs \<Longrightarrow> disc_step m (mustSend_deliver gs m)"
| tick: "dm_phase m = Looping \<Longrightarrow> cache_groups (dm_cache m) gs \<Longrightarrow> disc_step m (sendLoop_tick ready gs m)"

inductive disc_reachable :: "disc_Config \<Rightarrow> disc_Manager \<Rightarrow> bool" for cfg where
  start: "disc_NewManager cfg = Inr m \<Longrightarrow> disc_reachable cfg m"
| step: "disc_reachable cfg m \<Longrightarrow> disc_step m m' \<Longrightarrow> disc_reachable cfg m'"

section \<open>When setting up succeeds\<close>

lemma registerDiscoverers_ok:
  assumes "validateConfig cfg = None"
  shows "\<exists>ds. registerDiscoverers cfg = Inr ds \<and> ds \<noteq> []"
  using assms
  by (auto simp: validateConfig_def registerDiscoverers_def file_NewDiscovery_def file_validateConfig_def
      file_registerDiscoverers_def dummy_NewDiscovery_def dummy_validateConfig_def Let_def split: if_splits)

lemma disc_NewManager_ok_iff: "(\<exists>m. disc_NewManager cfg = Inr m) \<longleftrightarrow> validateConfig cfg = None"
proof (cases "validateConfig cfg")
  case None
  then show ?thesis using registerDiscoverers_ok [OF None] by (auto simp: disc_NewManager_def)
qed (simp add: disc_NewManager_def)

section \<open>No update is lost\<close>

text \<open>What is on its way: held by \<open>mustSend\<close>, then cached.\<close>

definition held :: "disc_Manager \<Rightarrow> Group list" where
  "held m = (case dm_phase m of MustHold gs \<Rightarrow> gs | _ \<Rightarrow> [])"

definition in_order :: "disc_Manager \<Rightarrow> Group list" where
  "in_order m = concat (dm_delivered m) @ held m @ map snd (dm_cache m)"

abbreviation of_source :: "string \<Rightarrow> Group list \<Rightarrow> Group list" where
  "of_source src \<equiv> filter (\<lambda>g. g_Source g = src)"

definition cache_ok :: "disc_cache \<Rightarrow> bool" where
  "cache_ok c \<longleftrightarrow> go_map c \<and> (\<forall>(s, g) \<in> set c. g_Source g = s)"

text \<open>One list has only elements of the other, in order, and ends like it.\<close>

definition follows :: "'a list \<Rightarrow> 'a list \<Rightarrow> bool" where
  "follows xs ys \<longleftrightarrow> subseq xs ys \<and> (xs = [] \<longleftrightarrow> ys = []) \<and> (xs \<noteq> [] \<longrightarrow> last xs = last ys)"

lemma follows_snoc: "follows (xs @ zs) ys \<Longrightarrow> follows (xs @ [y]) (ys @ us @ [y])"
proof -
  assume "follows (xs @ zs) ys"
  then have "subseq xs (ys @ us)"
    unfolding follows_def by (meson prefixI prefix_imp_subseq subseq_order.trans)
  then have "subseq (xs @ [y]) ((ys @ us) @ [y])" by (simp only: subseq_append)
  then show ?thesis by (simp add: follows_def)
qed

definition disc_inv :: "disc_Manager \<Rightarrow> bool" where
  "disc_inv m \<longleftrightarrow> cache_ok (dm_cache m) \<and> (dm_cache m \<noteq> [] \<longrightarrow> dm_send m)
     \<and> (\<forall>src. follows (of_source src (in_order m)) (of_source src (dm_received m)))"

lemma cache_ok_source: "cache_ok c \<Longrightarrow> of_source src (map snd c) = (case map_of c src of None \<Rightarrow> [] | Some g \<Rightarrow> [g])"
  unfolding cache_ok_def by (induction c) (force split: option.splits)+

lemma latest_last: "latest src gs = (if of_source src gs = [] then None else Some (last (of_source src gs)))"
  by (induction gs rule: rev_induct) auto

text \<open>The order in which a map gives its groups does not matter to any one source.\<close>

lemma cache_groups_source:
  assumes "cache_ok c" and "cache_groups c gs"
  shows "of_source src gs = of_source src (map snd c)"
proof -
  have "mset (of_source src gs) = mset (of_source src (map snd c))"
    using assms(2) by (simp add: cache_groups_def mset_filter)
  then show ?thesis unfolding cache_ok_source [OF assms(1)]
    by (cases "map_of c src") (simp_all del: mset_filter)
qed

lemma cache_ok_update: "cache_ok c \<Longrightarrow> cache_ok (cache_update gs c)"
proof (induction gs c rule: cache_update.induct)
  case (3 g gs c)
  have "\<forall>(s, g') \<in> set (AList.update (g_Source g) g c). g_Source g' = s"
    using 3(2) unfolding cache_ok_def by (induction c) (auto split: if_splits)
  then show ?case using 3 by (simp add: cache_ok_def go_map_update)
qed simp_all

lemma cache_update_source:
  assumes "cache_ok c"
  shows "of_source src (map snd (cache_update gs c)) =
     (if of_source src (non_nil gs) = [] then of_source src (map snd c) else [last (of_source src (non_nil gs))])"
  using assms
proof (induction gs c rule: cache_update.induct)
  case (3 g gs c)
  have ok: "cache_ok (AList.update (g_Source g) g c)" using cache_ok_update [OF 3(2), of "[Some g]"] by simp
  show ?case using 3(1) [OF ok] cache_ok_source [OF ok, of src] cache_ok_source [OF 3(2), of src]
    by (simp add: map_of_update)
qed simp_all

text \<open>The invariant only looks at the groups of each source.\<close>

lemma disc_invI:
  assumes "disc_inv m" and "cache_ok (dm_cache m')" and "dm_cache m' \<noteq> [] \<longrightarrow> dm_send m'"
    and "dm_received m' = dm_received m" and "\<And>src. of_source src (in_order m') = of_source src (in_order m)"
  shows "disc_inv m'"
  using assms unfolding disc_inv_def by simp

lemma disc_inv_update:
  assumes "disc_inv m"
  shows "disc_inv (discoverer_update gs m)"
proof -
  let ?m = "discoverer_update gs m" and ?pre = "\<lambda>src. of_source src (concat (dm_delivered m) @ held m)"
  have ok: "cache_ok (dm_cache m)" using assms by (simp add: disc_inv_def)
  have io: "of_source src (in_order ?m) = ?pre src @ of_source src (map snd (cache_update gs (dm_cache m)))" for src
    by (simp add: in_order_def discoverer_update_def triggerSend_def held_def)
  have "follows (of_source src (in_order ?m)) (of_source src (dm_received m @ non_nil gs))" for src
  proof -
    have f: "follows (?pre src @ of_source src (map snd (dm_cache m))) (of_source src (dm_received m))"
      using assms by (simp add: disc_inv_def in_order_def)
    show ?thesis
    proof (cases "of_source src (non_nil gs)" rule: rev_cases)
      case Nil
      then show ?thesis using f io cache_update_source [OF ok, of src gs] by simp
    next
      case (snoc gs' g)
      then show ?thesis using follows_snoc [OF f, of g gs'] io cache_update_source [OF ok, of src gs] by simp
    qed
  qed
  then show ?thesis using cache_ok_update [OF ok] by (simp add: disc_inv_def discoverer_update_def triggerSend_def)
qed

lemma disc_inv_step: "disc_step m m' \<Longrightarrow> disc_inv m \<Longrightarrow> disc_inv m'"
proof (induction rule: disc_step.induct)
  case (update m gs)
  then show ?case by (rule disc_inv_update)
next
  case (take m gs)
  have ok: "cache_ok (dm_cache m)" using take by (simp add: disc_inv_def)
  show ?case using cache_groups_source [OF ok take(3)] take
    by (intro disc_invI [OF take(4)])
      (simp_all add: mustSend_take_def cache_reset_def in_order_def held_def cache_ok_def)
next
  case (deliver m gs)
  then show ?case
    by (intro disc_invI [OF deliver(2)]) (simp_all add: mustSend_deliver_def in_order_def held_def disc_inv_def)
next
  case (tick m gs ready)
  have ok: "cache_ok (dm_cache m)" using tick by (simp add: disc_inv_def)
  show ?case using cache_groups_source [OF ok tick(2)] tick
    by (intro disc_invI [OF tick(3)])
      (auto simp: sendLoop_tick_def trySend_def triggerSend_def cache_reset_def in_order_def held_def cache_ok_def disc_inv_def)
qed

lemma disc_inv_reachable: "disc_reachable cfg m \<Longrightarrow> disc_inv m"
proof (induction rule: disc_reachable.induct)
  case (start m)
  then show ?case
    by (auto simp: disc_NewManager_def disc_inv_def cache_ok_def in_order_def held_def follows_def split: option.splits sum.splits)
qed (rule disc_inv_step)

text \<open>
  C4.  Nothing that is discovered gets lost or overtaken.  However the discoverers, the first send, the
  ticks and a busy receiver interleave: for every source the groups handed over are among those
  received, in the same order; the newest group received is the last one handed over, or the
  one on its way; groups that wait always have the token that makes the next tick try again;
  and when nothing is on its way the receiver has the newest group of every source.
\<close>

theorem no_update_lost:
  assumes "disc_reachable cfg m"
  shows "subseq (of_source src (concat (dm_delivered m))) (of_source src (dm_received m))
     \<and> latest src (concat (dm_delivered m) @ held m @ map snd (dm_cache m)) = latest src (dm_received m)
     \<and> (dm_cache m \<noteq> [] \<longrightarrow> dm_send m)
     \<and> (held m = [] \<and> dm_cache m = [] \<longrightarrow> latest src (concat (dm_delivered m)) = latest src (dm_received m))"
proof -
  have inv: "disc_inv m" using disc_inv_reachable [OF assms] .
  then have f: "follows (of_source src (in_order m)) (of_source src (dm_received m))" by (simp add: disc_inv_def)
  have "subseq (of_source src (concat (dm_delivered m))) (of_source src (in_order m))"
    unfolding in_order_def filter_append by (rule prefix_imp_subseq) simp
  then have "subseq (of_source src (concat (dm_delivered m))) (of_source src (dm_received m))"
    using f subseq_order.trans by (auto simp: follows_def)
  moreover have l: "latest src (in_order m) = latest src (dm_received m)"
    using f by (auto simp: latest_last follows_def)
  moreover have "in_order m = concat (dm_delivered m)" if "held m = []" "dm_cache m = []"
    using that by (simp add: in_order_def)
  ultimately show ?thesis using inv unfolding disc_inv_def in_order_def [symmetric] by auto
qed

definition sample_disc :: disc_Config where
  "sample_disc = \<lparr>cf_Registry = sample_reg, cf_File = \<lparr>fc_Registry = Map.empty, fc_Read = [], fc_Watch = []\<rparr>,
     cf_Dummy = \<lparr>dc_Registry = Map.empty, dc_Names = [''m'']\<rparr>\<rparr>"

definition sample_group :: "string \<Rightarrow> Group" where
  "sample_group name = \<lparr>g_Configs = [[''name'' \<mapsto> VString name]], g_Source = ''s''\<rparr>"

lemma sample_run:
  "\<exists>m. disc_reachable sample_disc m \<and> dm_received m = [sample_group ''a'', sample_group ''b'']
     \<and> dm_delivered m = [[sample_group ''b'']] \<and> held m = [] \<and> dm_cache m = []"
proof -
  let ?a = "sample_group ''a''" and ?b = "sample_group ''b''"
  obtain m0 where m0: "disc_NewManager sample_disc = Inr m0" "dm_cache m0 = []" "dm_phase m0 = MustWait"
    "dm_received m0 = []" "dm_delivered m0 = []"
    by (simp add: disc_NewManager_def validateConfig_def sample_disc_def sample_reg_def registerDiscoverers_def
        dummy_NewDiscovery_def dummy_validateConfig_def)
  define m1 where "m1 = discoverer_update [Some ?a, None, Some ?b] m0"
  have m1: "dm_cache m1 = [(''s'', ?b)]" "dm_send m1" "dm_phase m1 = MustWait" "dm_received m1 = [?a, ?b]" "dm_delivered m1 = []"
    by (simp_all add: m1_def discoverer_update_def triggerSend_def m0 sample_group_def)
  define m3 where "m3 = mustSend_deliver [?b] (mustSend_take [?b] m1)"
  have "disc_reachable sample_disc m1" unfolding m1_def
    using disc_reachable.start [OF m0(1)] by (rule disc_reachable.step) (rule disc_step.update)
  then have "disc_reachable sample_disc (mustSend_take [?b] m1)"
    by (rule disc_reachable.step) (rule disc_step.take, simp_all add: m1 cache_groups_def)
  then have r: "disc_reachable sample_disc m3" unfolding m3_def
    by (rule disc_reachable.step) (rule disc_step.deliver, simp add: mustSend_take_def)
  have "dm_received m3 = [?a, ?b]" "dm_delivered m3 = [[?b]]" "held m3 = []" "dm_cache m3 = []"
    by (simp_all add: m3_def mustSend_deliver_def mustSend_take_def cache_reset_def held_def m1)
  then show ?thesis using r by blast
qed

theorem no_update_lost_witness:
  "\<exists>m. disc_reachable sample_disc m \<and> dm_received m = [sample_group ''a'', sample_group ''b'']
     \<and> dm_delivered m = [[sample_group ''b'']] \<and> latest ''s'' (concat (dm_delivered m)) = latest ''s'' (dm_received m)"
proof -
  obtain m where "disc_reachable sample_disc m" "dm_received m = [sample_group ''a'', sample_group ''b'']"
    "dm_delivered m = [[sample_group ''b'']]" "held m = []" "dm_cache m = []"
    using sample_run by blast
  then show ?thesis using no_update_lost [of sample_disc m "''s''"] by auto
qed

end
