(* ===== verification/Multipath.thy ===== *)
theory Multipath
  imports Filepath
begin

text \<open>
  \<open>pkg/multipath/multipath.go\<close>: a list of directories to look for files in.  Expanding a home
  directory and looking at the file system are parameters.
\<close>

type_synonym MultiPath = "string list"

text \<open>\<open>homedir.Expand\<close> gives a path and an error.\<close>

definition dir_entry :: "(string \<Rightarrow> string \<times> go_error option) \<Rightarrow> string \<Rightarrow> string" where
  "dir_entry expand dir = (case expand dir of (d, err) \<Rightarrow> if err \<noteq> None then d else dir)"

fun mpath_from :: "(string \<Rightarrow> string \<times> go_error option) \<Rightarrow> string list \<Rightarrow> MultiPath \<Rightarrow> MultiPath" where
  "mpath_from expand [] mPath = mPath"
| "mpath_from expand (dir # paths) mPath =
     (if dir = [] then mpath_from expand paths mPath
      else if dir_entry expand dir \<notin> set mPath then mpath_from expand paths (mPath @ [dir_entry expand dir])
      else mpath_from expand paths mPath)"

definition NewMultiPath :: "(string \<Rightarrow> string \<times> go_error option) \<Rightarrow> string list \<Rightarrow> MultiPath" where
  "NewMultiPath expand paths = mpath_from expand paths []"

text \<open>\<open>Find\<close>: the first directory that has the file; the test is that the file is not known to be
  missing.\<close>

fun MultiPath_Find :: "(string \<Rightarrow> bool) \<Rightarrow> MultiPath \<Rightarrow> string \<Rightarrow> string option" where
  "MultiPath_Find exists [] filename = None"
| "MultiPath_Find exists (dir # dirs) filename =
     (let file = filepath_Join [dir, filename]
      in if exists file then Some file else MultiPath_Find exists dirs filename)"

text \<open>\<open>FindFiles\<close>: the entries of a directory with their type, none when it cannot be read; of files
  with the same name the one in the first directory counts.\<close>

fun find_entries :: "string \<Rightarrow> string \<Rightarrow> (string \<times> bool) list \<Rightarrow> string list \<Rightarrow> string list \<times> string list" where
  "find_entries suf dir [] seen = ([], seen)"
| "find_entries suf dir ((name, regular) # es) seen =
     (if \<not> regular \<or> \<not> HasSuffix name suf \<or> name \<in> set seen then find_entries suf dir es seen
      else let (files, seen') = find_entries suf dir es (name # seen)
           in (filepath_Join [dir, name] # files, seen'))"

fun find_dirs :: "(string \<Rightarrow> (string \<times> bool) list option) \<Rightarrow> string \<Rightarrow> MultiPath \<Rightarrow> string list \<Rightarrow> string list" where
  "find_dirs readDir suf [] seen = []"
| "find_dirs readDir suf (dir # dirs) seen =
     (case readDir dir of
        None \<Rightarrow> find_dirs readDir suf dirs seen
      | Some es \<Rightarrow>
          let (files, seen') = find_entries suf dir es seen
          in files @ find_dirs readDir suf dirs seen')"

definition MultiPath_FindFiles :: "(string \<Rightarrow> (string \<times> bool) list option) \<Rightarrow> MultiPath \<Rightarrow> string \<Rightarrow> string list" where
  "MultiPath_FindFiles readDir p suf = find_dirs readDir suf p []"

section \<open>What is found\<close>

lemma Find_Some: "MultiPath_Find exists p filename = Some file \<Longrightarrow>
    exists file \<and> (\<exists>dir \<in> set p. file = filepath_Join [dir, filename])"
  by (induction exists p filename rule: MultiPath_Find.induct) (auto simp: Let_def split: if_splits)

lemma Find_None: "MultiPath_Find exists p filename = None \<longleftrightarrow> (\<forall>dir \<in> set p. \<not> exists (filepath_Join [dir, filename]))"
  by (induction exists p filename rule: MultiPath_Find.induct) (auto simp: Let_def)

text \<open>The file of the first directory that has it wins.\<close>

lemma Find_first: "MultiPath_Find exists (p @ q) filename =
    (case MultiPath_Find exists p filename of None \<Rightarrow> MultiPath_Find exists q filename | Some f \<Rightarrow> Some f)"
  by (induction exists p filename rule: MultiPath_Find.induct) (auto simp: Let_def)

lemma mpath_from_distinct: "distinct mPath \<Longrightarrow> distinct (mpath_from expand paths mPath)"
  by (induction expand paths mPath rule: mpath_from.induct) auto

lemma mpath_from_set:
  "set (mpath_from expand paths mPath) = set mPath \<union> dir_entry expand ` {dir \<in> set paths. dir \<noteq> []}"
  by (induction paths arbitrary: mPath) auto

text \<open>
  The directories of a multi-path are distinct; a home directory is never expanded: a path whose
  expansion succeeds is kept as it was written, and one whose expansion fails is replaced by
  what the failed expansion returned.
\<close>

theorem NewMultiPath_keeps_tilde:
  assumes "dir \<in> set paths" and "dir \<noteq> []"
  shows "distinct (NewMultiPath expand paths)
     \<and> (\<forall>d. expand dir = (d, None) \<longrightarrow> dir \<in> set (NewMultiPath expand paths))
     \<and> (\<forall>d e. expand dir = (d, Some e) \<longrightarrow> d \<in> set (NewMultiPath expand paths))"
proof -
  have "dir_entry expand dir \<in> set (NewMultiPath expand paths)" using assms by (simp add: NewMultiPath_def mpath_from_set)
  then show ?thesis by (auto simp: NewMultiPath_def mpath_from_distinct dir_entry_def)
qed

theorem NewMultiPath_keeps_tilde_witness:
  "NewMultiPath (\<lambda>d. (''/root'', None)) [''~''] = [''~''] \<and> ''~'' \<in> set (NewMultiPath (\<lambda>d. (''/root'', None)) [''~''])"
proof -
  have "''~'' \<in> set [''~'']" "''~'' \<noteq> []" by simp_all
  from NewMultiPath_keeps_tilde [OF this, of "\<lambda>d. (''/root'', None)"] show ?thesis by (simp add: NewMultiPath_def dir_entry_def)
qed

end
