(* ===== verification/Agent_Setup.thy ===== *)
theory Agent_Setup
  imports Discovery_Manager Jobmgr Vnodes Multipath
begin

text \<open>
  \<open>agent/config.go\<close>, \<open>agent/setup.go\<close> and the beginning of \<open>run\<close> in \<open>agent/agent.go\<close>: which modules
  run, where their configurations are looked for, and whether the plugin starts at all.
\<close>

section \<open>The plugin configuration\<close>

record plugin_config =
  cg_Enabled :: bool
  cg_DefaultRun :: bool
  cg_MaxProcs :: int
  cg_Modules :: "string \<rightharpoonup> bool"

definition defaultConfig :: plugin_config where
  "defaultConfig = \<lparr>cg_Enabled = True, cg_DefaultRun = True, cg_MaxProcs = 0, cg_Modules = Map.empty\<rparr>"

definition isEnabled :: "plugin_config \<Rightarrow> string \<Rightarrow> bool \<Rightarrow> bool" where
  "isEnabled c moduleName explicit =
     (case cg_Modules c moduleName of
        Some enabled \<Rightarrow> enabled
      | None \<Rightarrow> if explicit then False else cg_DefaultRun c)"

definition isExplicitlyEnabled :: "plugin_config \<Rightarrow> string \<Rightarrow> bool" where
  "isExplicitlyEnabled c moduleName = isEnabled c moduleName True"

definition isImplicitlyEnabled :: "plugin_config \<Rightarrow> string \<Rightarrow> bool" where
  "isImplicitlyEnabled c moduleName = isEnabled c moduleName False"

text \<open>\<open>UnmarshalYAML\<close>: the decoder first fills the fields, then gives all keys with their values; a key
  that is not a field and has a boolean value is the switch of a module.\<close>

fun add_switches :: "('v \<Rightarrow> bool option) \<Rightarrow> (string \<times> 'v) list \<Rightarrow> plugin_config \<Rightarrow> plugin_config" where
  "add_switches as_bool [] c = c"
| "add_switches as_bool ((key, v) # m) c =
     (if key \<in> {''enabled'', ''default_run'', ''max_procs'', ''modules''} then add_switches as_bool m c
      else (case as_bool v of
              None \<Rightarrow> add_switches as_bool m c
            | Some b \<Rightarrow> add_switches as_bool m (c\<lparr>cg_Modules := (cg_Modules c)(key \<mapsto> b)\<rparr>)))"

definition config_UnmarshalYAML :: "('v \<Rightarrow> bool option) \<Rightarrow> (plugin_config \<Rightarrow> go_error + plugin_config)
    \<Rightarrow> go_error + (string \<times> 'v) list \<Rightarrow> plugin_config \<Rightarrow> go_error + plugin_config" where
  "config_UnmarshalYAML as_bool decode keys c =
     (case decode c of
        Inl err \<Rightarrow> Inl err
      | Inr c1 \<Rightarrow>
          (case keys of
             Inl err \<Rightarrow> Inl err
           | Inr m \<Rightarrow> Inr (add_switches as_bool m c1)))"

text \<open>A file, as \<open>loadYAML\<close> finds it: it cannot be opened, it has no document, or it has one.\<close>

datatype 'v yaml_file =
  NoFile go_error
| NoDocument
| Document "plugin_config \<Rightarrow> go_error + plugin_config" "go_error + (string \<times> 'v) list"

definition loadYAML :: "('v \<Rightarrow> bool option) \<Rightarrow> 'v yaml_file \<Rightarrow> plugin_config \<Rightarrow> go_error + plugin_config" where
  "loadYAML as_bool f c =
     (case f of
        NoFile err \<Rightarrow> Inl err
      | NoDocument \<Rightarrow> Inr c
      | Document decode keys \<Rightarrow> config_UnmarshalYAML as_bool decode keys c)"

section \<open>The agent\<close>

record 'm agent_Config =
  ag_Name :: string
  ag_ConfDir :: MultiPath
  ag_ModulesConfDir :: MultiPath
  ag_ModulesSDConfPath :: "string list"
  ag_VnodesConfDir :: MultiPath
  ag_StateFile :: string
  ag_LockDir :: string
  ag_RunModule :: string
  ag_MinUpdateEvery :: int
  ag_ModuleRegistry :: "(string \<times> 'm Creator) list"

text \<open>What the agent sees of its host: the files, the environment variables, the version of systemd,
  whether it runs at a terminal.\<close>

record 'v host =
  ho_exists :: "string \<Rightarrow> bool"
  ho_file :: "string \<Rightarrow> 'v yaml_file"
  ho_as_bool :: "'v \<Rightarrow> bool option"
  ho_walk :: "string \<Rightarrow> walk_entry list"
  ho_kubeHost :: string
  ho_kubePort :: string
  ho_stockDir :: string
  ho_SystemdVersion :: int
  ho_terminal :: bool

definition agent_isInsideK8sCluster :: "'v host \<Rightarrow> bool" where
  "agent_isInsideK8sCluster h \<longleftrightarrow> ho_kubeHost h \<noteq> [] \<and> ho_kubePort h \<noteq> []"

definition agent_isStockConfig :: "'v host \<Rightarrow> string \<Rightarrow> bool" where
  "agent_isStockConfig h path \<longleftrightarrow> ho_stockDir h \<noteq> [] \<and> HasPrefix path (ho_stockDir h)"

definition loadPluginConfig :: "'v host \<Rightarrow> 'm agent_Config \<Rightarrow> plugin_config" where
  "loadPluginConfig h a =
     (if length (ag_ConfDir a) = 0 then defaultConfig
      else (case MultiPath_Find (ho_exists h) (ag_ConfDir a) (ag_Name a @ ''.conf'') of
              None \<Rightarrow> defaultConfig
            | Some path \<Rightarrow>
                if path = [] then defaultConfig
                else (case loadYAML (ho_as_bool h) (ho_file h path) defaultConfig of
                        Inl err \<Rightarrow> defaultConfig
                      | Inr cfg \<Rightarrow> cfg)))"

text \<open>The loop of \<open>loadEnabledModules\<close>; the registry and the result are in the order of iteration.\<close>

definition module_wanted :: "'v host \<Rightarrow> string \<Rightarrow> plugin_config \<Rightarrow> string \<Rightarrow> 'm Creator \<Rightarrow> bool" where
  "module_wanted h runModule cfg name creator =
     (let all_modules = (runModule = ''all'' \<or> runModule = '''')
      in if \<not> all_modules \<and> runModule \<noteq> name then False
         else if all_modules then
           (if \<not> isExplicitlyEnabled cfg name
               \<and> (dt_Disabled (cr_Defaults creator) \<or> name = ''logind'' \<and> ho_SystemdVersion h = 239) then False
            else if \<not> isImplicitlyEnabled cfg name then False else True)
         else True)"

definition loadEnabledModules :: "'v host \<Rightarrow> 'm agent_Config \<Rightarrow> plugin_config \<Rightarrow> (string \<times> 'm Creator) list" where
  "loadEnabledModules h a cfg =
     filter (\<lambda>(name, creator). module_wanted h (ag_RunModule a) cfg name creator) (ag_ModuleRegistry a)"

text \<open>The loops of \<open>buildDiscoveryConf\<close>: the defaults, then the paths.\<close>

fun build_registry :: "int \<Rightarrow> (string \<times> 'm Creator) list \<Rightarrow> Registry \<Rightarrow> Registry" where
  "build_registry minEvery [] reg = reg"
| "build_registry minEvery ((name, creator) # ms) reg =
     build_registry minEvery ms (Registry_Register reg name \<lparr>df_MinUpdateEvery = minEvery,
       df_UpdateEvery = dt_UpdateEvery (cr_Defaults creator),
       df_AutoDetectionRetry = dt_AutoDetectionRetry (cr_Defaults creator),
       df_Priority = dt_Priority (cr_Defaults creator)\<rparr>)"

text \<open>Where the configuration of one module is looked for: a file to read, the built-in default, or
  nowhere.  A user's \<open>wmi.conf\<close> stands in for \<open>windows.conf\<close>.\<close>

datatype place = ReadFrom string | UseDummy string | NoPlace

definition usual_place :: "'v host \<Rightarrow> MultiPath \<Rightarrow> string \<Rightarrow> place" where
  "usual_place h dirs name =
     (let found = MultiPath_Find (ho_exists h) dirs (name @ ''.conf'')
      in if agent_isInsideK8sCluster h
         then (case found of
                 None \<Rightarrow> NoPlace
               | Some path \<Rightarrow> if agent_isStockConfig h path then NoPlace else ReadFrom path)
         else (case found of None \<Rightarrow> UseDummy name | Some path \<Rightarrow> ReadFrom path))"

definition conf_place :: "'v host \<Rightarrow> MultiPath \<Rightarrow> string \<Rightarrow> place" where
  "conf_place h dirs name =
     (if name = ''windows''
      then (case MultiPath_Find (ho_exists h) dirs ''wmi.conf'' of
              Some path \<Rightarrow> if Contains path ''etc/netdata'' then ReadFrom path else usual_place h dirs name
            | None \<Rightarrow> usual_place h dirs name)
      else usual_place h dirs name)"

fun read_paths :: "place list \<Rightarrow> string list" where
  "read_paths [] = []"
| "read_paths (ReadFrom path # ps) = path # read_paths ps"
| "read_paths (p # ps) = read_paths ps"

fun dummy_paths :: "place list \<Rightarrow> string list" where
  "dummy_paths [] = []"
| "dummy_paths (UseDummy name # ps) = name # dummy_paths ps"
| "dummy_paths (p # ps) = dummy_paths ps"

definition disc_conf :: "Registry \<Rightarrow> string list \<Rightarrow> string list \<Rightarrow> string list \<Rightarrow> disc_Config" where
  "disc_conf reg rd watch dummies = \<lparr>cf_Registry = reg,
     cf_File = \<lparr>fc_Registry = Map.empty, fc_Read = rd, fc_Watch = watch\<rparr>,
     cf_Dummy = \<lparr>dc_Registry = Map.empty, dc_Names = dummies\<rparr>\<rparr>"

definition buildDiscoveryConf :: "'v host \<Rightarrow> 'm agent_Config \<Rightarrow> (string \<times> 'm Creator) list \<Rightarrow> disc_Config" where
  "buildDiscoveryConf h a enabled =
     (let reg = build_registry (ag_MinUpdateEvery a) enabled Map.empty
      in if length (ag_ModulesConfDir a) = 0
         then (if agent_isInsideK8sCluster h then disc_conf reg [] [] []
               else disc_conf reg [] [] (map fst enabled))
         else let places = map (\<lambda>(name, creator). conf_place h (ag_ModulesConfDir a) name) enabled
              in disc_conf reg (read_paths places) (ag_ModulesSDConfPath a) (dummy_paths places))"

definition setupVnodeRegistry :: "'v host \<Rightarrow> 'm agent_Config \<Rightarrow> vnodes option" where
  "setupVnodeRegistry h a =
     (if length (ag_VnodesConfDir a) = 0 then None
      else (case MultiPath_Find (ho_exists h) (ag_VnodesConfDir a) ''vnodes/'' of
              None \<Rightarrow> None
            | Some dirPath \<Rightarrow> if dirPath = [] then None else Some (NewVnodes (ho_walk h dirPath))))"

section \<open>Starting\<close>

text \<open>What \<open>run\<close> starts: the discovery manager, the modules, the virtual nodes unless they are
  disabled, the lock directory and the state file if they are used.\<close>

record 'm instance_parts =
  ru_disc :: disc_Manager
  ru_modules :: "(string \<times> 'm Creator) list"
  ru_vnodes :: "vnodes option"
  ru_lockDir :: "string option"
  ru_stateFile :: "string option"

datatype 'm run_outcome = Exited | Disabled | Failed go_error | Running "'m instance_parts"

definition agent_run :: "'v host \<Rightarrow> 'm agent_Config \<Rightarrow> 'm run_outcome" where
  "agent_run h a =
     (let cfg = loadPluginConfig h a
      in if \<not> cg_Enabled cfg then (if ho_terminal h then Exited else Disabled)
         else let enabledModules = loadEnabledModules h a cfg
              in if length enabledModules = 0 then (if ho_terminal h then Exited else Disabled)
                 else (case disc_NewManager (buildDiscoveryConf h a enabledModules) of
                         Inl err \<Rightarrow> if ho_terminal h then Exited else Failed err
                       | Inr d \<Rightarrow> Running \<lparr>ru_disc = d, ru_modules = enabledModules,
                           ru_vnodes = (case setupVnodeRegistry h a of
                              None \<Rightarrow> None | Some reg \<Rightarrow> if reg = Map.empty then None else Some reg),
                           ru_lockDir = (if ag_LockDir a \<noteq> [] then Some (ag_LockDir a) else None),
                           ru_stateFile = (if \<not> ho_terminal h \<and> ag_StateFile a \<noteq> [] then Some (ag_StateFile a) else None)\<rparr>))"

section \<open>Every enabled module is configured\<close>

lemma build_registry_keeps: "reg name \<noteq> None \<Longrightarrow> build_registry e ms reg name \<noteq> None"
  by (induction e ms reg rule: build_registry.induct) (auto simp: Registry_Register_def)

lemma build_registry_has: "name \<in> fst ` set ms \<Longrightarrow> name \<noteq> [] \<Longrightarrow> build_registry e ms reg name \<noteq> None"
proof (induction e ms reg rule: build_registry.induct)
  case (2 e n c ms reg)
  show ?case
  proof (cases "n = name")
    case True
    then show ?thesis using "2.prems"(2) by (simp add: Registry_Register_def build_registry_keeps del: not_None_eq)
  qed (use 2 in simp)
qed simp

lemma read_paths_mem: "path \<in> set (read_paths ps) \<longleftrightarrow> ReadFrom path \<in> set ps"
  by (induction ps rule: read_paths.induct) auto

lemma dummy_paths_mem: "name \<in> set (dummy_paths ps) \<longleftrightarrow> UseDummy name \<in> set ps"
  by (induction ps rule: dummy_paths.induct) auto

lemma places_count: "NoPlace \<notin> set ps \<Longrightarrow> length (read_paths ps) + length (dummy_paths ps) = length ps"
proof (induction ps)
  case (Cons p ps)
  then show ?case by (cases p) simp_all
qed simp

lemma conf_place_cases:
  obtains (found) path where "conf_place h dirs name = ReadFrom path" "ho_exists h path"
    "agent_isInsideK8sCluster h \<longrightarrow> \<not> agent_isStockConfig h path \<or> Contains path ''etc/netdata''"
  | (default) "conf_place h dirs name = UseDummy name" "\<not> agent_isInsideK8sCluster h"
  | (nowhere) "conf_place h dirs name = NoPlace" "agent_isInsideK8sCluster h"
proof -
  have u: thesis if "conf_place h dirs name = usual_place h dirs name"
    using that Find_Some [of "ho_exists h" dirs "name @ ''.conf''"] found default nowhere
    by (auto simp: usual_place_def Let_def split: option.splits if_splits)
  show thesis
  proof (cases "MultiPath_Find (ho_exists h) dirs ''wmi.conf''")
    case (Some path)
    show thesis
      using u found [of path] Find_Some [OF Some] by (cases "name = ''windows'' \<and> Contains path ''etc/netdata''")
        (auto simp: conf_place_def Some)
  qed (use u in \<open>simp add: conf_place_def\<close>)
qed

lemma conf_place_facts:
  "conf_place h dirs name = ReadFrom path \<Longrightarrow> ho_exists h path
     \<and> (agent_isInsideK8sCluster h \<longrightarrow> \<not> agent_isStockConfig h path \<or> Contains path ''etc/netdata'')"
  "conf_place h dirs name = UseDummy n \<Longrightarrow> n = name \<and> \<not> agent_isInsideK8sCluster h"
  "conf_place h dirs name = NoPlace \<Longrightarrow> agent_isInsideK8sCluster h"
  by (cases rule: conf_place_cases [of h dirs name]; simp)+

lemma places_facts:
  assumes "places = map (\<lambda>(name, creator). conf_place h dirs name) ms"
  shows "path \<in> set (read_paths places) \<Longrightarrow> ho_exists h path
      \<and> (agent_isInsideK8sCluster h \<longrightarrow> \<not> agent_isStockConfig h path \<or> Contains path ''etc/netdata'')"
    and "set (dummy_paths places) \<subseteq> fst ` set ms"
    and "agent_isInsideK8sCluster h \<Longrightarrow> dummy_paths places = []"
    and "\<not> agent_isInsideK8sCluster h \<Longrightarrow> length (read_paths places) + length (dummy_paths places) = length ms"
proof -
  have mem: "p \<in> set places \<Longrightarrow> \<exists>name \<in> fst ` set ms. conf_place h dirs name = p" for p by (force simp: assms)
  show "path \<in> set (read_paths places) \<Longrightarrow> ho_exists h path
      \<and> (agent_isInsideK8sCluster h \<longrightarrow> \<not> agent_isStockConfig h path \<or> Contains path ''etc/netdata'')"
    using mem conf_place_facts(1) unfolding read_paths_mem by metis
  have du: "n \<in> set (dummy_paths places) \<Longrightarrow> n \<in> fst ` set ms \<and> \<not> agent_isInsideK8sCluster h" for n
    using mem conf_place_facts(2) unfolding dummy_paths_mem by metis
  then show "set (dummy_paths places) \<subseteq> fst ` set ms" by blast
  show "agent_isInsideK8sCluster h \<Longrightarrow> dummy_paths places = []" using du by (meson last_in_set)
  have "NoPlace \<in> set places \<Longrightarrow> agent_isInsideK8sCluster h" using mem conf_place_facts(3) by metis
  then show "\<not> agent_isInsideK8sCluster h \<Longrightarrow> length (read_paths places) + length (dummy_paths places) = length ms"
    using places_count [of places] by (auto simp: assms)
qed

lemma place_count:
  assumes "\<not> agent_isInsideK8sCluster h" and "d = buildDiscoveryConf h a ms"
  shows "length (fc_Read (cf_File d)) + length (dc_Names (cf_Dummy d)) = length ms"
  using places_facts(4) [of _ h "ag_ModulesConfDir a" ms, OF refl assms(1)] assms by (simp add: buildDiscoveryConf_def disc_conf_def Let_def)

text \<open>
  Outside Kubernetes every enabled module has a place its configuration comes from: it is in the
  list of modules with the default configuration, or a file that exists is read for it, and
  there are as many places as modules.  In a Kubernetes cluster no default configuration is
  used, and no stock file is read (a user's \<open>wmi.conf\<close> apart).  The defaults of every enabled
  module are registered.
\<close>

theorem buildDiscoveryConf_spec:
  assumes "d = buildDiscoveryConf h a ms"
  shows "(\<not> agent_isInsideK8sCluster h \<longrightarrow>
        length (fc_Read (cf_File d)) + length (dc_Names (cf_Dummy d)) = length ms
        \<and> (\<forall>path \<in> set (fc_Read (cf_File d)). ho_exists h path) \<and> set (dc_Names (cf_Dummy d)) \<subseteq> fst ` set ms)
     \<and> (agent_isInsideK8sCluster h \<longrightarrow> dc_Names (cf_Dummy d) = []
        \<and> (\<forall>path \<in> set (fc_Read (cf_File d)). \<not> agent_isStockConfig h path \<or> Contains path ''etc/netdata''))
     \<and> (\<forall>name \<in> fst ` set ms. name \<noteq> [] \<longrightarrow> Registry_Lookup (cf_Registry d) name \<noteq> None)"
proof -
  let ?dirs = "ag_ModulesConfDir a" and ?k8s = "agent_isInsideK8sCluster h"
  define places where "places = map (\<lambda>(name, creator). conf_place h ?dirs name) ms"
  note pl = places_facts [OF places_def]
  have reg: "\<forall>name \<in> fst ` set ms. name \<noteq> [] \<longrightarrow> Registry_Lookup (cf_Registry d) name \<noteq> None"
    using build_registry_has [of _ ms] by (simp add: assms buildDiscoveryConf_def disc_conf_def Let_def Registry_Lookup_def)
  show ?thesis
  proof (cases "?dirs = []")
    case True
    then show ?thesis using reg by (simp add: assms buildDiscoveryConf_def disc_conf_def Let_def)
  next
    case False
    then have "fc_Read (cf_File d) = read_paths places" "dc_Names (cf_Dummy d) = dummy_paths places"
      by (simp_all add: assms buildDiscoveryConf_def disc_conf_def Let_def places_def)
    then show ?thesis using pl reg by auto
  qed
qed

text \<open>
  Outside Kubernetes the plugin starts exactly when it is enabled and some module is: then the
  discovery manager is built with at least one discoverer, for the enabled modules.
\<close>

theorem agent_run_starts:
  assumes "\<not> agent_isInsideK8sCluster h" and "[] \<notin> fst ` set (ag_ModuleRegistry a)"
    and "ms = loadEnabledModules h a (loadPluginConfig h a)"
  shows "(\<exists>r. agent_run h a = Running r \<and> ru_modules r = ms \<and> dm_discoverers (ru_disc r) \<noteq> [])
     \<longleftrightarrow> cg_Enabled (loadPluginConfig h a) \<and> ms \<noteq> []"
proof
  assume "cg_Enabled (loadPluginConfig h a) \<and> ms \<noteq> []"
  then have en: "cg_Enabled (loadPluginConfig h a)" "ms \<noteq> []" by simp_all
  let ?d = "buildDiscoveryConf h a ms"
  have "set ms \<subseteq> set (ag_ModuleRegistry a)" by (auto simp: assms(3) loadEnabledModules_def)
  then obtain name where n: "name \<in> fst ` set ms" "name \<noteq> []" using en(2) assms(2) by (cases ms) force+
  have "cf_Registry ?d name \<noteq> None"
    using build_registry_has [OF n] by (simp add: buildDiscoveryConf_def disc_conf_def Let_def)
  then have "cf_Registry ?d \<noteq> Map.empty" by auto
  moreover have "length (fc_Read (cf_File ?d)) + length (dc_Names (cf_Dummy ?d)) = length ms"
    by (rule place_count [OF assms(1) refl])
  ultimately have v: "validateConfig ?d = None" using en(2) by (auto simp: validateConfig_def)
  then obtain ds where "registerDiscoverers ?d = Inr ds" "ds \<noteq> []" using registerDiscoverers_ok by blast
  then show "\<exists>r. agent_run h a = Running r \<and> ru_modules r = ms \<and> dm_discoverers (ru_disc r) \<noteq> []"
    using en v by (simp add: agent_run_def Let_def assms(3) disc_NewManager_def)
qed (auto simp: agent_run_def Let_def assms(3) split: if_splits sum.splits)


text \<open>A host with the file of one module, and an agent with two modules.\<close>

definition sample_host :: "bool \<Rightarrow> bool host" where
  "sample_host k8s = \<lparr>ho_exists = (\<lambda>p. p = ''/etc/x.conf''), ho_file = (\<lambda>p. NoDocument), ho_as_bool = Some,
     ho_walk = (\<lambda>p. []), ho_kubeHost = (if k8s then ''h'' else []), ho_kubePort = ''1'', ho_stockDir = ''/usr'',
     ho_SystemdVersion = 0, ho_terminal = False\<rparr>"

definition sample_creator :: "bool \<Rightarrow> unit Creator" where
  "sample_creator disabled = \<lparr>cr_Defaults = \<lparr>dt_UpdateEvery = 0, dt_AutoDetectionRetry = 0, dt_Priority = 0, dt_Disabled = disabled\<rparr>,
     cr_Create = (), cr_ops = sample_ops, cr_JobConfigSchema = []\<rparr>"

definition sample_agent :: "unit agent_Config" where
  "sample_agent = \<lparr>ag_Name = ''go.d'', ag_ConfDir = [], ag_ModulesConfDir = [''/etc''], ag_ModulesSDConfPath = [],
     ag_VnodesConfDir = [], ag_StateFile = ''s'', ag_LockDir = ''l'', ag_RunModule = ''all'', ag_MinUpdateEvery = 1,
     ag_ModuleRegistry = [(''x'', sample_creator False), (''y'', sample_creator False), (''z'', sample_creator True)]\<rparr>"

lemma sample_enabled: "map fst (loadEnabledModules (sample_host False) sample_agent
    (loadPluginConfig (sample_host False) sample_agent)) = [''x'', ''y'']"
  by code_simp

theorem buildDiscoveryConf_spec_witness:
  "let d = buildDiscoveryConf (sample_host False) sample_agent [(''x'', sample_creator False), (''y'', sample_creator False)]
   in fc_Read (cf_File d) = [''/etc/x.conf''] \<and> dc_Names (cf_Dummy d) = [''y'']
      \<and> length (fc_Read (cf_File d)) + length (dc_Names (cf_Dummy d)) = 2"
proof -
  let ?ms = "[(''x'', sample_creator False), (''y'', sample_creator False)]"
  have "fc_Read (cf_File (buildDiscoveryConf (sample_host False) sample_agent ?ms)) = [''/etc/x.conf'']"
    "dc_Names (cf_Dummy (buildDiscoveryConf (sample_host False) sample_agent ?ms)) = [''y'']"
    "\<not> agent_isInsideK8sCluster (sample_host False)" by code_simp+
  then show ?thesis using buildDiscoveryConf_spec [OF refl, of "sample_host False" sample_agent ?ms] by (simp add: Let_def)
qed

theorem agent_run_starts_witness:
  "\<exists>r. agent_run (sample_host False) sample_agent = Running r \<and> map fst (ru_modules r) = [''x'', ''y'']"
proof -
  have "\<not> agent_isInsideK8sCluster (sample_host False)" "[] \<notin> fst ` set (ag_ModuleRegistry sample_agent)"
    by (simp_all add: agent_isInsideK8sCluster_def sample_host_def sample_agent_def)
  note st = agent_run_starts [OF this refl]
  moreover have "cg_Enabled (loadPluginConfig (sample_host False) sample_agent)" by code_simp
  ultimately show ?thesis using sample_enabled by force
qed

end
