(* ===== verification/Glob.thy ===== *)
theory Glob
  imports Utf8
begin

text \<open>
  \<open>pkg/matcher/glob.go\<close>: matching a line against a glob pattern chunk by chunk, and the
  specification it is proved to implement, which tries every way a star can match.
\<close>

section \<open>The matcher\<close>

text \<open>\<open>getEsc\<close>: a character of a class, and what follows; nothing for \<open>ErrBadPattern\<close>.\<close>

definition getEsc :: "string \<Rightarrow> (rune \<times> string) option" where
  "getEsc chunk =
     (if chunk = [] \<or> hd chunk = CHR ''-'' \<or> hd chunk = CHR '']'' then None
      else let chunk1 = (if hd chunk = CHR 0x5C then tl chunk else chunk)
           in if chunk1 = [] then None
              else let (r, n) = decode_rune chunk1; nchunk = drop n chunk1
                   in if r = RuneError \<and> n = 1 \<or> nchunk = [] then None
                      else Some (r, nchunk))"

lemma getEsc_shorter: "getEsc chunk = Some (r, rest) \<Longrightarrow> length rest < length chunk \<and> rest \<noteq> []"
proof -
  assume g: "getEsc chunk = Some (r, rest)"
  let ?c = "if hd chunk = CHR 0x5C then tl chunk else chunk"
  have c: "?c \<noteq> []" "rest = drop (snd (decode_rune ?c)) ?c" "rest \<noteq> []"
    using g by (auto simp: getEsc_def Let_def case_prod_beta split: if_splits)
  have "length ?c \<le> length chunk" by simp
  moreover have "length rest = length ?c - snd (decode_rune ?c)" unfolding c(2) by (rule length_drop)
  ultimately show ?thesis using decode_rune_width [OF c(1)] c(3) by linarith
qed

lemma getEsc_twice:
  assumes "getEsc chunk = Some (lo, chunk1)" and "getEsc (tl chunk1) = Some (hi, chunk2)"
  shows "length chunk2 < length chunk"
proof -
  have "length (tl chunk1) \<le> length chunk1" by simp
  then show ?thesis using getEsc_shorter [OF assms(1)] getEsc_shorter [OF assms(2)] by linarith
qed

text \<open>The loop over the ranges of a class: whether the rune is in one of them, and the rest.\<close>

function class_loop :: "rune \<Rightarrow> nat \<Rightarrow> bool \<Rightarrow> string \<Rightarrow> (bool \<times> string) option" where
  "class_loop r nrange matched chunk =
     (if chunk \<noteq> [] \<and> hd chunk = CHR '']'' \<and> nrange > 0 then Some (matched, tl chunk)
      else (case getEsc chunk of
              None \<Rightarrow> None
            | Some (lo, chunk1) \<Rightarrow>
                if hd chunk1 = CHR ''-''
                then (case getEsc (tl chunk1) of
                        None \<Rightarrow> None
                      | Some (hi, chunk2) \<Rightarrow> class_loop r (nrange + 1) (matched \<or> lo \<le> r \<and> r \<le> hi) chunk2)
                else class_loop r (nrange + 1) (matched \<or> lo \<le> r \<and> r \<le> lo) chunk1))"
  by pat_completeness auto
termination
proof (relation "measure (\<lambda>(r, n, m, chunk). length chunk)", goal_cases)
  case 1
  then show ?case by simp
next
  case (2 r n m chunk a lo chunk1 b hi chunk2)
  then have "getEsc chunk = Some (lo, chunk1)" "getEsc (tl chunk1) = Some (hi, chunk2)" by simp_all
  from getEsc_twice [OF this] show ?case by simp
next
  case (3 r n m chunk a lo chunk1)
  then have "getEsc chunk = Some (lo, chunk1)" by simp
  then show ?case using getEsc_shorter by simp
qed

declare class_loop.simps [simp del]

lemma class_loop_code [code]:
  "class_loop r n m [] = None"
  "class_loop r n m (c # s) =
     (if c = CHR '']'' \<and> n > 0 then Some (m, s)
      else (case getEsc (c # s) of
              None \<Rightarrow> None
            | Some (lo, s1) \<Rightarrow>
                if hd s1 = CHR ''-''
                then (case getEsc (tl s1) of
                        None \<Rightarrow> None
                      | Some (hi, s2) \<Rightarrow> class_loop r (n + 1) (m \<or> lo \<le> r \<and> r \<le> hi) s2)
                else class_loop r (n + 1) (m \<or> lo \<le> r \<and> r \<le> lo) s1))"
  by (simp_all add: class_loop.simps [of r n m "[]"] class_loop.simps [of r n m "c # s"] getEsc_def)

datatype chunk_result = Rest string | NoMatch | BadPattern

text \<open>\<open>matchChunk\<close>: does the chunk match the beginning of the string?\<close>

function matchChunk :: "string \<Rightarrow> string \<Rightarrow> chunk_result" where
  "matchChunk [] s = Rest s"
| "matchChunk (c # chunk) [] = NoMatch"
| "matchChunk (c # chunk) (b # s) =
     (if c = CHR ''['' then
        (let (r, n) = decode_rune (b # s); s' = drop n (b # s)
         in if chunk = [] then BadPattern
            else let negated = (hd chunk = CHR 0x5E); chunk' = (if negated then tl chunk else chunk)
                 in case class_loop r 0 False chunk' of
                      None \<Rightarrow> BadPattern
                    | Some (matched, rest) \<Rightarrow>
                        if matched = negated then NoMatch else matchChunk rest s')
      else if c = CHR ''?'' then matchChunk chunk (drop (snd (decode_rune (b # s))) (b # s))
      else if c = CHR 0x5C then
        (case chunk of
           [] \<Rightarrow> BadPattern
         | c' # chunk' \<Rightarrow> if c' \<noteq> b then NoMatch else matchChunk chunk' s)
      else if c \<noteq> b then NoMatch else matchChunk chunk s)"
  by pat_completeness auto

lemma class_loop_shorter: "class_loop r n m chunk = Some (m', rest) \<Longrightarrow> length rest < length chunk"
proof (induction r n m chunk rule: class_loop.induct)
  case (1 r n m chunk)
  show ?case
  proof (cases "chunk \<noteq> [] \<and> hd chunk = CHR '']'' \<and> n > 0")
    case True
    then show ?thesis using 1(3) by (auto simp: class_loop.simps [of r n m chunk])
  next
    case False
    obtain lo chunk1 where g: "getEsc chunk = Some (lo, chunk1)"
      using 1(3) False by (auto simp: class_loop.simps [of r n m chunk] split: option.splits prod.splits)
    show ?thesis
    proof (cases "hd chunk1 = CHR ''-''")
      case True
      obtain hi chunk2 where g2: "getEsc (tl chunk1) = Some (hi, chunk2)"
        using 1(3) False g True by (auto simp: class_loop.simps [of r n m chunk] split: option.splits prod.splits)
      then show ?thesis using 1(1) [OF False g refl True g2 refl] 1(3) False g True getEsc_twice [OF g g2]
        by (simp add: class_loop.simps [of r n m chunk])
    next
      case no: False
      then show ?thesis using 1(2) [OF False g refl no] 1(3) False g getEsc_shorter [OF g]
        by (simp add: class_loop.simps [of r n m chunk])
    qed
  qed
qed

termination matchChunk
proof (relation "measure (\<lambda>(chunk, s). length chunk)", goal_cases)
  case (2 c chunk b s x r n s' negated chunk' a matched rest)
  then have "length rest < length chunk'" using class_loop_shorter by (metis (no_types))
  moreover have "length chunk' \<le> length chunk" using 2 by auto
  ultimately show ?case by simp
qed auto

text \<open>\<open>scanChunk\<close>: the stars, then what stands before the next star outside of a class.\<close>

fun scan_from :: "bool \<Rightarrow> string \<Rightarrow> string \<times> string" where
  "scan_from inrange [] = ([], [])"
| "scan_from inrange (c # s) =
     (if c = CHR 0x5C then
        (case s of
           [] \<Rightarrow> ([c], [])
         | d # s' \<Rightarrow> (let (chunk, rest) = scan_from inrange s' in (c # d # chunk, rest)))
      else if c = CHR ''*'' \<and> \<not> inrange then ([], c # s)
      else let (chunk, rest) = scan_from (if c = CHR ''['' then True else if c = CHR '']'' then False else inrange) s
           in (c # chunk, rest))"

definition scanChunk :: "string \<Rightarrow> bool \<times> string \<times> string" where
  "scanChunk pattern =
     (let p = dropWhile (\<lambda>c. c = CHR ''*'') pattern
      in (p \<noteq> pattern, scan_from False p))"

text \<open>The loop of \<open>globMatch\<close> that skips bytes: the last chunk has to use up the name.\<close>

fun star_search :: "string \<Rightarrow> bool \<Rightarrow> string \<Rightarrow> chunk_result" where
  "star_search chunk last_chunk [] = NoMatch"
| "star_search chunk last_chunk (b # name) =
     (case matchChunk chunk name of
        Rest t \<Rightarrow> if last_chunk \<and> t \<noteq> [] then star_search chunk last_chunk name else Rest t
      | BadPattern \<Rightarrow> BadPattern
      | NoMatch \<Rightarrow> star_search chunk last_chunk name)"

lemma scan_from_append: "scan_from r p = (chunk, rest) \<Longrightarrow> chunk @ rest = p"
  by (induction r p arbitrary: chunk rest rule: scan_from.induct)
    (auto simp: Let_def split: if_splits list.splits prod.splits)

lemma scan_from_progress: "scan_from False p = (chunk, rest) \<Longrightarrow> p \<noteq> [] \<Longrightarrow> hd p \<noteq> CHR ''*'' \<Longrightarrow> chunk \<noteq> []"
  by (cases p) (auto simp: Let_def split: if_splits list.splits prod.splits)

lemma scanChunk_shorter: "scanChunk p = (star, chunk, rest) \<Longrightarrow> p \<noteq> [] \<Longrightarrow> length rest < length p"
proof -
  assume a: "scanChunk p = (star, chunk, rest)" "p \<noteq> []"
  let ?q = "dropWhile (\<lambda>c. c = CHR ''*'') p"
  have s: "scan_from False ?q = (chunk, rest)" "star = (?q \<noteq> p)" using a(1) by (auto simp: scanChunk_def Let_def)
  then have l: "length chunk + length rest = length ?q" using scan_from_append by (metis length_append)
  show ?thesis
  proof (cases "?q = p")
    case True
    have "hd p \<noteq> CHR ''*''" using a(2) True hd_dropWhile [of "\<lambda>c. c = CHR ''*''" p] by auto
    then have "chunk \<noteq> []" using scan_from_progress s(1) True a(2) by auto
    then show ?thesis using l True by (cases chunk) auto
  next
    case False
    have "length ?q \<le> length p" by (rule length_dropWhile_le)
    moreover have "takeWhile (\<lambda>c. c = CHR ''*'') p @ ?q = p" by (rule takeWhile_dropWhile_id)
    then have "takeWhile (\<lambda>c. c = CHR ''*'') p \<noteq> []" using False by (cases p) (auto split: if_splits)
    moreover have "length (takeWhile (\<lambda>c. c = CHR ''*'') p) + length ?q = length p"
      by (simp only: length_append [symmetric] takeWhile_dropWhile_id)
    ultimately show ?thesis using l by (cases "takeWhile (\<lambda>c. c = CHR ''*'') p") auto
  qed
qed

text \<open>\<open>globMatch\<close>; nothing stands for the error.\<close>

function globMatch :: "string \<Rightarrow> string \<Rightarrow> bool option" where
  "globMatch pattern name =
     (if pattern = [] then Some (name = [])
      else let (star, chunk, rest) = scanChunk pattern
           in if star \<and> chunk = [] then Some True
              else (case matchChunk chunk name of
                      Rest t \<Rightarrow>
                        if t = [] \<or> rest \<noteq> [] then globMatch rest t
                        else if star then
                          (case star_search chunk (rest = []) name of
                             Rest t' \<Rightarrow> globMatch rest t' | BadPattern \<Rightarrow> None | NoMatch \<Rightarrow> Some False)
                        else Some False
                    | BadPattern \<Rightarrow> None
                    | NoMatch \<Rightarrow>
                        if star then
                          (case star_search chunk (rest = []) name of
                             Rest t' \<Rightarrow> globMatch rest t' | BadPattern \<Rightarrow> None | NoMatch \<Rightarrow> Some False)
                        else Some False))"
  by pat_completeness auto
termination
  by (relation "measure (\<lambda>(pattern, name). length pattern)") (auto dest: scanChunk_shorter [OF sym])

declare globMatch.simps [simp del]

lemma globMatch_code [code]:
  "globMatch [] name = Some (name = [])"
  "globMatch (c # p) name =
     (case scanChunk (c # p) of (star, chunk, rest) \<Rightarrow>
        if star \<and> chunk = [] then Some True
        else (case matchChunk chunk name of
                Rest t \<Rightarrow>
                  if t = [] \<or> rest \<noteq> [] then globMatch rest t
                  else if star then
                    (case star_search chunk (rest = []) name of
                       Rest t' \<Rightarrow> globMatch rest t' | BadPattern \<Rightarrow> None | NoMatch \<Rightarrow> Some False)
                  else Some False
              | BadPattern \<Rightarrow> None
              | NoMatch \<Rightarrow>
                  if star then
                    (case star_search chunk (rest = []) name of
                       Rest t' \<Rightarrow> globMatch rest t' | BadPattern \<Rightarrow> None | NoMatch \<Rightarrow> Some False)
                  else Some False))"
  by (simp_all add: globMatch.simps [of "[]"] globMatch.simps [of "c # p"])

definition glob_MatchString :: "string \<Rightarrow> string \<Rightarrow> bool" where
  "glob_MatchString pattern line = (globMatch pattern line = Some True)"

section \<open>What a pattern means\<close>

datatype glob_tok = Star | AnyChar | Lit char | Class bool "(rune \<times> rune) list"

text \<open>The ranges of a class, up to its closing bracket.\<close>

function class_items :: "nat \<Rightarrow> string \<Rightarrow> ((rune \<times> rune) list \<times> string) option" where
  "class_items n s =
     (if s \<noteq> [] \<and> hd s = CHR '']'' \<and> n > 0 then Some ([], tl s)
      else (case getEsc s of
              None \<Rightarrow> None
            | Some (lo, s1) \<Rightarrow>
                if hd s1 = CHR ''-''
                then (case getEsc (tl s1) of
                        None \<Rightarrow> None
                      | Some (hi, s2) \<Rightarrow> map_option (\<lambda>(rs, t). ((lo, hi) # rs, t)) (class_items (n + 1) s2))
                else map_option (\<lambda>(rs, t). ((lo, lo) # rs, t)) (class_items (n + 1) s1)))"
  by pat_completeness auto
termination
proof (relation "measure (\<lambda>(n, s). length s)", goal_cases)
  case (2 n s a lo s1 b hi s2)
  then have "getEsc s = Some (lo, s1)" "getEsc (tl s1) = Some (hi, s2)" by simp_all
  from getEsc_twice [OF this] show ?case by simp
next
  case (3 n s a lo s1)
  then have "getEsc s = Some (lo, s1)" by simp
  then show ?case using getEsc_shorter by simp
qed simp

declare class_items.simps [simp del]

lemma class_items_code [code]:
  "class_items n [] = None"
  "class_items n (c # s) =
     (if c = CHR '']'' \<and> n > 0 then Some ([], s)
      else (case getEsc (c # s) of
              None \<Rightarrow> None
            | Some (lo, s1) \<Rightarrow>
                if hd s1 = CHR ''-''
                then (case getEsc (tl s1) of
                        None \<Rightarrow> None
                      | Some (hi, s2) \<Rightarrow> map_option (\<lambda>(rs, t). ((lo, hi) # rs, t)) (class_items (n + 1) s2))
                else map_option (\<lambda>(rs, t). ((lo, lo) # rs, t)) (class_items (n + 1) s1)))"
  by (simp_all add: class_items.simps [of n "[]"] class_items.simps [of n "c # s"] getEsc_def)

text \<open>The four ways an item list can go on.\<close>

lemma class_items_cases:
  assumes "class_items n s = Some (rs, t)"
  obtains (close) "s = CHR '']'' # t" "n > 0" "rs = []"
  | (range) lo s1 hi s2 rs' where "\<not> (s \<noteq> [] \<and> hd s = CHR '']'' \<and> n > 0)" "getEsc s = Some (lo, CHR ''-'' # s1)"
      "getEsc s1 = Some (hi, s2)" "class_items (n + 1) s2 = Some (rs', t)" "rs = (lo, hi) # rs'"
  | (single) lo s1 rs' where "\<not> (s \<noteq> [] \<and> hd s = CHR '']'' \<and> n > 0)" "getEsc s = Some (lo, s1)" "hd s1 \<noteq> CHR ''-''"
      "class_items (n + 1) s1 = Some (rs', t)" "rs = (lo, lo) # rs'"
proof (cases "s \<noteq> [] \<and> hd s = CHR '']'' \<and> n > 0")
  case True
  then have "rs = []" "t = tl s" using assms by (simp_all add: class_items.simps [of n s])
  then show thesis using True close by (cases s) auto
next
  case False
  obtain lo s1 where g: "getEsc s = Some (lo, s1)"
    using assms False by (auto simp: class_items.simps [of n s] split: option.splits)
  show thesis
  proof (cases "hd s1 = CHR ''-''")
    case True
    have s1: "s1 = CHR ''-'' # tl s1" using True getEsc_shorter [OF g] by (cases s1) auto
    obtain hi s2 where "getEsc (tl s1) = Some (hi, s2)"
      using assms False g True by (auto simp: class_items.simps [of n s] split: option.splits)
    then show thesis using assms False g True s1 range [of lo "tl s1" hi s2]
      by (auto simp: class_items.simps [of n s] split: option.splits)
  next
    case no: False
    then show thesis using assms False g single [of lo s1]
      by (auto simp: class_items.simps [of n s] split: option.splits)
  qed
qed

lemma class_loop_items:
  "class_loop r n m s = map_option (\<lambda>(rs, t). (m \<or> (\<exists>(lo, hi) \<in> set rs. lo \<le> r \<and> r \<le> hi), t)) (class_items n s)"
proof (induction r n m s rule: class_loop.induct)
  case (1 r n m s)
  show ?case
  proof (cases "s \<noteq> [] \<and> hd s = CHR '']'' \<and> n > 0")
    case True
    then show ?thesis by (simp add: class_loop.simps [of r n m s] class_items.simps [of n s])
  next
    case False
    show ?thesis
    proof (cases "getEsc s")
      case None
      then show ?thesis using False by (auto simp: class_loop.simps [of r n m s] class_items.simps [of n s])
    next
      case (Some a)
      obtain lo s1 where a: "a = (lo, s1)" by (cases a)
      show ?thesis
      proof (cases "hd s1 = CHR ''-''")
        case True
        then show ?thesis using False Some a 1(1) [OF False Some sym [OF a] True]
          by (cases "getEsc (tl s1)") (auto simp: class_loop.simps [of r n m s] class_items.simps [of n s]
              option.map_comp comp_def case_prod_beta disj_assoc intro!: option.map_cong0)
      next
        case no: False
        then show ?thesis using False Some a 1(2) [OF False Some sym [OF a] no]
          by (auto simp: class_loop.simps [of r n m s] class_items.simps [of n s]
              option.map_comp comp_def case_prod_beta disj_assoc intro!: option.map_cong0)
      qed
    qed
  qed
qed

lemma class_items_shorter: "class_items n s = Some (rs, t) \<Longrightarrow> length t < length s"
  using class_loop_shorter [of 0 n False s _ t] by (simp add: class_loop_items)

function glob_tokens :: "string \<Rightarrow> glob_tok list option" where
  "glob_tokens [] = Some []"
| "glob_tokens (c # s) =
     (if c = CHR ''*'' then map_option ((#) Star) (glob_tokens s)
      else if c = CHR ''?'' then map_option ((#) AnyChar) (glob_tokens s)
      else if c = CHR 0x5C then
        (case s of [] \<Rightarrow> None | d # s' \<Rightarrow> map_option ((#) (Lit d)) (glob_tokens s'))
      else if c = CHR ''['' then
        (let negated = (s \<noteq> [] \<and> hd s = CHR 0x5E)
         in case class_items 0 (if negated then tl s else s) of
              None \<Rightarrow> None
            | Some (rs, t) \<Rightarrow> map_option ((#) (Class negated rs)) (glob_tokens t))
      else map_option ((#) (Lit c)) (glob_tokens s))"
  by pat_completeness auto
termination
proof (relation "measure length", goal_cases)
  case (5 c s neg a rs t)
  then have "class_items 0 (if neg then tl s else s) = Some (rs, t)" by simp
  from class_items_shorter [OF this] show ?case by (auto split: if_splits)
qed auto

fun tok_match :: "glob_tok \<Rightarrow> string \<Rightarrow> string option" where
  "tok_match t [] = None"
| "tok_match Star (b # s) = None"
| "tok_match AnyChar (b # s) = Some (drop (snd (decode_rune (b # s))) (b # s))"
| "tok_match (Lit c) (b # s) = (if c = b then Some s else None)"
| "tok_match (Class negated rs) (b # s) =
     (if (\<exists>(lo, hi) \<in> set rs. lo \<le> fst (decode_rune (b # s)) \<and> fst (decode_rune (b # s)) \<le> hi) \<noteq> negated
      then Some (drop (snd (decode_rune (b # s))) (b # s)) else None)"

text \<open>The specification: a star matches any number of bytes, every other token a character of its own.\<close>

fun glob_spec :: "glob_tok list \<Rightarrow> string \<Rightarrow> bool" where
  "glob_spec [] s = (s = [])"
| "glob_spec (t # ts) s =
     (if t = Star then \<exists>i \<le> length s. glob_spec ts (drop i s)
      else (case tok_match t s of None \<Rightarrow> False | Some s' \<Rightarrow> glob_spec ts s'))"

fun toks_match :: "glob_tok list \<Rightarrow> string \<Rightarrow> string option" where
  "toks_match [] s = Some s"
| "toks_match (t # ts) s = (case tok_match t s of None \<Rightarrow> None | Some s' \<Rightarrow> toks_match ts s')"

lemma spec_append:
  "Star \<notin> set cs \<Longrightarrow> glob_spec (cs @ rs) s \<longleftrightarrow> (\<exists>t. toks_match cs s = Some t \<and> glob_spec rs t)"
  by (induction cs arbitrary: s) (auto split: option.splits)

lemma spec_star_longer: "glob_spec (Star # ts) (drop j s) \<Longrightarrow> glob_spec (Star # ts) s"
  by (auto simp: add.commute) (metis drop_all glob_spec.simps le_cases drop_drop nle_le)

text \<open>A class in the chunk loop and in the token list.\<close>

lemma class_items_Nil [simp]: "class_items 0 [] = None"
  by (simp add: class_items.simps [of 0 "[]"] getEsc_def)

lemma matchChunk_class:
  assumes "neg = (chunk \<noteq> [] \<and> hd chunk = CHR 0x5E)"
  shows "matchChunk (CHR ''['' # chunk) (b # s) =
     (case class_items 0 (if neg then tl chunk else chunk) of
        None \<Rightarrow> BadPattern
      | Some (rs, t) \<Rightarrow>
          (case tok_match (Class neg rs) (b # s) of None \<Rightarrow> NoMatch | Some s' \<Rightarrow> matchChunk t s'))"
  using assms by (auto simp: Let_def case_prod_beta class_loop_items split: option.splits)

lemma glob_tokens_class:
  assumes "neg = (chunk \<noteq> [] \<and> hd chunk = CHR 0x5E)"
  shows "glob_tokens (CHR ''['' # chunk) =
     (case class_items 0 (if neg then tl chunk else chunk) of
        None \<Rightarrow> None | Some (rs, t) \<Rightarrow> map_option ((#) (Class neg rs)) (glob_tokens t))"
  unfolding assms by (simp only: glob_tokens.simps Let_def) simp

declare matchChunk.simps(3) [simp del]

lemma matchChunk_simple:
  "c \<notin> {CHR ''['', CHR ''?'', CHR 0x5C} \<Longrightarrow> matchChunk (c # chunk) (b # s) = (if c \<noteq> b then NoMatch else matchChunk chunk s)"
  "matchChunk (CHR ''?'' # chunk) (b # s) = matchChunk chunk (drop (snd (decode_rune (b # s))) (b # s))"
  "matchChunk (CHR 0x5C # c # chunk) (b # s) = (if c \<noteq> b then NoMatch else matchChunk chunk s)"
  "matchChunk [CHR 0x5C] (b # s) = BadPattern"
  by (simp_all add: matchChunk.simps(3))

text \<open>The shapes a pattern can have.\<close>

lemma pattern_cases [case_names Nil Star Any Esc BadEsc Class Lit]:
  assumes "p = [] \<Longrightarrow> P" and "\<And>s. p = CHR ''*'' # s \<Longrightarrow> P" and "\<And>s. p = CHR ''?'' # s \<Longrightarrow> P"
    and "\<And>d s. p = CHR 0x5C # d # s \<Longrightarrow> P" and "p = [CHR 0x5C] \<Longrightarrow> P" and "\<And>s. p = CHR ''['' # s \<Longrightarrow> P"
    and "\<And>c s. p = c # s \<Longrightarrow> c \<notin> {CHR ''*'', CHR ''?'', CHR 0x5C, CHR ''[''} \<Longrightarrow> P"
  shows P
proof (cases p)
  case (Cons c s)
  then show ?thesis using assms(2-) by (cases s) auto
qed (rule assms(1))

lemma glob_tokens_simps [simp]:
  "glob_tokens (CHR ''*'' # s) = map_option ((#) Star) (glob_tokens s)"
  "glob_tokens (CHR ''?'' # s) = map_option ((#) AnyChar) (glob_tokens s)"
  "glob_tokens (CHR 0x5C # d # s) = map_option ((#) (Lit d)) (glob_tokens s)"
  "glob_tokens [CHR 0x5C] = None"
  "c \<notin> {CHR ''*'', CHR ''?'', CHR 0x5C, CHR ''[''} \<Longrightarrow> glob_tokens (c # s) = map_option ((#) (Lit c)) (glob_tokens s)"
  by simp_all

declare glob_tokens.simps(2) [simp del]

text \<open>The chunk loop takes one token after the other.\<close>

lemma matchChunk_toks:
  "glob_tokens chunk = Some cs \<Longrightarrow> Star \<notin> set cs \<Longrightarrow>
     matchChunk chunk s = (case toks_match cs s of None \<Rightarrow> NoMatch | Some t \<Rightarrow> Rest t)"
proof (induction "length chunk" arbitrary: chunk s cs rule: less_induct)
  case less
  show ?case
  proof (cases chunk rule: pattern_cases)
    case (Class p)
    define neg where "neg = (p \<noteq> [] \<and> hd p = CHR 0x5E)"
    obtain rs t cs' where t: "class_items 0 (if neg then tl p else p) = Some (rs, t)" "glob_tokens t = Some cs'"
      "cs = Class neg rs # cs'"
      using less.prems(1) Class glob_tokens_class [OF neg_def] by (auto split: option.splits)
    have "length t < length chunk" using class_items_shorter [OF t(1)] Class by (auto split: if_splits)
    then show ?thesis using less t Class matchChunk_class [OF neg_def]
      by (cases s) (simp_all split: option.splits)
  next
    case Nil
    then show ?thesis using less.prems by simp
  next
    case (Star s')
    then show ?thesis using less.prems by auto
  next
    case (Any p)
    then show ?thesis using less by (cases s) (auto simp: matchChunk_simple)
  next
    case (Esc d p)
    then show ?thesis using less by (cases s) (auto simp: matchChunk_simple)
  next
    case BadEsc
    then show ?thesis using less.prems by simp
  next
    case (Lit c p)
    then show ?thesis using less by (cases s) (auto simp: matchChunk_simple)
  qed
qed

lemma matchChunk_Rest: "matchChunk chunk s = Rest t \<Longrightarrow> \<exists>cs. glob_tokens chunk = Some cs"
proof (induction "length chunk" arbitrary: chunk s rule: less_induct)
  case less
  show ?case
  proof (cases s)
    case Nil
    then show ?thesis using less.prems by (cases chunk) simp_all
  next
    case (Cons b s')
    show ?thesis
    proof (cases chunk rule: pattern_cases)
      case (Class p)
      define neg where "neg = (p \<noteq> [] \<and> hd p = CHR 0x5E)"
      obtain rs u s2 where u: "class_items 0 (if neg then tl p else p) = Some (rs, u)" "matchChunk u s2 = Rest t"
        using less.prems Class Cons matchChunk_class [OF neg_def] by (auto split: option.splits)
      have "length u < length chunk" using class_items_shorter [OF u(1)] Class by (auto split: if_splits)
      then obtain cs where "glob_tokens u = Some cs" using less.hyps u(2) by blast
      then show ?thesis using u Class glob_tokens_class [OF neg_def] by simp
    next
      case (Star p)
      then show ?thesis using less Cons by (fastforce simp: matchChunk_simple split: if_splits)
    next
      case (Any p)
      then show ?thesis using less Cons by (fastforce simp: matchChunk_simple)
    next
      case (Esc d p)
      then show ?thesis using less.hyps [of p s'] less.prems Cons by (auto simp: matchChunk_simple split: if_splits)
    next
      case (Lit c p)
      then show ?thesis using less Cons by (fastforce simp: matchChunk_simple split: if_splits)
    qed (use less.prems Cons in \<open>simp_all add: matchChunk_simple\<close>)
  qed
qed

section \<open>Chunks and tokens\<close>

lemma decode_cases [case_names none one two three more]:
  assumes "s = [] \<Longrightarrow> P" and "\<And>a. s = [a] \<Longrightarrow> P" and "\<And>a b. s = [a, b] \<Longrightarrow> P" and "\<And>a b c. s = [a, b, c] \<Longrightarrow> P"
    and "\<And>a b c d t. s = a # b # c # d # t \<Longrightarrow> P"
  shows P
  using assms by (metis neq_Nil_conv)

text \<open>Reading an escaped character looks no further than that character.\<close>

lemma decode_rune_local:
  assumes "decode_rune s = (r, n)" and "s \<noteq> []" and "\<not> (r = RuneError \<and> n = 1)"
  shows "decode_rune (take n s @ x) = (r, n)"
  using assms by (cases s rule: decode_cases) (auto simp: decode_rune_def Let_def split: if_splits)

lemma scan_plain:
  "\<forall>c \<in> set w. c \<notin> {CHR 0x5C, CHR '']''} \<Longrightarrow>
     scan_from True (w @ x) = (case scan_from True x of (c, r) \<Rightarrow> (w @ c, r))"
  by (induction w) (auto simp: Let_def split: prod.splits)

lemma decode_rune_plain:
  assumes "decode_rune s = (r, n)" and "s \<noteq> []" and "c \<in> set (tl (take n s))"
  shows "128 \<le> byte c"
  using assms
  by (cases s rule: decode_cases) (auto simp: decode_rune_def Let_def second_ok_def cont_byte_def split: if_splits)

lemma getEsc_local:
  assumes "getEsc s = Some (r, rest)"
  obtains w where "s = w @ rest" "w \<noteq> []" "hd w \<noteq> CHR ''-''" "hd w \<noteq> CHR '']''"
    "\<And>x. x \<noteq> [] \<Longrightarrow> getEsc (w @ x) = Some (r, x)"
    "\<And>x. scan_from True (w @ x) = (case scan_from True x of (c, r) \<Rightarrow> (w @ c, r))"
proof -
  define esc where "esc = (hd s = CHR 0x5C)"
  define s1 where "s1 = (if esc then tl s else s)"
  define n where "n = snd (decode_rune s1)"
  have d: "decode_rune s1 = (r, n)"
    using assms unfolding getEsc_def s1_def esc_def n_def by (auto simp: Let_def case_prod_beta split: if_splits)
  have f: "s \<noteq> []" "hd s \<noteq> CHR ''-''" "hd s \<noteq> CHR '']''" "s1 \<noteq> []" "\<not> (r = RuneError \<and> n = 1)" "rest = drop n s1" "rest \<noteq> []"
    using assms d unfolding getEsc_def s1_def esc_def by (auto simp: Let_def split: if_splits)
  define u where "u = take n s1"
  have n: "1 \<le> n" "n \<le> length s1" using decode_rune_width [OF f(4)] d by simp_all
  then have u: "u \<noteq> []" "s1 = u @ rest" "length u = n" using f(4,6) by (auto simp: u_def)
  have du: "decode_rune (u @ x) = (r, n)" for x unfolding u_def by (rule decode_rune_local [OF d f(4,5)])
  have plain: "c \<notin> {CHR 0x5C, CHR '']''}" if "c \<in> set (tl u)" for c
  proof -
    have "128 \<le> byte c" using that unfolding u_def by (rule decode_rune_plain [OF d f(4)])
    then show ?thesis by auto
  qed
  obtain c0 u' where cu: "u = c0 # u'" using u(1) by (cases u) auto
  have pu: "\<forall>c \<in> set u'. c \<notin> {CHR 0x5C, CHR '']''}" using plain cu by simp
  show thesis
  proof (cases esc)
    case True
    have "s = CHR 0x5C # u @ rest" using True f(1) u(2) by (cases s) (auto simp: esc_def s1_def)
    moreover have "getEsc ((CHR 0x5C # u) @ x) = Some (r, x)" if "x \<noteq> []" for x
      using du [of x] that u(1,3) f(5) by (simp add: getEsc_def)
    moreover have "scan_from True ((CHR 0x5C # u) @ x) = (case scan_from True x of (c, r) \<Rightarrow> ((CHR 0x5C # u) @ c, r))" for x
      using scan_plain [OF pu, of x] by (simp add: cu split: prod.splits)
    ultimately show thesis using that [of "CHR 0x5C # u"] by simp
  next
    case False
    have s: "s = u @ rest" "c0 \<noteq> CHR 0x5C" "c0 \<noteq> CHR ''-''" "c0 \<noteq> CHR '']''"
      using False u(2) f(2,3) cu by (auto simp: s1_def esc_def)
    moreover have "getEsc (u @ x) = Some (r, x)" if "x \<noteq> []" for x
      using du [of x] that u(1,3) [symmetric] f(5) s(2-4) by (simp add: getEsc_def cu)
    moreover have "scan_from True (u @ x) = (case scan_from True x of (c, r) \<Rightarrow> (u @ c, r))" for x
      by (rule scan_plain) (use pu cu s in auto)
    ultimately show thesis using that [of u] u(1) cu by simp
  qed
qed

lemma class_items_local:
  "class_items n s = Some (rs, rest) \<Longrightarrow> \<exists>w. s = w @ rest \<and> w \<noteq> [] \<and> (\<forall>x. class_items n (w @ x) = Some (rs, x))
     \<and> (\<forall>x. scan_from True (w @ x) = (case scan_from False x of (c, r) \<Rightarrow> (w @ c, r)))"
proof (induction "length s" arbitrary: n s rs rule: less_induct)
  case less
  from less.prems show ?case
  proof (cases rule: class_items_cases)
    case close
    then show ?thesis by (intro exI [of _ "[CHR '']'']"]) (simp add: class_items.simps [of n "_ # _"] split: prod.splits)
  next
    case (range lo s1 hi s2 rs')
    obtain w1 where w1: "s = w1 @ CHR ''-'' # s1" "w1 \<noteq> []" "hd w1 \<noteq> CHR '']''"
      "\<And>x. x \<noteq> [] \<Longrightarrow> getEsc (w1 @ x) = Some (lo, x)"
      "\<And>x. scan_from True (w1 @ x) = (case scan_from True x of (c, r) \<Rightarrow> (w1 @ c, r))"
      using getEsc_local [OF range(2)] by metis
    obtain w2 where w2: "s1 = w2 @ s2" "w2 \<noteq> []" "\<And>x. x \<noteq> [] \<Longrightarrow> getEsc (w2 @ x) = Some (hi, x)"
      "\<And>x. scan_from True (w2 @ x) = (case scan_from True x of (c, r) \<Rightarrow> (w2 @ c, r))"
      using getEsc_local [OF range(3)] by metis
    obtain w3 where w3: "s2 = w3 @ rest" "w3 \<noteq> []" "\<And>x. class_items (n + 1) (w3 @ x) = Some (rs', x)"
      "\<And>x. scan_from True (w3 @ x) = (case scan_from False x of (c, r) \<Rightarrow> (w3 @ c, r))"
      using less.hyps [OF _ range(4)] w1(1) w2(1) by auto
    have "class_items n (w1 @ CHR ''-'' # w2 @ w3 @ x) = Some (rs, x)" for x
      using w1(2,3) w1(4) [of "CHR ''-'' # w2 @ w3 @ x"] w2(3) [of "w3 @ x"] w3(2,3) range(5)
      by (simp add: class_items.simps [of n "w1 @ _"])
    moreover have "scan_from True (w1 @ CHR ''-'' # w2 @ w3 @ x) = (case scan_from False x of (c, r) \<Rightarrow> (w1 @ CHR ''-'' # w2 @ w3 @ c, r))" for x
      by (simp add: w1(5) w2(4) w3(4) split: prod.splits)
    ultimately show ?thesis using w1(1) w2(1) w3(1) by (intro exI [of _ "w1 @ CHR ''-'' # w2 @ w3"]) simp
  next
    case (single lo s1 rs')
    obtain w1 where w1: "s = w1 @ s1" "w1 \<noteq> []" "hd w1 \<noteq> CHR '']''"
      "\<And>x. x \<noteq> [] \<Longrightarrow> getEsc (w1 @ x) = Some (lo, x)"
      "\<And>x. scan_from True (w1 @ x) = (case scan_from True x of (c, r) \<Rightarrow> (w1 @ c, r))"
      using getEsc_local [OF single(2)] by metis
    obtain w3 where w3: "s1 = w3 @ rest" "w3 \<noteq> []" "\<And>x. class_items (n + 1) (w3 @ x) = Some (rs', x)"
      "\<And>x. scan_from True (w3 @ x) = (case scan_from False x of (c, r) \<Rightarrow> (w3 @ c, r))"
      using less.hyps [OF _ single(4)] w1(1,2) by auto
    have "hd w3 \<noteq> CHR ''-''" using single(3) w3(1,2) by simp
    then have "class_items n (w1 @ w3 @ x) = Some (rs, x)" for x
      using w1(2,3) w1(4) [of "w3 @ x"] w3(2,3) single(5) by (simp add: class_items.simps [of n "w1 @ _"])
    moreover have "scan_from True (w1 @ w3 @ x) = (case scan_from False x of (c, r) \<Rightarrow> (w1 @ w3 @ c, r))" for x
      by (simp add: w1(5) w3(4) split: prod.splits)
    ultimately show ?thesis using w1(1) w3(1,2) by (intro exI [of _ "w1 @ w3"]) simp
  qed
qed

lemma tokens_append:
  "glob_tokens a = Some cs \<Longrightarrow> glob_tokens (a @ b) = map_option ((@) cs) (glob_tokens b)"
proof (induction "length a" arbitrary: a cs rule: less_induct)
  case less
  show ?case
  proof (cases a rule: pattern_cases)
    case Nil
    then show ?thesis using less.prems by (cases "glob_tokens b") auto
  next
    case (Class p)
    define neg where "neg = (p \<noteq> [] \<and> hd p = CHR 0x5E)"
    define q where "q = (if neg then tl p else p)"
    obtain rs t cs' where t: "class_items 0 q = Some (rs, t)" "glob_tokens t = Some cs'" "cs = Class neg rs # cs'"
      using less.prems Class glob_tokens_class [OF neg_def] by (auto simp: q_def split: option.splits)
    obtain w where w: "q = w @ t" "w \<noteq> []" "\<And>x. class_items 0 (w @ x) = Some (rs, x)"
      using class_items_local [OF t(1)] by auto
    have "q \<noteq> []" using w(1,2) by simp
    then have neg': "neg = (p @ b \<noteq> [] \<and> hd (p @ b) = CHR 0x5E)" and q': "(if neg then tl (p @ b) else p @ b) = w @ t @ b"
      using w(1,2) by (cases w; auto simp: neg_def q_def split: if_splits)+
    have "length t < length a" using class_items_shorter [OF t(1)] Class by (auto simp: q_def split: if_splits)
    then have "glob_tokens (t @ b) = map_option ((@) cs') (glob_tokens b)" using less.hyps t(2) by blast
    then show ?thesis using Class glob_tokens_class [OF neg'] q' w(3) t(3) by (cases "glob_tokens b") simp_all
  qed (use less in \<open>auto simp: option.map_comp comp_def intro!: option.map_cong0\<close>)
qed

text \<open>\<open>scanChunk\<close> cuts a pattern at its first star.\<close>

lemma scan_tokens:
  "glob_tokens p = Some ts \<Longrightarrow> scan_from False p = (chunk, rest) \<Longrightarrow>
     \<exists>cs rs. glob_tokens chunk = Some cs \<and> glob_tokens rest = Some rs \<and> Star \<notin> set cs \<and> ts = cs @ rs
       \<and> (rest = [] \<or> (\<exists>rs'. rs = Star # rs'))"
proof (induction "length p" arbitrary: p ts chunk rule: less_induct)
  case less
  show ?case
  proof (cases p rule: pattern_cases)
    case (Class q0)
    define neg where "neg = (q0 \<noteq> [] \<and> hd q0 = CHR 0x5E)"
    define q where "q = (if neg then tl q0 else q0)"
    obtain its t ts' where t: "class_items 0 q = Some (its, t)" "glob_tokens t = Some ts'" "ts = Class neg its # ts'"
      using less.prems(1) Class glob_tokens_class [OF neg_def] by (auto simp: q_def split: option.splits)
    obtain w where w: "q = w @ t" "w \<noteq> []" "\<And>x. class_items 0 (w @ x) = Some (its, x)"
      "\<And>x. scan_from True (w @ x) = (case scan_from False x of (c, r) \<Rightarrow> (w @ c, r))"
      using class_items_local [OF t(1)] by auto
    define pre where "pre = (if neg then [CHR 0x5E] else [])"
    have q0: "q0 = pre @ w @ t"
      using w(1) by (cases q0) (auto simp: pre_def q_def neg_def)
    obtain c r where sc: "scan_from False t = (c, r)" by fastforce
    have "scan_from False p = (CHR ''['' # pre @ w @ c, r)"
      using w(4) [of t] sc by (simp add: Class q0 pre_def)
    then have ch: "chunk = CHR ''['' # pre @ w @ c" "rest = r" using less.prems(2) by simp_all
    have "length t < length p" using class_items_shorter [OF t(1)] Class by (auto simp: q_def split: if_splits)
    then obtain cs rs where i: "glob_tokens c = Some cs" "glob_tokens r = Some rs" "Star \<notin> set cs" "ts' = cs @ rs"
      "r = [] \<or> (\<exists>rs'. rs = Star # rs')" using less.hyps [OF _ t(2) sc [folded ch(2)]] ch(2) by blast
    have neg': "neg = (pre @ w @ c \<noteq> [] \<and> hd (pre @ w @ c) = CHR 0x5E)"
      using w(1,2) by (cases w) (auto simp: pre_def neg_def q_def split: if_splits)
    have "(if neg then tl (pre @ w @ c) else pre @ w @ c) = w @ c" by (simp add: pre_def)
    then have "glob_tokens chunk = Some (Class neg its # cs)"
      using glob_tokens_class [OF neg'] w(3) i(1) ch(1) by simp
    then show ?thesis using i ch(2) t(3) by auto
  next
    case Nil
    then show ?thesis using less.prems by auto
  next
    case (Star s)
    then show ?thesis using less.prems by auto
  next
    case (Any s)
    then show ?thesis using less.prems less.hyps [of s] by (fastforce simp: Let_def split: prod.splits)
  next
    case (Esc d s)
    then show ?thesis using less.prems less.hyps [of s] by (fastforce simp: Let_def split: prod.splits)
  next
    case BadEsc
    then show ?thesis using less.prems by simp
  next
    case (Lit c s)
    then show ?thesis using less.prems less.hyps [of s] by (fastforce simp: Let_def split: prod.splits if_splits)
  qed
qed

section \<open>The matcher implements the specification\<close>

definition ascii :: "string \<Rightarrow> bool" where
  "ascii s \<longleftrightarrow> (\<forall>c \<in> set s. byte c < 128)"

lemma ascii_drop: "ascii s \<Longrightarrow> ascii (drop n s)"
  by (meson ascii_def in_set_dropD)

text \<open>On ASCII a token uses up one byte.\<close>

lemma tok_match_ascii: "ascii s \<Longrightarrow> tok_match t s = Some s' \<Longrightarrow> s' = drop 1 s"
  by (cases t; cases s) (auto simp: ascii_def split: if_splits)

lemma toks_match_ascii: "ascii s \<Longrightarrow> toks_match cs s = Some t \<Longrightarrow> t = drop (length cs) s"
proof (induction cs arbitrary: s)
  case (Cons c cs)
  obtain s' where s': "tok_match c s = Some s'" "toks_match cs s' = Some t" using Cons.prems(2) by (auto split: option.splits)
  then have "s' = drop 1 s" using tok_match_ascii Cons.prems(1) by simp
  then show ?case using Cons.IH [of s'] s'(2) ascii_drop [OF Cons.prems(1)] by simp
qed simp

lemma search_sound:
  "star_search chunk last_chunk name = Rest t \<Longrightarrow>
     \<exists>i < length name. matchChunk chunk (drop (Suc i) name) = Rest t \<and> (last_chunk \<longrightarrow> t = [])"
proof (induction name)
  case (Cons b name)
  show ?case
  proof (cases "matchChunk chunk name = Rest t \<and> (last_chunk \<longrightarrow> t = [])")
    case False
    then have "star_search chunk last_chunk name = Rest t"
      using Cons.prems by (cases "matchChunk chunk name") (auto split: if_splits)
    then obtain i where "i < length name" "matchChunk chunk (drop (Suc i) name) = Rest t" "last_chunk \<longrightarrow> t = []"
      using Cons.IH by blast
    then show ?thesis by (intro exI [of _ "Suc i"]) simp
  next
    case True
    then show ?thesis by (intro exI [of _ 0]) simp
  qed
qed simp

lemma search_complete:
  assumes "glob_tokens chunk = Some cs" and "Star \<notin> set cs"
  shows "i < length name \<Longrightarrow> toks_match cs (drop (Suc i) name) = Some t \<Longrightarrow> last_chunk \<longrightarrow> t = [] \<Longrightarrow>
     \<exists>j \<le> i. \<exists>t'. star_search chunk last_chunk name = Rest t' \<and> toks_match cs (drop (Suc j) name) = Some t'
       \<and> (last_chunk \<longrightarrow> t' = [])"
proof (induction name arbitrary: i)
  case (Cons b name)
  have m: "matchChunk chunk name = (case toks_match cs name of None \<Rightarrow> NoMatch | Some t \<Rightarrow> Rest t)"
    by (rule matchChunk_toks [OF assms])
  show ?case
  proof (cases "\<exists>t'. toks_match cs name = Some t' \<and> (last_chunk \<longrightarrow> t' = [])")
    case True
    then show ?thesis using m by (intro exI [of _ 0]) auto
  next
    case False
    then have s: "star_search chunk last_chunk (b # name) = star_search chunk last_chunk name"
      using m by (auto split: option.splits)
    obtain k where k: "i = Suc k" using False Cons.prems(2,3) by (cases i) auto
    then obtain j t' where "j \<le> k" "star_search chunk last_chunk name = Rest t'"
      "toks_match cs (drop (Suc j) name) = Some t'" "last_chunk \<longrightarrow> t' = []"
      using Cons.IH [of k] Cons.prems by auto
    then show ?thesis using s k by (intro exI [of _ "Suc j"]) auto
  qed
qed simp

text \<open>What \<open>globMatch\<close> does with a pattern, in one step.\<close>

definition chunk_choice :: "bool \<Rightarrow> string \<Rightarrow> bool \<Rightarrow> string \<Rightarrow> chunk_result" where
  "chunk_choice star chunk last_chunk name =
     (case matchChunk chunk name of
        Rest t \<Rightarrow> if t = [] \<or> \<not> last_chunk then Rest t
                  else if star then star_search chunk last_chunk name else NoMatch
      | BadPattern \<Rightarrow> BadPattern
      | NoMatch \<Rightarrow> if star then star_search chunk last_chunk name else NoMatch)"

lemma globMatch_step:
  assumes "p \<noteq> []" and "scanChunk p = (star, chunk, rest)"
  shows "glob_MatchString p name \<longleftrightarrow> star \<and> chunk = []
     \<or> \<not> (star \<and> chunk = []) \<and> (\<exists>t. chunk_choice star chunk (rest = []) name = Rest t \<and> glob_MatchString rest t)"
  using assms by (auto simp: glob_MatchString_def globMatch.simps [of p] chunk_choice_def split: chunk_result.splits)

lemma choice_sound:
  assumes "chunk_choice star chunk last_chunk name = Rest t"
  shows "\<exists>i \<le> length name. matchChunk chunk (drop i name) = Rest t \<and> (i = 0 \<or> star) \<and> (last_chunk \<longrightarrow> t = [])"
proof (cases "matchChunk chunk name = Rest t \<and> (last_chunk \<longrightarrow> t = [])")
  case True
  then show ?thesis by (intro exI [of _ 0]) simp
next
  case False
  then have "star" "star_search chunk last_chunk name = Rest t"
    using assms by (auto simp: chunk_choice_def split: chunk_result.splits if_splits)
  then show ?thesis using search_sound by (metis Suc_leI)
qed

lemma choice_complete:
  assumes "glob_tokens chunk = Some cs" and "Star \<notin> set cs"
    and "i \<le> length name" and "toks_match cs (drop i name) = Some t" and "i = 0 \<or> star" and "last_chunk \<longrightarrow> t = []"
  shows "\<exists>j \<le> i. \<exists>t'. chunk_choice star chunk last_chunk name = Rest t' \<and> toks_match cs (drop j name) = Some t'
     \<and> (last_chunk \<longrightarrow> t' = [])"
proof -
  have m: "matchChunk chunk name = (case toks_match cs name of None \<Rightarrow> NoMatch | Some t \<Rightarrow> Rest t)"
    by (rule matchChunk_toks [OF assms(1,2)])
  show ?thesis
  proof (cases "\<exists>t'. toks_match cs name = Some t' \<and> (last_chunk \<longrightarrow> t' = [])")
    case True
    then show ?thesis using m by (intro exI [of _ 0]) (auto simp: chunk_choice_def)
  next
    case False
    obtain k where k: "i = Suc k" using False assms(4,6) by (cases i) auto
    then have "chunk_choice star chunk last_chunk name = star_search chunk last_chunk name"
      using False m assms(5) by (auto simp: chunk_choice_def split: option.splits)
    then show ?thesis
      using search_complete [OF assms(1,2), of k name t last_chunk] assms(3,4,6) k by (metis Suc_le_eq Suc_le_mono)
  qed
qed

lemma spec_stars: "glob_spec (replicate n Star @ ts) s \<longleftrightarrow> (if n = 0 then glob_spec ts s else glob_spec (Star # ts) s)"
proof (induction n arbitrary: s)
  case (Suc n)
  show ?case
  proof (cases n)
    case (Suc m)
    have "glob_spec (replicate (Suc n) Star @ ts) s \<longleftrightarrow> (\<exists>i \<le> length s. glob_spec (replicate n Star @ ts) (drop i s))"
      by simp
    also have "\<dots> \<longleftrightarrow> (\<exists>i \<le> length s. glob_spec (Star # ts) (drop i s))"
      unfolding Suc.IH by (simp only: Suc nat.distinct if_False)
    also have "\<dots> \<longleftrightarrow> glob_spec (Star # ts) s" using spec_star_longer by (metis drop0 le0)
    finally show ?thesis by simp
  qed simp
qed simp

text \<open>One step of the matcher and of the specification agree, if the rest does.\<close>

lemma step_agrees:
  assumes "ascii name" and "glob_tokens q = Some ts" and "scan_from False q = (chunk, rest)"
    and ih: "\<And>t rs. ascii t \<Longrightarrow> glob_tokens rest = Some rs \<Longrightarrow> glob_MatchString rest t \<longleftrightarrow> glob_spec rs t"
  shows "(\<exists>t. chunk_choice star chunk (rest = []) name = Rest t \<and> glob_MatchString rest t)
     \<longleftrightarrow> glob_spec (if star then Star # ts else ts) name"
proof -
  obtain cs rs where c: "glob_tokens chunk = Some cs" "glob_tokens rest = Some rs" "Star \<notin> set cs" "ts = cs @ rs"
    "rest = [] \<or> (\<exists>rs'. rs = Star # rs')" using scan_tokens [OF assms(2,3)] by blast
  have nil: "rest = [] \<Longrightarrow> rs = []" using c(2) by simp
  have spec: "glob_spec (if star then Star # ts else ts) name \<longleftrightarrow>
      (\<exists>i \<le> length name. (i = 0 \<or> star) \<and> (\<exists>t. toks_match cs (drop i name) = Some t \<and> glob_spec rs t))"
    using spec_append [OF c(3), of rs] c(4) by auto
  have asc: "ascii t" if "toks_match cs (drop i name) = Some t" for i t
    using toks_match_ascii [OF ascii_drop [OF assms(1)] that] ascii_drop [OF assms(1)] by simp
  show ?thesis
  proof
    assume "\<exists>t. chunk_choice star chunk (rest = []) name = Rest t \<and> glob_MatchString rest t"
    then obtain t i where t: "glob_MatchString rest t" "i \<le> length name" "matchChunk chunk (drop i name) = Rest t" "i = 0 \<or> star"
      using choice_sound by blast
    then have "toks_match cs (drop i name) = Some t" using matchChunk_toks [OF c(1,3)] by (simp split: option.splits)
    then show "glob_spec (if star then Star # ts else ts) name" using t ih [OF asc c(2)] spec by blast
  next
    assume "glob_spec (if star then Star # ts else ts) name"
    then obtain i t where t: "i \<le> length name" "i = 0 \<or> star" "toks_match cs (drop i name) = Some t" "glob_spec rs t"
      using spec by blast
    have "rest = [] \<longrightarrow> t = []" using t(4) nil by auto
    from choice_complete [OF c(1,3) t(1,3,2) this] obtain j t' where
      j: "j \<le> i" "chunk_choice star chunk (rest = []) name = Rest t'" "toks_match cs (drop j name) = Some t'"
      "rest = [] \<longrightarrow> t' = []" by blast
    have "glob_spec rs t'"
    proof (cases "rest = []")
      case True
      then show ?thesis using j(4) nil by simp
    next
      case False
      then obtain rs' where rs': "rs = Star # rs'" using c(5) by blast
      have "t = drop (i - j) t'"
        using toks_match_ascii [OF ascii_drop [OF assms(1)] t(3)] toks_match_ascii [OF ascii_drop [OF assms(1)] j(3)] j(1)
        by (simp add: add.commute)
      then show ?thesis using t(4) rs' spec_star_longer by metis
    qed
    then show "\<exists>t. chunk_choice star chunk (rest = []) name = Rest t \<and> glob_MatchString rest t"
      using j(2) ih [OF asc [OF j(3)] c(2)] by blast
  qed
qed

lemma stars_tokens: "glob_tokens (replicate n CHR ''*'' @ q) = map_option ((@) (replicate n Star)) (glob_tokens q)"
proof (induction n)
  case (Suc n)
  then show ?case by (cases "glob_tokens q") simp_all
qed (cases "glob_tokens q"; simp)

lemma scanChunk_split:
  assumes "scanChunk p = (star, chunk, rest)"
  obtains n q where "p = replicate n CHR ''*'' @ q" "scan_from False q = (chunk, rest)" "star \<longleftrightarrow> n \<noteq> 0"
    "q \<noteq> [] \<Longrightarrow> chunk \<noteq> []"
proof -
  let ?P = "\<lambda>c. c = CHR ''*''"
  have s: "scan_from False (dropWhile ?P p) = (chunk, rest)" "star = (dropWhile ?P p \<noteq> p)"
    using assms by (auto simp: scanChunk_def Let_def)
  have "takeWhile ?P p = replicate (length (takeWhile ?P p)) CHR ''*''"
    by (rule replicate_length_same [symmetric]) (auto dest: set_takeWhileD)
  then have "p = replicate (length (takeWhile ?P p)) CHR ''*'' @ dropWhile ?P p" by (metis takeWhile_dropWhile_id)
  moreover have "dropWhile ?P p = p \<longleftrightarrow> takeWhile ?P p = []" by (metis append_self_conv2 takeWhile_dropWhile_id)
  then have "star \<longleftrightarrow> length (takeWhile ?P p) \<noteq> 0" using s(2) by simp
  moreover have "dropWhile ?P p \<noteq> [] \<Longrightarrow> chunk \<noteq> []"
    using scan_from_progress [OF s(1)] hd_dropWhile [of ?P p] by blast
  ultimately show thesis using that s(1) by blast
qed

lemma globMatch_tokens: "glob_MatchString p name \<Longrightarrow> \<exists>ts. glob_tokens p = Some ts"
proof (induction "length p" arbitrary: p name rule: less_induct)
  case less
  show ?case
  proof (cases "p = []")
    case False
    obtain star chunk rest where sc: "scanChunk p = (star, chunk, rest)" by (metis prod_cases3)
    then obtain n q where q: "p = replicate n CHR ''*'' @ q" "scan_from False q = (chunk, rest)" "q \<noteq> [] \<Longrightarrow> chunk \<noteq> []"
      by (metis scanChunk_split)
    have "\<exists>ts. glob_tokens q = Some ts"
    proof (cases "chunk = []")
      case True
      then have "q = []" using q(3) by blast
      then show ?thesis by simp
    next
      case ne: False
      obtain t where t: "chunk_choice star chunk (rest = []) name = Rest t" "glob_MatchString rest t"
        using less.prems globMatch_step [OF False sc] ne by blast
      obtain cs where "glob_tokens chunk = Some cs" using choice_sound [OF t(1)] matchChunk_Rest by blast
      moreover obtain rs where "glob_tokens rest = Some rs" using less.hyps [OF scanChunk_shorter [OF sc False] t(2)] by blast
      ultimately show ?thesis using tokens_append scan_from_append [OF q(2)] by fastforce
    qed
    then show ?thesis using q(1) stars_tokens by auto
  qed simp
qed

lemma glob_accepts_iff:
  assumes "ascii name"
  shows "glob_MatchString p name \<longleftrightarrow> (case glob_tokens p of None \<Rightarrow> False | Some ts \<Rightarrow> glob_spec ts name)"
proof -
  have "glob_MatchString p name \<longleftrightarrow> glob_spec ts name" if "glob_tokens p = Some ts" "ascii name" for ts
    using that
  proof (induction "length p" arbitrary: p name ts rule: less_induct)
    case less
    show ?case
    proof (cases "p = []")
      case True
      then show ?thesis using less.prems by (simp add: glob_MatchString_def globMatch.simps [of "[]"])
    next
      case False
      obtain star chunk rest where sc: "scanChunk p = (star, chunk, rest)" by (metis prod_cases3)
      then obtain n q where q: "p = replicate n CHR ''*'' @ q" "scan_from False q = (chunk, rest)" "star \<longleftrightarrow> n \<noteq> 0" "q \<noteq> [] \<Longrightarrow> chunk \<noteq> []"
        by (metis scanChunk_split)
      obtain ts' where t: "glob_tokens q = Some ts'" "ts = replicate n Star @ ts'"
        using less.prems(1) q(1) stars_tokens by auto
      have spec: "glob_spec ts name \<longleftrightarrow> glob_spec (if star then Star # ts' else ts') name"
        using spec_stars [of n ts' name] t(2) q(3) by simp
      show ?thesis
      proof (cases "chunk = []")
        case True
        then have "q = []" using q(4) by blast
        moreover have "ts' = []" using t(1) calculation by simp
        ultimately show ?thesis using True False q(1,3) spec globMatch_step [OF False sc] by (auto intro: exI [of _ "length name"])
      next
        case ne: False
        have "glob_MatchString rest t \<longleftrightarrow> glob_spec rs t" if "ascii t" "glob_tokens rest = Some rs" for t rs
          using less.hyps [OF scanChunk_shorter [OF sc False]] that by blast
        then show ?thesis using step_agrees [OF less.prems(2) t(1) q(2)] globMatch_step [OF False sc] ne spec by blast
      qed
    qed
  qed
  then show ?thesis using assms globMatch_tokens [of p name] by (auto split: option.splits)
qed


lemmas glob_eval = glob_MatchString_def globMatch_code scanChunk_def matchChunk.simps class_loop_code class_items_code
  getEsc_def Let_def glob_tokens.simps RuneError_def


end
