(* ===== verification/Matcher.thy ===== *)
theory Matcher
  imports Glob
begin

text \<open>
  \<open>pkg/matcher\<close>: string, glob, regexp and simple pattern matchers, their logical combinations, the
  syntax they are written in, and the cache in front of them.  The \<open>regexp\<close> package is a
  parameter: what an expression compiles to, if it does, and when that matches.  \<open>Match\<close> on bytes
  and \<open>MatchString\<close> are one function, a string being a list of bytes.
\<close>

section \<open>Matchers\<close>

datatype 're Matcher =
  trueMatcher
| falseMatcher
| stringFullMatcher string
| stringPartialMatcher string
| stringPrefixMatcher string
| stringSuffixMatcher string
| globMatcher string
| regexpMatcher 're
| simplePatternsMatcher "('re Matcher \<times> bool) list"
| andMatcher "'re Matcher" "'re Matcher"
| orMatcher "'re Matcher" "'re Matcher"
| negMatcher "'re Matcher"

fun MatchString :: "('re \<Rightarrow> string \<Rightarrow> bool) \<Rightarrow> 're Matcher \<Rightarrow> string \<Rightarrow> bool"
  and match_terms :: "('re \<Rightarrow> string \<Rightarrow> bool) \<Rightarrow> ('re Matcher \<times> bool) list \<Rightarrow> string \<Rightarrow> bool" where
  "MatchString re trueMatcher s = True"
| "MatchString re falseMatcher s = False"
| "MatchString re (stringFullMatcher m) s = (m = s)"
| "MatchString re (stringPartialMatcher m) s = Contains s m"
| "MatchString re (stringPrefixMatcher m) s = HasPrefix s m"
| "MatchString re (stringSuffixMatcher m) s = HasSuffix s m"
| "MatchString re (globMatcher m) s = glob_MatchString m s"
| "MatchString re (regexpMatcher r) s = re r s"
| "MatchString re (simplePatternsMatcher ps) s = match_terms re ps s"
| "MatchString re (andMatcher lhs rhs) s = (MatchString re lhs s \<and> MatchString re rhs s)"
| "MatchString re (orMatcher lhs rhs) s = (MatchString re lhs s \<or> MatchString re rhs s)"
| "MatchString re (negMatcher m) s = (\<not> MatchString re m s)"
| "match_terms re [] s = False"
| "match_terms re ((m, positive) # ps) s = (if MatchString re m s then positive else match_terms re ps s)"

definition NewStringMatcher :: "string \<Rightarrow> bool \<Rightarrow> bool \<Rightarrow> 're Matcher" where
  "NewStringMatcher s startWith endWith =
     (if startWith \<and> endWith then stringFullMatcher s
      else if startWith \<and> \<not> endWith then stringPrefixMatcher s
      else if \<not> startWith \<and> endWith then stringSuffixMatcher s
      else stringPartialMatcher s)"

section \<open>Logical combinations\<close>

definition Not_matcher :: "'re Matcher \<Rightarrow> 're Matcher" where
  "Not_matcher m = (case m of trueMatcher \<Rightarrow> falseMatcher | falseMatcher \<Rightarrow> trueMatcher | _ \<Rightarrow> negMatcher m)"

text \<open>\<open>And\<close> and \<open>Or\<close>: the two nested switches, then the other arguments.\<close>

definition and_two :: "'re Matcher \<Rightarrow> 're Matcher \<Rightarrow> 're Matcher" where
  "and_two lhs rhs =
     (case lhs of
        trueMatcher \<Rightarrow> rhs
      | falseMatcher \<Rightarrow> falseMatcher
      | _ \<Rightarrow> (case rhs of trueMatcher \<Rightarrow> lhs | falseMatcher \<Rightarrow> falseMatcher | _ \<Rightarrow> andMatcher lhs rhs))"

fun And_matcher :: "'re Matcher \<Rightarrow> 're Matcher \<Rightarrow> 're Matcher list \<Rightarrow> 're Matcher" where
  "And_matcher lhs rhs [] = and_two lhs rhs"
| "And_matcher lhs rhs (x # xs) = And_matcher (and_two lhs rhs) x xs"

definition or_two :: "'re Matcher \<Rightarrow> 're Matcher \<Rightarrow> 're Matcher" where
  "or_two lhs rhs =
     (case lhs of
        trueMatcher \<Rightarrow> trueMatcher
      | falseMatcher \<Rightarrow> rhs
      | _ \<Rightarrow> (case rhs of trueMatcher \<Rightarrow> trueMatcher | falseMatcher \<Rightarrow> lhs | _ \<Rightarrow> orMatcher lhs rhs))"

fun Or_matcher :: "'re Matcher \<Rightarrow> 're Matcher \<Rightarrow> 're Matcher list \<Rightarrow> 're Matcher" where
  "Or_matcher lhs rhs [] = or_two lhs rhs"
| "Or_matcher lhs rhs (x # xs) = Or_matcher (or_two lhs rhs) x xs"

declare And_matcher.simps [simp del] Or_matcher.simps [simp del]

section \<open>Glob patterns\<close>

text \<open>The expression \<open>erGlobPattern\<close>, over the runes of a pattern: stars and question marks, classes,
  escapes, other characters.  In a class a single character is anything but a backslash and a
  closing bracket (the expression has the range from one to the other), and \<open>.-.\<close> any range.\<close>

abbreviation rune_of :: "char \<Rightarrow> rune" where
  "rune_of c \<equiv> byte c"

function glob_valid :: "rune list \<Rightarrow> bool" and class_valid :: "bool \<Rightarrow> rune list \<Rightarrow> bool" where
  "glob_valid [] = True"
| "glob_valid (r # rs) =
     (if r = rune_of CHR ''*'' \<or> r = rune_of CHR ''?'' then glob_valid rs
      else if r = rune_of CHR ''['' then
        (class_valid False rs \<or> (case rs of [] \<Rightarrow> False | r' # rs' \<Rightarrow> r' = rune_of CHR 0x5E \<and> class_valid False rs'))
      else if r = rune_of CHR 0x5C then (case rs of [] \<Rightarrow> False | r' # rs' \<Rightarrow> glob_valid rs')
      else glob_valid rs)"
| "class_valid seen [] = False"
| "class_valid seen (r # rs) =
     ((seen \<and> r = rune_of CHR '']'' \<and> glob_valid rs)
      \<or> (r \<noteq> rune_of CHR 0x5C \<and> r \<noteq> rune_of CHR '']'' \<and> class_valid True rs)
      \<or> (case rs of
           [] \<Rightarrow> False
         | r1 # rs1 \<Rightarrow>
             (r = rune_of CHR 0x5C \<and> class_valid True rs1)
             \<or> (r1 = rune_of CHR ''-'' \<and> (case rs1 of [] \<Rightarrow> False | r2 # rs2 \<Rightarrow> class_valid True rs2))))"
  by pat_completeness auto
termination
  by (relation "measure (\<lambda>x. case x of Inl rs \<Rightarrow> length rs | Inr (seen, rs) \<Rightarrow> length rs)") auto

definition isGlobMeta :: "rune \<Rightarrow> bool" where
  "isGlobMeta ch \<longleftrightarrow> ch \<in> {rune_of CHR ''*'', rune_of CHR ''?'', rune_of CHR ''[''}"

text \<open>The loop that undoes the escapes, from one index up to another: the runes, a character with a
  meaning, or an index out of range.\<close>

datatype unescaped = Plain "rune list" | Special | OutOfRange

function glob_unescape :: "rune list \<Rightarrow> nat \<Rightarrow> nat \<Rightarrow> rune list \<Rightarrow> unescaped" where
  "glob_unescape chars i stop acc =
     (if i \<ge> stop then Plain acc
      else if i \<ge> length chars then OutOfRange
      else if chars ! i = rune_of CHR 0x5C then
        (if i + 1 \<ge> length chars then OutOfRange
         else glob_unescape chars (i + 2) stop (acc @ [chars ! (i + 1)]))
      else if isGlobMeta (chars ! i) then Special
      else glob_unescape chars (i + 1) stop (acc @ [chars ! i]))"
  by pat_completeness auto
termination
  by (relation "measure (\<lambda>(chars, i, stop, acc). stop - i)") auto

declare glob_unescape.simps [simp del]

text \<open>\<open>NewGlobMatcher\<close>; the outer option is a panic.\<close>

type_synonym 're built = "(go_error + 're Matcher) option"

definition NewGlobMatcher :: "string \<Rightarrow> 're built" where
  "NewGlobMatcher expr =
     (if expr = [] then Some (Inr (stringFullMatcher []))
      else if expr = ''*'' then Some (Inr trueMatcher)
      else if \<not> glob_valid (runes expr) then Some (Inl ''bad glob pattern'')
      else let size = length expr; chars = runes expr
           in if size - 1 \<ge> length chars then None
              else let startWith = (chars ! 0 \<noteq> rune_of CHR ''*'');
                       endWith = (chars ! (size - 1) \<noteq> rune_of CHR ''*'')
                   in case glob_unescape chars (if startWith then 0 else 1) (if endWith then size else size - 1) [] of
                        OutOfRange \<Rightarrow> None
                      | Special \<Rightarrow> Some (Inr (globMatcher expr))
                      | Plain u \<Rightarrow> Some (Inr (NewStringMatcher (string_of_runes u) startWith endWith)))"

section \<open>Regular expressions\<close>

definition isRegExpMeta :: "rune \<Rightarrow> bool" where
  "isRegExpMeta b \<longleftrightarrow> b \<in> rune_of ` set (CHR 0x5C # ''.+*?()|[]{}^$'')"

function re_unescape :: "rune list \<Rightarrow> nat \<Rightarrow> nat \<Rightarrow> rune list \<Rightarrow> unescaped" where
  "re_unescape chars i stop acc =
     (if i \<ge> stop then Plain acc
      else if i \<ge> length chars then OutOfRange
      else if chars ! i = rune_of CHR 0x5C then
        (if i + 1 = stop then Special
         else if i + 1 \<ge> length chars then OutOfRange
         else if \<not> isRegExpMeta (chars ! (i + 1)) then Special
         else re_unescape chars (i + 2) stop (acc @ [chars ! (i + 1)]))
      else if isRegExpMeta (chars ! i) then Special
      else re_unescape chars (i + 1) stop (acc @ [chars ! i]))"
  by pat_completeness auto
termination
  by (relation "measure (\<lambda>(chars, i, stop, acc). stop - i)") auto

declare re_unescape.simps [simp del]

definition NewRegExpMatcher :: "(string \<Rightarrow> go_error + 're) \<Rightarrow> string \<Rightarrow> 're built" where
  "NewRegExpMatcher compile expr =
     (if expr \<in> {'''', [CHR 0x5E], ''$''} then Some (Inr trueMatcher)
      else if expr \<in> {[CHR 0x5E, CHR ''$''], [CHR ''$'', CHR 0x5E]} then Some (Inr (NewStringMatcher '''' True True))
      else let size = length expr; chars = runes expr
           in if size - 1 \<ge> length chars then None
              else let startWith = (chars ! 0 = rune_of CHR 0x5E); endWith = (chars ! (size - 1) = rune_of CHR ''$'')
                   in case re_unescape chars (if startWith then 1 else 0) (if endWith then size - 1 else size) [] of
                        OutOfRange \<Rightarrow> None
                      | Special \<Rightarrow> Some (case compile expr of Inl err \<Rightarrow> Inl err | Inr r \<Rightarrow> Inr (regexpMatcher r))
                      | Plain u \<Rightarrow> Some (Inr (NewStringMatcher (string_of_runes u) startWith endWith)))"

section \<open>Simple patterns\<close>

text \<open>The loop of \<open>NewSimplePatternsMatcher\<close> with \<open>add\<close>; a field is never empty.\<close>

fun simple_terms :: "string list \<Rightarrow> (go_error + ('re Matcher \<times> bool) list) option" where
  "simple_terms [] = Some (Inr [])"
| "simple_terms (term # terms) =
     (let positive = (hd term \<noteq> CHR ''!'')
      in case NewGlobMatcher (if positive then term else tl term) of
           None \<Rightarrow> None
         | Some (Inl err) \<Rightarrow> Some (Inl err)
         | Some (Inr m) \<Rightarrow>
             (case simple_terms terms of
                None \<Rightarrow> None
              | Some (Inl err) \<Rightarrow> Some (Inl err)
              | Some (Inr ps) \<Rightarrow> Some (Inr ((m, positive) # ps))))"

definition NewSimplePatternsMatcher :: "string \<Rightarrow> 're built" where
  "NewSimplePatternsMatcher expr =
     (case simple_terms (Fields expr) of
        None \<Rightarrow> None
      | Some (Inl err) \<Rightarrow> Some (Inl err)
      | Some (Inr ps) \<Rightarrow> Some (Inr (if length ps = 0 then falseMatcher else simplePatternsMatcher ps)))"

section \<open>Syntax\<close>

definition FmtString :: string where "FmtString = ''string''"
definition FmtGlob :: string where "FmtGlob = ''glob''"
definition FmtRegExp :: string where "FmtRegExp = ''regexp''"
definition FmtSimplePattern :: string where "FmtSimplePattern = ''simple_patterns''"

lemmas format_defs = FmtString_def FmtGlob_def FmtRegExp_def FmtSimplePattern_def

definition NewMatcher :: "(string \<Rightarrow> go_error + 're) \<Rightarrow> string \<Rightarrow> string \<Rightarrow> 're built" where
  "NewMatcher compile fmt expr =
     (if fmt = FmtString then Some (Inr (NewStringMatcher expr True True))
      else if fmt = FmtGlob then NewGlobMatcher expr
      else if fmt = FmtRegExp then NewRegExpMatcher compile expr
      else if fmt = FmtSimplePattern then NewSimplePatternsMatcher expr
      else Some (Inl (''unsupported matcher format: '' @ [CHR 0x27] @ fmt @ [CHR 0x27])))"

definition negate_built :: "bool \<Rightarrow> 're built \<Rightarrow> 're built" where
  "negate_built neg b =
     (case b of Some (Inr m) \<Rightarrow> Some (Inr (if neg then Not_matcher m else m)) | _ \<Rightarrow> b)"

text \<open>\<open>reShortSyntax\<close> (an optional exclamation mark, one character, white space, the rest) and
  \<open>reLongSyntax\<close> (an optional exclamation mark, a non-empty format, a colon, the rest).  The mark is
  part of the format when nothing else could be.\<close>

definition short_syntax :: "string \<Rightarrow> (bool \<times> char \<times> string) option" where
  "short_syntax line =
     (case line of
        [] \<Rightarrow> None
      | [c] \<Rightarrow> Some (False, c, [])
      | c # d # s \<Rightarrow> if c = CHR ''!'' then Some (True, d, dropWhile re_space s)
                     else Some (False, c, dropWhile re_space (d # s)))"

definition colon_split :: "string \<Rightarrow> (string \<times> string) option" where
  "colon_split s = (let f = takeWhile (\<lambda>c. c \<noteq> CHR '':'') s
                    in if f = [] \<or> f = s then None else Some (f, tl (dropWhile (\<lambda>c. c \<noteq> CHR '':'') s)))"

definition long_syntax :: "string \<Rightarrow> (bool \<times> string \<times> string) option" where
  "long_syntax line =
     (case line of
        [] \<Rightarrow> None
      | c # s \<Rightarrow>
          if c = CHR ''!'' \<and> colon_split s \<noteq> None then map_option (Pair True) (colon_split s)
          else map_option (Pair False) (colon_split line))"

definition parseShortFormat :: "(string \<Rightarrow> go_error + 're) \<Rightarrow> string \<Rightarrow> 're built" where
  "parseShortFormat compile line =
     (case short_syntax line of
        None \<Rightarrow> Some (Inl ''not short syntax'')
      | Some (neg, c, expr) \<Rightarrow>
          if c = CHR ''='' then negate_built neg (NewMatcher compile FmtString expr)
          else if c = CHR ''*'' then negate_built neg (NewMatcher compile FmtGlob expr)
          else if c = CHR ''~'' then negate_built neg (NewMatcher compile FmtRegExp expr)
          else Some (Inl (''invalid short syntax: unknown symbol '' @ [CHR 0x27, c, CHR 0x27])))"

definition parseLongSyntax :: "(string \<Rightarrow> go_error + 're) \<Rightarrow> string \<Rightarrow> 're built" where
  "parseLongSyntax compile line =
     (case long_syntax line of
        None \<Rightarrow> Some (Inl ''invalid syntax'')
      | Some (neg, fmt, expr) \<Rightarrow> negate_built neg (NewMatcher compile fmt expr))"

definition Parse :: "(string \<Rightarrow> go_error + 're) \<Rightarrow> string \<Rightarrow> 're built" where
  "Parse compile line =
     (case parseShortFormat compile line of
        None \<Rightarrow> None
      | Some (Inr m) \<Rightarrow> Some (Inr m)
      | Some (Inl err) \<Rightarrow> parseLongSyntax compile line)"

section \<open>Expressions\<close>

record SimpleExpr =
  se_Includes :: "string list"
  se_Excludes :: "string list"

definition SimpleExpr_Empty :: "SimpleExpr \<Rightarrow> bool" where
  "SimpleExpr_Empty s \<longleftrightarrow> length (se_Includes s) = 0 \<and> length (se_Excludes s) = 0"

text \<open>The verb \<open>%q\<close>, for ASCII: quotes and backslashes are escaped, as are control characters, by their
  letter when they have one and by their code otherwise.\<close>

definition quote_char :: "char \<Rightarrow> string" where
  "quote_char c =
     (if c \<in> {CHR 0x22, CHR 0x5C} then [CHR 0x5C, c]
      else if byte c \<in> {7 ..< 14 :: nat} then [CHR 0x5C, ''abtnvfr'' ! (byte c - 7)]
      else if byte c < (32 :: nat) \<or> byte c = (127 :: nat)
        then [CHR 0x5C, CHR ''x'', ''0123456789abcdef'' ! (byte c div 16), ''0123456789abcdef'' ! (byte c mod 16)]
      else [c])"

definition Quote :: "string \<Rightarrow> string" where
  "Quote s = [CHR 0x22] @ concat (map quote_char s) @ [CHR 0x22]"

text \<open>The two loops; the item is quoted in the error.\<close>

fun parse_items :: "(string \<Rightarrow> go_error + 're) \<Rightarrow> string list \<Rightarrow> 're Matcher \<Rightarrow> 're built" where
  "parse_items compile [] m = Some (Inr m)"
| "parse_items compile (item # items) m =
     (case Parse compile item of
        None \<Rightarrow> None
      | Some (Inl err) \<Rightarrow> Some (Inl (''parse matcher '' @ Quote item @ '' error: '' @ err))
      | Some (Inr m') \<Rightarrow> parse_items compile items (Or_matcher m m' []))"

definition SimpleExpr_Parse :: "(string \<Rightarrow> go_error + 're) \<Rightarrow> SimpleExpr \<Rightarrow> 're built" where
  "SimpleExpr_Parse compile s =
     (if length (se_Includes s) = 0 \<and> length (se_Excludes s) = 0 then Some (Inl ''empty expression'')
      else (case (if length (se_Includes s) > 0 then parse_items compile (se_Includes s) falseMatcher
                  else Some (Inr trueMatcher)) of
              None \<Rightarrow> None
            | Some (Inl err) \<Rightarrow> Some (Inl err)
            | Some (Inr includes) \<Rightarrow>
                (case parse_items compile (se_Excludes s) falseMatcher of
                   None \<Rightarrow> None
                 | Some (Inl err) \<Rightarrow> Some (Inl err)
                 | Some (Inr excludes) \<Rightarrow> Some (Inr (And_matcher includes (Not_matcher excludes) [])))))"

section \<open>The cache\<close>

record 're cachedMatcher =
  cm_matcher :: "'re Matcher"
  cm_cache :: "string \<rightharpoonup> bool"

datatype 're withCache = Uncached "'re Matcher" | Cached "'re cachedMatcher"

definition WithCache :: "'re Matcher \<Rightarrow> 're withCache" where
  "WithCache m = (case m of
      trueMatcher \<Rightarrow> Uncached m | falseMatcher \<Rightarrow> Uncached m
    | _ \<Rightarrow> Cached \<lparr>cm_matcher = m, cm_cache = Map.empty\<rparr>)"

definition fetch :: "'re cachedMatcher \<Rightarrow> string \<Rightarrow> bool option" where
  "fetch m key = cm_cache m key"

definition put :: "string \<Rightarrow> bool \<Rightarrow> 're cachedMatcher \<Rightarrow> 're cachedMatcher" where
  "put key r m = m\<lparr>cm_cache := (cm_cache m)(key \<mapsto> r)\<rparr>"

text \<open>One call: the lock is released between the look-up and the insertion, where other calls may
  have changed the cache to \<open>m1\<close>.\<close>

definition cached_MatchString :: "('re \<Rightarrow> string \<Rightarrow> bool) \<Rightarrow> string \<Rightarrow> 're cachedMatcher \<Rightarrow> 're cachedMatcher
    \<Rightarrow> bool \<times> 're cachedMatcher" where
  "cached_MatchString re s m m1 =
     (case fetch m s of
        Some r \<Rightarrow> (r, m)
      | None \<Rightarrow> let r = MatchString re (cm_matcher m) s in (r, put s r m1))"

text \<open>A cache that agrees with its matcher answers as the matcher does and goes on agreeing with it,
  whatever other calls put in while this one was computing.\<close>

definition cache_agrees :: "('re \<Rightarrow> string \<Rightarrow> bool) \<Rightarrow> 're Matcher \<Rightarrow> 're cachedMatcher \<Rightarrow> bool" where
  "cache_agrees re m c \<longleftrightarrow> cm_matcher c = m \<and> (\<forall>s r. cm_cache c s = Some r \<longrightarrow> r = MatchString re m s)"

lemma WithCache_agrees: "WithCache m = Cached c \<Longrightarrow> cache_agrees re m c"
  by (cases m) (auto simp: WithCache_def cache_agrees_def)

lemma cached_MatchString_agrees:
  assumes "cache_agrees re m c" and "cache_agrees re m c1" and "cached_MatchString re s c c1 = (r, c')"
  shows "r = MatchString re m s \<and> cache_agrees re m c'"
  using assms by (auto simp: cached_MatchString_def fetch_def put_def cache_agrees_def Let_def split: option.splits if_splits)

section \<open>The combinations mean what they say\<close>

lemma MatchString_Not [simp]: "MatchString re (Not_matcher m) s \<longleftrightarrow> \<not> MatchString re m s"
  by (cases m) (simp_all add: Not_matcher_def)

lemma match_two:
  "MatchString re (and_two l r) s \<longleftrightarrow> MatchString re l s \<and> MatchString re r s"
  "MatchString re (or_two l r) s \<longleftrightarrow> MatchString re l s \<or> MatchString re r s"
  by (cases l; cases r; simp add: and_two_def or_two_def)+

lemma MatchString_And [simp]:
  "MatchString re (And_matcher l r others) s \<longleftrightarrow> MatchString re l s \<and> MatchString re r s \<and> (\<forall>m \<in> set others. MatchString re m s)"
  by (induction l r others rule: And_matcher.induct) (auto simp: And_matcher.simps match_two)

lemma MatchString_Or [simp]:
  "MatchString re (Or_matcher l r others) s \<longleftrightarrow> MatchString re l s \<or> MatchString re r s \<or> (\<exists>m \<in> set others. MatchString re m s)"
  by (induction l r others rule: Or_matcher.induct) (auto simp: Or_matcher.simps match_two)

text \<open>Does the matcher an item is parsed into match?\<close>

definition item_matches :: "(string \<Rightarrow> go_error + 're) \<Rightarrow> ('re \<Rightarrow> string \<Rightarrow> bool) \<Rightarrow> string \<Rightarrow> string \<Rightarrow> bool" where
  "item_matches compile re item s \<longleftrightarrow> (case Parse compile item of Some (Inr m) \<Rightarrow> MatchString re m s | _ \<Rightarrow> False)"

lemma parse_items_matches:
  "parse_items compile items m = Some (Inr m') \<Longrightarrow>
     MatchString re m' s \<longleftrightarrow> MatchString re m s \<or> (\<exists>item \<in> set items. item_matches compile re item s)"
  by (induction items arbitrary: m) (auto simp: item_matches_def split: option.splits sum.splits)

lemma parse_items_ok:
  "(\<exists>m'. parse_items compile items m = Some (Inr m')) \<longleftrightarrow> (\<forall>item \<in> set items. \<exists>m'. Parse compile item = Some (Inr m'))"
  by (induction items arbitrary: m) (auto split: option.splits sum.splits)

text \<open>
  An expression of includes and excludes is parsed exactly when it is not empty and all its
  items are; the matcher it gives accepts a value when some include matches it, or there are
  none, and no exclude does.
\<close>

theorem SimpleExpr_Parse_spec:
  "((\<exists>m. SimpleExpr_Parse compile e = Some (Inr m)) \<longleftrightarrow> \<not> SimpleExpr_Empty e
      \<and> (\<forall>item \<in> set (se_Includes e @ se_Excludes e). \<exists>m. Parse compile item = Some (Inr m)))
   \<and> (\<forall>m v. SimpleExpr_Parse compile e = Some (Inr m) \<longrightarrow>
        (MatchString re m v \<longleftrightarrow>
          (se_Includes e = [] \<or> (\<exists>item \<in> set (se_Includes e). item_matches compile re item v))
          \<and> \<not> (\<exists>item \<in> set (se_Excludes e). item_matches compile re item v)))"
proof -
  let ?inc = "if length (se_Includes e) > 0 then parse_items compile (se_Includes e) falseMatcher else Some (Inr trueMatcher)"
  let ?exc = "parse_items compile (se_Excludes e) falseMatcher"
  have ok: "(\<exists>i. ?inc = Some (Inr i)) \<longleftrightarrow> (\<forall>item \<in> set (se_Includes e). \<exists>m. Parse compile item = Some (Inr m))"
    "(\<exists>x. ?exc = Some (Inr x)) \<longleftrightarrow> (\<forall>item \<in> set (se_Excludes e). \<exists>m. Parse compile item = Some (Inr m))"
    using parse_items_ok [of compile "se_Includes e" falseMatcher] parse_items_ok [of compile "se_Excludes e" falseMatcher]
    by auto
  have eq: "SimpleExpr_Parse compile e = Some (Inr m) \<longleftrightarrow> \<not> SimpleExpr_Empty e
      \<and> (\<exists>i x. ?inc = Some (Inr i) \<and> ?exc = Some (Inr x) \<and> m = And_matcher i (Not_matcher x) [])" for m
    unfolding SimpleExpr_Parse_def SimpleExpr_Empty_def by (auto split: option.splits sum.splits if_splits)
  have inc: "MatchString re i v \<longleftrightarrow> se_Includes e = [] \<or> (\<exists>item \<in> set (se_Includes e). item_matches compile re item v)"
    if "?inc = Some (Inr i)" for i v
    using that parse_items_matches [of compile "se_Includes e" falseMatcher i re v] by (auto split: if_splits)
  have exc: "MatchString re x v \<longleftrightarrow> (\<exists>item \<in> set (se_Excludes e). item_matches compile re item v)"
    if "?exc = Some (Inr x)" for x v
    using parse_items_matches [OF that, of re v] by simp
  show ?thesis unfolding eq using ok inc exc by (auto simp: ball_Un)
qed

text \<open>A regexp package without regexps, for the examples.\<close>

definition no_regexp :: "string \<Rightarrow> go_error + unit" where
  "no_regexp expr = Inl ''unsupported''"

theorem SimpleExpr_Parse_spec_witness:
  "\<exists>m. SimpleExpr_Parse no_regexp \<lparr>se_Includes = [''= a'', ''string:b''], se_Excludes = [''!= a'']\<rparr> = Some (Inr m)
     \<and> MatchString (\<lambda>r s. False) m ''a'' \<and> \<not> MatchString (\<lambda>r s. False) m ''b''"
proof -
  let ?e = "\<lparr>se_Includes = [''= a'', ''string:b''], se_Excludes = [''!= a'']\<rparr>"
  have p: "Parse no_regexp ''= a'' = Some (Inr (stringFullMatcher ''a''))"
    "Parse no_regexp ''string:b'' = Some (Inr (stringFullMatcher ''b''))"
    "Parse no_regexp ''!= a'' = Some (Inr (negMatcher (stringFullMatcher ''a'')))" by code_simp+
  then have "\<exists>m. SimpleExpr_Parse no_regexp ?e = Some (Inr m)"
    using SimpleExpr_Parse_spec [of no_regexp ?e] by (simp add: SimpleExpr_Empty_def)
  then obtain m where m: "SimpleExpr_Parse no_regexp ?e = Some (Inr m)" by blast
  then show ?thesis using SimpleExpr_Parse_spec [of no_regexp ?e "\<lambda>r s. False"] p
    by (simp add: item_matches_def)
qed

section \<open>The glob shortcuts\<close>

lemma runes_ascii: "ascii s \<Longrightarrow> runes s = map byte s"
  by (simp add: runes_def ascii_def rune_chunks_ascii)

lemma byte_eq [simp]: "byte c = (byte d :: nat) \<longleftrightarrow> c = d"
  by (metis char_of_char)

lemmas byte_special = byte_eq [of _ "CHR 0x5C", simplified] byte_eq [of _ "CHR ''*''", simplified]
  byte_eq [of _ "CHR ''?''", simplified] byte_eq [of _ "CHR ''[''", simplified]

text \<open>What the loop over the characters leaves is a sequence of literals; it stops at its end, or one
  character later when that one is escaped.\<close>

lemma glob_unescape_tokens:
  "glob_unescape (map byte cs) i stop acc = Plain v \<Longrightarrow> i \<le> Suc stop \<Longrightarrow> i \<le> length cs \<Longrightarrow> stop \<le> length cs \<Longrightarrow>
     \<exists>u j. v = acc @ map byte u \<and> i \<le> j \<and> stop \<le> j \<and> j \<le> Suc stop \<and> j \<le> length cs
       \<and> glob_tokens (take (j - i) (drop i cs)) = Some (map Lit u) \<and> set u \<subseteq> set cs
       \<and> (i \<le> stop \<and> j = Suc stop \<longrightarrow> u \<noteq> [] \<and> last u = cs ! stop)"
proof (induction "map byte cs :: rune list" i stop acc rule: glob_unescape.induct)
  case (1 i stop acc)
  show ?case
  proof (cases "i \<ge> stop")
    case True
    then show ?thesis using "1.prems" by (intro exI [of _ "[]"] exI [of _ i]) (auto simp: glob_unescape.simps)
  next
    case False
    have i: "i < length cs" "drop i cs = cs ! i # drop (Suc i) cs"
      using False "1.prems"(4) Cons_nth_drop_Suc [of i cs] by simp_all
    show ?thesis
    proof (cases "cs ! i = CHR 0x5C")
      case True
      have i1: "i + 1 < length cs" using "1.prems"(1) False i True by (auto simp: glob_unescape.simps [of _ i] split: if_splits)
      then have d: "drop i cs = CHR 0x5C # cs ! (i + 1) # drop (i + 2) cs" using i(2) True Cons_nth_drop_Suc [of "i + 1" cs] by simp
      have "glob_unescape (map byte cs) (i + 2) stop (acc @ [byte (cs ! (i + 1))]) = Plain v"
        using "1.prems"(1) False i i1 True by (simp add: glob_unescape.simps [of _ i])
      then obtain u j where u: "v = acc @ [byte (cs ! (i + 1))] @ map byte u" "i + 2 \<le> j" "stop \<le> j" "j \<le> Suc stop" "j \<le> length cs"
        "glob_tokens (take (j - (i + 2)) (drop (i + 2) cs)) = Some (map Lit u)" "set u \<subseteq> set cs"
        "i + 2 \<le> stop \<and> j = Suc stop \<longrightarrow> u \<noteq> [] \<and> last u = cs ! stop"
        using "1.hyps"(1) [OF False] i i1 True "1.prems"(2-4) False by auto
      have "take (j - i) (drop i cs) = CHR 0x5C # cs ! (i + 1) # take (j - (i + 2)) (drop (i + 2) cs)"
      proof -
        have "j - i = Suc (Suc (j - (i + 2)))" using u(2) by simp
        then show ?thesis using d by simp
      qed
      then have "glob_tokens (take (j - i) (drop i cs)) = Some (map Lit (cs ! (i + 1) # u))" using u(6) by simp
      moreover have "i \<le> stop \<and> j = Suc stop \<longrightarrow> last (cs ! (i + 1) # u) = cs ! stop"
      proof (cases "i + 2 \<le> stop")
        case no: False
        then have "stop = i + 1" using False by simp
        moreover have "j = Suc stop \<longrightarrow> u = []" using u(6) calculation by (auto simp: take_Cons)
        ultimately show ?thesis by simp
      qed (use u(8) in auto)
      ultimately show ?thesis using u i1 by (intro exI [of _ "cs ! (i + 1) # u"] exI [of _ j]) auto
    next
      case no: False
      have m: "\<not> isGlobMeta (byte (cs ! i))"
        using "1.prems"(1) False i no by (auto simp: glob_unescape.simps [of _ i] byte_special split: if_splits)
      have "glob_unescape (map byte cs) (i + 1) stop (acc @ [byte (cs ! i)]) = Plain v"
        using "1.prems"(1) False i no m by (simp add: glob_unescape.simps [of _ i] byte_special)
      then obtain u j where u: "v = acc @ [byte (cs ! i)] @ map byte u" "i + 1 \<le> j" "stop \<le> j" "j \<le> Suc stop" "j \<le> length cs"
        "glob_tokens (take (j - (i + 1)) (drop (i + 1) cs)) = Some (map Lit u)" "set u \<subseteq> set cs"
        "i + 1 \<le> stop \<and> j = Suc stop \<longrightarrow> u \<noteq> [] \<and> last u = cs ! stop"
        using "1.hyps"(2) [OF False] i no m "1.prems"(2-4) False by (auto simp: byte_special)
      have "take (j - i) (drop i cs) = cs ! i # take (j - (i + 1)) (drop (i + 1) cs)"
        using u(2) Suc_diff_Suc [of i j] i(2) by (metis Suc_eq_plus1 Suc_le_lessD take_Suc_Cons)
      moreover have "cs ! i \<notin> {CHR ''*'', CHR ''?'', CHR 0x5C, CHR ''[''}" using m no by (auto simp: isGlobMeta_def)
      ultimately have "glob_tokens (take (j - i) (drop i cs)) = Some (map Lit (cs ! i # u))" using u(6) by simp
      then show ?thesis using u False i(1) by (intro exI [of _ "cs ! i # u"] exI [of _ j]) auto
    qed
  qed
qed

text \<open>On a valid pattern the loop stays within the characters.\<close>

lemma glob_unescape_in_range:
  "glob_valid (drop i chars) \<Longrightarrow> stop \<le> length chars \<Longrightarrow> glob_unescape chars i stop acc \<noteq> OutOfRange"
proof (induction chars i stop acc rule: glob_unescape.induct)
  case (1 chars i stop acc)
  show ?case
  proof (cases "i \<ge> stop")
    case True
    then show ?thesis by (simp add: glob_unescape.simps)
  next
    case False
    have i: "i < length chars" "drop i chars = chars ! i # drop (Suc i) chars"
      using False "1.prems"(2) Cons_nth_drop_Suc [of i chars] by simp_all
    then have v: "glob_valid (chars ! i # drop (Suc i) chars)" using "1.prems"(1) by simp
    show ?thesis
    proof (cases "chars ! i = rune_of CHR 0x5C")
      case True
      then have "drop (Suc i) chars \<noteq> []" using v by auto
      then have "i + 1 < length chars" by simp
      then have "drop (Suc i) chars = chars ! (i + 1) # drop (i + 2) chars" using Cons_nth_drop_Suc [of "i + 1" chars] by simp
      then have "glob_valid (drop (i + 2) chars)" using v True by simp
      then show ?thesis using "1.IH"(1) [OF False] i True \<open>i + 1 < length chars\<close> "1.prems"(2) False
        by (simp add: glob_unescape.simps [of chars i])
    next
      case no: False
      then show ?thesis using "1.IH"(2) [OF False] i v "1.prems"(2) False
        by (auto simp: glob_unescape.simps [of chars i] isGlobMeta_def)
    qed
  qed
qed

text \<open>Literals between optional stars are the four string matchers.\<close>

lemma toks_match_lits: "toks_match (map Lit u) s = (if HasPrefix s u then Some (drop (length u) s) else None)"
proof (induction u arbitrary: s)
  case (Cons c u)
  then show ?case by (cases s) auto
qed simp

lemma Star_not_Lit [simp]: "Star \<notin> Lit ` A"
  by auto

lemma spec_Star: "glob_spec (Star # ts) s \<longleftrightarrow> (\<exists>v w. s = v @ w \<and> glob_spec ts w)"
proof
  assume "glob_spec (Star # ts) s"
  then obtain k where "glob_spec ts (drop k s)" by auto
  then show "\<exists>v w. s = v @ w \<and> glob_spec ts w" by (intro exI [of _ "take k s"] exI [of _ "drop k s"]) simp
next
  assume "\<exists>v w. s = v @ w \<and> glob_spec ts w"
  then obtain v w where "s = v @ w" "glob_spec ts w" by blast
  then show "glob_spec (Star # ts) s" by (auto intro: exI [of _ "length v"])
qed

lemma spec_lits:
  "glob_spec (map Lit u) s \<longleftrightarrow> u = s"
  "glob_spec (map Lit u @ [Star]) s \<longleftrightarrow> HasPrefix s u"
  "glob_spec (Star # map Lit u) s \<longleftrightarrow> HasSuffix s u"
  "glob_spec (Star # map Lit u @ [Star]) s \<longleftrightarrow> Contains s u"
proof -
  have a: "glob_spec (map Lit u) s \<longleftrightarrow> u = s" for s
    using spec_append [of "map Lit u" "[]" s] by (auto simp: toks_match_lits HasPrefix_iff)
  then show "glob_spec (map Lit u) s \<longleftrightarrow> u = s" .
  have b: "glob_spec (map Lit u @ [Star]) s \<longleftrightarrow> HasPrefix s u" for s
    using spec_append [of "map Lit u" "[Star]" s] by (auto simp: toks_match_lits intro: exI [of _ "length s - length u"])
  then show "glob_spec (map Lit u @ [Star]) s \<longleftrightarrow> HasPrefix s u" .
  have star: "glob_spec (Star # ts) s \<longleftrightarrow> (\<exists>v w. s = v @ w \<and> glob_spec ts w)" for ts
    using spec_Star [of ts s] .
  show "glob_spec (Star # map Lit u) s \<longleftrightarrow> HasSuffix s u"
    unfolding star a HasSuffix_iff by blast
  show "glob_spec (Star # map Lit u @ [Star]) s \<longleftrightarrow> Contains s u"
    unfolding star b HasPrefix_iff Contains_iff by blast
qed

text \<open>A pattern taken apart the way the constructor does.\<close>

lemma NewGlobMatcher_cases:
  assumes "NewGlobMatcher expr = Some (Inr m)" and "ascii expr"
  obtains (empty) "expr = []" "m = stringFullMatcher []"
  | (star) "expr = ''*''" "m = trueMatcher"
  | (general) "m = globMatcher expr"
  | (escaped) u where "glob_tokens expr = Some u" "u \<noteq> []" "last u = Lit CHR ''*''"
  | (plain) u st en where "glob_tokens expr = Some ((if st then [] else [Star]) @ map Lit u @ (if en then [] else [Star]))"
      "m = NewStringMatcher u st en"
proof (cases "expr = [] \<or> expr = ''*''")
  case True
  then show thesis using assms(1) empty star by (auto simp: NewGlobMatcher_def)
next
  case False
  define st en where "st = (hd expr \<noteq> CHR ''*'')" and "en = (last expr \<noteq> CHR ''*'')"
  define i0 stop where "i0 = (if st then 0 else 1 :: nat)" and "stop = (if en then length expr else length expr - 1)"
  have sub: "map byte expr ! 0 \<noteq> (byte CHR ''*'' :: nat) \<longleftrightarrow> st" "map byte expr ! (length expr - 1) \<noteq> (byte CHR ''*'' :: nat) \<longleftrightarrow> en"
    using False byte_eq [of _ "CHR ''*''", simplified] by (auto simp: st_def en_def hd_conv_nth last_conv_nth)
  consider "glob_unescape (map byte expr) i0 stop [] = Special" "m = globMatcher expr"
    | v where "glob_unescape (map byte expr) i0 stop [] = Plain v" "m = NewStringMatcher (string_of_runes v) st en"
    using assms False sub unfolding NewGlobMatcher_def runes_ascii [OF assms(2)]
    by (auto simp: Let_def i0_def stop_def split: if_splits unescaped.splits)
  then show thesis
  proof cases
    case 1
    then show ?thesis using general by blast
  next
    case (2 v)
    have size: "i0 \<le> stop" "stop \<le> length expr" "i0 \<le> length expr"
      using False by (cases expr; cases "tl expr"; auto simp: i0_def stop_def st_def en_def)+
    obtain u j where u: "v = map byte u" "i0 \<le> j" "stop \<le> j" "j \<le> Suc stop" "j \<le> length expr"
      "glob_tokens (take (j - i0) (drop i0 expr)) = Some (map Lit u)" "set u \<subseteq> set expr"
      "j = Suc stop \<longrightarrow> u \<noteq> [] \<and> last u = expr ! stop"
      using glob_unescape_tokens [OF 2(1)] size by auto
    have m: "m = NewStringMatcher u st en"
      using 2(2) u(1,7) assms(2) string_of_runes_ascii [of u] by (simp add: ascii_def subset_iff)
    let ?pre = "if st then [] else [Star]"
    have pre: "expr = (if st then [] else [CHR ''*'']) @ drop i0 expr" using False by (cases expr) (auto simp: i0_def st_def)
    have tok: "glob_tokens expr = Some (?pre @ ts)" if "glob_tokens (drop i0 expr) = Some ts" for ts
      by (subst pre) (use that in \<open>auto simp del: drop_0\<close>)
    have whole: "j = length expr \<Longrightarrow> glob_tokens expr = Some (?pre @ map Lit u)" using tok u(6) by simp
    show ?thesis
    proof (cases en)
      case True
      then have "j = length expr" using u(3,5) by (simp add: stop_def)
      then show ?thesis using whole plain [of st u True] m True by simp
    next
      case en: False
      then have l: "expr ! stop = CHR ''*''" "length expr = Suc stop"
        using False by (auto simp: en_def stop_def last_conv_nth)
      show ?thesis
      proof (cases "j = stop")
        case True
        have "drop i0 expr = take (j - i0) (drop i0 expr) @ drop (j - i0) (drop i0 expr)"
          by (rule append_take_drop_id [symmetric])
        also have "drop (j - i0) (drop i0 expr) = [CHR ''*'']"
          using True size(1) l Cons_nth_drop_Suc [of stop expr] by simp
        finally have eq: "drop i0 expr = take (j - i0) (drop i0 expr) @ ''*''" .
        have "glob_tokens (drop i0 expr) = Some (map Lit u @ [Star])" using tokens_append [OF u(6), of "''*''"] by (subst eq) simp
        then show ?thesis using tok plain [of st u False] m en by simp
      next
        case False
        then have "j = Suc stop" using u(3,4) by simp
        then show ?thesis using whole escaped [of "?pre @ map Lit u"] u(8) l by (simp add: last_map)
      qed
    qed
  qed
qed

text \<open>The constructor on an ASCII pattern, with the loop over the bytes.\<close>

lemma NewGlobMatcher_ascii:
  assumes "ascii expr" and "expr \<noteq> []" and "expr \<noteq> ''*''"
  defines "st \<equiv> (hd expr \<noteq> CHR ''*'')" and "en \<equiv> (last expr \<noteq> CHR ''*'')"
  shows "NewGlobMatcher expr =
     (if \<not> glob_valid (map byte expr) then Some (Inl ''bad glob pattern'')
      else case glob_unescape (map byte expr) (if st then 0 else 1) (if en then length expr else length expr - 1) [] of
             OutOfRange \<Rightarrow> None
           | Special \<Rightarrow> Some (Inr (globMatcher expr))
           | Plain u \<Rightarrow> Some (Inr (NewStringMatcher (string_of_runes u) st en)))"
proof -
  have a: "map byte expr ! 0 \<noteq> (byte CHR ''*'' :: nat) \<longleftrightarrow> st" "map byte expr ! (length expr - 1) \<noteq> (byte CHR ''*'' :: nat) \<longleftrightarrow> en"
    using assms(2) by (simp_all add: st_def en_def hd_conv_nth last_conv_nth byte_special)
  have len: "(length (map byte expr) \<le> length expr - 1) = False" using assms(2) by (cases expr) simp_all
  show ?thesis
    unfolding NewGlobMatcher_def runes_ascii [OF assms(1)] Let_def a using assms(2,3)
    by (simp only: len if_False if_not_P not_False_eq_True)
qed

lemma NewGlobMatcher_ascii_returns:
  assumes "ascii expr"
  shows "NewGlobMatcher expr \<noteq> None"
proof (cases "expr = [] \<or> expr = ''*''")
  case True
  then show ?thesis by (auto simp: NewGlobMatcher_def)
next
  case False
  let ?i = "if hd expr \<noteq> CHR ''*'' then 0 else 1 :: nat"
  let ?stop = "if last expr \<noteq> CHR ''*'' then length expr else length expr - 1"
  have "glob_valid (drop ?i (map byte expr))" if "glob_valid (map byte expr)"
    using that False by (cases expr) simp_all
  then have "glob_valid (map byte expr) \<Longrightarrow> glob_unescape (map byte expr) ?i ?stop [] \<noteq> OutOfRange"
    by (rule glob_unescape_in_range) simp_all
  moreover have "expr \<noteq> []" "expr \<noteq> ''*''" using False by auto
  ultimately show ?thesis unfolding NewGlobMatcher_ascii [OF assms \<open>expr \<noteq> []\<close> \<open>expr \<noteq> ''*''\<close>]
    by (cases "glob_unescape (map byte expr) ?i ?stop []"; cases "glob_valid (map byte expr)")
      (simp_all only: simp_thms if_True if_False unescaped.case option.distinct)
qed



text \<open>A word without special characters goes through the check and the loop unchanged.\<close>

lemma glob_unescape_word:
  assumes "\<forall>c \<in> set u. c \<notin> {CHR ''*'', CHR ''?'', CHR 0x5C, CHR ''[''}" and "k + length u \<le> stop"
    and "k + length u \<le> length cs" and "take (length u) (drop k cs) = u"
  shows "glob_unescape (map byte cs) k stop acc = glob_unescape (map byte cs) (k + length u) stop (acc @ map byte u)"
  using assms
proof (induction u arbitrary: k acc)
  case (Cons c u)
  have k: "k < length cs" "cs ! k = c"
    using Cons.prems(3,4) Cons_nth_drop_Suc [of k cs] by (auto, metis list.inject take_Suc_Cons)
  have "take (length u) (drop (Suc k) cs) = u"
    using Cons.prems(4) Cons_nth_drop_Suc [OF k(1)] by (metis length_Cons list.inject take_Suc_Cons)
  then have "glob_unescape (map byte cs) (k + 1) stop (acc @ [byte c]) =
      glob_unescape (map byte cs) (k + 1 + length u) stop ((acc @ [byte c]) @ map byte u)"
    using Cons.prems by (intro Cons.IH) auto
  then show ?case using k Cons.prems(1,2) by (simp add: glob_unescape.simps [of _ k] isGlobMeta_def byte_special)
qed simp

lemma glob_valid_word:
  "\<forall>c \<in> set u. c \<notin> {CHR ''*'', CHR ''?'', CHR 0x5C, CHR ''[''} \<Longrightarrow> glob_valid (map byte u @ r) = glob_valid r"
  by (induction u) (auto simp: byte_special)

lemma glob_tokens_word:
  "\<forall>c \<in> set u. c \<notin> {CHR ''*'', CHR ''?'', CHR 0x5C, CHR ''[''} \<Longrightarrow> glob_tokens u = Some (map Lit u)"
  by (induction u) auto

text \<open>
  An escaped star at the end of a pattern is taken for a star: a word followed by \<open>\*\<close> becomes a
  prefix matcher, which accepts the word and the star with anything after them, although the
  pattern stands for that one string.
\<close>

theorem escaped_star_is_prefix:
  assumes "ascii u" and "\<forall>c \<in> set u. c \<notin> {CHR ''*'', CHR ''?'', CHR 0x5C, CHR ''[''}" and "ascii w" and "w \<noteq> []"
  shows "NewGlobMatcher (u @ [CHR 0x5C, CHR ''*'']) = Some (Inr (stringPrefixMatcher (u @ ''*'') :: 're Matcher))
     \<and> MatchString (re :: 're \<Rightarrow> string \<Rightarrow> bool) (stringPrefixMatcher (u @ ''*'')) (u @ ''*'' @ w)
     \<and> \<not> glob_MatchString (u @ [CHR 0x5C, CHR ''*'']) (u @ ''*'' @ w)"
proof -
  let ?e = "u @ [CHR 0x5C, CHR ''*'']"
  have a: "ascii ?e" "ascii (u @ ''*'' @ w)" using assms(1,3) by (auto simp: ascii_def)
  have h: "hd ?e \<noteq> CHR ''*''" using assms(2) by (cases u) auto
  have v: "glob_valid (map byte ?e)" using glob_valid_word [OF assms(2)] by simp
  have "glob_unescape (map byte ?e) 0 (length ?e - 1) [] = glob_unescape (map byte ?e) (length u) (length ?e - 1) (map byte u)"
    using glob_unescape_word [OF assms(2), of 0 "length ?e - 1" ?e "[]"] by simp
  also have "\<dots> = Plain (map byte (u @ ''*''))" by (simp add: glob_unescape.simps nth_append)
  finally have un: "glob_unescape (map byte ?e) 0 (length ?e - 1) [] = Plain (map byte (u @ ''*''))" .
  have "string_of_runes (map byte (u @ ''*'')) = u @ ''*''" using assms(1) by (intro string_of_runes_ascii) (auto simp: ascii_def)
  then have "NewGlobMatcher ?e = Some (Inr (stringPrefixMatcher (u @ ''*'') :: 're Matcher))"
    using NewGlobMatcher_ascii [OF a(1)] h v un by (simp add: NewStringMatcher_def del: map_append)
  moreover have "glob_tokens ?e = Some (map Lit (u @ ''*''))"
    using tokens_append [OF glob_tokens_word [OF assms(2)], of "[CHR 0x5C, CHR ''*'']"] by simp
  then have "\<not> glob_MatchString ?e (u @ ''*'' @ w)"
    using glob_accepts_iff [OF a(2)] spec_lits(1) [of "u @ ''*''"] assms(4) by simp
  moreover have "MatchString re (stringPrefixMatcher (u @ ''*'')) (u @ ''*'' @ w)" by (simp add: HasPrefix_iff)
  ultimately show ?thesis by blast
qed

theorem escaped_star_is_prefix_witness:
  "NewGlobMatcher (''a'' @ [CHR 0x5C, CHR ''*'']) = Some (Inr (stringPrefixMatcher ''a*'' :: unit Matcher))
   \<and> MatchString (\<lambda>r s. False) (stringPrefixMatcher ''a*'' :: unit Matcher) ''a*b''
   \<and> \<not> glob_MatchString (''a'' @ [CHR 0x5C, CHR ''*'']) ''a*b''"
  using escaped_star_is_prefix [of "''a''" "''b''" "\<lambda>r s. False"] by (simp add: ascii_def)

end
