(* ===== verification/Sd_Selector.thy ===== *)
theory Sd_Selector
  imports Utf8 "HOL-Library.Char_ord"
begin

text \<open>
  \<open>agent/discovery/sd/model/tags.go\<close> and \<open>agent/discovery/sd/pipeline/selector.go\<close>: the tags of a target
  and the selectors that test them.  A set of tags is a Go map without values; its list of keys
  is in the order of an iteration over it.
\<close>

section \<open>Tags\<close>

type_synonym Tags = "string list"

definition merge_tag :: "string \<Rightarrow> Tags \<Rightarrow> Tags" where
  "merge_tag tag t = (if HasPrefix tag ''-'' then removeAll (tl tag) t else List.insert tag t)"

definition Tags_Merge :: "Tags \<Rightarrow> Tags \<Rightarrow> Tags" where
  "Tags_Merge t tags = fold merge_tag tags t"

text \<open>The loop over a word; the index is that of a byte, and a byte of a character that is not ASCII is
  refused like the character.\<close>

fun word_chars_valid :: "nat \<Rightarrow> string \<Rightarrow> bool" where
  "word_chars_valid i [] \<longleftrightarrow> True"
| "word_chars_valid i (b # word) \<longleftrightarrow>
     (CHR ''a'' \<le> b \<and> b \<le> CHR ''z'' \<or> CHR ''A'' \<le> b \<and> b \<le> CHR ''Z''
      \<or> CHR ''0'' \<le> b \<and> b \<le> CHR ''9'' \<and> i > 0
      \<or> (b = CHR ''='' \<or> b = CHR ''_'' \<or> b = CHR ''.'') \<and> i > 0)
     \<and> word_chars_valid (Suc i) word"

definition isTagWordValid :: "string \<Rightarrow> bool" where
  "isTagWordValid word0 =
     (let word = TrimPrefix word0 ''-'' in if length word = 0 then False else word_chars_valid 0 word)"

fun parse_tags :: "string \<Rightarrow> string list \<Rightarrow> Tags \<Rightarrow> go_error + Tags" where
  "parse_tags line [] tags = Inr tags"
| "parse_tags line (tag # words) tags =
     (if \<not> isTagWordValid tag
      then Inl (''tags '' @ [CHR 0x27] @ line @ [CHR 0x27] @ '' contains tag '' @ [CHR 0x27] @ tag @ [CHR 0x27] @ '' with forbidden symbol'')
      else parse_tags line words (List.insert tag tags))"

definition ParseTags :: "string \<Rightarrow> go_error + Tags" where
  "ParseTags line = (let words = Fields line in if length words = 0 then Inr [] else parse_tags line words [])"

section \<open>Selectors\<close>

datatype selector =
    exactSelector string
  | trueSelector
  | negSelector selector
  | orSelector selector selector
  | andSelector selector selector

fun matches :: "selector \<Rightarrow> Tags \<Rightarrow> bool" where
  "matches (exactSelector s) tags \<longleftrightarrow> s \<in> set tags"
| "matches trueSelector tags \<longleftrightarrow> True"
| "matches (negSelector s) tags \<longleftrightarrow> \<not> matches s tags"
| "matches (orSelector l r) tags \<longleftrightarrow> matches l tags \<or> matches r tags"
| "matches (andSelector l r) tags \<longleftrightarrow> matches l tags \<and> matches r tags"

fun selector_String :: "selector \<Rightarrow> string" where
  "selector_String (exactSelector s) = ''{'' @ s @ ''}''"
| "selector_String trueSelector = ''{*}''"
| "selector_String (negSelector s) = ''{!'' @ TrimBytes (selector_String s) {CHR ''{'', CHR ''}''} @ ''}''"
| "selector_String (orSelector l r) =
     ''{'' @ TrimBytes (selector_String l) {CHR ''{'', CHR ''}''} @ ''|'' @ TrimBytes (selector_String r) {CHR ''{'', CHR ''}''} @ ''}''"
| "selector_String (andSelector l r) =
     ''{'' @ TrimBytes (selector_String l) {CHR ''{'', CHR ''}''} @ '', '' @ TrimBytes (selector_String r) {CHR ''{'', CHR ''}''} @ ''}''"

fun newAndSelector :: "selector \<Rightarrow> selector \<Rightarrow> selector list \<Rightarrow> selector" where
  "newAndSelector lhs rhs [] = andSelector lhs rhs"
| "newAndSelector lhs rhs (s # others) = newAndSelector (andSelector lhs rhs) s others"

fun newOrSelector :: "selector \<Rightarrow> selector \<Rightarrow> selector list \<Rightarrow> selector" where
  "newOrSelector lhs rhs [] = orSelector lhs rhs"
| "newOrSelector lhs rhs (s # others) = newOrSelector (orSelector lhs rhs) s others"

definition isSelectorWordValid :: "string \<Rightarrow> bool" where
  "isSelectorWordValid word =
     (if length word = 0 then False else if word = ''*'' then True else word_chars_valid 0 word)"

definition parseSingleSelectorWord :: "string \<Rightarrow> go_error + selector" where
  "parseSingleSelectorWord word0 =
     (if length word0 = 0 then Inl ''empty word''
      else let neg = (hd word0 = CHR 0x21); word = (if neg then tl word0 else word0)
           in if length word = 0 then Inl ''empty word''
              else if word \<noteq> ''*'' \<and> \<not> isSelectorWordValid word then Inl ''forbidden symbol''
              else let sr = (if word = ''*'' then trueSelector else exactSelector word)
                   in Inr (if neg then negSelector sr else sr))"

fun parse_words :: "(string \<Rightarrow> go_error + selector) \<Rightarrow> string list \<Rightarrow> (string \<times> go_error) + selector list" where
  "parse_words p [] = Inr []"
| "parse_words p (word # words) =
     (case p word of
        Inl err \<Rightarrow> Inl (word, err)
      | Inr sr \<Rightarrow> (case parse_words p words of Inl e \<Rightarrow> Inl e | Inr srs \<Rightarrow> Inr (sr # srs)))"

definition parseOrSelectorWord :: "string \<Rightarrow> go_error + selector" where
  "parseOrSelectorWord orWord =
     (case parse_words parseSingleSelectorWord (SplitByte orWord CHR ''|'') of
        Inl (word, err) \<Rightarrow> Inl err
      | Inr srs \<Rightarrow> Inr (case srs of [] \<Rightarrow> trueSelector | [sr] \<Rightarrow> sr | l # r # others \<Rightarrow> newOrSelector l r others))"

definition parseSelector :: "string \<Rightarrow> go_error + selector" where
  "parseSelector line =
     (let words = Fields line
      in if length words = 0 then Inr trueSelector
         else case parse_words (\<lambda>word. case IndexByte word CHR ''|'' of
                    Some idx \<Rightarrow> if idx > 0 then parseOrSelectorWord word else parseSingleSelectorWord word
                  | None \<Rightarrow> parseSingleSelectorWord word) words of
                Inl (word, err) \<Rightarrow> Inl (''selector '' @ [CHR 0x27] @ line @ [CHR 0x27] @ '' contains selector '' @ [CHR 0x27] @ word
                  @ [CHR 0x27] @ '' with forbidden symbol'')
              | Inr srs \<Rightarrow> Inr (case srs of [] \<Rightarrow> trueSelector | [sr] \<Rightarrow> sr | l # r # others \<Rightarrow> newAndSelector l r others))"

section \<open>What a selector means\<close>

text \<open>A word: a letter, then letters, digits and the three signs.\<close>

definition letter :: "char \<Rightarrow> bool" where
  "letter b \<longleftrightarrow> CHR ''a'' \<le> b \<and> b \<le> CHR ''z'' \<or> CHR ''A'' \<le> b \<and> b \<le> CHR ''Z''"

definition tag_word :: "string \<Rightarrow> bool" where
  "tag_word w \<longleftrightarrow> w \<noteq> [] \<and> letter (hd w)
     \<and> (\<forall>b \<in> set w. letter b \<or> CHR ''0'' \<le> b \<and> b \<le> CHR ''9'' \<or> b \<in> {CHR ''='', CHR ''_'', CHR ''.''})"

text \<open>An alternative: a word or a star, perhaps negated.\<close>

definition alt_ok :: "string \<Rightarrow> bool" where
  "alt_ok a \<longleftrightarrow> (let w = TrimPrefix a ''!'' in w = ''*'' \<or> tag_word w)"

definition alt_holds :: "string \<Rightarrow> Tags \<Rightarrow> bool" where
  "alt_holds a tags \<longleftrightarrow> (let w = TrimPrefix a ''!''; t = (w = ''*'' \<or> w \<in> set tags) in if HasPrefix a ''!'' then \<not> t else t)"

lemma word_chars_valid_Suc:
  "word_chars_valid (Suc i) w \<longleftrightarrow>
     (\<forall>b \<in> set w. letter b \<or> CHR ''0'' \<le> b \<and> b \<le> CHR ''9'' \<or> b \<in> {CHR ''='', CHR ''_'', CHR ''.''})"
  by (induction w arbitrary: i) (auto simp: letter_def)

lemma word_chars_valid_iff: "w \<noteq> [] \<Longrightarrow> word_chars_valid 0 w \<longleftrightarrow> tag_word w"
  by (cases w) (auto simp: tag_word_def letter_def word_chars_valid_Suc)

text \<open>An alternative is parsed exactly when it is well formed, into a selector that means the same.\<close>

definition alt_selector :: "string \<Rightarrow> selector" where
  "alt_selector a = (let w = TrimPrefix a ''!''; sr = (if w = ''*'' then trueSelector else exactSelector w)
     in if HasPrefix a ''!'' then negSelector sr else sr)"

lemma matches_alt [simp]: "matches (alt_selector a) tags \<longleftrightarrow> alt_holds a tags"
  by (simp add: alt_selector_def alt_holds_def Let_def)

lemma bang_parts:
  assumes "a \<noteq> []"
  shows "hd a = CHR 0x21 \<longleftrightarrow> HasPrefix a ''!''" and "(if HasPrefix a ''!'' then tl a else a) = TrimPrefix a ''!''"
  using assms by (cases a; simp add: TrimPrefix_def)+

lemma parseSingle_iff: "parseSingleSelectorWord a = Inr sr \<longleftrightarrow> alt_ok a \<and> sr = alt_selector a"
proof (cases "a = []")
  case True
  then show ?thesis by (simp add: parseSingleSelectorWord_def alt_ok_def TrimPrefix_def tag_word_def)
next
  case False
  let ?w = "TrimPrefix a ''!''"
  have "alt_ok a \<longleftrightarrow> ?w \<noteq> [] \<and> (?w = ''*'' \<or> isSelectorWordValid ?w)"
    using word_chars_valid_iff [of ?w] by (cases "?w = []") (simp_all add: alt_ok_def isSelectorWordValid_def tag_word_def Let_def)
  then show ?thesis using False unfolding parseSingleSelectorWord_def Let_def bang_parts [OF False]
    by (auto simp: alt_selector_def Let_def)
qed

lemma parse_words_Inr:
  "parse_words p ws = Inr srs \<longleftrightarrow> list_all2 (\<lambda>w sr. p w = Inr sr) ws srs"
proof (induction ws arbitrary: srs)
  case (Cons w ws)
  show ?case
  proof (cases "p w")
    case (Inr sr)
    then show ?thesis using Cons.IH by (cases "parse_words p ws") (auto simp: list_all2_Cons1)
  qed (simp add: list_all2_Cons1)
qed auto

lemma parse_words_ok: "(\<exists>srs. parse_words p ws = Inr srs) \<longleftrightarrow> (\<forall>w \<in> set ws. \<exists>sr. p w = Inr sr)"
  by (induction ws) (auto split: sum.splits)

lemma matches_new:
  "matches (newAndSelector l r others) tags \<longleftrightarrow> (\<forall>s \<in> set (l # r # others). matches s tags)"
  "matches (newOrSelector l r others) tags \<longleftrightarrow> (\<exists>s \<in> set (l # r # others). matches s tags)"
  by (induction l r others rule: newAndSelector.induct; auto) (induction l r others rule: newOrSelector.induct; auto)

text \<open>A whole word: its alternatives are tried one after another.\<close>

definition word_ok :: "string \<Rightarrow> bool" where
  "word_ok w \<longleftrightarrow> (\<forall>a \<in> set (SplitByte w CHR ''|''). alt_ok a)"

definition word_holds :: "string \<Rightarrow> Tags \<Rightarrow> bool" where
  "word_holds w tags \<longleftrightarrow> (\<exists>a \<in> set (SplitByte w CHR ''|''). alt_holds a tags)"

lemma list_all2_matches:
  assumes "list_all2 (\<lambda>w sr. p w = Inr sr) ws srs" and "\<And>w sr. w \<in> set ws \<Longrightarrow> p w = Inr sr \<Longrightarrow> matches sr tags \<longleftrightarrow> holds w"
  shows "(\<exists>s \<in> set srs. matches s tags) \<longleftrightarrow> (\<exists>w \<in> set ws. holds w)"
    and "(\<forall>s \<in> set srs. matches s tags) \<longleftrightarrow> (\<forall>w \<in> set ws. holds w)"
  using assms by (induction rule: list_all2_induct) auto

lemma parseOr_ok: "(\<exists>sr. parseOrSelectorWord w = Inr sr) \<longleftrightarrow> word_ok w"
proof -
  have "(\<exists>sr. parseOrSelectorWord w = Inr sr) \<longleftrightarrow> (\<exists>srs. parse_words parseSingleSelectorWord (SplitByte w CHR ''|'') = Inr srs)"
    by (auto simp: parseOrSelectorWord_def split: sum.splits)
  also have "\<dots> \<longleftrightarrow> word_ok w" by (simp add: parse_words_ok word_ok_def parseSingle_iff)
  finally show ?thesis .
qed

lemma parseOr_matches:
  assumes "parseOrSelectorWord w = Inr sr"
  shows "matches sr tags \<longleftrightarrow> word_holds w tags"
proof -
  obtain srs where srs: "parse_words parseSingleSelectorWord (SplitByte w CHR ''|'') = Inr srs"
    and sr: "sr = (case srs of [] \<Rightarrow> trueSelector | [sr] \<Rightarrow> sr | l # r # others \<Rightarrow> newOrSelector l r others)"
    using assms by (auto simp: parseOrSelectorWord_def split: sum.splits)
  have l: "list_all2 (\<lambda>w sr. parseSingleSelectorWord w = Inr sr) (SplitByte w CHR ''|'') srs" using srs by (simp add: parse_words_Inr)
  then have "srs \<noteq> []" by auto
  then have "matches sr tags \<longleftrightarrow> (\<exists>s \<in> set srs. matches s tags)" unfolding sr by (auto simp: matches_new split: list.splits)
  also have "\<dots> \<longleftrightarrow> word_holds w tags" unfolding word_holds_def
    by (rule list_all2_matches(1) [OF l]) (simp add: parseSingle_iff)
  finally show ?thesis .
qed

text \<open>A word without a bar is its only alternative; a word that begins with one has an empty
  alternative, and is refused either way.\<close>

lemma parse_word:
  defines "p \<equiv> \<lambda>word. case IndexByte word CHR ''|'' of
     Some idx \<Rightarrow> if idx > 0 then parseOrSelectorWord word else parseSingleSelectorWord word | None \<Rightarrow> parseSingleSelectorWord word"
  shows "((\<exists>sr. p w = Inr sr) \<longleftrightarrow> word_ok w) \<and> (\<forall>sr tags. p w = Inr sr \<longrightarrow> (matches sr tags \<longleftrightarrow> word_holds w tags))"
proof -
  consider (bar) idx where "IndexByte w CHR ''|'' = Some idx" "idx > 0" | (first) "IndexByte w CHR ''|'' = Some 0"
    | (none) "IndexByte w CHR ''|'' = None" by (metis gr0I option.exhaust)
  then show ?thesis
  proof cases
    case bar
    then have eq: "p w = parseOrSelectorWord w" by (simp add: p_def)
    show ?thesis unfolding eq using parseOr_ok parseOr_matches by blast
  next
    case first
    then obtain v where w: "w = CHR ''|'' # v" by (cases w) (auto split: if_splits)
    have "\<not> alt_ok []" "\<not> alt_ok w" by (simp_all add: w alt_ok_def TrimPrefix_def tag_word_def letter_def less_eq_char_def)
    then have "\<not> word_ok w" "\<And>sr. p w \<noteq> Inr sr"
      using first by (simp_all add: word_ok_def w p_def parseSingle_iff)
    then show ?thesis by simp
  next
    case none
    then have s: "SplitByte w CHR ''|'' = [w]" by (simp add: IndexByte_None_iff SplitByte_no_sep_id)
    have eq: "p w = parseSingleSelectorWord w" using none by (simp add: p_def)
    show ?thesis unfolding eq word_ok_def word_holds_def s by (auto simp: parseSingle_iff)
  qed
qed

lemma parseSelector_ok: "(\<exists>sr. parseSelector line = Inr sr) \<longleftrightarrow> (\<forall>w \<in> set (Fields line). word_ok w)"
proof -
  let ?p = "\<lambda>word. case IndexByte word CHR ''|'' of
     Some idx \<Rightarrow> if idx > 0 then parseOrSelectorWord word else parseSingleSelectorWord word | None \<Rightarrow> parseSingleSelectorWord word"
  have "(\<exists>sr. parseSelector line = Inr sr) \<longleftrightarrow> (\<exists>srs. parse_words ?p (Fields line) = Inr srs)"
    by (auto simp: parseSelector_def Let_def split: sum.splits)
  also have "\<dots> \<longleftrightarrow> (\<forall>w \<in> set (Fields line). word_ok w)" unfolding parse_words_ok using parse_word by simp
  finally show ?thesis .
qed

lemma parseSelector_matches:
  assumes "parseSelector line = Inr sr"
  shows "matches sr tags \<longleftrightarrow> (\<forall>w \<in> set (Fields line). word_holds w tags)"
proof (cases "Fields line = []")
  case True
  then show ?thesis using assms by (auto simp: parseSelector_def)
next
  case False
  let ?p = "\<lambda>word. case IndexByte word CHR ''|'' of
     Some idx \<Rightarrow> if idx > 0 then parseOrSelectorWord word else parseSingleSelectorWord word | None \<Rightarrow> parseSingleSelectorWord word"
  obtain srs where srs: "parse_words ?p (Fields line) = Inr srs"
    and sr: "sr = (case srs of [] \<Rightarrow> trueSelector | [sr] \<Rightarrow> sr | l # r # others \<Rightarrow> newAndSelector l r others)"
    using assms False by (auto simp: parseSelector_def Let_def split: sum.splits)
  have l: "list_all2 (\<lambda>w sr. ?p w = Inr sr) (Fields line) srs" using srs by (simp only: parse_words_Inr)
  have "matches sr tags \<longleftrightarrow> (\<forall>s \<in> set srs. matches s tags)" unfolding sr by (auto simp: matches_new split: list.splits)
  also have "\<dots> \<longleftrightarrow> (\<forall>w \<in> set (Fields line). word_holds w tags)"
    by (rule list_all2_matches(2) [OF l]) (use parse_word in simp)
  finally show ?thesis .
qed

text \<open>
  The language of selectors.  A line is accepted exactly when every alternative of every
  word is a star or a tag name, perhaps negated; and the selector it becomes accepts a
  set of tags exactly when each word has an alternative that holds: a name that is present, the
  star, or the negation of one that is not.
\<close>

theorem parseSelector_spec:
  "((\<exists>sr. parseSelector line = Inr sr) \<longleftrightarrow>
      (\<forall>w \<in> set (Fields line). \<forall>a \<in> set (SplitByte w CHR ''|''). alt_ok a))
   \<and> (parseSelector line = Inr sr \<longrightarrow>
      (matches sr tags \<longleftrightarrow> (\<forall>w \<in> set (Fields line). \<exists>a \<in> set (SplitByte w CHR ''|''). alt_holds a tags)))"
  using parseSelector_ok [of line] parseSelector_matches [of line sr tags] by (simp add: word_ok_def word_holds_def)

theorem parseSelector_spec_witness:
  "\<exists>sr. parseSelector ''a|!b c'' = Inr sr \<and> matches sr [''c''] \<and> \<not> matches sr [''b'', ''c'']"
proof -
  have f: "Fields ''a|!b c'' = [''a|!b'', ''c'']" by (simp add: Fields_def rune_chunks_ascii IsSpace_def)
  have "alt_ok ''a''" "alt_ok ''!b''" "alt_ok ''c''"
    by (simp_all add: alt_ok_def TrimPrefix_def tag_word_def letter_def less_eq_char_def)
  then obtain sr where sr: "parseSelector ''a|!b c'' = Inr sr"
    using parseSelector_spec [of "''a|!b c''"] by (auto simp: f)
  have h: "alt_holds ''!b'' [''c'']" "alt_holds ''c'' [''c'']" "\<not> alt_holds ''a'' [''b'', ''c'']" "\<not> alt_holds ''!b'' [''b'', ''c'']"
    by (simp_all add: alt_holds_def TrimPrefix_def)
  have "matches sr [''c'']" using parseSelector_spec [of "''a|!b c''" sr "[''c'']"] sr h by (simp add: f)
  moreover have "\<not> matches sr [''b'', ''c'']" using parseSelector_spec [of "''a|!b c''" sr "[''b'', ''c'']"] sr h by (simp add: f)
  ultimately show ?thesis using sr by blast
qed

end
