(* ===== verification/Sd_Pipeline.thy ===== *)
theory Sd_Pipeline
  imports Sd_Selector File_Discovery
begin

text \<open>
  \<open>agent/discovery/sd/pipeline\<close>: from discovered targets to job configurations.  A target is tagged by
  the classify rules, the compose rules make configurations of it, and the pipeline keeps what
  every target became, so that a group is only sent when something changed.  Templates
  (\<open>text/template\<close> with its functions) and YAML are parameters; a target carries, beside its hash
  and tags, whatever data the templates read.
\<close>

section \<open>Targets and rules\<close>

record 'd Target =
  tg_Hash :: cfg_hash
  tg_Tags :: Tags
  tg_data :: 'd

record 'd TargetGroup =
  tgg_Targets :: "'d Target option list"
  tgg_Provider :: string
  tgg_Source :: string

record ClassifyRuleConfig =
  clc_Name :: string
  clc_Selector :: string
  clc_Tags :: string
  clc_Match :: "(string \<times> string) list"

record ComposeRuleConfig =
  coc_Name :: string
  coc_Selector :: string
  coc_Config :: "(string \<times> string) list"

text \<open>The packages: parsing a template, executing it, decoding its output.  The decoder leaves the map nil
  for a document without a mapping.\<close>

record ('t, 'd) tmpl_pkg =
  tp_parse :: "string \<Rightarrow> go_error + 't"
  tp_Execute :: "'t \<Rightarrow> 'd Target \<Rightarrow> go_error + string"
  tp_Unmarshal :: "string \<Rightarrow> go_error + Config option"

record 't classifyRule =
  cl_name :: string
  cl_sr :: selector
  cl_tags :: Tags
  cl_match :: "(Tags \<times> 't) list"

record 't composeRule =
  co_name :: string
  co_sr :: selector
  co_conf :: "(selector \<times> 't) list"

section \<open>Classification\<close>

fun classify_matches :: "('t, 'd) tmpl_pkg \<Rightarrow> 'd Target \<Rightarrow> Tags \<Rightarrow> (Tags \<times> 't) list \<Rightarrow> Tags option \<Rightarrow> Tags option" where
  "classify_matches tp tgt rtags [] tags = tags"
| "classify_matches tp tgt rtags ((mtags, expr) # ms) tags =
     (case tp_Execute tp expr tgt of
        Inl err \<Rightarrow> classify_matches tp tgt rtags ms tags
      | Inr out \<Rightarrow>
          if TrimSpace out \<noteq> ''true'' then classify_matches tp tgt rtags ms tags
          else classify_matches tp tgt rtags ms
                 (Some (Tags_Merge (Tags_Merge (case tags of None \<Rightarrow> [] | Some t \<Rightarrow> t) rtags) mtags)))"

fun classify_rules :: "('t, 'd) tmpl_pkg \<Rightarrow> 'd Target \<Rightarrow> 't classifyRule list \<Rightarrow> Tags option \<Rightarrow> Tags option" where
  "classify_rules tp tgt [] tags = tags"
| "classify_rules tp tgt (rule # rules) tags =
     (if \<not> matches (cl_sr rule) (tg_Tags tgt) then classify_rules tp tgt rules tags
      else classify_rules tp tgt rules (classify_matches tp tgt (cl_tags rule) (cl_match rule) tags))"

definition classify :: "('t, 'd) tmpl_pkg \<Rightarrow> 't classifyRule list \<Rightarrow> 'd Target \<Rightarrow> Tags option" where
  "classify tp rules tgt = classify_rules tp tgt rules None"

fun parse_matches :: "('t, 'd) tmpl_pkg \<Rightarrow> (string \<times> string) list \<Rightarrow> go_error + (Tags \<times> 't) list" where
  "parse_matches tp [] = Inr []"
| "parse_matches tp ((tagsLine, expr) # ms) =
     (case ParseTags tagsLine of
        Inl err \<Rightarrow> Inl err
      | Inr tags \<Rightarrow>
          (case tp_parse tp expr of
             Inl err \<Rightarrow> Inl err
           | Inr tmpl \<Rightarrow> (case parse_matches tp ms of Inl err \<Rightarrow> Inl err | Inr rest \<Rightarrow> Inr ((tags, tmpl) # rest))))"

fun newClassifyRules :: "('t, 'd) tmpl_pkg \<Rightarrow> ClassifyRuleConfig list \<Rightarrow> go_error + 't classifyRule list" where
  "newClassifyRules tp [] = Inr []"
| "newClassifyRules tp (cfg # cfgs) =
     (case parseSelector (clc_Selector cfg) of
        Inl err \<Rightarrow> Inl err
      | Inr sr \<Rightarrow>
          (case ParseTags (clc_Tags cfg) of
             Inl err \<Rightarrow> Inl err
           | Inr tags \<Rightarrow>
               (case parse_matches tp (clc_Match cfg) of
                  Inl err \<Rightarrow> Inl err
                | Inr ms \<Rightarrow>
                    (case newClassifyRules tp cfgs of
                       Inl err \<Rightarrow> Inl err
                     | Inr rules \<Rightarrow> Inr (\<lparr>cl_name = clc_Name cfg, cl_sr = sr, cl_tags = tags, cl_match = ms\<rparr> # rules)))))"

section \<open>Composition\<close>

text \<open>The configurations of one rule and of all; a nil map is kept, as in the slice.\<close>

fun compose_confs :: "('t, 'd) tmpl_pkg \<Rightarrow> 'd Target \<Rightarrow> (selector \<times> 't) list \<Rightarrow> Config option list" where
  "compose_confs tp tgt [] = []"
| "compose_confs tp tgt ((sr, tmpl) # cs) =
     (if \<not> matches sr (tg_Tags tgt) then compose_confs tp tgt cs
      else case tp_Execute tp tmpl tgt of
             Inl err \<Rightarrow> compose_confs tp tgt cs
           | Inr out \<Rightarrow>
               if length out = 0 then compose_confs tp tgt cs
               else case tp_Unmarshal tp out of
                      Inl err \<Rightarrow> compose_confs tp tgt cs
                    | Inr cfg \<Rightarrow> cfg # compose_confs tp tgt cs)"

fun compose :: "('t, 'd) tmpl_pkg \<Rightarrow> 't composeRule list \<Rightarrow> 'd Target \<Rightarrow> Config option list" where
  "compose tp [] tgt = []"
| "compose tp (rule # rules) tgt =
     (if \<not> matches (co_sr rule) (tg_Tags tgt) then compose tp rules tgt
      else compose_confs tp tgt (co_conf rule) @ compose tp rules tgt)"

fun parse_confs :: "('t, 'd) tmpl_pkg \<Rightarrow> (string \<times> string) list \<Rightarrow> go_error + (selector \<times> 't) list" where
  "parse_confs tp [] = Inr []"
| "parse_confs tp ((sel, text) # cs) =
     (case parseSelector sel of
        Inl err \<Rightarrow> Inl err
      | Inr sr \<Rightarrow>
          (case tp_parse tp text of
             Inl err \<Rightarrow> Inl err
           | Inr tmpl \<Rightarrow> (case parse_confs tp cs of Inl err \<Rightarrow> Inl err | Inr rest \<Rightarrow> Inr ((sr, tmpl) # rest))))"

fun newComposeRules :: "('t, 'd) tmpl_pkg \<Rightarrow> ComposeRuleConfig list \<Rightarrow> go_error + 't composeRule list" where
  "newComposeRules tp [] = Inr []"
| "newComposeRules tp (cfg # cfgs) =
     (case parseSelector (coc_Selector cfg) of
        Inl err \<Rightarrow> Inl err
      | Inr sr \<Rightarrow>
          (case parse_confs tp (coc_Config cfg) of
             Inl err \<Rightarrow> Inl err
           | Inr cs \<Rightarrow>
               (case newComposeRules tp cfgs of
                  Inl err \<Rightarrow> Inl err
                | Inr rules \<Rightarrow> Inr (\<lparr>co_name = coc_Name cfg, co_sr = sr, co_conf = cs\<rparr> # rules))))"

section \<open>The pipeline\<close>

text \<open>The rules are those of the classificator and the composer; an interface that was never set is
  \<^const>\<open>None\<close>, and calling it panics.\<close>

record 't Pipeline =
  pl_clr :: "'t classifyRule list option"
  pl_cmr :: "'t composeRule list option"
  pl_items :: "string \<rightharpoonup> (cfg_hash \<times> Config list) list"

text \<open>What one target becomes: nothing, its configurations marked with their origin, or a panic.\<close>

definition target_configs :: "('t, 'd) tmpl_pkg \<Rightarrow> 't Pipeline \<Rightarrow> string \<Rightarrow> string \<Rightarrow> 'd Target \<Rightarrow> Config list option" where
  "target_configs tp p prov src tgt =
     (case pl_clr p of
        None \<Rightarrow> None
      | Some clr \<Rightarrow>
          let tags = (case classify tp clr tgt of None \<Rightarrow> [] | Some t \<Rightarrow> t)
          in if length tags > 0
             then (case pl_cmr p of
                     None \<Rightarrow> None
                   | Some cmr \<Rightarrow>
                       let configs = compose tp cmr (tgt\<lparr>tg_Tags := Tags_Merge (tg_Tags tgt) tags\<rparr>)
                       in if None \<in> set configs then None
                          else Some (map (\<lambda>cfg. SetSource (SetProvider (the cfg) prov) src) configs))
             else Some [])"

text \<open>The loop over the targets: the cache of the source, the hashes seen, whether anything changed.\<close>

fun process_targets :: "('d Target \<Rightarrow> Config list option) \<Rightarrow> 'd Target option list \<Rightarrow> (cfg_hash \<times> Config list) list
    \<Rightarrow> ((cfg_hash \<times> Config list) list \<times> cfg_hash list \<times> bool) option" where
  "process_targets out [] cache = Some (cache, [], False)"
| "process_targets out (None # tgts) cache = process_targets out tgts cache"
| "process_targets out (Some tgt # tgts) cache =
     (let hash = tg_Hash tgt in
      if map_of cache hash \<noteq> None
      then map_option (\<lambda>(c, seen, ch). (c, hash # seen, ch)) (process_targets out tgts cache)
      else case out tgt of
             None \<Rightarrow> None
           | Some configs \<Rightarrow>
               if length configs > 0
               then map_option (\<lambda>(c, seen, ch). (c, hash # seen, True))
                      (process_targets out tgts (AList.update hash configs cache))
               else map_option (\<lambda>(c, seen, ch). (c, hash # seen, ch)) (process_targets out tgts cache))"

definition processGroup :: "('t, 'd) tmpl_pkg \<Rightarrow> 'd TargetGroup \<Rightarrow> 't Pipeline \<Rightarrow> (Group option \<times> 't Pipeline) option" where
  "processGroup tp tgg p =
     (let src = tgg_Source tgg in
      if length (tgg_Targets tgg) = 0
      then (case pl_items p src of
              None \<Rightarrow> Some (None, p)
            | Some c \<Rightarrow> Some (Some \<lparr>g_Configs = [], g_Source = src\<rparr>, p\<lparr>pl_items := (pl_items p)(src := None)\<rparr>))
      else let cache = (case pl_items p src of None \<Rightarrow> [] | Some c \<Rightarrow> c)
           in case process_targets (target_configs tp p (tgg_Provider tgg) src) (tgg_Targets tgg) cache of
                None \<Rightarrow> None
              | Some (cache1, seen, changed1) \<Rightarrow>
                  let cache2 = filter (\<lambda>(h, cs). h \<in> set seen) cache1;
                      changed = (changed1 \<or> (\<exists>(h, cs) \<in> set cache1. h \<notin> set seen \<and> length cs > 0));
                      p' = p\<lparr>pl_items := (pl_items p)(src \<mapsto> cache2)\<rparr>
                  in Some (if \<not> changed then None
                           else Some \<lparr>g_Configs = concat (map snd cache2), g_Source = src\<rparr>, p'))"

fun processGroups :: "('t, 'd) tmpl_pkg \<Rightarrow> 'd TargetGroup list \<Rightarrow> 't Pipeline \<Rightarrow> (Group list \<times> 't Pipeline) option" where
  "processGroups tp [] p = Some ([], p)"
| "processGroups tp (tgg # tggs) p =
     (case processGroup tp tgg p of
        None \<Rightarrow> None
      | Some (v, p1) \<Rightarrow>
          map_option (\<lambda>(gs, p2). ((case v of None \<Rightarrow> gs | Some g \<Rightarrow> g # gs), p2)) (processGroups tp tggs p1))"

text \<open>The loop of \<open>Run\<close> over the updates it receives: an empty result is not sent.\<close>

fun pipeline_Run :: "('t, 'd) tmpl_pkg \<Rightarrow> 'd TargetGroup list list \<Rightarrow> 't Pipeline \<Rightarrow> (Group list list \<times> 't Pipeline) option" where
  "pipeline_Run tp [] p = Some ([], p)"
| "pipeline_Run tp (tggs # updates) p =
     (case processGroups tp tggs p of
        None \<Rightarrow> None
      | Some (gs, p1) \<Rightarrow>
          map_option (\<lambda>(sent, p2). (if length gs = 0 then sent else gs # sent, p2)) (pipeline_Run tp updates p1))"

section \<open>Setting up\<close>

text \<open>The configuration, with the constructors of the discoverers as parameters.\<close>

record ('k, 'n) sd_Config =
  sc_Name :: string
  sc_K8s :: "'k list"
  sc_Net :: "'n option"
  sc_Classify :: "ClassifyRuleConfig list"
  sc_Compose :: "ComposeRuleConfig list"

definition rule_msg :: "string \<Rightarrow> nat \<Rightarrow> string \<Rightarrow> go_error" where
  "rule_msg name i what = [CHR 0x27] @ ''rule['' @ name @ '']['' @ Itoa (int i) @ '']->'' @ what"

fun check_match :: "string \<Rightarrow> nat \<Rightarrow> nat \<Rightarrow> (string \<times> string) list \<Rightarrow> go_error option" where
  "check_match name i j [] = None"
| "check_match name i j ((tags, expr) # ms) =
     (if tags = [] then Some (rule_msg name i (''match['' @ Itoa (int j) @ '']->tags'' @ [CHR 0x27] @ '' not set''))
      else if expr = [] then Some (rule_msg name i (''match['' @ Itoa (int j) @ '']->expr'' @ [CHR 0x27] @ '' not set''))
      else check_match name i (Suc j) ms)"

fun check_classify :: "nat \<Rightarrow> ClassifyRuleConfig list \<Rightarrow> go_error option" where
  "check_classify i [] = None"
| "check_classify i (rule # rules) =
     (if clc_Selector rule = [] then Some (rule_msg (clc_Name rule) i (''selector'' @ [CHR 0x27] @ '' not set''))
      else if clc_Tags rule = [] then Some (rule_msg (clc_Name rule) i (''tags'' @ [CHR 0x27] @ '' not set''))
      else if length (clc_Match rule) = 0
        then Some (rule_msg (clc_Name rule) i (''match'' @ [CHR 0x27] @ '' not set, need at least 1 rule match''))
      else case check_match (clc_Name rule) i 1 (clc_Match rule) of
             Some err \<Rightarrow> Some err
           | None \<Rightarrow> check_classify (Suc i) rules)"

definition validateClassifyConfig :: "ClassifyRuleConfig list \<Rightarrow> go_error option" where
  "validateClassifyConfig rules =
     (if length rules = 0 then Some ''empty config, need least 1 rule'' else check_classify 1 rules)"

fun check_conf :: "string \<Rightarrow> nat \<Rightarrow> nat \<Rightarrow> (string \<times> string) list \<Rightarrow> go_error option" where
  "check_conf name i j [] = None"
| "check_conf name i j ((sel, tmpl) # cs) =
     (if sel = [] then Some (rule_msg name i (''config['' @ Itoa (int j) @ '']->selector'' @ [CHR 0x27] @ '' not set''))
      else if tmpl = [] then Some (rule_msg name i (''config['' @ Itoa (int j) @ '']->template'' @ [CHR 0x27] @ '' not set''))
      else check_conf name i (Suc j) cs)"

fun check_compose :: "nat \<Rightarrow> ComposeRuleConfig list \<Rightarrow> go_error option" where
  "check_compose i [] = None"
| "check_compose i (rule # rules) =
     (if coc_Selector rule = [] then Some (rule_msg (coc_Name rule) i (''selector'' @ [CHR 0x27] @ '' not set''))
      else if length (coc_Config rule) = 0 then Some (rule_msg (coc_Name rule) i (''config'' @ [CHR 0x27] @ '' not set''))
      else case check_conf (coc_Name rule) i 1 (coc_Config rule) of
             Some err \<Rightarrow> Some err
           | None \<Rightarrow> check_compose (Suc i) rules)"

definition validateComposeConfig :: "ComposeRuleConfig list \<Rightarrow> go_error option" where
  "validateComposeConfig rules =
     (if length rules = 0 then Some ''empty config, need least 1 rule'' else check_compose 1 rules)"

definition sd_validateConfig :: "('k, 'n) sd_Config \<Rightarrow> go_error option" where
  "sd_validateConfig cfg =
     (if sc_Name cfg \<noteq> [] then Some ([CHR 0x27] @ ''name'' @ [CHR 0x27] @ '' not set'')
      else if length (sc_K8s cfg) = 0 then Some ([CHR 0x27] @ ''discovery->k8s'' @ [CHR 0x27] @ '' not set'')
      else case validateClassifyConfig (sc_Classify cfg) of
             Some err \<Rightarrow> Some (''tag rules: '' @ err)
           | None \<Rightarrow>
               (case validateComposeConfig (sc_Compose cfg) of
                  Some err \<Rightarrow> Some (''config rules: '' @ err)
                | None \<Rightarrow> None))"

fun kube_discoverers :: "('k \<Rightarrow> go_error + 'disc) \<Rightarrow> 'k list \<Rightarrow> go_error + 'disc list" where
  "kube_discoverers newKube [] = Inr []"
| "kube_discoverers newKube (k # ks) =
     (case newKube k of
        Inl err \<Rightarrow> Inl err
      | Inr d \<Rightarrow> (case kube_discoverers newKube ks of Inl err \<Rightarrow> Inl err | Inr ds \<Rightarrow> Inr (d # ds)))"

definition sd_registerDiscoverers :: "('k \<Rightarrow> go_error + 'disc) \<Rightarrow> ('n \<Rightarrow> go_error + 'disc) \<Rightarrow> ('k, 'n) sd_Config
    \<Rightarrow> go_error + 'disc list" where
  "sd_registerDiscoverers newKube newNet cfg =
     (case kube_discoverers newKube (sc_K8s cfg) of
        Inl err \<Rightarrow> Inl err
      | Inr ds \<Rightarrow>
          (case sc_Net cfg of
             None \<Rightarrow> Inr ds
           | Some n \<Rightarrow> (case newNet n of Inl err \<Rightarrow> Inl err | Inr d \<Rightarrow> Inr (ds @ [d]))))"

text \<open>\<open>New\<close> sets neither the classificator nor the composer.\<close>

definition sd_New :: "('k \<Rightarrow> go_error + 'disc) \<Rightarrow> ('n \<Rightarrow> go_error + 'disc) \<Rightarrow> ('k, 'n) sd_Config
    \<Rightarrow> go_error + 'disc list \<times> 't Pipeline" where
  "sd_New newKube newNet cfg =
     (case sd_validateConfig cfg of
        Some err \<Rightarrow> Inl err
      | None \<Rightarrow>
          (case sd_registerDiscoverers newKube newNet cfg of
             Inl err \<Rightarrow> Inl err
           | Inr ds \<Rightarrow> Inr (ds, \<lparr>pl_clr = None, pl_cmr = None, pl_items = Map.empty\<rparr>)))"

section \<open>The pipeline sends what its rules make of the newest targets\<close>

lemma update_absent: "map_of c k = None \<Longrightarrow> AList.update k v c = c @ [(k, v)]"
  by (induction c) (auto split: if_splits)

text \<open>The loop over the targets keeps what it knows and adds what it can.\<close>

lemma process_targets_post:
  assumes "process_targets out ts c = Some (c', seen, ch)" and "go_map c"
  shows "go_map c' \<and> set seen = tg_Hash ` {t. Some t \<in> set ts} \<and> (\<not> ch \<longrightarrow> c' = c) \<and> set c \<subseteq> set c'
     \<and> (\<forall>(h, cs) \<in> set c'. (h, cs) \<in> set c \<or> cs \<noteq> [] \<and> (\<exists>t. Some t \<in> set ts \<and> tg_Hash t = h \<and> out t = Some cs))
     \<and> (\<forall>t. Some t \<in> set ts \<longrightarrow> tg_Hash t \<in> fst ` set c' \<or> out t = Some [])"
  using assms
proof (induction out ts c arbitrary: c' seen ch rule: process_targets.induct)
  case (1 out cache)
  then show ?case by auto
next
  case (2 out tgts cache)
  then show ?case by auto
next
  case (3 out tgt tgts c)
  let ?h = "tg_Hash tgt"
  have tgts: "{t. Some t \<in> set (Some tgt # tgts)} = insert tgt {t. Some t \<in> set tgts}" by auto
  show ?case
  proof (cases "map_of c ?h")
    case (Some cs)
    then obtain seen1 where r: "process_targets out tgts c = Some (c', seen1, ch)" "seen = ?h # seen1"
      using "3.prems"(1) by auto
    have "?h \<in> fst ` set c" using Some by (force dest: map_of_SomeD)
    then show ?thesis using "3.IH"(1) [OF refl _ r(1) "3.prems"(2)] Some r(2) unfolding tgts by (auto 0 3)
  next
    case None
    then obtain cs where o: "out tgt = Some cs" using "3.prems"(1) by (cases "out tgt") simp_all
    show ?thesis
    proof (cases "cs = []")
      case True
      then obtain seen1 where r: "process_targets out tgts c = Some (c', seen1, ch)" "seen = ?h # seen1"
        using "3.prems"(1) None o by auto
      show ?thesis using "3.IH"(3) [OF refl _ o _ r(1) "3.prems"(2)] None True o r(2) unfolding tgts by (auto 0 3)
    next
      case False
      let ?c = "AList.update ?h cs c"
      obtain seen1 ch1 where r: "process_targets out tgts ?c = Some (c', seen1, ch1)" "seen = ?h # seen1" "ch"
        using "3.prems"(1) None o False by (auto simp: Let_def)
      have c: "set ?c = insert (?h, cs) (set c)" using update_absent [OF None, of cs] by auto
      have g: "go_map ?c" by (rule go_map_update [OF "3.prems"(2)])
      have ih: "go_map c' \<and> set seen1 = tg_Hash ` {t. Some t \<in> set tgts} \<and> set ?c \<subseteq> set c'
         \<and> (\<forall>(h, cs) \<in> set c'. (h, cs) \<in> set ?c \<or> cs \<noteq> [] \<and> (\<exists>t. Some t \<in> set tgts \<and> tg_Hash t = h \<and> out t = Some cs))
         \<and> (\<forall>t. Some t \<in> set tgts \<longrightarrow> tg_Hash t \<in> fst ` set c' \<or> out t = Some [])"
        using "3.IH"(2) [OF refl _ o _ r(1) g] None False by auto
      then have "(?h, cs) \<in> set c'" unfolding c by blast
      then have "?h \<in> fst ` set c'" by (metis fst_conv image_eqI)
      moreover have "\<forall>(h, d) \<in> set c'. (h, d) \<in> set c \<or> d \<noteq> [] \<and> (\<exists>t. Some t \<in> set (Some tgt # tgts) \<and> tg_Hash t = h \<and> out t = Some d)"
      proof (intro ballI, clarify)
        fix h d assume e: "(h, d) \<in> set c'" "\<not> (d \<noteq> [] \<and> (\<exists>t. Some t \<in> set (Some tgt # tgts) \<and> tg_Hash t = h \<and> out t = Some d))"
        then have "(h, d) \<in> set ?c" using ih by auto
        then show "(h, d) \<in> set c" using e o False unfolding c by auto
      qed
      ultimately show ?thesis using ih r unfolding tgts c by auto
    qed
  qed
qed

text \<open>What a group's targets become, and the cache that holds exactly that.\<close>

definition group_out :: "('t, 'd) tmpl_pkg \<Rightarrow> 't Pipeline \<Rightarrow> 'd TargetGroup \<Rightarrow> 'd Target \<Rightarrow> Config list option" where
  "group_out tp p g = target_configs tp p (tgg_Provider g) (tgg_Source g)"

definition cache_of :: "('d Target \<Rightarrow> Config list option) \<Rightarrow> 'd TargetGroup \<Rightarrow> (cfg_hash \<times> Config list) list \<Rightarrow> bool" where
  "cache_of out g c \<longleftrightarrow> go_map c
     \<and> (\<forall>(h, cs) \<in> set c. cs \<noteq> [] \<and> (\<exists>t. Some t \<in> set (tgg_Targets g) \<and> tg_Hash t = h \<and> out t = Some cs))
     \<and> (\<forall>t. Some t \<in> set (tgg_Targets g) \<longrightarrow> (\<exists>cs. out t = Some cs \<and> (cs \<noteq> [] \<longrightarrow> (tg_Hash t, cs) \<in> set c)))"

definition cached_configs :: "(cfg_hash \<times> Config list) list \<Rightarrow> Config set" where
  "cached_configs c = set (concat (map snd c))"

definition group_configs :: "('d Target \<Rightarrow> Config list option) \<Rightarrow> 'd TargetGroup \<Rightarrow> Config set" where
  "group_configs out g = {cfg. \<exists>t cs. Some t \<in> set (tgg_Targets g) \<and> out t = Some cs \<and> cfg \<in> set cs}"

lemma cache_of_configs: "cache_of out g c \<Longrightarrow> cached_configs c = group_configs out g"
  unfolding cache_of_def cached_configs_def group_configs_def by (auto 0 4)

text \<open>One group: when hashes tell targets apart, the cache of its source becomes that of its targets,
  whatever it held before, and a group is sent unless the configurations are the same.\<close>

lemma cache_of_next:
  assumes old: "c = [] \<or> cache_of out0 g0 c"
    and det: "\<And>t t'. Some t \<in> set (tgg_Targets g0) \<Longrightarrow> Some t' \<in> set (tgg_Targets g) \<Longrightarrow> tg_Hash t = tg_Hash t' \<Longrightarrow> out0 t = out t'"
    and same: "\<And>t t'. Some t \<in> set (tgg_Targets g) \<Longrightarrow> Some t' \<in> set (tgg_Targets g) \<Longrightarrow> tg_Hash t = tg_Hash t' \<Longrightarrow> out t = out t'"
    and run: "process_targets out (tgg_Targets g) c = Some (c1, seen, ch)"
  shows "cache_of out g (filter (\<lambda>(h, cs). h \<in> set seen) c1)"
proof -
  have gm: "go_map c" using old by (auto simp: cache_of_def)
  note post = process_targets_post [OF run gm]
  let ?c = "filter (\<lambda>(h, cs). h \<in> set seen) c1"
  have val: "cs \<noteq> [] \<and> out t = Some cs" if e: "(h, cs) \<in> set c1" and "Some t \<in> set (tgg_Targets g)" "tg_Hash t = h" for h cs t
  proof (cases "(h, cs) \<in> set c")
    case True
    then obtain t0 where "cs \<noteq> []" "Some t0 \<in> set (tgg_Targets g0)" "tg_Hash t0 = h" "out0 t0 = Some cs"
      using old by (auto simp: cache_of_def)
    then show ?thesis using det that by metis
  next
    case False
    then obtain t1 where "cs \<noteq> []" "Some t1 \<in> set (tgg_Targets g)" "tg_Hash t1 = h" "out t1 = Some cs"
      using bspec [OF post [THEN conjunct2, THEN conjunct2, THEN conjunct2, THEN conjunct2, THEN conjunct1] e] by auto
    then show ?thesis using same that by metis
  qed
  have seen: "h \<in> set seen \<longleftrightarrow> (\<exists>t. Some t \<in> set (tgg_Targets g) \<and> tg_Hash t = h)" for h using post by auto
  have "go_map ?c" using post by (intro distinct_map_filter) simp
  moreover have "\<forall>(h, cs) \<in> set ?c. cs \<noteq> [] \<and> (\<exists>t. Some t \<in> set (tgg_Targets g) \<and> tg_Hash t = h \<and> out t = Some cs)"
    using seen val by (simp split: prod.split) blast
  moreover have "\<exists>cs. out t = Some cs \<and> (cs \<noteq> [] \<longrightarrow> (tg_Hash t, cs) \<in> set ?c)" if "Some t \<in> set (tgg_Targets g)" for t
  proof -
    have "tg_Hash t \<in> fst ` set c1 \<or> out t = Some []" using post that by blast
    moreover have ?thesis if "(tg_Hash t, cs) \<in> set c1" for cs
      using that val [OF that \<open>Some t \<in> set (tgg_Targets g)\<close> refl] seen \<open>Some t \<in> set (tgg_Targets g)\<close> by auto
    ultimately show ?thesis by auto
  qed
  ultimately show ?thesis by (simp add: cache_of_def)
qed

text \<open>What the receiver of the groups has of a source.\<close>

definition sent_configs :: "string \<Rightarrow> Group list \<Rightarrow> Config set" where
  "sent_configs src gs = (case latest src gs of None \<Rightarrow> {} | Some g \<Rightarrow> set (g_Configs g))"

lemma sent_configs_append:
  "sent_configs src (gs @ [g]) = (if g_Source g = src then set (g_Configs g) else sent_configs src gs)"
  by (simp add: sent_configs_def)

definition newest :: "string \<Rightarrow> 'd TargetGroup list \<Rightarrow> 'd TargetGroup option" where
  "newest src gs = find (\<lambda>g. tgg_Source g = src) (rev gs)"

lemma newest_append: "newest src (gs @ [g]) = (if tgg_Source g = src then Some g else newest src gs)"
  by (simp add: newest_def)

text \<open>Targets of a source with the same hash become the same configurations, from one group to the next.\<close>

definition hash_sound :: "('t, 'd) tmpl_pkg \<Rightarrow> 't Pipeline \<Rightarrow> 'd TargetGroup list \<Rightarrow> bool" where
  "hash_sound tp p gs \<longleftrightarrow> (\<forall>g \<in> set gs. \<forall>g' \<in> set gs. \<forall>t t'. tgg_Source g = tgg_Source g' \<and> Some t \<in> set (tgg_Targets g)
     \<and> Some t' \<in> set (tgg_Targets g') \<and> tg_Hash t = tg_Hash t' \<longrightarrow> group_out tp p g t = group_out tp p g' t')"

definition src_ok :: "('t, 'd) tmpl_pkg \<Rightarrow> 't Pipeline \<Rightarrow> 'd TargetGroup option \<Rightarrow> (cfg_hash \<times> Config list) list option
    \<Rightarrow> Config set \<Rightarrow> bool" where
  "src_ok tp p g items S \<longleftrightarrow>
     (case items of
        None \<Rightarrow> S = {} \<and> (case g of None \<Rightarrow> True | Some g \<Rightarrow> tgg_Targets g = [])
      | Some c \<Rightarrow> S = cached_configs c \<and> (case g of None \<Rightarrow> False | Some g \<Rightarrow> cache_of (group_out tp p g) g c))"

definition pipeline_ok :: "('t, 'd) tmpl_pkg \<Rightarrow> 't Pipeline \<Rightarrow> 'd TargetGroup list \<Rightarrow> Group list \<Rightarrow> 't Pipeline \<Rightarrow> bool" where
  "pipeline_ok tp p0 hist sent p \<longleftrightarrow> pl_clr p = pl_clr p0 \<and> pl_cmr p = pl_cmr p0
     \<and> (\<forall>src. src_ok tp p0 (newest src hist) (pl_items p src) (sent_configs src sent))"

lemma target_configs_cong:
  "pl_clr p = pl_clr p0 \<Longrightarrow> pl_cmr p = pl_cmr p0 \<Longrightarrow> target_configs tp p = target_configs tp p0"
  by (simp add: target_configs_def fun_eq_iff cong: option.case_cong if_cong)

lemma newest_in: "newest src gs = Some g \<Longrightarrow> g \<in> set gs \<and> tgg_Source g = src"
  unfolding newest_def by (metis (mono_tags, lifting) find_Some_iff length_rev nth_mem set_rev)

lemma pipeline_okI:
  assumes "pipeline_ok tp p0 hist sent p" and "pl_clr p' = pl_clr p" and "pl_cmr p' = pl_cmr p"
    and "\<And>s. s \<noteq> tgg_Source g \<Longrightarrow> pl_items p' s = pl_items p s \<and> sent_configs s sent' = sent_configs s sent"
    and "src_ok tp p0 (Some g) (pl_items p' (tgg_Source g)) (sent_configs (tgg_Source g) sent')"
  shows "pipeline_ok tp p0 (hist @ [g]) sent' p'"
  using assms unfolding pipeline_ok_def newest_append by auto

lemma processGroup_ok:
  assumes ok: "pipeline_ok tp p0 hist sent p" and hs: "hash_sound tp p0 (hist @ [g])"
    and run: "processGroup tp g p = Some (v, p')"
  shows "pipeline_ok tp p0 (hist @ [g]) (sent @ (case v of None \<Rightarrow> [] | Some gr \<Rightarrow> [gr])) p'"
proof -
  let ?src = "tgg_Source g" and ?out = "group_out tp p0 g"
  have rules: "pl_clr p = pl_clr p0" "pl_cmr p = pl_cmr p0"
    and src: "\<And>src. src_ok tp p0 (newest src hist) (pl_items p src) (sent_configs src sent)"
    using ok by (simp_all add: pipeline_ok_def)
  show ?thesis
  proof (cases "tgg_Targets g = []")
    case True
    show ?thesis
    proof (cases "pl_items p ?src")
      case None
      then have "v = None" "p' = p" using run True by (simp_all add: processGroup_def)
      then show ?thesis using None True src [of ?src] by (intro pipeline_okI [OF ok]) (simp_all add: src_ok_def)
    next
      case (Some d)
      then have "v = Some \<lparr>g_Configs = [], g_Source = ?src\<rparr>" "p' = p\<lparr>pl_items := (pl_items p)(?src := None)\<rparr>"
        using run True by (simp_all add: processGroup_def Let_def)
      then show ?thesis using True by (intro pipeline_okI [OF ok]) (simp_all add: src_ok_def sent_configs_append)
    qed
  next
    case False
    define c where "c = (case pl_items p ?src of None \<Rightarrow> [] | Some c \<Rightarrow> c)"
    obtain c1 seen ch where pt: "process_targets ?out (tgg_Targets g) c = Some (c1, seen, ch)"
      using run False target_configs_cong [OF rules, of tp]
      by (auto simp: processGroup_def c_def group_out_def Let_def split: option.splits)
    define c2 where "c2 = filter (\<lambda>(h, cs). h \<in> set seen) c1"
    define changed where "changed = (ch \<or> (\<exists>(h, cs) \<in> set c1. h \<notin> set seen \<and> length cs > 0))"
    have res: "v = (if \<not> changed then None else Some \<lparr>g_Configs = concat (map snd c2), g_Source = ?src\<rparr>)"
      "p' = p\<lparr>pl_items := (pl_items p)(?src \<mapsto> c2)\<rparr>"
      using run False pt target_configs_cong [OF rules, of tp]
      by (auto simp add: processGroup_def c_def [symmetric] c2_def changed_def group_out_def Let_def cong: if_cong split del: if_split)
    obtain g0 where g0: "c = [] \<or> cache_of (group_out tp p0 g0) g0 c" "g0 \<in> set (hist @ [g])" "tgg_Source g0 = ?src"
    proof (cases "pl_items p ?src")
      case None
      then show ?thesis by (intro that [of g]) (simp_all add: c_def)
    next
      case (Some d)
      then obtain g1 where "newest ?src hist = Some g1" "cache_of (group_out tp p0 g1) g1 d"
        using src [of ?src] by (auto simp: src_ok_def split: option.splits)
      then show ?thesis using Some newest_in [of ?src hist g1] by (intro that [of g1]) (simp_all add: c_def)
    qed
    have old: "sent_configs ?src sent = cached_configs c"
      using src [of ?src] by (auto simp: src_ok_def c_def cached_configs_def split: option.splits)
    have det: "group_out tp p0 g1 t = ?out t'" if "g1 \<in> set (hist @ [g])" "tgg_Source g1 = ?src"
        "Some t \<in> set (tgg_Targets g1)" "Some t' \<in> set (tgg_Targets g)" "tg_Hash t = tg_Hash t'" for g1 t t'
      using hs that unfolding hash_sound_def by (metis in_set_conv_decomp)
    have new: "cache_of ?out g c2" unfolding c2_def
      by (rule cache_of_next [OF g0(1) det [OF g0(2,3)] det [of g] pt]) simp_all
    have "c2 = c" if "\<not> changed"
    proof -
      have gm: "go_map c" using g0(1) by (auto simp: cache_of_def)
      have "c1 = c" using process_targets_post [OF pt gm] that by (simp add: changed_def)
      moreover have "\<forall>(h, cs) \<in> set c. cs \<noteq> []" using g0(1) by (auto simp: cache_of_def)
      ultimately have "\<forall>x \<in> set c. (\<lambda>(h, cs). h \<in> set seen) x" using that by (auto simp: changed_def)
      then show ?thesis unfolding c2_def \<open>c1 = c\<close> by (rule filter_True)
    qed
    then have "sent_configs ?src (sent @ (case v of None \<Rightarrow> [] | Some gr \<Rightarrow> [gr])) = cached_configs c2"
      using old by (cases changed) (simp_all add: res sent_configs_append cached_configs_def)
    moreover have "sent_configs s (sent @ (case v of None \<Rightarrow> [] | Some gr \<Rightarrow> [gr])) = sent_configs s sent" if "s \<noteq> ?src" for s
      using that by (simp add: res sent_configs_append)
    ultimately show ?thesis using new
      by (intro pipeline_okI [OF ok]) (simp_all add: res(2) src_ok_def)
  qed
qed

lemma hash_sound_prefix: "hash_sound tp p (gs @ hs) \<Longrightarrow> hash_sound tp p gs"
  by (simp add: hash_sound_def)

lemma processGroups_ok:
  assumes "pipeline_ok tp p0 hist sent p" and "hash_sound tp p0 (hist @ tggs)" and "processGroups tp tggs p = Some (gs, p')"
  shows "pipeline_ok tp p0 (hist @ tggs) (sent @ gs) p'"
  using assms
proof (induction tggs arbitrary: hist sent p gs)
  case (Cons g tggs)
  obtain v p1 gs1 where r: "processGroup tp g p = Some (v, p1)" "processGroups tp tggs p1 = Some (gs1, p')"
    "gs = (case v of None \<Rightarrow> [] | Some gr \<Rightarrow> [gr]) @ gs1"
    using Cons.prems(3) by (auto split: option.splits)
  have "hash_sound tp p0 ((hist @ [g]) @ tggs)" using Cons.prems(2) by simp
  then show ?case using Cons.IH [OF processGroup_ok [OF Cons.prems(1) _ r(1)] _ r(2)] hash_sound_prefix r(3) by fastforce
qed simp

lemma pipeline_Run_ok:
  assumes "pipeline_ok tp p0 hist sent p" and "hash_sound tp p0 (hist @ concat updates)" and "pipeline_Run tp updates p = Some (out, p')"
  shows "pipeline_ok tp p0 (hist @ concat updates) (sent @ concat out) p'"
  using assms
proof (induction updates arbitrary: hist sent p out)
  case (Cons tggs updates)
  obtain gs p1 out1 where r: "processGroups tp tggs p = Some (gs, p1)" "pipeline_Run tp updates p1 = Some (out1, p')"
    "out = (if length gs = 0 then out1 else gs # out1)"
    using Cons.prems(3) by (auto split: option.splits)
  have hs: "hash_sound tp p0 ((hist @ tggs) @ concat updates)" using Cons.prems(2) by simp
  have "concat out = gs @ concat out1" using r(3) by simp
  then show ?case
    using Cons.IH [OF processGroups_ok [OF Cons.prems(1) hash_sound_prefix [OF hs] r(1)] hs r(2)] by simp
qed simp

text \<open>
  C28.  The pipeline only sends what changed, and yet its receiver is always up to date.  Started empty
  and fed with any sequence of updates, when targets of a source with the same hash become the
  same configurations: the configurations of the last group sent for a source (none if nothing was
  sent) are exactly those the rules make of the targets of its newest group.
\<close>

theorem pipeline_up_to_date:
  assumes "pl_items p = Map.empty" and "hash_sound tp p (concat updates)" and "pipeline_Run tp updates p = Some (out, p')"
    and "newest src (concat updates) = Some g"
  shows "sent_configs src (concat out) = group_configs (group_out tp p g) g"
proof -
  have "pipeline_ok tp p [] [] p" using assms(1) by (simp add: pipeline_ok_def src_ok_def newest_def sent_configs_def)
  from pipeline_Run_ok [OF this _ assms(3)] assms(2)
  have "src_ok tp p (Some g) (pl_items p' src) (sent_configs src (concat out))"
    using assms(4) by (auto simp: pipeline_ok_def dest: spec [of _ src])
  then show ?thesis using cache_of_configs [of "group_out tp p g" g]
    by (auto simp: src_ok_def group_configs_def split: option.splits)
qed

text \<open>A pipeline whose rules accept every target and make of it a configuration named after its hash.\<close>

definition sample_tmpl :: "(unit, unit) tmpl_pkg" where
  "sample_tmpl = \<lparr>tp_parse = (\<lambda>s. Inr ()), tp_Execute = (\<lambda>t tgt. Inr ''true''),
     tp_Unmarshal = (\<lambda>s. Inr (Some [''name'' \<mapsto> VString s]))\<rparr>"

definition sample_pipeline :: "unit Pipeline" where
  "sample_pipeline = \<lparr>pl_clr = Some [\<lparr>cl_name = [], cl_sr = trueSelector, cl_tags = [''a''], cl_match = [([''b''], ())]\<rparr>],
     pl_cmr = Some [\<lparr>co_name = [], co_sr = exactSelector ''b'', co_conf = [(exactSelector ''a'', ())]\<rparr>], pl_items = Map.empty\<rparr>"

definition sample_tgg :: "nat \<Rightarrow> unit TargetGroup" where
  "sample_tgg n = \<lparr>tgg_Targets = replicate n (Some \<lparr>tg_Hash = 7, tg_Tags = [], tg_data = ()\<rparr>),
     tgg_Provider = ''k8s'', tgg_Source = ''pod''\<rparr>"

lemma sample_target:
  "target_configs sample_tmpl sample_pipeline prov src \<lparr>tg_Hash = 7, tg_Tags = [], tg_data = ()\<rparr> =
     Some [SetSource (SetProvider [''name'' \<mapsto> VString ''true''] prov) src]"
  by (simp add: target_configs_def sample_pipeline_def classify_def sample_tmpl_def TrimSpace_def rune_chunks_ascii
      IsSpace_def Tags_Merge_def merge_tag_def)

theorem pipeline_up_to_date_witness:
  "\<exists>out p'. pipeline_Run sample_tmpl [[sample_tgg 2], [sample_tgg 1], [sample_tgg 0]] sample_pipeline = Some (out, p')
     \<and> length out = 2 \<and> sent_configs ''pod'' (concat out) = {}"
proof -
  let ?ups = "[[sample_tgg 2], [sample_tgg 1], [sample_tgg 0]]"
  have i0: "pl_items sample_pipeline = Map.empty" by (simp add: sample_pipeline_def)
  let ?cs = "[SetSource (SetProvider [''name'' \<mapsto> VString ''true''] ''k8s'') ''pod'']"
  let ?p1 = "sample_pipeline\<lparr>pl_items := [''pod'' \<mapsto> [(7, ?cs)]]\<rparr>"
  have s2: "processGroup sample_tmpl (sample_tgg 2) sample_pipeline = Some (Some \<lparr>g_Configs = ?cs, g_Source = ''pod''\<rparr>, ?p1)"
    by (simp add: processGroup_def sample_tgg_def numeral_2_eq_2 sample_target i0 Let_def)
  have s1: "processGroup sample_tmpl (sample_tgg 1) ?p1 = Some (None, ?p1)"
    by (simp add: processGroup_def sample_tgg_def Let_def)
  have s0: "processGroup sample_tmpl (sample_tgg 0) ?p1 = Some (Some \<lparr>g_Configs = [], g_Source = ''pod''\<rparr>, ?p1\<lparr>pl_items := Map.empty\<rparr>)"
    by (simp add: processGroup_def sample_tgg_def)
  obtain out p' where r: "pipeline_Run sample_tmpl ?ups sample_pipeline = Some (out, p')" "length out = 2"
    by (simp add: s2 s1 s0 del: One_nat_def)
  have "hash_sound sample_tmpl sample_pipeline (concat ?ups)"
    by (auto simp: hash_sound_def sample_tgg_def group_out_def sample_target)
  then have "sent_configs ''pod'' (concat out) = group_configs (group_out sample_tmpl sample_pipeline (sample_tgg 0)) (sample_tgg 0)"
    using pipeline_up_to_date [OF i0 _ r(1), of "''pod''" "sample_tgg 0"] by (simp add: newest_def sample_tgg_def)
  then show ?thesis using r by (simp add: group_configs_def sample_tgg_def)
qed

section \<open>A pipeline that was set up cannot run\<close>

text \<open>A configuration with a name is refused, and a pipeline that was accepted panics on the first target.\<close>

lemma sd_New_named: "sc_Name cfg \<noteq> [] \<Longrightarrow> \<exists>err. sd_New newKube newNet cfg = Inl err"
  by (simp add: sd_New_def sd_validateConfig_def)

lemma sd_New_panics:
  assumes "sd_New newKube newNet cfg = Inr (ds, p)" and "tgg_Targets g = Some t # ts"
  shows "processGroup tp g p = None"
  using assms by (auto simp: sd_New_def processGroup_def target_configs_def Let_def split: option.splits sum.splits)

end
