(* ===== verification/Prom_Selector.thy ===== *)
theory Prom_Selector
  imports Matcher
begin

text \<open>
  \<open>pkg/prometheus/selector\<close>: which time series a collector keeps.  A series is a list of labels, the
  first of which is its name; a selector tests labels with the matchers of \<open>pkg/matcher\<close>.
\<close>

section \<open>Selectors\<close>

type_synonym label = "string \<times> string"

definition MetricName :: string where
  "MetricName = ''__name__''"

datatype 're Selector =
    sTrue
  | sFalse
  | sLabel string "'re Matcher"
  | sNeg "'re Selector"
  | sAnd "'re Selector" "'re Selector"
  | sOr "'re Selector" "'re Selector"

fun lookupLabel :: "string \<Rightarrow> label list \<Rightarrow> label option" where
  "lookupLabel name [] = None"
| "lookupLabel name (l # lbs) = (if fst l = name then Some l else lookupLabel name lbs)"

text \<open>\<open>Matches\<close>; a series without labels makes a test of a label panic.\<close>

fun Matches :: "('re \<Rightarrow> string \<Rightarrow> bool) \<Rightarrow> 're Selector \<Rightarrow> label list \<Rightarrow> bool option" where
  "Matches re sTrue lbs = Some True"
| "Matches re sFalse lbs = Some False"
| "Matches re (sLabel name m) lbs =
     (case lbs of
        [] \<Rightarrow> None
      | l # rest \<Rightarrow>
          if name = MetricName then Some (MatchString re m (snd l))
          else case lookupLabel name rest of
                 Some label \<Rightarrow> Some (MatchString re m (snd label))
               | None \<Rightarrow> Some False)"
| "Matches re (sNeg s) lbs = map_option Not (Matches re s lbs)"
| "Matches re (sAnd l r) lbs =
     (case Matches re l lbs of None \<Rightarrow> None | Some b \<Rightarrow> if b then Matches re r lbs else Some False)"
| "Matches re (sOr l r) lbs =
     (case Matches re l lbs of None \<Rightarrow> None | Some b \<Rightarrow> if b then Some True else Matches re r lbs)"

fun And_selector :: "'re Selector \<Rightarrow> 're Selector \<Rightarrow> 're Selector list \<Rightarrow> 're Selector" where
  "And_selector lhs rhs [] = sAnd lhs rhs"
| "And_selector lhs rhs (s # others) = And_selector (sAnd lhs rhs) s others"

fun Or_selector :: "'re Selector \<Rightarrow> 're Selector \<Rightarrow> 're Selector list \<Rightarrow> 're Selector" where
  "Or_selector lhs rhs [] = sOr lhs rhs"
| "Or_selector lhs rhs (s # others) = Or_selector (sOr lhs rhs) s others"

section \<open>Their syntax\<close>

definition unsugarExpr :: "string \<Rightarrow> string" where
  "unsugarExpr expr0 =
     (let expr = TrimSpace expr0 in
      case IndexByte expr CHR ''{'' of
        None \<Rightarrow> ''__name__=*'' @ [CHR 0x22] @ TrimSpace expr @ [CHR 0x22]
      | Some idx \<Rightarrow>
          if idx = 0 then TrimBytes expr {CHR ''{'', CHR ''}''}
          else ''__name__=*'' @ [CHR 0x22] @ TrimSpace (take idx expr) @ [CHR 0x22] @ '',''
            @ TrimBytes (drop idx expr) {CHR ''{'', CHR ''}''})"

definition name_char :: "char \<Rightarrow> bool" where
  "name_char c \<longleftrightarrow> c \<in> set ''abcdefghijklmnopqrstuvwxyzABCDEFGHIJKLMNOPQRSTUVWXYZ0123456789_''"

text \<open>\<open>reLV\<close>: a name, an operator, and a pattern between quotes, which may hold quotes but no newline.  The
  operators are tried in the order of the expression.\<close>

definition lv_split :: "string \<Rightarrow> (string \<times> string \<times> string) option" where
  "lv_split s =
     (let name = takeWhile name_char s; rest = dropWhile name_char s
      in if name = [] then None
         else case find (\<lambda>op. HasPrefix rest (op @ [CHR 0x22])) [''=~'', ''!~'', ''=*'', ''!*'', ''='', ''!=''] of
                None \<Rightarrow> None
              | Some op \<Rightarrow>
                  let q = drop (length op + 1) rest
                  in if length q \<ge> 2 \<and> last q = CHR 0x22 \<and> CHR 0x0A \<notin> set (butlast q)
                     then Some (name, op, butlast q) else None)"

type_synonym 're built_selector = "(go_error + 're Selector) option"

text \<open>The part of \<open>parseSelector\<close> that makes the matcher.\<close>

definition op_matcher :: "(string \<Rightarrow> go_error + 're) \<Rightarrow> string \<Rightarrow> string \<Rightarrow> 're built" where
  "op_matcher compile op pat =
     (if op = ''='' \<or> op = ''!='' then Some (Inr (NewStringMatcher pat True True))
      else if op = ''=~'' \<or> op = ''!~'' then NewRegExpMatcher compile pat
      else if op = ''=*'' \<or> op = ''!*'' then NewSimplePatternsMatcher pat
      else Some (Inl (''unknown matching operator: '' @ op)))"

definition prom_parseSelector :: "(string \<Rightarrow> go_error + 're) \<Rightarrow> string \<Rightarrow> 're built_selector" where
  "prom_parseSelector compile line =
     (case lv_split (TrimSpace line) of
        None \<Rightarrow> Some (Inl (''invalid selector syntax: '' @ [CHR 0x27] @ line @ [CHR 0x27]))
      | Some (name, op, pat0) \<Rightarrow>
          (case op_matcher compile op (TrimBytes pat0 {CHR 0x22}) of
             None \<Rightarrow> None
           | Some (Inl err) \<Rightarrow> Some (Inl err)
           | Some (Inr m) \<Rightarrow> Some (Inr (if HasPrefix op ''!'' then sNeg (sLabel name m) else sLabel name m))))"

fun parse_lvs :: "(string \<Rightarrow> go_error + 're) \<Rightarrow> string list \<Rightarrow> (go_error + 're Selector list) option" where
  "parse_lvs compile [] = Some (Inr [])"
| "parse_lvs compile (lv # lvs) =
     (case prom_parseSelector compile lv of
        None \<Rightarrow> None
      | Some (Inl err) \<Rightarrow> Some (Inl err)
      | Some (Inr sr) \<Rightarrow>
          (case parse_lvs compile lvs of
             None \<Rightarrow> None
           | Some (Inl err) \<Rightarrow> Some (Inl err)
           | Some (Inr srs) \<Rightarrow> Some (Inr (sr # srs))))"

text \<open>\<open>strings.Split\<close> gives at least one part, so the first case does not arise; the code returns nil there.\<close>

definition prom_Parse :: "(string \<Rightarrow> go_error + 're) \<Rightarrow> string \<Rightarrow> 're built_selector" where
  "prom_Parse compile expr =
     (case parse_lvs compile (SplitByte (unsugarExpr expr) CHR '','') of
        None \<Rightarrow> None
      | Some (Inl err) \<Rightarrow> Some (Inl err)
      | Some (Inr srs) \<Rightarrow>
          Some (Inr (case srs of [] \<Rightarrow> sTrue | [sr] \<Rightarrow> sr | l # r # others \<Rightarrow> And_selector l r others)))"

record prom_Expr =
  pe_Allow :: "string list"
  pe_Deny :: "string list"

definition prom_Expr_Empty :: "prom_Expr \<Rightarrow> bool" where
  "prom_Expr_Empty e \<longleftrightarrow> length (pe_Allow e) = 0 \<and> length (pe_Deny e) = 0"

fun parse_exprs :: "(string \<Rightarrow> go_error + 're) \<Rightarrow> string list \<Rightarrow> (go_error + 're Selector list) option" where
  "parse_exprs compile [] = Some (Inr [])"
| "parse_exprs compile (item # items) =
     (case prom_Parse compile item of
        None \<Rightarrow> None
      | Some (Inl err) \<Rightarrow> Some (Inl (''parse selector '' @ [CHR 0x27] @ item @ [CHR 0x27] @ '': '' @ err))
      | Some (Inr sr) \<Rightarrow>
          (case parse_exprs compile items of
             None \<Rightarrow> None
           | Some (Inl err) \<Rightarrow> Some (Inl err)
           | Some (Inr srs) \<Rightarrow> Some (Inr (sr # srs))))"

definition any_of :: "'re Selector \<Rightarrow> 're Selector list \<Rightarrow> 're Selector" where
  "any_of none srs = (case srs of [] \<Rightarrow> none | [sr] \<Rightarrow> sr | l # r # others \<Rightarrow> Or_selector l r others)"

text \<open>\<open>Expr.Parse\<close>; no selector at all for an empty expression.\<close>

definition prom_Expr_Parse :: "(string \<Rightarrow> go_error + 're) \<Rightarrow> prom_Expr \<Rightarrow> (go_error + 're Selector option) option" where
  "prom_Expr_Parse compile e =
     (if prom_Expr_Empty e then Some (Inr None)
      else case parse_exprs compile (pe_Allow e) of
             None \<Rightarrow> None
           | Some (Inl err) \<Rightarrow> Some (Inl err)
           | Some (Inr allow) \<Rightarrow>
               (case parse_exprs compile (pe_Deny e) of
                  None \<Rightarrow> None
                | Some (Inl err) \<Rightarrow> Some (Inl err)
                | Some (Inr deny) \<Rightarrow> Some (Inr (Some (sAnd (any_of sTrue allow) (sNeg (any_of sFalse deny)))))))"

section \<open>What a selector keeps\<close>

text \<open>On a series that has a name, no selector panics; its meaning is then a predicate.\<close>

fun selects :: "('re \<Rightarrow> string \<Rightarrow> bool) \<Rightarrow> 're Selector \<Rightarrow> label list \<Rightarrow> bool" where
  "selects re sTrue lbs \<longleftrightarrow> True"
| "selects re sFalse lbs \<longleftrightarrow> False"
| "selects re (sLabel name m) lbs \<longleftrightarrow>
     (\<exists>l. (if name = MetricName then lbs \<noteq> [] \<and> l = hd lbs else lookupLabel name (tl lbs) = Some l) \<and> MatchString re m (snd l))"
| "selects re (sNeg s) lbs \<longleftrightarrow> \<not> selects re s lbs"
| "selects re (sAnd l r) lbs \<longleftrightarrow> selects re l lbs \<and> selects re r lbs"
| "selects re (sOr l r) lbs \<longleftrightarrow> selects re l lbs \<or> selects re r lbs"

lemma Matches_selects: "lbs \<noteq> [] \<Longrightarrow> Matches re s lbs = Some (selects re s lbs)"
  by (induction s) (auto split: list.splits option.splits)

lemma selects_And: "selects re (And_selector l r others) lbs \<longleftrightarrow> (\<forall>s \<in> set (l # r # others). selects re s lbs)"
  by (induction l r others rule: And_selector.induct) auto

lemma selects_Or: "selects re (Or_selector l r others) lbs \<longleftrightarrow> (\<exists>s \<in> set (l # r # others). selects re s lbs)"
  by (induction l r others rule: Or_selector.induct) auto

lemma selects_any_of:
  "selects re (any_of sTrue srs) lbs \<longleftrightarrow> srs = [] \<or> (\<exists>s \<in> set srs. selects re s lbs)"
  "selects re (any_of sFalse srs) lbs \<longleftrightarrow> (\<exists>s \<in> set srs. selects re s lbs)"
  by (auto simp: any_of_def selects_Or split: list.splits)

text \<open>Does the selector an item is parsed into keep a series?\<close>

definition expr_selects :: "(string \<Rightarrow> go_error + 're) \<Rightarrow> ('re \<Rightarrow> string \<Rightarrow> bool) \<Rightarrow> string \<Rightarrow> label list \<Rightarrow> bool" where
  "expr_selects compile re item lbs \<longleftrightarrow> (case prom_Parse compile item of Some (Inr s) \<Rightarrow> selects re s lbs | _ \<Rightarrow> False)"

lemma parse_exprs_selects:
  "parse_exprs compile items = Some (Inr srs) \<Longrightarrow>
     (srs = [] \<longleftrightarrow> items = []) \<and> ((\<exists>s \<in> set srs. selects re s lbs) \<longleftrightarrow> (\<exists>item \<in> set items. expr_selects compile re item lbs))"
proof (induction items arbitrary: srs)
  case (Cons item items)
  then obtain sr srs' where "prom_Parse compile item = Some (Inr sr)" "parse_exprs compile items = Some (Inr srs')" "srs = sr # srs'"
    by (auto split: option.splits sum.splits)
  then show ?case using Cons.IH by (simp add: expr_selects_def [of compile re item])
qed simp

text \<open>An expression keeps the series that some allowed item selects, or all if there is none, and no denied
  item does; an empty expression is no selector, and nothing is dropped.\<close>

lemma prom_Expr_Parse_spec:
  assumes "prom_Expr_Parse compile e = Some (Inr sr)" and "lbs \<noteq> []"
  shows "(sr = None \<longleftrightarrow> prom_Expr_Empty e)
     \<and> (\<forall>s. sr = Some s \<longrightarrow> Matches re s lbs = Some
          ((pe_Allow e = [] \<or> (\<exists>item \<in> set (pe_Allow e). expr_selects compile re item lbs))
           \<and> \<not> (\<exists>item \<in> set (pe_Deny e). expr_selects compile re item lbs)))"
proof (cases "prom_Expr_Empty e")
  case True
  then show ?thesis using assms by (simp add: prom_Expr_Parse_def)
next
  case False
  then obtain allow deny where p: "parse_exprs compile (pe_Allow e) = Some (Inr allow)" "parse_exprs compile (pe_Deny e) = Some (Inr deny)"
    "sr = Some (sAnd (any_of sTrue allow) (sNeg (any_of sFalse deny)))"
    using assms(1) by (auto simp: prom_Expr_Parse_def split: option.splits sum.splits)
  show ?thesis using False parse_exprs_selects [OF p(1), of re lbs] parse_exprs_selects [OF p(2), of re lbs]
    by (simp add: p(3) Matches_selects [OF assms(2)] selects_any_of del: Matches.simps)
qed

end
