(* ===== verification/Prom_Parse.thy ===== *)
theory Prom_Parse
  imports Prom_Selector "HOL-Library.Word"
begin

text \<open>
  \<open>pkg/prometheus/parse.go\<close> and \<open>metric_family.go\<close>: from the entries of the text format to metric
  families.  The parser is kept between scrapes and reuses its memory: a family keeps its slice,
  and the metrics beyond its length are filled in again.  The tokenizer \<open>textparse\<close>, the hash of a
  set of labels, \<open>strconv.ParseFloat\<close> and the capacity \<open>append\<close> gives a full slice are parameters; a
  floating point number is a value of an arbitrary type with a zero.
\<close>

section \<open>Data\<close>

record 'f Summary =
  su_sum :: 'f
  su_count :: 'f
  su_quantiles :: "('f \<times> 'f) list"

record 'f Histogram =
  hi_sum :: 'f
  hi_count :: 'f
  hi_buckets :: "('f \<times> 'f) list"

text \<open>The pointers of a metric may be nil; each points to a value of its own.\<close>

record 'f Metric =
  me_labels :: "label list"
  me_gauge :: "'f option"
  me_counter :: "'f option"
  me_summary :: "'f Summary option"
  me_histogram :: "'f Histogram option"
  me_untyped :: "'f option"

definition zero_metric :: "'f Metric" where
  "zero_metric = \<lparr>me_labels = [], me_gauge = None, me_counter = None, me_summary = None, me_histogram = None, me_untyped = None\<rparr>"

text \<open>The slice of metrics: what it holds, and the rest of its array up to its capacity.\<close>

record 'f MetricFamily =
  mf_name :: string
  mf_help :: string
  mf_typ :: string
  mf_metrics :: "'f Metric list"
  mf_spare :: "'f Metric list"

definition MetricTypeUnknown :: string where "MetricTypeUnknown = ''unknown''"
definition MetricTypeGauge :: string where "MetricTypeGauge = ''gauge''"
definition MetricTypeCounter :: string where "MetricTypeCounter = ''counter''"
definition MetricTypeSummary :: string where "MetricTypeSummary = ''summary''"
definition MetricTypeHistogram :: string where "MetricTypeHistogram = ''histogram''"

lemmas metric_types = MetricTypeUnknown_def MetricTypeGauge_def MetricTypeCounter_def MetricTypeSummary_def MetricTypeHistogram_def

definition isSummaryOrHistogram :: "string \<Rightarrow> bool" where
  "isSummaryOrHistogram typ \<longleftrightarrow> typ = MetricTypeSummary \<or> typ = MetricTypeHistogram"

text \<open>What the tokenizer returns: an entry, or an error with whether the entry was \<open>EntryInvalid\<close>.  The labels of
  a series start with \<open>__name__\<close>, the name of the metric.\<close>

datatype 'f prom_entry =
    PHelp string string
  | PType string string
  | PSeries string "label list" 'f
  | POther
  | PError bool string

record ('re, 'f) prom_env =
  pv_re :: "'re \<Rightarrow> string \<Rightarrow> bool"
  pv_sr :: "'re Selector option"
  pv_Hash :: "label list \<Rightarrow> 64 word"
  pv_ParseFloat :: "string \<Rightarrow> 'f"
  pv_grow :: "nat \<Rightarrow> nat"

text \<open>The parser.  The current family is named by its key in the map, which is its name; a summary or histogram
  that was met is remembered by its family and its index there.\<close>

record 'f promTextParser =
  pp_metrics :: "string \<rightharpoonup> 'f MetricFamily"
  pp_currMF :: "string option"
  pp_currSeries :: "label list"
  pp_summaries :: "64 word \<rightharpoonup> string \<times> nat"
  pp_histograms :: "64 word \<rightharpoonup> string \<times> nat"
  pp_isCount :: bool
  pp_isSum :: bool
  pp_isQuantile :: bool
  pp_isBucket :: bool
  pp_currQuantile :: 'f
  pp_currBucket :: 'f

section \<open>The current family\<close>

definition setMetricFamilyByName :: "string \<Rightarrow> 'f promTextParser \<Rightarrow> 'f promTextParser" where
  "setMetricFamilyByName name p =
     (case pp_metrics p name of
        Some mf \<Rightarrow> p\<lparr>pp_currMF := Some name\<rparr>
      | None \<Rightarrow> p\<lparr>pp_metrics := (pp_metrics p)(name \<mapsto>
                  \<lparr>mf_name = name, mf_help = [], mf_typ = MetricTypeUnknown, mf_metrics = [], mf_spare = []\<rparr>),
                pp_currMF := Some name\<rparr>)"

definition curr_typ :: "'f promTextParser \<Rightarrow> string" where
  "curr_typ p = (case pp_currMF p of None \<Rightarrow> [] | Some n \<Rightarrow> (case pp_metrics p n of None \<Rightarrow> [] | Some mf \<Rightarrow> mf_typ mf))"

definition upd_family :: "string \<Rightarrow> ('f MetricFamily \<Rightarrow> 'f MetricFamily) \<Rightarrow> 'f promTextParser \<Rightarrow> 'f promTextParser" where
  "upd_family n f p = p\<lparr>pp_metrics := (pp_metrics p)(n := map_option f (pp_metrics p n))\<rparr>"

definition upd_currMF :: "('f MetricFamily \<Rightarrow> 'f MetricFamily) \<Rightarrow> 'f promTextParser \<Rightarrow> 'f promTextParser" where
  "upd_currMF f p = (case pp_currMF p of None \<Rightarrow> p | Some n \<Rightarrow> upd_family n f p)"

fun removeLabel :: "label list \<Rightarrow> string \<Rightarrow> (label list \<times> string) option" where
  "removeLabel [] name = None"
| "removeLabel (l # lbs) name =
     (if fst l = name then Some (lbs, snd l) else map_option (\<lambda>(r, v). (l # r, v)) (removeLabel lbs name))"

definition setQuantile :: "('re, 'f) prom_env \<Rightarrow> 'f promTextParser \<Rightarrow> 'f promTextParser" where
  "setQuantile e p =
     (case removeLabel (pp_currSeries p) ''quantile'' of
        None \<Rightarrow> p
      | Some (lbs, v) \<Rightarrow> p\<lparr>pp_isQuantile := True, pp_currSeries := lbs, pp_currQuantile := pv_ParseFloat e v\<rparr>)"

definition setBucket :: "('re, 'f) prom_env \<Rightarrow> 'f promTextParser \<Rightarrow> 'f promTextParser" where
  "setBucket e p =
     (case removeLabel (pp_currSeries p) ''le'' of
        None \<Rightarrow> p
      | Some (lbs, v) \<Rightarrow> p\<lparr>pp_isBucket := True, pp_currSeries := lbs, pp_currBucket := pv_ParseFloat e v\<rparr>)"

definition rename_series :: "string \<Rightarrow> 'f promTextParser \<Rightarrow> 'f promTextParser" where
  "rename_series n p = p\<lparr>pp_currSeries := (fst (hd (pp_currSeries p)), n) # tl (pp_currSeries p)\<rparr>"

definition Has_label :: "label list \<Rightarrow> string \<Rightarrow> bool" where
  "Has_label lbs name \<longleftrightarrow> name \<in> fst ` set lbs"

definition known_composite :: "'f promTextParser \<Rightarrow> string \<Rightarrow> bool" where
  "known_composite p n \<longleftrightarrow> (case pp_metrics p n of Some mf \<Rightarrow> isSummaryOrHistogram (mf_typ mf) | None \<Rightarrow> False)"

text \<open>The end of \<open>setMetricFamilyBySeries\<close>: the family of a name, with a type if it has none.\<close>

definition family_with_typ :: "string \<Rightarrow> string \<Rightarrow> 'f promTextParser \<Rightarrow> 'f promTextParser" where
  "family_with_typ name typ p =
     upd_currMF (\<lambda>mf. if mf_typ mf = [] \<or> mf_typ mf = MetricTypeUnknown then mf\<lparr>mf_typ := typ\<rparr> else mf)
       (setMetricFamilyByName name p)"

text \<open>A series without labels makes it panic.\<close>

definition setMetricFamilyBySeries :: "('re, 'f :: zero) prom_env \<Rightarrow> 'f promTextParser \<Rightarrow> 'f promTextParser option" where
  "setMetricFamilyBySeries e p0 =
     (let p = p0\<lparr>pp_isSum := False, pp_isCount := False, pp_isQuantile := False, pp_isBucket := False,
                 pp_currQuantile := 0, pp_currBucket := 0\<rparr>
      in case pp_currSeries p of
           [] \<Rightarrow> None
         | l # lbs \<Rightarrow>
             let name = snd l in
             if pp_currMF p = Some name
             then Some (if curr_typ p = MetricTypeSummary then setQuantile e p else p)
             else if HasSuffix name ''_sum'' then
               (let n = TrimSuffix name ''_sum'' in
                if known_composite p n then Some ((rename_series n (p\<lparr>pp_isSum := True\<rparr>))\<lparr>pp_currMF := Some n\<rparr>)
                else Some (family_with_typ name MetricTypeUnknown p))
             else if HasSuffix name ''_count'' then
               (let n = TrimSuffix name ''_count'' in
                if known_composite p n then Some ((rename_series n (p\<lparr>pp_isCount := True\<rparr>))\<lparr>pp_currMF := Some n\<rparr>)
                else Some (family_with_typ name MetricTypeUnknown p))
             else if HasSuffix name ''_bucket'' then
               (let n = TrimSuffix name ''_bucket'' in
                if known_composite p n then Some ((setBucket e (rename_series n p))\<lparr>pp_currMF := Some n\<rparr>)
                else if Has_label (pp_currSeries p) ''le''
                then Some (family_with_typ n MetricTypeHistogram (setBucket e (rename_series n p)))
                else Some (family_with_typ name MetricTypeUnknown p))
             else if Has_label (pp_currSeries p) ''quantile''
             then Some (family_with_typ name MetricTypeSummary (setQuantile e p))
             else Some (family_with_typ name MetricTypeUnknown p))"

section \<open>Adding a metric\<close>

text \<open>The five methods take the next metric of the slice, a new one when the slice is full and else one that
  may have been used before, and fill it in.\<close>

definition next_metric :: "(nat \<Rightarrow> nat) \<Rightarrow> ('f Metric \<Rightarrow> 'f Metric) \<Rightarrow> label list \<Rightarrow> 'f MetricFamily \<Rightarrow> 'f MetricFamily" where
  "next_metric grow fill lbs mf =
     (case mf_spare mf of
        [] \<Rightarrow> mf\<lparr>mf_metrics := mf_metrics mf @ [(fill zero_metric)\<lparr>me_labels := lbs\<rparr>],
                mf_spare := replicate (grow (length (mf_metrics mf))) zero_metric\<rparr>
      | m # ms \<Rightarrow> mf\<lparr>mf_metrics := mf_metrics mf @ [(fill m)\<lparr>me_labels := lbs\<rparr>], mf_spare := ms\<rparr>)"

definition add_value :: "('re, 'f) prom_env \<Rightarrow> ('f Metric \<Rightarrow> 'f Metric) \<Rightarrow> 'f promTextParser \<Rightarrow> 'f promTextParser" where
  "add_value e fill p0 =
     (let p = p0\<lparr>pp_currSeries := tl (pp_currSeries p0)\<rparr>
      in upd_currMF (next_metric (pv_grow e) fill (pp_currSeries p)) p)"

definition addGauge :: "('re, 'f) prom_env \<Rightarrow> 'f \<Rightarrow> 'f promTextParser \<Rightarrow> 'f promTextParser" where
  "addGauge e value = add_value e (\<lambda>m. m\<lparr>me_gauge := Some value\<rparr>)"

definition addCounter :: "('re, 'f) prom_env \<Rightarrow> 'f \<Rightarrow> 'f promTextParser \<Rightarrow> 'f promTextParser" where
  "addCounter e value = add_value e (\<lambda>m. m\<lparr>me_counter := Some value\<rparr>)"

definition addUnknown :: "('re, 'f) prom_env \<Rightarrow> 'f \<Rightarrow> 'f promTextParser \<Rightarrow> 'f promTextParser" where
  "addUnknown e value = add_value e (\<lambda>m. m\<lparr>me_untyped := Some value\<rparr>)"

definition count_metrics :: "'f promTextParser \<Rightarrow> nat" where
  "count_metrics p = (case pp_currMF p of None \<Rightarrow> 0 | Some n \<Rightarrow> (case pp_metrics p n of None \<Rightarrow> 0 | Some mf \<Rightarrow> length (mf_metrics mf)))"

definition upd_metric :: "string \<times> nat \<Rightarrow> ('f Metric \<Rightarrow> 'f Metric) \<Rightarrow> 'f promTextParser \<Rightarrow> 'f promTextParser" where
  "upd_metric at f = upd_family (fst at) (\<lambda>mf. mf\<lparr>mf_metrics := (mf_metrics mf)[snd at := f (mf_metrics mf ! snd at)]\<rparr>)"

definition addSummary :: "('re, 'f :: zero) prom_env \<Rightarrow> 'f \<Rightarrow> 'f promTextParser \<Rightarrow> 'f promTextParser" where
  "addSummary e value p0 =
     (let hash = pv_Hash e (pp_currSeries p0);
          p = (case pp_summaries p0 hash of
                 Some at \<Rightarrow> p0\<lparr>pp_currSeries := tl (pp_currSeries p0)\<rparr>
               | None \<Rightarrow>
                   (add_value e (\<lambda>m. m\<lparr>me_summary := Some \<lparr>su_sum = 0, su_count = 0, su_quantiles = []\<rparr>\<rparr>) p0)
                     \<lparr>pp_summaries := (pp_summaries p0)(hash := map_option (\<lambda>n. (n, count_metrics p0)) (pp_currMF p0))\<rparr>);
          upd = (\<lambda>f. case pp_summaries p hash of
                        None \<Rightarrow> p
                      | Some at \<Rightarrow> upd_metric at (\<lambda>m. m\<lparr>me_summary := map_option f (me_summary m)\<rparr>) p)
      in if pp_isQuantile p then upd (\<lambda>s. s\<lparr>su_quantiles := su_quantiles s @ [(pp_currQuantile p, value)]\<rparr>)
         else if pp_isSum p then upd (\<lambda>s. s\<lparr>su_sum := value\<rparr>)
         else if pp_isCount p then upd (\<lambda>s. s\<lparr>su_count := value\<rparr>)
         else p)"

definition addHistogram :: "('re, 'f :: zero) prom_env \<Rightarrow> 'f \<Rightarrow> 'f promTextParser \<Rightarrow> 'f promTextParser" where
  "addHistogram e value p0 =
     (let hash = pv_Hash e (pp_currSeries p0);
          p = (case pp_histograms p0 hash of
                 Some at \<Rightarrow> p0\<lparr>pp_currSeries := tl (pp_currSeries p0)\<rparr>
               | None \<Rightarrow>
                   (add_value e (\<lambda>m. m\<lparr>me_histogram := Some \<lparr>hi_sum = 0, hi_count = 0, hi_buckets = []\<rparr>\<rparr>) p0)
                     \<lparr>pp_histograms := (pp_histograms p0)(hash := map_option (\<lambda>n. (n, count_metrics p0)) (pp_currMF p0))\<rparr>);
          upd = (\<lambda>f. case pp_histograms p hash of
                        None \<Rightarrow> p
                      | Some at \<Rightarrow> upd_metric at (\<lambda>m. m\<lparr>me_histogram := map_option f (me_histogram m)\<rparr>) p)
      in if pp_isBucket p then upd (\<lambda>h. h\<lparr>hi_buckets := hi_buckets h @ [(pp_currBucket p, value)]\<rparr>)
         else if pp_isSum p then upd (\<lambda>h. h\<lparr>hi_sum := value\<rparr>)
         else if pp_isCount p then upd (\<lambda>h. h\<lparr>hi_count := value\<rparr>)
         else p)"

section \<open>A scrape\<close>

text \<open>\<open>reSpace.ReplaceAllString(s, " ")\<close>.\<close>

fun one_space :: "bool \<Rightarrow> string \<Rightarrow> string" where
  "one_space inrun [] = []"
| "one_space inrun (c # cs) =
     (if re_space c then (if inrun then one_space True cs else CHR 0x20 # one_space True cs)
      else c # one_space False cs)"

definition help_line :: "string \<Rightarrow> string" where
  "help_line help = (if CHR 0x0A \<in> set help then one_space False (TrimSpace help) else help)"

definition prom_reset :: "'f promTextParser \<Rightarrow> 'f promTextParser" where
  "prom_reset p = p\<lparr>
     pp_currMF := None, pp_currSeries := [],
     pp_metrics := (\<lambda>n. map_option (\<lambda>mf. mf\<lparr>mf_help := [], mf_typ := [], mf_metrics := [],
                       mf_spare := mf_metrics mf @ mf_spare mf\<rparr>) (pp_metrics p n)),
     pp_summaries := Map.empty, pp_histograms := Map.empty\<rparr>"

definition add_series :: "('re, 'f :: zero) prom_env \<Rightarrow> 'f \<Rightarrow> 'f promTextParser \<Rightarrow> 'f promTextParser" where
  "add_series e value p =
     (let typ = curr_typ p in
      if typ = MetricTypeGauge then addGauge e value p
      else if typ = MetricTypeCounter then addCounter e value p
      else if typ = MetricTypeSummary then addSummary e value p
      else if typ = MetricTypeHistogram then addHistogram e value p
      else if typ = MetricTypeUnknown then addUnknown e value p
      else p)"

text \<open>The selector, if there is one, on the labels of a series.\<close>

definition sr_keeps :: "('re, 'f) prom_env \<Rightarrow> label list \<Rightarrow> bool option" where
  "sr_keeps e lbs = (case pv_sr e of None \<Rightarrow> Some True | Some sr \<Rightarrow> Matches (pv_re e) sr lbs)"

definition parse_entry :: "('re, 'f :: zero) prom_env \<Rightarrow> 'f prom_entry \<Rightarrow> 'f promTextParser \<Rightarrow> 'f promTextParser option" where
  "parse_entry e x p =
     (case x of
        PHelp name help \<Rightarrow> Some (upd_currMF (\<lambda>mf. mf\<lparr>mf_help := help_line help\<rparr>) (setMetricFamilyByName name p))
      | PType name typ \<Rightarrow> Some (upd_currMF (\<lambda>mf. mf\<lparr>mf_typ := typ\<rparr>) (setMetricFamilyByName name p))
      | PSeries name lbs value \<Rightarrow>
          (let p1 = p\<lparr>pp_currSeries := (MetricName, name) # lbs\<rparr> in
           case sr_keeps e (pp_currSeries p1) of
             None \<Rightarrow> None
           | Some keep \<Rightarrow>
               if \<not> keep then Some p1
               else map_option (add_series e value) (setMetricFamilyBySeries e p1))
      | _ \<Rightarrow> Some p)"

text \<open>The loop: an invalid metric type is skipped, any other error ends it.\<close>

fun parse_entries :: "('re, 'f :: zero) prom_env \<Rightarrow> 'f prom_entry list \<Rightarrow> 'f promTextParser
    \<Rightarrow> (go_error option \<times> 'f promTextParser) option" where
  "parse_entries e [] p = Some (None, p)"
| "parse_entries e (x # xs) p =
     (case x of
        PError invalid msg \<Rightarrow>
          if invalid \<and> HasPrefix msg ''invalid metric type'' then parse_entries e xs p else Some (Some msg, p)
      | _ \<Rightarrow> (case parse_entry e x p of None \<Rightarrow> None | Some p1 \<Rightarrow> parse_entries e xs p1))"

definition drop_empty :: "(string \<rightharpoonup> 'f MetricFamily) \<Rightarrow> (string \<rightharpoonup> 'f MetricFamily)" where
  "drop_empty ms n = (case ms n of Some mf \<Rightarrow> if length (mf_metrics mf) = 0 then None else Some mf | None \<Rightarrow> None)"

definition parseToMetricFamilies :: "('re, 'f :: zero) prom_env \<Rightarrow> 'f prom_entry list \<Rightarrow> 'f promTextParser
    \<Rightarrow> ((go_error + (string \<rightharpoonup> 'f MetricFamily)) \<times> 'f promTextParser) option" where
  "parseToMetricFamilies e xs p =
     (case parse_entries e xs (prom_reset p) of
        None \<Rightarrow> None
      | Some (Some err, p1) \<Rightarrow> Some (Inl err, p1)
      | Some (None, p1) \<Rightarrow> let ms = drop_empty (pp_metrics p1) in Some (Inr ms, p1\<lparr>pp_metrics := ms\<rparr>))"

definition new_parser :: "'f :: zero promTextParser" where
  "new_parser = \<lparr>pp_metrics = Map.empty, pp_currMF = None, pp_currSeries = [], pp_summaries = Map.empty,
     pp_histograms = Map.empty, pp_isCount = False, pp_isSum = False, pp_isQuantile = False, pp_isBucket = False,
     pp_currQuantile = 0, pp_currBucket = 0\<rparr>"

end
