(* ===== verification/Prom_Reuse.thy ===== *)
theory Prom_Reuse
  imports Prom_Parse
begin

text \<open>
  The parser of \<open>pkg/prometheus/parse.go\<close> across scrapes: it keeps its families, their slices and the metrics in
  them, and fills them in again.  A parser that was used before is compared with a new one on the same text.
\<close>

section \<open>What a parser that was used before returns\<close>

text \<open>\<^bold>\<open>Relation.\<close>  The left is a parser that starts fresh, the right one that was used before: a metric of the
  right may have pointers left from an earlier use, and the right may have families the left has not met.\<close>

definition opt_le :: "'a option \<Rightarrow> 'a option \<Rightarrow> bool" where
  "opt_le x y \<longleftrightarrow> x = None \<or> x = y"

definition metric_le :: "'f Metric \<Rightarrow> 'f Metric \<Rightarrow> bool" where
  "metric_le a b \<longleftrightarrow> me_labels a = me_labels b \<and> opt_le (me_gauge a) (me_gauge b) \<and> opt_le (me_counter a) (me_counter b)
     \<and> opt_le (me_summary a) (me_summary b) \<and> opt_le (me_histogram a) (me_histogram b) \<and> opt_le (me_untyped a) (me_untyped b)"

definition family_le :: "'f MetricFamily \<Rightarrow> 'f MetricFamily \<Rightarrow> bool" where
  "family_le a b \<longleftrightarrow> mf_name a = mf_name b \<and> mf_help a = mf_help b \<and> mf_typ a = mf_typ b
     \<and> list_all2 metric_le (mf_metrics a) (mf_metrics b)"

definition blank_family :: "string \<Rightarrow> 'f MetricFamily \<Rightarrow> bool" where
  "blank_family n mf \<longleftrightarrow> mf_name mf = n \<and> mf_help mf = [] \<and> mf_typ mf = [] \<and> mf_metrics mf = []"

definition fam_rel :: "string \<Rightarrow> 'f MetricFamily option \<Rightarrow> 'f MetricFamily option \<Rightarrow> bool" where
  "fam_rel n a b \<longleftrightarrow> (case a of
       None \<Rightarrow> pred_option (blank_family n) b
     | Some x \<Rightarrow> (\<exists>y. b = Some y \<and> family_le x y) \<and> (\<forall>m \<in> set (mf_spare x). m = zero_metric))"

definition state_rel :: "'f promTextParser \<Rightarrow> 'f promTextParser \<Rightarrow> bool" where
  "state_rel f r \<longleftrightarrow> pp_currMF f = pp_currMF r \<and> pp_currSeries f = pp_currSeries r
     \<and> pp_summaries f = pp_summaries r \<and> pp_histograms f = pp_histograms r
     \<and> (\<forall>n. fam_rel n (pp_metrics f n) (pp_metrics r n))
     \<and> (\<forall>n. pp_currMF f = Some n \<longrightarrow> pp_metrics f n \<noteq> None)"

definition same_flags :: "'f promTextParser \<Rightarrow> 'f promTextParser \<Rightarrow> bool" where
  "same_flags f r \<longleftrightarrow> pp_isCount f = pp_isCount r \<and> pp_isSum f = pp_isSum r \<and> pp_isQuantile f = pp_isQuantile r
     \<and> pp_isBucket f = pp_isBucket r \<and> pp_currQuantile f = pp_currQuantile r \<and> pp_currBucket f = pp_currBucket r"

lemma opt_le_simps [simp]: "opt_le None x" "opt_le x x"
  by (auto simp: opt_le_def)

lemma fam_rel_None [simp]: "fam_rel n None b \<longleftrightarrow> (\<forall>y. b = Some y \<longrightarrow> blank_family n y)"
  by (cases b) (auto simp: fam_rel_def)

lemma fam_rel_Some: "fam_rel n (Some x) b \<longleftrightarrow> (\<exists>y. b = Some y \<and> family_le x y) \<and> (\<forall>m \<in> set (mf_spare x). m = zero_metric)"
  by (auto simp: fam_rel_def)

lemma fam_rel_typ:
  assumes "fam_rel n a b"
  shows "(case a of None \<Rightarrow> [] | Some mf \<Rightarrow> mf_typ mf) = (case b of None \<Rightarrow> [] | Some mf \<Rightarrow> mf_typ mf)"
  using assms by (cases a; cases b) (auto simp: fam_rel_Some family_le_def blank_family_def)

lemma state_relD:
  assumes "state_rel f r"
  shows "pp_currMF r = pp_currMF f" "pp_currSeries r = pp_currSeries f" "pp_summaries r = pp_summaries f"
    "pp_histograms r = pp_histograms f" "fam_rel n (pp_metrics f n) (pp_metrics r n)"
  using assms by (auto simp: state_rel_def)

lemma state_rel_curr_typ: "state_rel f r \<Longrightarrow> curr_typ r = curr_typ f"
  using fam_rel_typ [OF state_relD(5), of f r] state_relD(1) [of f r] by (cases "pp_currMF f") (simp_all add: curr_typ_def)

lemma state_rel_known_composite: "state_rel f r \<Longrightarrow> known_composite r n = known_composite f n"
  using fam_rel_typ [of n "pp_metrics f n" "pp_metrics r n"]
  by (auto simp: state_rel_def known_composite_def isSummaryOrHistogram_def metric_types split: option.splits)

lemma state_rel_upd_family:
  assumes rel: "state_rel f r"
    and step: "\<And>x y. fam_rel n (Some x) (Some y) \<Longrightarrow> fam_rel n (Some (g x)) (Some (g y))"
    and blank: "\<And>y. pp_metrics f n = None \<Longrightarrow> blank_family n y \<Longrightarrow> blank_family n (g y)"
  shows "state_rel (upd_family n g f) (upd_family n g r)"
proof -
  have "fam_rel n (map_option g (pp_metrics f n)) (map_option g (pp_metrics r n))"
    using state_relD(5) [OF rel, of n] step blank
    by (cases "pp_metrics f n"; cases "pp_metrics r n") (auto simp: fam_rel_Some)
  then show ?thesis using rel by (auto simp: state_rel_def upd_family_def)
qed

lemma state_rel_upd_currMF:
  assumes rel: "state_rel f r"
    and step: "\<And>n x y. fam_rel n (Some x) (Some y) \<Longrightarrow> fam_rel n (Some (g x)) (Some (g y))"
  shows "state_rel (upd_currMF g f) (upd_currMF g r)"
  using rel state_rel_upd_family [OF rel step]
  by (fastforce simp: upd_currMF_def state_rel_def split: option.splits)

text \<open>A metric that is filled in again keeps only pointers of other kinds.\<close>

definition fill_mono :: "('f Metric \<Rightarrow> 'f Metric) \<Rightarrow> bool" where
  "fill_mono fill \<longleftrightarrow> (\<forall>m lbs. metric_le ((fill zero_metric)\<lparr>me_labels := lbs\<rparr>) ((fill m)\<lparr>me_labels := lbs\<rparr>))"

lemma fill_monos [simp]:
  "fill_mono (\<lambda>m. m\<lparr>me_gauge := Some v\<rparr>)" "fill_mono (\<lambda>m. m\<lparr>me_counter := Some v\<rparr>)" "fill_mono (\<lambda>m. m\<lparr>me_untyped := Some v\<rparr>)"
  "fill_mono (\<lambda>m. m\<lparr>me_summary := Some s\<rparr>)" "fill_mono (\<lambda>m. m\<lparr>me_histogram := Some h\<rparr>)"
  by (simp_all add: fill_mono_def metric_le_def zero_metric_def)

lemma next_metric_rel:
  assumes "fam_rel n (Some x) (Some y)" and "fill_mono fill"
  shows "fam_rel n (Some (next_metric grow fill lbs x)) (Some (next_metric grow' fill lbs y))"
  using assms
  by (cases "mf_spare x"; cases "mf_spare y")
    (auto simp: fam_rel_Some family_le_def next_metric_def fill_mono_def intro!: list_all2_appendI)

lemma add_value_rel:
  assumes "state_rel f r" and "fill_mono fill"
  shows "state_rel (add_value e fill f) (add_value e fill r)"
proof -
  have "state_rel (f\<lparr>pp_currSeries := tl (pp_currSeries f)\<rparr>) (r\<lparr>pp_currSeries := tl (pp_currSeries f)\<rparr>)"
    using assms(1) by (auto simp: state_rel_def)
  then show ?thesis
    using state_relD(2) [OF assms(1)] assms(2)
    by (auto simp: add_value_def Let_def intro!: state_rel_upd_currMF next_metric_rel)
qed

lemma upd_metric_rel:
  fixes f r :: "'a promTextParser"
  assumes "state_rel f r" and mono: "\<And>a b. metric_le a b \<Longrightarrow> metric_le (g a) (g b)"
  shows "state_rel (upd_metric at g f) (upd_metric at g r)"
  unfolding upd_metric_def
proof (rule state_rel_upd_family [OF assms(1)])
  fix x y :: "'a MetricFamily"
  assume fr: "fam_rel (fst at) (Some x) (Some y)"
  then have l2: "list_all2 metric_le (mf_metrics x) (mf_metrics y)" by (simp add: fam_rel_Some family_le_def)
  have "list_all2 metric_le ((mf_metrics x)[snd at := g (mf_metrics x ! snd at)]) ((mf_metrics y)[snd at := g (mf_metrics y ! snd at)])"
  proof (cases "snd at < length (mf_metrics x)")
    case True
    then have "metric_le (mf_metrics x ! snd at) (mf_metrics y ! snd at)" using l2 by (simp add: list_all2_nthD)
    then show ?thesis using l2 mono by (auto intro!: list_all2_update_cong)
  next
    case False
    then show ?thesis using l2 list_all2_lengthD [OF l2] by (simp add: list_update_beyond)
  qed
  then show "fam_rel (fst at) (Some (x\<lparr>mf_metrics := (mf_metrics x)[snd at := g (mf_metrics x ! snd at)]\<rparr>))
      (Some (y\<lparr>mf_metrics := (mf_metrics y)[snd at := g (mf_metrics y ! snd at)]\<rparr>))"
    using fr by (simp add: fam_rel_Some family_le_def)
qed (simp add: blank_family_def)

lemma metric_le_maps:
  "metric_le a b \<Longrightarrow> metric_le (a\<lparr>me_summary := map_option g (me_summary a)\<rparr>) (b\<lparr>me_summary := map_option g (me_summary b)\<rparr>)"
  "metric_le a b \<Longrightarrow> metric_le (a\<lparr>me_histogram := map_option h (me_histogram a)\<rparr>) (b\<lparr>me_histogram := map_option h (me_histogram b)\<rparr>)"
  by (auto simp: metric_le_def opt_le_def)

lemma count_metrics_rel:
  assumes "state_rel f r"
  shows "count_metrics r = count_metrics f"
proof (cases "pp_currMF f")
  case (Some n)
  then obtain x y where "pp_metrics f n = Some x" "pp_metrics r n = Some y" "family_le x y"
    using assms state_relD(5) [OF assms, of n] by (cases "pp_metrics f n") (auto simp: state_rel_def fam_rel_Some)
  then show ?thesis
    using Some state_relD(1) [OF assms] by (auto simp: count_metrics_def family_le_def dest: list_all2_lengthD)
qed (use state_relD(1) [OF assms] in \<open>simp add: count_metrics_def\<close>)

text \<open>\<^bold>\<open>Series.\<close>\<close>

definition both_rel :: "'f promTextParser \<Rightarrow> 'f promTextParser \<Rightarrow> bool" where
  "both_rel f r \<longleftrightarrow> state_rel f r \<and> same_flags f r"

lemma both_rel_upds:
  assumes "both_rel f r"
  shows "both_rel (f\<lparr>pp_isSum := b\<rparr>) (r\<lparr>pp_isSum := b\<rparr>)" "both_rel (f\<lparr>pp_isCount := b\<rparr>) (r\<lparr>pp_isCount := b\<rparr>)"
    "both_rel (f\<lparr>pp_currSeries := lbs\<rparr>) (r\<lparr>pp_currSeries := lbs\<rparr>)"
    "both_rel (f\<lparr>pp_summaries := s\<rparr>) (r\<lparr>pp_summaries := s\<rparr>)" "both_rel (f\<lparr>pp_histograms := s\<rparr>) (r\<lparr>pp_histograms := s\<rparr>)"
    "both_rel (f\<lparr>pp_isQuantile := b, pp_currSeries := lbs, pp_currQuantile := v\<rparr>) (r\<lparr>pp_isQuantile := b, pp_currSeries := lbs, pp_currQuantile := v\<rparr>)"
    "both_rel (f\<lparr>pp_isBucket := b, pp_currSeries := lbs, pp_currBucket := v\<rparr>) (r\<lparr>pp_isBucket := b, pp_currSeries := lbs, pp_currBucket := v\<rparr>)"
    "pp_metrics f n \<noteq> None \<Longrightarrow> both_rel (f\<lparr>pp_currMF := Some n\<rparr>) (r\<lparr>pp_currMF := Some n\<rparr>)"
  using assms by (auto simp: both_rel_def state_rel_def same_flags_def)

lemma both_relD:
  assumes "both_rel f r"
  shows "state_rel f r" "pp_currMF r = pp_currMF f" "pp_currSeries r = pp_currSeries f" "pp_summaries r = pp_summaries f"
    "pp_histograms r = pp_histograms f" "pp_isCount r = pp_isCount f" "pp_isSum r = pp_isSum f"
    "pp_isQuantile r = pp_isQuantile f" "pp_isBucket r = pp_isBucket f" "pp_currQuantile r = pp_currQuantile f"
    "pp_currBucket r = pp_currBucket f" "curr_typ r = curr_typ f" "known_composite r n = known_composite f n"
    "count_metrics r = count_metrics f"
proof -
  show rel: "state_rel f r" using assms by (simp add: both_rel_def)
  show "curr_typ r = curr_typ f" "known_composite r n = known_composite f n" "count_metrics r = count_metrics f"
    using rel by (rule state_rel_curr_typ state_rel_known_composite count_metrics_rel)+
qed (use assms in \<open>simp_all add: both_rel_def state_rel_def same_flags_def\<close>)

lemma flags_upds [simp]:
  "same_flags (upd_family n g f) (upd_family n g r) = same_flags f r"
  "same_flags (upd_currMF g f) (upd_currMF g r) = same_flags f r"
  "same_flags (upd_metric at h f) (upd_metric at h r) = same_flags f r"
  "same_flags (add_value e fill f) (add_value e fill r) = same_flags f r"
  "same_flags (setMetricFamilyByName n f) (setMetricFamilyByName n r) = same_flags f r"
  by (auto simp: same_flags_def upd_family_def upd_currMF_def upd_metric_def add_value_def setMetricFamilyByName_def Let_def
      split: option.splits)

lemma setQuantile_rel: "both_rel f r \<Longrightarrow> both_rel (setQuantile e f) (setQuantile e r)"
  by (auto simp: setQuantile_def both_relD(3) both_rel_upds split: option.splits)

lemma setBucket_rel: "both_rel f r \<Longrightarrow> both_rel (setBucket e f) (setBucket e r)"
  by (auto simp: setBucket_def both_relD(3) both_rel_upds split: option.splits)

lemma rename_series_rel: "both_rel f r \<Longrightarrow> both_rel (rename_series n f) (rename_series n r)"
  by (simp add: rename_series_def both_relD(3) both_rel_upds)

lemma setBucket_metrics [simp]: "pp_metrics (setBucket e p) = pp_metrics p"
  by (simp add: setBucket_def split: option.splits)

lemma rename_series_metrics [simp]: "pp_metrics (rename_series n p) = pp_metrics p"
  by (simp add: rename_series_def)

lemma known_composite_dom [simp]: "known_composite p n \<Longrightarrow> \<exists>mf. pp_metrics p n = Some mf"
  by (auto simp: known_composite_def split: option.splits)

text \<open>A family the fresh parser creates and the used one finds blank differ in their type, until it is set.\<close>

lemma typed_family_rel:
  assumes rel: "state_rel f r" and g: "\<And>n x y. fam_rel n (Some x) (Some y) \<Longrightarrow> fam_rel n (Some (g x)) (Some (g y))"
    and new: "\<And>y. blank_family n y \<Longrightarrow> fam_rel n
       (Some (g \<lparr>mf_name = n, mf_help = [], mf_typ = MetricTypeUnknown, mf_metrics = [], mf_spare = []\<rparr>)) (Some (g y))"
    and fresh: "fam_rel n
       (Some (g \<lparr>mf_name = n, mf_help = [], mf_typ = MetricTypeUnknown, mf_metrics = [], mf_spare = []\<rparr>))
       (Some (g \<lparr>mf_name = n, mf_help = [], mf_typ = MetricTypeUnknown, mf_metrics = [], mf_spare = []\<rparr>))"
  shows "state_rel (upd_currMF g (setMetricFamilyByName n f)) (upd_currMF g (setMetricFamilyByName n r))"
proof -
  have "fam_rel n (pp_metrics f n) (pp_metrics r n)" using rel by (rule state_relD)
  then show ?thesis
    using rel g new fresh
    by (cases "pp_metrics f n"; cases "pp_metrics r n")
      (auto simp: setMetricFamilyByName_def upd_currMF_def upd_family_def state_rel_def fam_rel_Some)
qed

lemma family_with_typ_rel:
  assumes "both_rel f r"
  shows "both_rel (family_with_typ n t f) (family_with_typ n t r)"
  using assms
  by (auto simp: both_rel_def family_with_typ_def fam_rel_Some family_le_def blank_family_def intro!: typed_family_rel)

lemma setMetricFamilyBySeries_rel:
  assumes "state_rel f r"
  shows "rel_option both_rel (setMetricFamilyBySeries e f) (setMetricFamilyBySeries e r)"
proof -
  define off :: "'a promTextParser \<Rightarrow> 'a promTextParser" where
    "off p = p\<lparr>pp_isSum := False, pp_isCount := False, pp_isQuantile := False, pp_isBucket := False,
       pp_currQuantile := 0, pp_currBucket := 0\<rparr>" for p
  have off: "both_rel (off f) (off r)"
    using assms by (auto simp: off_def both_rel_def state_rel_def same_flags_def)
  note D = both_relD [OF off]
  show ?thesis
    unfolding setMetricFamilyBySeries_def Let_def off_def [symmetric]
    by (simp add: D off both_rel_upds setQuantile_rel setBucket_rel rename_series_rel family_with_typ_rel split: list.split)
qed

lemma add_value_both:
  assumes "both_rel f r" and "fill_mono fill"
  shows "both_rel (add_value e fill f) (add_value e fill r)"
  using assms add_value_rel by (auto simp: both_rel_def)

lemma upd_metric_both:
  assumes "both_rel f r" and "\<And>a b. metric_le a b \<Longrightarrow> metric_le (g a) (g b)"
  shows "both_rel (upd_metric at g f) (upd_metric at g r)"
  using assms upd_metric_rel [of f r g at] by (auto simp: both_rel_def)

lemma add_value_frame [simp]:
  "pp_currMF (add_value e fill p) = pp_currMF p" "pp_isSum (add_value e fill p) = pp_isSum p"
  "pp_isCount (add_value e fill p) = pp_isCount p" "pp_isQuantile (add_value e fill p) = pp_isQuantile p"
  "pp_isBucket (add_value e fill p) = pp_isBucket p" "pp_currQuantile (add_value e fill p) = pp_currQuantile p"
  "pp_currBucket (add_value e fill p) = pp_currBucket p"
  by (auto simp: add_value_def upd_currMF_def upd_family_def Let_def split: option.splits)

lemma addSummary_rel: "both_rel f r \<Longrightarrow> both_rel (addSummary e v f) (addSummary e v r)"
  unfolding addSummary_def Let_def
  by (auto simp: both_relD split: option.split intro!: both_rel_upds add_value_both upd_metric_both metric_le_maps)

lemma addHistogram_rel: "both_rel f r \<Longrightarrow> both_rel (addHistogram e v f) (addHistogram e v r)"
  unfolding addHistogram_def Let_def
  by (auto simp: both_relD split: option.split intro!: both_rel_upds add_value_both upd_metric_both metric_le_maps)

lemma add_series_rel: "both_rel f r \<Longrightarrow> both_rel (add_series e v f) (add_series e v r)"
  by (auto simp: add_series_def Let_def both_relD addGauge_def addCounter_def addUnknown_def
      intro!: addSummary_rel addHistogram_rel add_value_both)

lemma parse_series_rel:
  assumes "state_rel f r"
  shows "rel_option state_rel (parse_entry e (PSeries n lbs v) f) (parse_entry e (PSeries n lbs v) r)"
proof -
  let ?S = "(MetricName, n) # lbs"
  have rel: "state_rel (f\<lparr>pp_currSeries := ?S\<rparr>) (r\<lparr>pp_currSeries := ?S\<rparr>)" using assms by (simp add: state_rel_def)
  have "rel_option state_rel (map_option (add_series e v) (setMetricFamilyBySeries e (f\<lparr>pp_currSeries := ?S\<rparr>)))
      (map_option (add_series e v) (setMetricFamilyBySeries e (r\<lparr>pp_currSeries := ?S\<rparr>)))"
    unfolding option.rel_map
    by (rule option.rel_mono_strong [OF setMetricFamilyBySeries_rel [OF rel]]) (blast intro: both_relD(1) add_series_rel)
  then show ?thesis using rel by (simp add: parse_entry_def Let_def split: option.split)
qed

text \<open>\<^bold>\<open>Texts.\<close>  The expositions of the format write a TYPE line after every HELP line.\<close>

fun helps_typed :: "'f prom_entry list \<Rightarrow> bool" where
  "helps_typed [] \<longleftrightarrow> True"
| "helps_typed (x # xs) \<longleftrightarrow>
     (case x of PHelp n h \<Rightarrow> (case xs of PType m t # ys \<Rightarrow> m = n | _ \<Rightarrow> False) | _ \<Rightarrow> True) \<and> helps_typed xs"

lemma parse_type_rel:
  "state_rel f r \<Longrightarrow> rel_option state_rel (parse_entry e (PType n t) f) (parse_entry e (PType n t) r)"
  by (auto simp: parse_entry_def fam_rel_Some family_le_def blank_family_def intro!: typed_family_rel)

lemma setMetricFamilyByName_twice:
  "setMetricFamilyByName n (upd_currMF g (setMetricFamilyByName n p)) = upd_currMF g (setMetricFamilyByName n p)"
  by (auto simp: setMetricFamilyByName_def upd_currMF_def upd_family_def split: option.splits)

lemma upd_currMF_twice: "upd_currMF h (upd_currMF g p) = upd_currMF (h \<circ> g) p"
  by (auto simp: upd_currMF_def upd_family_def option.map_comp split: option.splits)

lemma parse_help_type_rel:
  assumes "state_rel f r"
  shows "rel_option state_rel (Option.bind (parse_entry e (PHelp n h) f) (parse_entry e (PType n t)))
    (Option.bind (parse_entry e (PHelp n h) r) (parse_entry e (PType n t)))"
  using assms
  by (auto simp: parse_entry_def setMetricFamilyByName_twice upd_currMF_twice fam_rel_Some family_le_def blank_family_def
      intro!: typed_family_rel)

abbreviation outcome_rel :: "(go_error option \<times> 'f promTextParser) option \<Rightarrow> (go_error option \<times> 'f promTextParser) option \<Rightarrow> bool" where
  "outcome_rel \<equiv> rel_option (rel_prod (=) state_rel)"

lemma parse_entries_rel:
  assumes "state_rel f r" and "helps_typed xs"
  shows "outcome_rel (parse_entries e xs f) (parse_entries e xs r)"
  using assms
proof (induction xs arbitrary: f r rule: length_induct)
  case (1 xs)
  show ?case
  proof (cases xs)
    case (Cons x ys)
    have IH: "outcome_rel (parse_entries e zs f') (parse_entries e zs r')"
      if "state_rel f' r'" "length zs \<le> length ys" "helps_typed zs" for f' r' zs
      using 1 that Cons by simp
    show ?thesis
    proof (cases x)
      case (PHelp n h)
      then obtain t zs where ys: "ys = PType n t # zs"
        using 1 Cons by (auto split: list.splits prom_entry.splits)
      have "rel_option state_rel (Option.bind (parse_entry e (PHelp n h) f) (parse_entry e (PType n t)))
        (Option.bind (parse_entry e (PHelp n h) r) (parse_entry e (PType n t)))"
        using 1 by (intro parse_help_type_rel) simp
      then show ?thesis using 1 IH [of _ _ zs] Cons PHelp ys by (auto simp: parse_entry_def)
    next
      case (PType n t)
      then show ?thesis using 1 IH [of _ _ ys] Cons parse_type_rel [of f r e n t] by (auto simp: parse_entry_def)
    next
      case (PSeries n lbs v)
      have "rel_option state_rel (parse_entry e (PSeries n lbs v) f) (parse_entry e (PSeries n lbs v) r)"
        using 1 by (intro parse_series_rel) simp
      then show ?thesis
        using 1 IH [of _ _ ys] Cons PSeries
        by (cases "parse_entry e (PSeries n lbs v) f"; cases "parse_entry e (PSeries n lbs v) r") auto
    qed (use 1 IH [of _ _ ys] Cons in \<open>auto simp: parse_entry_def\<close>)
  qed (use 1 in simp)
qed

text \<open>\<^bold>\<open>Scrapes.\<close>  The parser after a sequence of texts; a panic ends it.\<close>

definition names_ok :: "'f promTextParser \<Rightarrow> bool" where
  "names_ok p \<longleftrightarrow> (\<forall>n mf. pp_metrics p n = Some mf \<longrightarrow> mf_name mf = n)"

primrec scrapes :: "('re, 'f :: zero) prom_env \<Rightarrow> 'f prom_entry list list \<Rightarrow> 'f promTextParser \<Rightarrow> 'f promTextParser option" where
  "scrapes e [] p = Some p"
| "scrapes e (xs # xss) p = (case parseToMetricFamilies e xs p of None \<Rightarrow> None | Some (_, p1) \<Rightarrow> scrapes e xss p1)"

lemma names_ok_upd_family: "names_ok p \<Longrightarrow> (\<And>mf. mf_name (g mf) = mf_name mf) \<Longrightarrow> names_ok (upd_family n g p)"
  by (auto simp: names_ok_def upd_family_def)

lemma names_ok_upd_currMF: "names_ok p \<Longrightarrow> (\<And>mf. mf_name (g mf) = mf_name mf) \<Longrightarrow> names_ok (upd_currMF g p)"
  by (auto simp: upd_currMF_def names_ok_upd_family split: option.split)

lemma names_ok_frame [simp]:
  "names_ok (p\<lparr>pp_currSeries := a\<rparr>) = names_ok p" "names_ok (p\<lparr>pp_currMF := b\<rparr>) = names_ok p"
  "names_ok (p\<lparr>pp_isSum := c\<rparr>) = names_ok p" "names_ok (p\<lparr>pp_isCount := c\<rparr>) = names_ok p"
  "names_ok (p\<lparr>pp_isQuantile := c\<rparr>) = names_ok p" "names_ok (p\<lparr>pp_isBucket := c\<rparr>) = names_ok p"
  "names_ok (p\<lparr>pp_currQuantile := v\<rparr>) = names_ok p" "names_ok (p\<lparr>pp_currBucket := v\<rparr>) = names_ok p"
  "names_ok (p\<lparr>pp_summaries := s\<rparr>) = names_ok p" "names_ok (p\<lparr>pp_histograms := s\<rparr>) = names_ok p"
  by (simp_all add: names_ok_def)

lemma next_metric_name [simp]: "mf_name (next_metric grow fill lbs mf) = mf_name mf"
  by (simp add: next_metric_def split: list.split)

lemma names_ok_steps:
  assumes "names_ok p"
  shows "names_ok (setMetricFamilyByName n p)" "names_ok (setQuantile e p)" "names_ok (setBucket e p)"
    "names_ok (rename_series n p)" "names_ok (add_value e fill p)" "names_ok (upd_metric at h p)"
proof -
  show "names_ok (setMetricFamilyByName n p)"
    using assms by (auto simp: setMetricFamilyByName_def names_ok_def split: option.split)
qed (use assms in \<open>auto simp: setQuantile_def setBucket_def rename_series_def add_value_def upd_metric_def Let_def
      intro!: names_ok_upd_currMF names_ok_upd_family split: option.split\<close>)

lemma family_with_typ_names_ok: "names_ok p \<Longrightarrow> names_ok (family_with_typ n t p)"
  unfolding family_with_typ_def by (rule names_ok_upd_currMF) (simp_all add: names_ok_steps)

lemma setMetricFamilyBySeries_names_ok:
  "names_ok p \<Longrightarrow> setMetricFamilyBySeries e p = Some p' \<Longrightarrow> names_ok p'"
  unfolding setMetricFamilyBySeries_def Let_def
  by (auto simp: names_ok_steps family_with_typ_names_ok split: list.splits if_splits)

lemma add_series_names_ok: "names_ok p \<Longrightarrow> names_ok (add_series e v p)"
  unfolding add_series_def addGauge_def addCounter_def addUnknown_def addSummary_def addHistogram_def Let_def
  by (auto simp: names_ok_steps split: option.splits)

lemma parse_entry_names_ok:
  assumes "names_ok p" and "parse_entry e x p = Some p'"
  shows "names_ok p'"
  using assms
  by (cases x)
    (auto simp: parse_entry_def Let_def names_ok_steps add_series_names_ok
      intro!: names_ok_upd_currMF dest: setMetricFamilyBySeries_names_ok [rotated] split: option.splits if_splits)

lemma parse_entries_names_ok:
  "names_ok p \<Longrightarrow> parse_entries e xs p = Some (err, p') \<Longrightarrow> names_ok p'"
proof (induction xs arbitrary: p)
  case (Cons x xs)
  then show ?case
    by (cases x) (auto split: option.splits if_splits dest: parse_entry_names_ok [rotated])
qed simp

lemma parseToMetricFamilies_names_ok:
  assumes "names_ok p" and "parseToMetricFamilies e xs p = Some (res, p')"
  shows "names_ok p'"
proof -
  have "names_ok (prom_reset p)" using assms by (auto simp: names_ok_def prom_reset_def)
  then show ?thesis
    using assms parse_entries_names_ok [of "prom_reset p" e xs]
    by (fastforce simp: parseToMetricFamilies_def names_ok_def drop_empty_def Let_def split: option.splits if_splits)
qed

lemma scrapes_names_ok: "names_ok p \<Longrightarrow> scrapes e xss p = Some p' \<Longrightarrow> names_ok p'"
  by (induction xss arbitrary: p) (auto split: option.splits dest: parseToMetricFamilies_names_ok [rotated])

lemma reset_rel: "names_ok p \<Longrightarrow> state_rel (prom_reset new_parser) (prom_reset p)"
  by (auto simp: state_rel_def prom_reset_def new_parser_def names_ok_def blank_family_def)

lemma drop_empty_rel:
  assumes "state_rel f r"
  shows "rel_option family_le (drop_empty (pp_metrics f) n) (drop_empty (pp_metrics r) n)"
  using state_relD(5) [OF assms, of n]
  by (cases "pp_metrics f n"; cases "pp_metrics r n")
    (auto simp: drop_empty_def fam_rel_Some family_le_def blank_family_def)


definition demo_env :: "(string, int) prom_env" where
  "demo_env = \<lparr>pv_re = (\<lambda>_ _. False), pv_sr = None, pv_Hash = (\<lambda>lbs. of_nat (length lbs)), pv_ParseFloat = int \<circ> length, pv_grow = (\<lambda>n. n)\<rparr>"

definition demo_scrape :: "int prom_entry list" where
  "demo_scrape = [PHelp ''up'' ''a b'', PType ''up'' ''gauge'', PSeries ''up'' [(''job'', ''x'')] 1,
     PType ''rt'' ''summary'', PSeries ''rt'' [(''quantile'', ''50'')] 7, PSeries ''rt_sum'' [] 9]"

lemmas parse_defs = parseToMetricFamilies_def parse_entry_def setMetricFamilyByName_def setMetricFamilyBySeries_def
  upd_currMF_def upd_family_def sr_keeps_def family_with_typ_def curr_typ_def add_series_def addGauge_def addUnknown_def
  addSummary_def add_value_def next_metric_def count_metrics_def upd_metric_def prom_reset_def new_parser_def
  known_composite_def isSummaryOrHistogram_def setQuantile_def rename_series_def Has_label_def help_line_def
  metric_types zero_metric_def drop_empty_def Let_def MetricName_def




end
