(* ===== verification/Sort_Search.thy ===== *)
theory Sort_Search
  imports Prelude
begin

text \<open>
  \<open>sort.Search\<close> of the standard library: bisection for the first index at which a predicate holds, and sorting by a
  comparison.
\<close>

text \<open>\<open>sort.Search\<close>: the loop \<open>i, j := 0, n; for i < j\<close>.\<close>

function sort_Search :: "(nat \<Rightarrow> bool) \<Rightarrow> nat \<Rightarrow> nat \<Rightarrow> nat" where
  "sort_Search f i j =
     (if i < j then (let h = (i + j) div 2 in if \<not> f h then sort_Search f (h + 1) j else sort_Search f i h) else i)"
  by pat_completeness auto
termination
  by (relation "measure (\<lambda>(f, i, j). j - i)") auto

declare sort_Search.simps [simp del]

text \<open>\<^bold>\<open>Search.\<close>  For a predicate that stays true once it is true, it finds the first index where it is.\<close>

lemma sort_Search_steps:
  "i < j \<Longrightarrow> \<not> f ((i + j) div 2) \<Longrightarrow> sort_Search f i j = sort_Search f ((i + j) div 2 + 1) j"
  "i < j \<Longrightarrow> f ((i + j) div 2) \<Longrightarrow> sort_Search f i j = sort_Search f i ((i + j) div 2)"
  "\<not> i < j \<Longrightarrow> sort_Search f i j = i"
  by (subst sort_Search.simps, simp add: Let_def)+

lemma sort_Search_bounds: "i \<le> j \<Longrightarrow> i \<le> sort_Search f i j \<and> sort_Search f i j \<le> j"
proof (induction f i j rule: sort_Search.induct)
  case (1 f i j)
  consider "i < j" "\<not> f ((i + j) div 2)" | "i < j" "f ((i + j) div 2)" | "i = j" using 1(3) by linarith
  then show ?case
  proof cases
    case 1
    then have "(i + j) div 2 + 1 \<le> sort_Search f ((i + j) div 2 + 1) j \<and> sort_Search f ((i + j) div 2 + 1) j \<le> j"
      by (intro "1.IH"(1)) auto
    moreover have "i \<le> (i + j) div 2 + 1" using 1(1) by linarith
    ultimately show ?thesis unfolding sort_Search_steps(1) [of i j f, OF 1] by linarith
  next
    case 2
    then have "i \<le> sort_Search f i ((i + j) div 2) \<and> sort_Search f i ((i + j) div 2) \<le> (i + j) div 2"
      by (intro "1.IH"(2)) auto
    moreover have "(i + j) div 2 \<le> j" using 2(1) by linarith
    ultimately show ?thesis unfolding sort_Search_steps(2) [of i j f, OF 2] by linarith
  qed (simp add: sort_Search_steps(3))
qed

lemma sort_Search_first:
  assumes "i \<le> j" and mono: "\<And>a b. a \<le> b \<Longrightarrow> b < n \<Longrightarrow> f a \<Longrightarrow> f b" and "j \<le> n"
    and "\<And>k. k < i \<Longrightarrow> \<not> f k" and "\<And>k. j \<le> k \<Longrightarrow> k < n \<Longrightarrow> f k"
  shows "(k < sort_Search f i j \<longrightarrow> \<not> f k) \<and> (sort_Search f i j \<le> k \<and> k < n \<longrightarrow> f k)"
  using assms(1, 3, 4, 5)
proof (induction "j - i" arbitrary: i j rule: less_induct)
  case less
  let ?h = "(i + j) div 2"
  consider "i < j" "\<not> f ?h" | "i < j" "f ?h" | "i = j" using less.prems(1) by linarith
  then show ?case
  proof cases
    case 1
    have "\<not> f k" if "k < ?h + 1" for k using mono [of k ?h] 1 less.prems(2) that by fastforce
    then show ?thesis
      using 1 less.prems unfolding sort_Search_steps(1) [of i j f, OF 1] by (intro less.hyps) (auto simp del: One_nat_def)
  next
    case 2
    have "f k" if "?h \<le> k" "k < n" for k using mono [of ?h k] 2 that by blast
    then show ?thesis
      using 2 less.prems unfolding sort_Search_steps(2) [of i j f, OF 2] by (intro less.hyps) auto
  next
    case 3
    then show ?thesis using less.prems(3,4) by (simp add: sort_Search_steps(3))
  qed
qed

text \<open>\<^bold>\<open>Sorting.\<close>  \<open>sort.Slice\<close> by a comparison, as insertion.\<close>

fun insort_by :: "('a \<Rightarrow> 'a \<Rightarrow> bool) \<Rightarrow> 'a \<Rightarrow> 'a list \<Rightarrow> 'a list" where
  "insort_by lt x [] = [x]"
| "insort_by lt x (y # ys) = (if lt y x then y # insort_by lt x ys else x # y # ys)"

definition sort_by :: "('a \<Rightarrow> 'a \<Rightarrow> bool) \<Rightarrow> 'a list \<Rightarrow> 'a list" where
  "sort_by lt xs = foldr (insort_by lt) xs []"

lemma length_sort_by [simp]: "length (sort_by lt xs) = length xs"
proof -
  have "length (insort_by lt x ys) = Suc (length ys)" for x ys by (induction ys) auto
  then show ?thesis by (induction xs) (auto simp: sort_by_def)
qed

end
