(* ===== verification/Prom_Series.thy ===== *)
theory Prom_Series
  imports Prom_Parse Sort_Search "HOL-Library.Multiset" "HOL-Library.List_Lexorder" "HOL-Library.Char_ord"
begin

text \<open>
  \<open>pkg/prometheus/metric_series.go\<close>, the lookups of \<open>metric_family.go\<close> and the scrapes of \<open>client.go\<close>.  A scrape can be
  turned into a list of samples sorted by name, in which a name is found by bisection.  \<open>sort.Sort\<close> is not
  stable: what it returns is a parameter, of which only its documented behaviour is used; so is the result of
  \<open>fetch\<close>, which does the HTTP request.
\<close>

section \<open>Samples\<close>

record 'f SeriesSample =
  ss_labels :: "label list"
  ss_value :: 'f

text \<open>Every sample has its name as the first label.\<close>

definition SeriesSample_Name :: "'f SeriesSample \<Rightarrow> string" where
  "SeriesSample_Name s = snd (hd (ss_labels s))"

definition Series_Add :: "'f SeriesSample list \<Rightarrow> 'f SeriesSample \<Rightarrow> 'f SeriesSample list" where
  "Series_Add s kv = s @ [kv]"

definition Series_Reset :: "'f SeriesSample list \<Rightarrow> 'f SeriesSample list" where
  "Series_Reset s = take 0 s"

definition Series_Less :: "'f SeriesSample list \<Rightarrow> nat \<Rightarrow> nat \<Rightarrow> bool" where
  "Series_Less s i j \<longleftrightarrow> SeriesSample_Name (s ! i) < SeriesSample_Name (s ! j)"

definition FindByName :: "'f SeriesSample list \<Rightarrow> string \<Rightarrow> 'f SeriesSample list" where
  "FindByName s name =
     (let from = sort_Search (\<lambda>i. SeriesSample_Name (s ! i) \<ge> name) 0 (length s) in
      if from = length s \<or> SeriesSample_Name (s ! from) \<noteq> name then []
      else (let n = length (takeWhile (\<lambda>x. SeriesSample_Name x = name) (drop (from + 1) s))
            in take (1 + n) (drop from s)))"

definition FindByNames :: "'f SeriesSample list \<Rightarrow> string list \<Rightarrow> 'f SeriesSample list" where
  "FindByNames s names =
     (case names of
        [] \<Rightarrow> []
      | [name] \<Rightarrow> FindByName s name
      | _ \<Rightarrow> fold (\<lambda>name result. result @ FindByName s name) names [])"

text \<open>\<open>Max\<close> compares with the order of floating point numbers.\<close>

definition Series_Max :: "('f \<Rightarrow> 'f \<Rightarrow> bool) \<Rightarrow> 'f :: zero SeriesSample list \<Rightarrow> 'f" where
  "Series_Max lt s =
     (case s of
        [] \<Rightarrow> 0
      | [kv] \<Rightarrow> ss_value kv
      | kv # kvs \<Rightarrow> fold (\<lambda>kv m. if lt m (ss_value kv) then ss_value kv else m) kvs (ss_value kv))"

section \<open>Families\<close>

definition MetricFamilies_get :: "(string \<rightharpoonup> 'f MetricFamily) \<Rightarrow> string \<Rightarrow> string \<Rightarrow> 'f MetricFamily option" where
  "MetricFamilies_get mfs name typ =
     (case mfs name of None \<Rightarrow> None | Some mf \<Rightarrow> if mf_typ mf \<noteq> typ then None else Some mf)"

definition GetGauge :: "(string \<rightharpoonup> 'f MetricFamily) \<Rightarrow> string \<Rightarrow> 'f MetricFamily option" where
  "GetGauge mfs name = MetricFamilies_get mfs name MetricTypeGauge"

definition GetCounter :: "(string \<rightharpoonup> 'f MetricFamily) \<Rightarrow> string \<Rightarrow> 'f MetricFamily option" where
  "GetCounter mfs name = MetricFamilies_get mfs name MetricTypeCounter"

definition GetSummary :: "(string \<rightharpoonup> 'f MetricFamily) \<Rightarrow> string \<Rightarrow> 'f MetricFamily option" where
  "GetSummary mfs name = MetricFamilies_get mfs name MetricTypeSummary"

definition GetHistogram :: "(string \<rightharpoonup> 'f MetricFamily) \<Rightarrow> string \<Rightarrow> 'f MetricFamily option" where
  "GetHistogram mfs name = MetricFamilies_get mfs name MetricTypeHistogram"

section \<open>Scrapes\<close>

fun series_loop :: "('re, 'f) prom_env \<Rightarrow> 'f prom_entry list \<Rightarrow> 'f SeriesSample list \<Rightarrow> (go_error + 'f SeriesSample list) option" where
  "series_loop e [] acc = Some (Inr acc)"
| "series_loop e (x # xs) acc =
     (case x of
        PError invalid msg \<Rightarrow>
          if invalid \<and> HasPrefix msg ''invalid metric type'' then series_loop e xs acc else Some (Inl msg)
      | PSeries name lbs value \<Rightarrow>
          (case sr_keeps e ((MetricName, name) # lbs) of
             None \<Rightarrow> None
           | Some keep \<Rightarrow>
               if \<not> keep then series_loop e xs acc
               else series_loop e xs (Series_Add acc \<lparr>ss_labels = (MetricName, name) # lbs, ss_value = value\<rparr>))
      | _ \<Rightarrow> series_loop e xs acc)"

definition parseToSeries :: "('re, 'f) prom_env \<Rightarrow> ('f SeriesSample list \<Rightarrow> 'f SeriesSample list) \<Rightarrow> 'f prom_entry list
    \<Rightarrow> 'f SeriesSample list \<Rightarrow> (go_error + 'f SeriesSample list) option" where
  "parseToSeries e sort_Sort xs series = map_option (map_sum id sort_Sort) (series_loop e xs (Series_Reset series))"

text \<open>What \<open>fetch\<close> puts into the buffer, as the entries the tokenizer finds there.\<close>

definition ScrapeSeries :: "('re, 'f) prom_env \<Rightarrow> ('f SeriesSample list \<Rightarrow> 'f SeriesSample list) \<Rightarrow> go_error + 'f prom_entry list
    \<Rightarrow> 'f SeriesSample list \<Rightarrow> (go_error + 'f SeriesSample list) option" where
  "ScrapeSeries e sort_Sort fetched series =
     (case fetched of Inl err \<Rightarrow> Some (Inl err) | Inr xs \<Rightarrow> parseToSeries e sort_Sort xs series)"

definition Scrape :: "('re, 'f :: zero) prom_env \<Rightarrow> go_error + 'f prom_entry list \<Rightarrow> 'f promTextParser
    \<Rightarrow> ((go_error + (string \<rightharpoonup> 'f MetricFamily)) \<times> 'f promTextParser) option" where
  "Scrape e fetched p = (case fetched of Inl err \<Rightarrow> Some (Inl err, p) | Inr xs \<Rightarrow> parseToMetricFamilies e xs p)"

section \<open>Bisection\<close>

lemma filter_takeWhile_sorted:
  fixes g :: "'a \<Rightarrow> 'b :: linorder"
  assumes "sorted (map g xs)" and "\<forall>x \<in> set xs. g x \<ge> name"
  shows "filter (\<lambda>x. g x = name) xs = takeWhile (\<lambda>x. g x = name) xs"
  using assms
proof (induction xs)
  case (Cons x xs)
  show ?case
  proof (cases "g x = name")
    case False
    then have "\<forall>y \<in> set xs. g y \<noteq> name" using Cons.prems by force
    then show ?thesis using False by (simp add: filter_empty_conv)
  qed (use Cons in simp)
qed simp

lemma FindByName_filter:
  assumes "sorted (map SeriesSample_Name s)"
  shows "FindByName s name = filter (\<lambda>x. SeriesSample_Name x = name) s"
proof -
  let ?N = SeriesSample_Name
  define k where "k = sort_Search (\<lambda>i. ?N (s ! i) \<ge> name) 0 (length s)"
  have le: "?N (s ! a) \<le> ?N (s ! b)" if "a \<le> b" "b < length s" for a b
    using sorted_nth_mono [OF assms, of a b] that by simp
  have k: "k \<le> length s" using sort_Search_bounds [of 0 "length s"] by (simp add: k_def)
  have mono: "?N (s ! b) \<ge> name" if "a \<le> b" "b < length s" "?N (s ! a) \<ge> name" for a b
    using le [of a b] that by (blast intro: order_trans)
  have split: "(i < k \<longrightarrow> \<not> ?N (s ! i) \<ge> name) \<and> (k \<le> i \<and> i < length s \<longrightarrow> ?N (s ! i) \<ge> name)" for i
    unfolding k_def by (rule sort_Search_first [where f = "\<lambda>i. ?N (s ! i) \<ge> name"]) (auto intro: mono)
  have before: "filter (\<lambda>x. ?N x = name) (take k s) = []"
    using split k by (fastforce simp: filter_empty_conv in_set_conv_nth)
  have after: "filter (\<lambda>x. ?N x = name) (drop k s) = takeWhile (\<lambda>x. ?N x = name) (drop k s)"
  proof -
    have "sorted (map ?N (drop k s))" using assms sorted_wrt_drop [of "(\<le>)" "map ?N s" k] by (simp add: drop_map)
    moreover have "\<forall>x \<in> set (drop k s). ?N x \<ge> name"
      using split k by (auto simp: in_set_conv_nth)
    ultimately show ?thesis by (rule filter_takeWhile_sorted)
  qed
  have "filter (\<lambda>x. ?N x = name) s = takeWhile (\<lambda>x. ?N x = name) (drop k s)"
    using filter_append [of "\<lambda>x. ?N x = name" "take k s" "drop k s"] before after by simp
  also have "\<dots> = FindByName s name"
  proof (cases "k = length s \<or> ?N (s ! k) \<noteq> name")
    case True
    then have "takeWhile (\<lambda>x. ?N x = name) (drop k s) = []"
      using k by (cases "k = length s") (auto simp: Cons_nth_drop_Suc [symmetric])
    then show ?thesis using True by (simp add: FindByName_def k_def [symmetric])
  next
    case False
    then have "drop k s = s ! k # drop (k + 1) s" using k by (simp add: Cons_nth_drop_Suc)
    then show ?thesis
      using False takeWhile_eq_take [of "\<lambda>x. ?N x = name" "drop (k + 1) s"]
      by (simp add: FindByName_def k_def [symmetric] Let_def)
  qed
  finally show ?thesis by simp
qed

section \<open>What a scrape finds\<close>

text \<open>The samples of a name in a text, in its order.\<close>

definition text_samples :: "('re, 'f) prom_env \<Rightarrow> string \<Rightarrow> 'f prom_entry list \<Rightarrow> 'f SeriesSample list" where
  "text_samples e name xs = concat (map (\<lambda>x. case x of
       PSeries n lbs v \<Rightarrow>
         if n = name \<and> sr_keeps e ((MetricName, n) # lbs) = Some True then [\<lparr>ss_labels = (MetricName, n) # lbs, ss_value = v\<rparr>] else []
     | _ \<Rightarrow> []) xs)"

lemma map_sum_eq_Inr: "map_sum f g z = Inr y \<longleftrightarrow> (\<exists>t. z = Inr t \<and> y = g t)"
  by (cases z) auto

lemma series_loop_samples:
  "series_loop e xs acc = Some (Inr s)
    \<Longrightarrow> filter (\<lambda>x. SeriesSample_Name x = name) s = filter (\<lambda>x. SeriesSample_Name x = name) acc @ text_samples e name xs"
  by (induction e xs acc rule: series_loop.induct)
    (auto simp: text_samples_def Series_Add_def SeriesSample_Name_def split: prom_entry.splits option.splits if_splits)

text \<open>
  C32. After a scrape, looking a metric name up in the sorted series by bisection returns exactly the samples of the
  text with that name that the selector keeps: none is missed, none is doubled, whatever order the sort gives samples
  of one name and whatever the series held before.
\<close>

theorem scraped_series_found:
  assumes sorts: "\<And>s. mset (sort_Sort s) = mset s \<and> sorted (map SeriesSample_Name (sort_Sort s))"
    and "parseToSeries e sort_Sort xs old = Some (Inr s)"
  shows "mset (FindByName s name) = mset (text_samples e name xs)"
proof -
  obtain t where t: "series_loop e xs [] = Some (Inr t)" "s = sort_Sort t"
    using assms(2) by (auto simp: parseToSeries_def Series_Reset_def map_sum_eq_Inr)
  have "FindByName s name = filter (\<lambda>x. SeriesSample_Name x = name) s" using sorts t(2) by (intro FindByName_filter) simp
  then have "mset (FindByName s name) = filter_mset (\<lambda>x. SeriesSample_Name x = name) (mset t)" using sorts t(2) by simp
  then show ?thesis using series_loop_samples [OF t(1), of name] by (simp flip: mset_filter)
qed

definition demo_series_env :: "(string, int) prom_env" where
  "demo_series_env = \<lparr>pv_re = (\<lambda>_ _. False), pv_sr = None, pv_Hash = (\<lambda>_. 0), pv_ParseFloat = (\<lambda>_. 0), pv_grow = (\<lambda>_. 0)\<rparr>"

theorem scraped_series_found_witness:
  "\<exists>s. parseToSeries demo_series_env (sort_key SeriesSample_Name)
       [PSeries ''b'' [] 1, PSeries ''a'' [] 2, PSeries ''b'' [(''x'', ''y'')] 3] [] = Some (Inr s)
     \<and> mset (FindByName s ''b'') = {#\<lparr>ss_labels = [(MetricName, ''b'')], ss_value = 1\<rparr>,
          \<lparr>ss_labels = [(MetricName, ''b''), (''x'', ''y'')], ss_value = 3\<rparr>#}"
proof -
  obtain s where s: "parseToSeries demo_series_env (sort_key SeriesSample_Name)
       [PSeries ''b'' [] 1, PSeries ''a'' [] 2, PSeries ''b'' [(''x'', ''y'')] 3] [] = Some (Inr s)"
    by (simp add: parseToSeries_def sr_keeps_def demo_series_env_def)
  then show ?thesis
    using scraped_series_found [of "sort_key SeriesSample_Name", OF _ s, of "''b''"]
    by (simp add: text_samples_def sr_keeps_def demo_series_env_def)
qed

text \<open>\<^bold>\<open>Max.\<close>  On a linear order, the largest value; for no samples, zero.\<close>

lemma fold_max:
  fixes a :: "'a :: linorder"
  shows "fold (\<lambda>kv m. if m < g kv then g kv else m) kvs a = Max (insert a (g ` set kvs))"
proof -
  have "(\<lambda>kv m. if m < g kv then g kv else m) = max \<circ> g" by (auto simp: fun_eq_iff max_def)
  then show ?thesis using Max.set_eq_fold [of a "map g kvs"] by (simp add: fold_map)
qed

lemma Series_Max_spec:
  fixes s :: "'f :: {zero, linorder} SeriesSample list"
  shows "Series_Max (<) s = (if s = [] then 0 else Max (ss_value ` set s))"
proof (cases s)
  case (Cons kv kvs)
  then have "Series_Max (<) s = fold (\<lambda>kv m. if m < ss_value kv then ss_value kv else m) kvs (ss_value kv)"
    by (simp add: Series_Max_def split: list.split)
  then show ?thesis using Cons by (simp only: fold_max) simp
qed (simp add: Series_Max_def)

lemma FindByNames_spec:
  "sorted (map SeriesSample_Name s) \<Longrightarrow> FindByNames s names = concat (map (\<lambda>name. filter (\<lambda>x. SeriesSample_Name x = name) s) names)"
proof -
  assume "sorted (map SeriesSample_Name s)"
  then have step: "FindByName s = (\<lambda>name. filter (\<lambda>x. SeriesSample_Name x = name) s)" by (auto simp: FindByName_filter)
  have "fold (\<lambda>name result. result @ FindByName s name) names r = r @ concat (map (FindByName s) names)" for r
    by (induction names arbitrary: r) auto
  from this [of "[]"] show ?thesis by (auto simp: FindByNames_def step split: list.split)
qed

end
