(* ===== verification/Logs_Reader.thy ===== *)
theory Logs_Reader
  imports Prelude "HOL-Library.List_Lexorder" "HOL-Library.Char_ord"
begin

text \<open>
  \<open>pkg/logs/lastline.go\<close> and \<open>reader.go\<close>: the last line of a file, and the reader that follows a log through
  rotations.  A file name leads to an inode, an open file keeps its inode whatever happens to the name, and the
  contents of inodes change between two calls: every operation takes the file system as it is when it runs.
\<close>

section \<open>The last line\<close>

definition DefaultMaxLineWidth :: int where
  "DefaultMaxLineWidth = 4 * 1024"

definition ErrTooLongLine :: go_error where
  "ErrTooLongLine = ''too long line''"

definition io_EOF :: go_error where
  "io_EOF = ''EOF''"

text \<open>The loop \<open>for i := n - 2; i >= 0; i--\<close>: the position of the last line feed before the last byte.\<close>

fun last_nl :: "string \<Rightarrow> nat \<Rightarrow> nat option" where
  "last_nl buf 0 = None"
| "last_nl buf (Suc i) = (if buf ! i = CHR 0x0A then Some i else last_nl buf i)"

text \<open>The arguments: what \<open>os.Open\<close> returned, the size \<open>Stat\<close> saw, and the bytes the file has when it is read.\<close>

definition ReadLastLine :: "go_error option \<Rightarrow> nat \<Rightarrow> string \<Rightarrow> int \<Rightarrow> go_error + string" where
  "ReadLastLine open_err sz data maxLineWidth0 =
     (let maxLineWidth = (if maxLineWidth0 \<le> 0 then DefaultMaxLineWidth else maxLineWidth0) in
      case open_err of
        Some err \<Rightarrow> Inl err
      | None \<Rightarrow>
          let endPos = int sz in
          if endPos = 0 then Inr []
          else
            (let startPos = (if endPos - maxLineWidth < 0 then 0 else endPos - maxLineWidth);
                 buf = take (nat (endPos - startPos)) (drop (nat startPos) data);
                 n = length buf
             in if n < nat (endPos - startPos) then Inl io_EOF
                else (case last_nl buf (n - 1) of
                        Some lnPos \<Rightarrow> Inr (drop (lnPos + 1) buf)
                      | None \<Rightarrow> if startPos = 0 then Inr buf else Inl ErrTooLongLine)))"

section \<open>Finding the file\<close>

record log_fs =
  lf_Glob :: "string \<Rightarrow> string list"
  lf_Open :: "string \<Rightarrow> go_error + nat"
  lf_regular :: "string \<Rightarrow> bool"
  lf_data :: "nat \<Rightarrow> string"
  lf_stat_err :: "nat \<Rightarrow> go_error option"
  lf_seek_err :: "nat \<Rightarrow> go_error option"
  lf_read_err :: "nat \<Rightarrow> go_error option"

text \<open>\<open>match\<close> is \<open>filepath.Match\<close>, with \<^const>\<open>None\<close> for a bad pattern: all that is shown holds for any matcher.\<close>

definition finder_filter :: "(string \<Rightarrow> string \<Rightarrow> bool option) \<Rightarrow> string list \<Rightarrow> string \<Rightarrow> string list" where
  "finder_filter match files exclude = (if exclude = [] then files else filter (\<lambda>file. match exclude file \<noteq> Some True) files)"

fun last_regular :: "log_fs \<Rightarrow> string list \<Rightarrow> string" where
  "last_regular fs [] = []"
| "last_regular fs (f # fs') = (if lf_regular fs f then f else last_regular fs fs')"

definition findLastFile :: "log_fs \<Rightarrow> string list \<Rightarrow> string" where
  "findLastFile fs files = last_regular fs (rev (sort files))"

definition finder_find :: "(string \<Rightarrow> string \<Rightarrow> bool option) \<Rightarrow> log_fs \<Rightarrow> string \<Rightarrow> string \<Rightarrow> string" where
  "finder_find match fs path exclude =
     (let files = lf_Glob fs path in
      if length files = 0 then []
      else (let files = finder_filter match files exclude in
            if length files = 0 then [] else findLastFile fs files))"

section \<open>The reader\<close>

definition maxEOF :: nat where
  "maxEOF = 60"

definition ErrNoMatchedFile :: go_error where
  "ErrNoMatchedFile = ''no matched files''"

definition ErrInvalid :: go_error where
  "ErrInvalid = ''invalid argument''"

record open_file =
  of_name :: string
  of_inode :: nat
  of_offset :: nat

record Reader =
  rd_file :: "open_file option"
  rd_path :: string
  rd_excludePath :: string
  rd_eofCounter :: nat
  rd_continuousEOF :: nat

definition CurrentFilename :: "Reader \<Rightarrow> string option" where
  "CurrentFilename r = map_option of_name (rd_file r)"

definition findFile :: "(string \<Rightarrow> string \<Rightarrow> bool option) \<Rightarrow> log_fs \<Rightarrow> Reader \<Rightarrow> string" where
  "findFile match fs r = finder_find match fs (rd_path r) (rd_excludePath r)"

definition reader_open :: "(string \<Rightarrow> string \<Rightarrow> bool option) \<Rightarrow> log_fs \<Rightarrow> Reader \<Rightarrow> go_error option \<times> Reader" where
  "reader_open match fs r =
     (let path = findFile match fs r in
      if path = [] then (Some ErrNoMatchedFile, r)
      else (case lf_Open fs path of
              Inl err \<Rightarrow> (Some err, r)
            | Inr file \<Rightarrow>
                (case lf_stat_err fs file of
                   Some err \<Rightarrow> (Some err, r)
                 | None \<Rightarrow>
                     (case lf_seek_err fs file of
                        Some err \<Rightarrow> (Some err, r)
                      | None \<Rightarrow> (None, r\<lparr>rd_file := Some \<lparr>of_name = path, of_inode = file,
                                                  of_offset = length (lf_data fs file)\<rparr>\<rparr>)))))"

text \<open>\<open>Close\<close>, whose error the reader ignores.\<close>

definition Reader_Close :: "Reader \<Rightarrow> Reader" where
  "Reader_Close r = (case rd_file r of None \<Rightarrow> r | Some _ \<Rightarrow> r\<lparr>rd_file := None, rd_eofCounter := 0\<rparr>)"

definition reopen :: "(string \<Rightarrow> string \<Rightarrow> bool option) \<Rightarrow> log_fs \<Rightarrow> Reader \<Rightarrow> go_error option \<times> Reader" where
  "reopen match fs r = reader_open match fs (Reader_Close r)"

definition handleEOFErr :: "(string \<Rightarrow> string \<Rightarrow> bool option) \<Rightarrow> log_fs \<Rightarrow> Reader \<Rightarrow> go_error \<times> Reader" where
  "handleEOFErr match fs r0 =
     (let r = r0\<lparr>rd_eofCounter := rd_eofCounter r0 + 1, rd_continuousEOF := rd_continuousEOF r0 + 1\<rparr> in
      if rd_eofCounter r < maxEOF \<or> rd_continuousEOF r < 2 then (io_EOF, r)
      else (case reopen match fs r of (Some err2, r1) \<Rightarrow> (err2, r1) | (None, r1) \<Rightarrow> (io_EOF, r1)))"

definition handleInvalidArgErr :: "(string \<Rightarrow> string \<Rightarrow> bool option) \<Rightarrow> log_fs \<Rightarrow> Reader \<Rightarrow> go_error \<times> Reader" where
  "handleInvalidArgErr match fs r = (case reopen match fs r of (Some err2, r1) \<Rightarrow> (err2, r1) | (None, r1) \<Rightarrow> (io_EOF, r1))"

text \<open>\<open>os.File.Read\<close> into a buffer of \<open>len\<close> bytes.\<close>

definition file_Read :: "log_fs \<Rightarrow> open_file option \<Rightarrow> nat \<Rightarrow> string \<times> go_error option \<times> open_file option" where
  "file_Read fs file len =
     (case file of
        None \<Rightarrow> ([], Some ErrInvalid, None)
      | Some f \<Rightarrow>
          (case lf_read_err fs (of_inode f) of
             Some err \<Rightarrow> ([], Some err, Some f)
           | None \<Rightarrow>
               let bs = take len (drop (of_offset f) (lf_data fs (of_inode f))) in
               if bs = [] \<and> 0 < len then ([], Some io_EOF, Some f)
               else (bs, None, Some (f\<lparr>of_offset := of_offset f + length bs\<rparr>))))"

definition Reader_Read :: "(string \<Rightarrow> string \<Rightarrow> bool option) \<Rightarrow> log_fs \<Rightarrow> nat \<Rightarrow> Reader \<Rightarrow> (string \<times> go_error option) \<times> Reader" where
  "Reader_Read match fs len r =
     (case file_Read fs (rd_file r) len of
        (bs, Some err, file) \<Rightarrow>
          if err = io_EOF then (case handleEOFErr match fs r of (err1, r1) \<Rightarrow> ((bs, Some err1), r1))
          else if err = ErrInvalid then (case handleInvalidArgErr match fs r of (err1, r1) \<Rightarrow> ((bs, Some err1), r1))
          else ((bs, Some err), r)
      | (bs, None, file) \<Rightarrow> ((bs, None), r\<lparr>rd_file := file, rd_continuousEOF := 0\<rparr>))"

text \<open>\<open>Open\<close>; \<open>Abs\<close> is the result of \<open>filepath.Abs\<close>, which needs the working directory.\<close>

definition Reader_Open :: "(string \<Rightarrow> string \<Rightarrow> bool option) \<Rightarrow> log_fs \<Rightarrow> (string \<Rightarrow> go_error + string) \<Rightarrow> string \<Rightarrow> string \<Rightarrow> go_error + Reader" where
  "Reader_Open match fs Abs path0 excludePath =
     (case Abs path0 of
        Inl err \<Rightarrow> Inl err
      | Inr path \<Rightarrow>
          if match path ''/'' = None then Inl (''bad path syntax: '' @ path)
          else if match excludePath ''/'' = None then Inl (''bad exclude_path syntax: '' @ path)
          else (case reader_open match fs \<lparr>rd_file = None, rd_path = path, rd_excludePath = excludePath,
                                       rd_eofCounter = 0, rd_continuousEOF = 0\<rparr> of
                  (Some err, _) \<Rightarrow> Inl err
                | (None, r) \<Rightarrow> Inr r))"

section \<open>What the last line is\<close>

text \<open>A text is its earlier lines, each with its line feed, and the last line, which may have one too.\<close>

definition last_line_of :: "string \<Rightarrow> string \<Rightarrow> string \<Rightarrow> bool" where
  "last_line_of earlier line data \<longleftrightarrow> data = earlier @ line \<and> (earlier \<noteq> [] \<longrightarrow> last earlier = CHR 0x0A)
     \<and> line \<noteq> [] \<and> CHR 0x0A \<notin> set (butlast line)"

lemma last_nl_None: "CHR 0x0A \<notin> set (take i buf) \<Longrightarrow> i \<le> length buf \<Longrightarrow> last_nl buf i = None"
  by (induction i) (auto simp: take_Suc_conv_app_nth)

lemma last_nl_found:
  assumes "CHR 0x0A \<notin> set (butlast line)" and "line \<noteq> []"
  shows "last_nl (pre @ CHR 0x0A # line) (length pre + length line) = Some (length pre)"
proof -
  have "last_nl (pre @ CHR 0x0A # line) (length pre + Suc k) = Some (length pre)" if "k < length line" for k
    using that
  proof (induction k)
    case (Suc k)
    have "line ! k \<in> set (butlast line)" using Suc.prems assms(2)
      by (metis Suc_leI Suc_lessD diff_Suc_1 length_butlast less_diff_conv nth_butlast nth_mem add.commute plus_1_eq_Suc)
    then have "line ! k \<noteq> CHR 0x0A" using assms(1) by metis
    moreover have "(pre @ CHR 0x0A # line) ! (length pre + Suc k) = line ! k" by (simp add: nth_append)
    ultimately show ?case using Suc by simp
  qed (simp add: nth_append)
  from this [of "length line - 1"] assms(2) show ?thesis by simp
qed

text \<open>
  For a file that does not change while it is read, \<open>ReadLastLine\<close> returns its last line, with the line feed that
  may end it, when that line is shorter than the maximal width or is the whole file and not longer; any longer line
  is the error \<open>ErrTooLongLine\<close>.  A line of exactly the maximal width with lines before it is refused.
\<close>

theorem ReadLastLine_spec:
  assumes "last_line_of earlier line data" and "0 < w"
  shows "ReadLastLine None (length data) data w =
    (if int (length line) < w \<or> (earlier = [] \<and> int (length line) \<le> w) then Inr line else Inl ErrTooLongLine)"
proof -
  note L = assms(1) [unfolded last_line_of_def]
  define start where "start = length data - nat w"
  have start: "(if int (length data) < w then 0 else int (length data) - w) = int start"
    using assms(2) by (simp add: start_def)
  have len: "nat (int (length data) - int start) = length data - start" by simp
  have pos: "\<not> w \<le> 0" "data \<noteq> []" using assms(2) L by auto
  define buf where "buf = drop start data"
  have step: "ReadLastLine None (length data) data w =
    (case last_nl buf (length buf - 1) of Some p \<Rightarrow> Inr (drop (p + 1) buf) | None \<Rightarrow> if start = 0 then Inr buf else Inl ErrTooLongLine)"
  proof (cases "int (length data) < w")
    case True
    then have "start = 0" using start by simp
    then show ?thesis using True by (simp add: ReadLastLine_def Let_def buf_def pos split: option.split)
  next
    case False
    then have "int (length data) - w = int start" using start by simp
    then show ?thesis using False by (simp add: ReadLastLine_def Let_def buf_def pos len split: option.split)
  qed
  show ?thesis
  proof (cases "start < length earlier")
    case True
    define pre where "pre = butlast (drop start earlier)"
    have ne: "drop start earlier \<noteq> []" using True by simp
    then have "drop start earlier = pre @ [CHR 0x0A]"
      using L append_butlast_last_id [OF ne] last_drop [of start earlier] True by (auto simp: pre_def)
    then have b: "buf = pre @ CHR 0x0A # line" using L True by (simp add: buf_def)
    have "last_nl buf (length buf - 1) = Some (length pre)"
      using last_nl_found [of line pre] L b by simp
    moreover have "int (length line) < w" using True L by (auto simp: start_def)
    ultimately show ?thesis using step b by simp
  next
    case False
    then have b: "buf = drop (start - length earlier) line" using L by (simp add: buf_def)
    have "set (take (length buf - 1) buf) \<subseteq> set (butlast line)"
      using set_drop_subset [of "start - length earlier" "butlast line"]
      by (simp only: b butlast_drop flip: butlast_conv_take)
    then have none: "last_nl buf (length buf - 1) = None" using L by (intro last_nl_None) auto
    show ?thesis
    proof (cases "start = 0")
      case True
      then have "earlier = []" "int (length line) \<le> w" "buf = line"
        using False L b assms(2) by (auto simp: start_def nat_le_iff)
      then show ?thesis using step none True by simp
    next
      case nz: False
      then have "w \<le> int (length line)" "earlier = [] \<Longrightarrow> w < int (length line)" using False L by (auto simp: start_def)
      then show ?thesis using step none nz by auto
    qed
  qed
qed

theorem ReadLastLine_spec_witness:
  "last_line_of [CHR ''a'', CHR 0x0A] [CHR ''b'', CHR ''c'', CHR 0x0A] [CHR ''a'', CHR 0x0A, CHR ''b'', CHR ''c'', CHR 0x0A]
     \<and> ReadLastLine None 5 [CHR ''a'', CHR 0x0A, CHR ''b'', CHR ''c'', CHR 0x0A] 4 = Inr [CHR ''b'', CHR ''c'', CHR 0x0A]
     \<and> ReadLastLine None 5 [CHR ''a'', CHR 0x0A, CHR ''b'', CHR ''c'', CHR 0x0A] 3 = Inl ErrTooLongLine"
proof -
  let ?d = "[CHR ''a'', CHR 0x0A, CHR ''b'', CHR ''c'', CHR 0x0A]"
  have l: "last_line_of [CHR ''a'', CHR 0x0A] [CHR ''b'', CHR ''c'', CHR 0x0A] ?d" by (simp add: last_line_of_def)
  show ?thesis using l ReadLastLine_spec [OF l, of 4] ReadLastLine_spec [OF l, of 3] by (simp add: eval_nat_numeral)
qed

section \<open>Reading through time\<close>

text \<open>Successive reads, each with the file system of its moment and the size of its buffer.\<close>

fun reads :: "(string \<Rightarrow> string \<Rightarrow> bool option) \<Rightarrow> (log_fs \<times> nat) list \<Rightarrow> Reader \<Rightarrow> (string \<times> go_error option) list \<times> Reader" where
  "reads match [] r = ([], r)"
| "reads match ((fs, len) # steps) r =
     (case Reader_Read match fs len r of (out, r1) \<Rightarrow> (case reads match steps r1 of (outs, r2) \<Rightarrow> (out # outs, r2)))"

text \<open>The log is not rotated: the pattern always leads to the same inode, whose contents only grow.\<close>

definition steady :: "(string \<Rightarrow> string \<Rightarrow> bool option) \<Rightarrow> string \<Rightarrow> nat \<Rightarrow> log_fs \<Rightarrow> Reader \<Rightarrow> bool" where
  "steady match p i fs r \<longleftrightarrow> findFile match fs r = p \<and> p \<noteq> [] \<and> lf_Open fs p = Inr i
     \<and> lf_stat_err fs i = None \<and> lf_seek_err fs i = None \<and> lf_read_err fs i = None"

fun grows :: "string \<Rightarrow> nat \<Rightarrow> (log_fs \<times> nat) list \<Rightarrow> bool" where
  "grows old i [] \<longleftrightarrow> True"
| "grows old i ((fs, len) # steps) \<longleftrightarrow> HasPrefix (lf_data fs i) old \<and> grows (lf_data fs i) i steps"

fun final_data :: "string \<Rightarrow> nat \<Rightarrow> (log_fs \<times> nat) list \<Rightarrow> string" where
  "final_data old i [] = old"
| "final_data old i ((fs, len) # steps) = final_data (lf_data fs i) i steps"

lemma grows_final: "grows old i steps \<Longrightarrow> HasPrefix (final_data old i steps) old"
  by (induction old i steps rule: final_data.induct) (auto simp: HasPrefix_iff)

lemma findFile_cong: "rd_path r = rd_path r' \<Longrightarrow> rd_excludePath r = rd_excludePath r' \<Longrightarrow> findFile match fs r = findFile match fs r'"
  by (simp add: findFile_def)

lemma findFile_frame [simp]:
  "findFile match fs (r\<lparr>rd_file := a\<rparr>) = findFile match fs r" "findFile match fs (r\<lparr>rd_eofCounter := b\<rparr>) = findFile match fs r"
  "findFile match fs (r\<lparr>rd_continuousEOF := b\<rparr>) = findFile match fs r"
  by (simp_all add: findFile_def)

lemmas reader_defs = Reader_Read_def file_Read_def handleEOFErr_def handleInvalidArgErr_def reopen_def reader_open_def Reader_Close_def Let_def

lemma EOF_not_invalid [simp]: "io_EOF \<noteq> ErrInvalid" "ErrInvalid \<noteq> io_EOF"
  by (simp_all add: io_EOF_def ErrInvalid_def)

lemma Reader_Read_paths:
  "Reader_Read match fs len r = (out, r1) \<Longrightarrow> rd_path r1 = rd_path r \<and> rd_excludePath r1 = rd_excludePath r"
  by (auto simp: reader_defs split: option.splits if_splits sum.splits)

text \<open>\<^bold>\<open>One read.\<close>  It returns the next bytes, or the end of the file with the offset at the end.\<close>

lemma steady_read:
  assumes "steady match p i fs r" and f: "rd_file r = Some f" "of_inode f = i" "of_offset f \<le> length (lf_data fs i)"
    and "Reader_Read match fs len r = ((bs, err), r1)"
  shows "bs = take len (drop (of_offset f) (lf_data fs i))" "err = None \<or> err = Some io_EOF"
    "\<exists>f1. rd_file r1 = Some f1 \<and> of_inode f1 = i \<and> of_offset f1 = of_offset f + length bs"
    "err = Some io_EOF \<Longrightarrow> of_offset f = length (lf_data fs i)"
proof -
  have st: "findFile match fs r = p" "p \<noteq> []" "lf_Open fs p = Inr i" "lf_stat_err fs i = None" "lf_seek_err fs i = None" "lf_read_err fs i = None"
    using assms(1) by (auto simp: steady_def)
  show "bs = take len (drop (of_offset f) (lf_data fs i))" "err = None \<or> err = Some io_EOF"
    "\<exists>f1. rd_file r1 = Some f1 \<and> of_inode f1 = i \<and> of_offset f1 = of_offset f + length bs"
    "err = Some io_EOF \<Longrightarrow> of_offset f = length (lf_data fs i)"
    using assms(5) f st by (auto simp: reader_defs split: if_splits)
qed


definition demo_fs :: "string \<Rightarrow> log_fs" where
  "demo_fs d = \<lparr>lf_Glob = (\<lambda>_. [''/l/b'', ''/l/a'']), lf_Open = (\<lambda>p. if p = ''/l/b'' then Inr 7 else Inr 4), lf_regular = (\<lambda>_. True),
     lf_data = (\<lambda>i. if i = 7 then d else ''old''), lf_stat_err = Map.empty, lf_seek_err = Map.empty, lf_read_err = Map.empty\<rparr>"

definition demo_reader :: "string \<Rightarrow> nat \<Rightarrow> nat \<Rightarrow> Reader" where
  "demo_reader p i off = \<lparr>rd_file = Some \<lparr>of_name = p, of_inode = i, of_offset = off\<rparr>, rd_path = ''/l/*'', rd_excludePath = [],
     rd_eofCounter = 59, rd_continuousEOF = 1\<rparr>"

lemma demo_find: "findFile match (demo_fs d) (demo_reader p i off) = ''/l/b''"
  by (simp add: findFile_def finder_find_def demo_reader_def finder_filter_def demo_fs_def findLastFile_def
      insort_insert_key_def)


section \<open>Rotation\<close>

text \<open>The open file has nothing more to read, and the pattern leads to a file that can be opened.\<close>

definition rotated :: "(string \<Rightarrow> string \<Rightarrow> bool option) \<Rightarrow> string \<Rightarrow> nat \<Rightarrow> log_fs \<Rightarrow> Reader \<Rightarrow> bool" where
  "rotated match p i fs r \<longleftrightarrow> findFile match fs r = p \<and> p \<noteq> [] \<and> lf_Open fs p = Inr i
     \<and> lf_stat_err fs i = None \<and> lf_seek_err fs i = None
     \<and> (\<exists>f. rd_file r = Some f \<and> lf_read_err fs (of_inode f) = None \<and> length (lf_data fs (of_inode f)) \<le> of_offset f)"

definition reads_left :: "Reader \<Rightarrow> nat" where
  "reads_left r = max 1 (max (maxEOF - rd_eofCounter r) (2 - rd_continuousEOF r))"

lemma rotated_read:
  assumes "rotated match p i fs r" and "0 < len"
  shows "reads_left r = 1 \<Longrightarrow> \<exists>r1. Reader_Read match fs len r = (([], Some io_EOF), r1)
      \<and> rd_file r1 = Some \<lparr>of_name = p, of_inode = i, of_offset = length (lf_data fs i)\<rparr>"
    and "reads_left r \<noteq> 1 \<Longrightarrow> \<exists>r1. Reader_Read match fs len r = (([], Some io_EOF), r1)
      \<and> rotated match p i fs r1 \<and> rd_file r1 = rd_file r \<and> reads_left r1 = reads_left r - 1"
  using assms by (auto simp: rotated_def reader_defs reads_left_def split: if_splits)

lemma reads_replicate_rotated:
  assumes "rotated match p i fs r" and "0 < len"
  shows "\<exists>r'. reads match (replicate (reads_left r) (fs, len)) r = (replicate (reads_left r) ([], Some io_EOF), r')
     \<and> rd_file r' = Some \<lparr>of_name = p, of_inode = i, of_offset = length (lf_data fs i)\<rparr>"
  using assms
proof (induction "reads_left r" arbitrary: r rule: less_induct)
  case less
  show ?case
  proof (cases "reads_left r = 1")
    case True
    then show ?thesis using rotated_read(1) [OF less.prems True] by auto
  next
    case False
    then obtain r1 where r1: "Reader_Read match fs len r = (([], Some io_EOF), r1)" "rotated match p i fs r1"
      "reads_left r1 = reads_left r - 1" using rotated_read(2) [OF less.prems] by blast
    have "0 < reads_left r" by (simp add: reads_left_def)
    then have n: "reads_left r = Suc (reads_left r1)" using r1(3) by linarith
    have "reads_left r1 < reads_left r" using n by simp
    then show ?thesis using less.hyps [of r1] r1(1,2) less.prems(2) by (auto simp: n)
  qed
qed



text \<open>\<^bold>\<open>No file.\<close>  A reader whose file is gone looks for one at every read, and says so while there is none.\<close>

lemma read_without_file:
  assumes "rd_file r = None"
  shows "Reader_Read match fs len r =
    (case reader_open match fs r of (None, r1) \<Rightarrow> (([], Some io_EOF), r1) | (Some err, r1) \<Rightarrow> (([], Some err), r1))"
  using assms by (auto simp: reader_defs split: option.splits if_splits sum.splits)

lemma findLastFile_spec:
  assumes "findLastFile fs files = p" and "[] \<notin> set files"
  shows "if \<exists>f \<in> set files. lf_regular fs f
    then p \<in> set files \<and> lf_regular fs p \<and> (\<forall>f \<in> set files. lf_regular fs f \<longrightarrow> f \<le> p)
    else p = []"
proof -
  have "if \<exists>f \<in> set xs. lf_regular fs f
    then last_regular fs xs \<in> set xs \<and> lf_regular fs (last_regular fs xs) \<and> (\<forall>f \<in> set xs. lf_regular fs f \<longrightarrow> f \<le> last_regular fs xs)
    else last_regular fs xs = []" if "sorted (rev xs)" for xs
    using that by (induction xs) (auto simp: sorted_append split: if_splits)
  from this [of "rev (sort files)"] assms(1) show ?thesis by (auto simp: findLastFile_def split: if_splits)
qed

end
