(* ===== verification/Metrics.thy ===== *)
theory Metrics
  imports Sort_Search "HOL-Library.Multiset"
begin

text \<open>
  \<open>pkg/metrics\<close>: the counters, gauges, summaries and histograms the collectors count with, and what they write into the
  map of a collection.  Floating point numbers are values of an arbitrary type with their operations as
  parameters; the sketch of \<open>hyperloglog\<close> is one too.
\<close>

section \<open>Floating point numbers\<close>

record 'f float_env =
  fe_of_int :: "int \<Rightarrow> 'f"
  fe_to_int :: "'f \<Rightarrow> int"
  fe_add :: "'f \<Rightarrow> 'f \<Rightarrow> 'f"
  fe_mul :: "'f \<Rightarrow> 'f \<Rightarrow> 'f"
  fe_div :: "'f \<Rightarrow> 'f \<Rightarrow> 'f"
  fe_lt :: "'f \<Rightarrow> 'f \<Rightarrow> bool"
  fe_ge :: "'f \<Rightarrow> 'f \<Rightarrow> bool"
  fe_eq :: "'f \<Rightarrow> 'f \<Rightarrow> bool"
  fe_MaxFloat64 :: 'f
  fe_MinFloat64 :: 'f

type_synonym mx_map = "string \<rightharpoonup> int"

text \<open>\<open>int64(v * float64(mul) / float64(div))\<close>.\<close>

definition scaled :: "'f float_env \<Rightarrow> 'f \<Rightarrow> int \<Rightarrow> int \<Rightarrow> int" where
  "scaled e v mul div' = fe_to_int e (fe_div e (fe_mul e v (fe_of_int e mul)) (fe_of_int e div'))"

section \<open>Counters and gauges\<close>

record 'f Counter =
  ct_valInt :: int
  ct_valFloat :: 'f

definition zero_Counter :: "'f float_env \<Rightarrow> 'f Counter" where
  "zero_Counter e = \<lparr>ct_valInt = 0, ct_valFloat = fe_of_int e 0\<rparr>"

definition Counter_Value :: "'f float_env \<Rightarrow> 'f Counter \<Rightarrow> 'f" where
  "Counter_Value e c = fe_add e (fe_of_int e (ct_valInt c)) (ct_valFloat c)"

definition Counter_WriteTo :: "'f float_env \<Rightarrow> 'f Counter \<Rightarrow> mx_map \<Rightarrow> string \<Rightarrow> int \<Rightarrow> int \<Rightarrow> mx_map" where
  "Counter_WriteTo e c rv key mul div' = rv(key \<mapsto> scaled e (Counter_Value e c) mul div')"

definition Counter_Inc :: "'f Counter \<Rightarrow> 'f Counter" where
  "Counter_Inc c = c\<lparr>ct_valInt := int64 (ct_valInt c + 1)\<rparr>"

text \<open>\<open>Add\<close>, which panics for a negative value.\<close>

definition Counter_Add :: "'f float_env \<Rightarrow> 'f \<Rightarrow> 'f Counter \<Rightarrow> 'f Counter option" where
  "Counter_Add e v c =
     (if fe_lt e v (fe_of_int e 0) then None
      else (let val = fe_to_int e v in
            if fe_eq e (fe_of_int e val) v then Some (c\<lparr>ct_valInt := int64 (ct_valInt c + val)\<rparr>)
            else Some (c\<lparr>ct_valFloat := fe_add e (ct_valFloat c) v\<rparr>)))"

text \<open>A map of pointers to counters: \<open>GetP\<close> makes the counter when it is new, and the caller changes it in place.\<close>

type_synonym 'f CounterVec = "string \<rightharpoonup> 'f Counter"

definition CounterVec_GetP :: "'f float_env \<Rightarrow> 'f CounterVec \<Rightarrow> string \<Rightarrow> ('f Counter \<times> bool) \<times> 'f CounterVec" where
  "CounterVec_GetP e c name =
     (case c name of
        Some counter \<Rightarrow> ((counter, True), c)
      | None \<Rightarrow> ((zero_Counter e, False), c(name \<mapsto> zero_Counter e)))"

definition CounterVec_Get :: "'f float_env \<Rightarrow> 'f CounterVec \<Rightarrow> string \<Rightarrow> 'f Counter \<times> 'f CounterVec" where
  "CounterVec_Get e c name = (case CounterVec_GetP e c name of ((item, _), c1) \<Rightarrow> (item, c1))"

text \<open>The range over the map writes each name to a key of its own.\<close>

definition CounterVec_WriteTo :: "'f float_env \<Rightarrow> 'f CounterVec \<Rightarrow> string list \<Rightarrow> mx_map \<Rightarrow> string \<Rightarrow> int \<Rightarrow> int \<Rightarrow> mx_map" where
  "CounterVec_WriteTo e c names rv key mul div' =
     fold (\<lambda>name rv. case c name of Some v \<Rightarrow> rv(key @ ''_'' @ name \<mapsto> scaled e (Counter_Value e v) mul div') | None \<Rightarrow> rv) names rv"

definition Gauge_WriteTo :: "'f float_env \<Rightarrow> 'f \<Rightarrow> mx_map \<Rightarrow> string \<Rightarrow> int \<Rightarrow> int \<Rightarrow> mx_map" where
  "Gauge_WriteTo e g rv key mul div' = rv(key \<mapsto> scaled e g mul div')"

definition Gauge_Add :: "'f float_env \<Rightarrow> 'f \<Rightarrow> 'f \<Rightarrow> 'f" where
  "Gauge_Add e g delta = fe_add e g delta"

definition Gauge_Inc :: "'f float_env \<Rightarrow> 'f \<Rightarrow> 'f" where
  "Gauge_Inc e g = fe_add e g (fe_of_int e 1)"

definition Gauge_Dec :: "'f float_env \<Rightarrow> 'f \<Rightarrow> 'f" where
  "Gauge_Dec e g = fe_add e g (fe_of_int e (-1))"

text \<open>Subtraction adds the negated number; \<open>now\<close> is \<open>time.Now().UnixNano()\<close>.\<close>

definition Gauge_Sub :: "'f float_env \<Rightarrow> 'f \<Rightarrow> 'f \<Rightarrow> 'f" where
  "Gauge_Sub e g delta = fe_add e g (fe_mul e (fe_of_int e (-1)) delta)"

definition Gauge_Set :: "'f \<Rightarrow> 'f \<Rightarrow> 'f" where
  "Gauge_Set g v = v"

definition Gauge_SetToCurrentTime :: "'f float_env \<Rightarrow> int \<Rightarrow> 'f \<Rightarrow> 'f" where
  "Gauge_SetToCurrentTime e now g = fe_div e (fe_of_int e now) (fe_of_int e 1000000000)"

definition GaugeVec_GetP :: "'f float_env \<Rightarrow> (string \<rightharpoonup> 'f) \<Rightarrow> string \<Rightarrow> ('f \<times> bool) \<times> (string \<rightharpoonup> 'f)" where
  "GaugeVec_GetP e g name =
     (case g name of Some gauge \<Rightarrow> ((gauge, True), g) | None \<Rightarrow> ((fe_of_int e 0, False), g(name \<mapsto> fe_of_int e 0)))"

definition GaugeVec_Get :: "'f float_env \<Rightarrow> (string \<rightharpoonup> 'f) \<Rightarrow> string \<Rightarrow> 'f \<times> (string \<rightharpoonup> 'f)" where
  "GaugeVec_Get e g name = (case GaugeVec_GetP e g name of ((item, _), g1) \<Rightarrow> (item, g1))"

definition GaugeVec_WriteTo :: "'f float_env \<Rightarrow> (string \<rightharpoonup> 'f) \<Rightarrow> string list \<Rightarrow> mx_map \<Rightarrow> string \<Rightarrow> int \<Rightarrow> int \<Rightarrow> mx_map" where
  "GaugeVec_WriteTo e g names rv key mul div' =
     fold (\<lambda>name rv. case g name of Some v \<Rightarrow> rv(key @ ''_'' @ name \<mapsto> scaled e v mul div') | None \<Rightarrow> rv) names rv"

section \<open>Summaries\<close>

record 'f summary =
  sm_min :: 'f
  sm_max :: 'f
  sm_sum :: 'f
  sm_count :: int

definition NewSummary :: "'f float_env \<Rightarrow> 'f summary" where
  "NewSummary e = \<lparr>sm_min = fe_MaxFloat64 e, sm_max = fe_MinFloat64 e, sm_sum = fe_of_int e 0, sm_count = 0\<rparr>"

definition summary_Reset :: "'f float_env \<Rightarrow> 'f summary \<Rightarrow> 'f summary" where
  "summary_Reset e s = s\<lparr>sm_min := fe_MaxFloat64 e, sm_max := fe_MinFloat64 e, sm_sum := fe_of_int e 0, sm_count := 0\<rparr>"

definition summary_Observe :: "'f float_env \<Rightarrow> 'f \<Rightarrow> 'f summary \<Rightarrow> 'f summary" where
  "summary_Observe e v s0 =
     (let s1 = (if fe_lt e (sm_max s0) v then s0\<lparr>sm_max := v\<rparr> else s0);
          s2 = (if fe_lt e v (sm_min s1) then s1\<lparr>sm_min := v\<rparr> else s1)
      in s2\<lparr>sm_sum := fe_add e (sm_sum s2) v, sm_count := int64 (sm_count s2 + 1)\<rparr>)"

definition summary_WriteTo :: "'f float_env \<Rightarrow> 'f summary \<Rightarrow> mx_map \<Rightarrow> string \<Rightarrow> int \<Rightarrow> int \<Rightarrow> mx_map" where
  "summary_WriteTo e s rv key mul div' =
     (if sm_count s > 0 then
        rv(key @ ''_min'' \<mapsto> scaled e (sm_min s) mul div', key @ ''_max'' \<mapsto> scaled e (sm_max s) mul div',
           key @ ''_sum'' \<mapsto> scaled e (sm_sum s) mul div', key @ ''_count'' \<mapsto> sm_count s,
           key @ ''_avg'' \<mapsto> scaled e (fe_div e (sm_sum s) (fe_of_int e (sm_count s))) mul div')
      else (rv(key @ ''_count'' \<mapsto> 0, key @ ''_sum'' \<mapsto> 0))
             (key @ ''_min'' := None, key @ ''_max'' := None, key @ ''_avg'' := None))"

definition SummaryVec_Get :: "'f float_env \<Rightarrow> (string \<rightharpoonup> 'f summary) \<Rightarrow> string \<Rightarrow> 'f summary \<times> (string \<rightharpoonup> 'f summary)" where
  "SummaryVec_Get e c name =
     (case c name of Some item \<Rightarrow> (item, c) | None \<Rightarrow> (NewSummary e, c(name \<mapsto> NewSummary e)))"

definition SummaryVec_WriteTo :: "'f float_env \<Rightarrow> (string \<rightharpoonup> 'f summary) \<Rightarrow> string list \<Rightarrow> mx_map \<Rightarrow> string \<Rightarrow> int \<Rightarrow> int \<Rightarrow> mx_map" where
  "SummaryVec_WriteTo e c names rv key mul div' =
     fold (\<lambda>name rv. case c name of Some v \<Rightarrow> summary_WriteTo e v rv (key @ ''_'' @ name) mul div' | None \<Rightarrow> rv) names rv"

definition SummaryVec_Reset :: "'f float_env \<Rightarrow> (string \<rightharpoonup> 'f summary) \<Rightarrow> (string \<rightharpoonup> 'f summary)" where
  "SummaryVec_Reset e c = (\<lambda>name. map_option (summary_Reset e) (c name))"

section \<open>Histograms\<close>

record 'f histogram =
  hg_buckets :: "int list"
  hg_upperBounds :: "'f list"
  hg_sum :: 'f
  hg_count :: int
  hg_rangeBuckets :: bool

definition new_histogram :: "'f float_env \<Rightarrow> 'f list \<Rightarrow> bool \<Rightarrow> 'f list \<Rightarrow> 'f histogram" where
  "new_histogram e DefBuckets ranges buckets0 =
     (let buckets = (if length buckets0 = 0 then DefBuckets else sort_by (fe_lt e) buckets0)
      in \<lparr>hg_buckets = replicate (length buckets) 0, hg_upperBounds = buckets, hg_sum = fe_of_int e 0, hg_count = 0,
          hg_rangeBuckets = ranges\<rparr>)"

definition NewHistogram :: "'f float_env \<Rightarrow> 'f list \<Rightarrow> 'f list \<Rightarrow> 'f histogram" where
  "NewHistogram e DefBuckets = new_histogram e DefBuckets False"

definition NewHistogramWithRangeBuckets :: "'f float_env \<Rightarrow> 'f list \<Rightarrow> 'f list \<Rightarrow> 'f histogram" where
  "NewHistogramWithRangeBuckets e DefBuckets = new_histogram e DefBuckets True"

fun scan_bounds :: "'f float_env \<Rightarrow> 'f \<Rightarrow> nat \<Rightarrow> 'f list \<Rightarrow> nat" where
  "scan_bounds e v i [] = i"
| "scan_bounds e v i (upper # us) = (if fe_ge e upper v then i else scan_bounds e v (Suc i) us)"

text \<open>\<open>sort.SearchFloat64s(a, v)\<close> is \<open>sort.Search\<close> for \<open>a[i] >= v\<close>.\<close>

definition searchBucketIndex :: "'f float_env \<Rightarrow> 'f histogram \<Rightarrow> 'f \<Rightarrow> nat" where
  "searchBucketIndex e h v =
     (if length (hg_upperBounds h) < 30 then scan_bounds e v 0 (hg_upperBounds h)
      else sort_Search (\<lambda>i. fe_ge e (hg_upperBounds h ! i) v) 0 (length (hg_upperBounds h)))"

definition histogram_Observe :: "'f float_env \<Rightarrow> 'f \<Rightarrow> 'f histogram \<Rightarrow> 'f histogram" where
  "histogram_Observe e v h =
     (let hotIdx = searchBucketIndex e h v;
          h1 = (if hotIdx < length (hg_buckets h) then h\<lparr>hg_buckets := (hg_buckets h)[hotIdx := int64 (hg_buckets h ! hotIdx + 1)]\<rparr> else h)
      in h1\<lparr>hg_sum := fe_add e (hg_sum h1) v, hg_count := int64 (hg_count h1 + 1)\<rparr>)"

text \<open>The loop over the buckets; \<open>i\<close> is the number of the next and \<open>conn\<close> the sum of those before.\<close>

fun write_buckets :: "bool \<Rightarrow> string \<Rightarrow> nat \<Rightarrow> int \<Rightarrow> int list \<Rightarrow> mx_map \<Rightarrow> int \<times> mx_map" where
  "write_buckets ranges key i conn [] rv = (conn, rv)"
| "write_buckets ranges key i conn (b # bs) rv =
     (let conn1 = int64 (conn + b)
      in write_buckets ranges key (Suc i) conn1 bs (rv(key @ ''_bucket_'' @ Itoa (int (Suc i)) \<mapsto> (if ranges then b else conn1))))"

definition histogram_WriteTo :: "'f float_env \<Rightarrow> 'f histogram \<Rightarrow> mx_map \<Rightarrow> string \<Rightarrow> int \<Rightarrow> int \<Rightarrow> mx_map" where
  "histogram_WriteTo e h rv key mul div' =
     (case write_buckets (hg_rangeBuckets h) key 0 0 (hg_buckets h)
             (rv(key @ ''_sum'' \<mapsto> scaled e (hg_sum h) mul div', key @ ''_count'' \<mapsto> hg_count h)) of
        (conn, rv1) \<Rightarrow> if hg_rangeBuckets h then rv1(key @ ''_bucket_inf'' \<mapsto> int64 (hg_count h - conn)) else rv1)"

section \<open>Unique counters\<close>

record 's sketch_env =
  sk_new :: 's
  sk_Insert :: "'s \<Rightarrow> string \<Rightarrow> 's"
  sk_Estimate :: "'s \<Rightarrow> int"

datatype 's UniqueCounter = MapCounter "string set" | SketchCounter 's

definition NewUniqueCounter :: "'s sketch_env \<Rightarrow> bool \<Rightarrow> 's UniqueCounter" where
  "NewUniqueCounter k useHyperLogLog = (if useHyperLogLog then SketchCounter (sk_new k) else MapCounter {})"

fun Unique_Insert :: "'s sketch_env \<Rightarrow> 's UniqueCounter \<Rightarrow> string \<Rightarrow> 's UniqueCounter" where
  "Unique_Insert k (MapCounter m) s = MapCounter (insert s m)"
| "Unique_Insert k (SketchCounter sk) s = SketchCounter (sk_Insert k sk s)"

fun Unique_Value :: "'s sketch_env \<Rightarrow> 's UniqueCounter \<Rightarrow> int" where
  "Unique_Value k (MapCounter m) = int (card m)"
| "Unique_Value k (SketchCounter sk) = sk_Estimate k sk"

fun Unique_Reset :: "'s sketch_env \<Rightarrow> 's UniqueCounter \<Rightarrow> 's UniqueCounter" where
  "Unique_Reset k (MapCounter m) = MapCounter {}"
| "Unique_Reset k (SketchCounter sk) = SketchCounter (sk_new k)"

definition Unique_WriteTo :: "'f float_env \<Rightarrow> 's sketch_env \<Rightarrow> 's UniqueCounter \<Rightarrow> mx_map \<Rightarrow> string \<Rightarrow> int \<Rightarrow> int \<Rightarrow> mx_map" where
  "Unique_WriteTo e k c rv key mul div' =
     rv(key \<mapsto> fe_to_int e (fe_div e (fe_of_int e (int64 (Unique_Value k c * mul))) (fe_of_int e div')))"

record 's UniqueCounterVec =
  uv_useHyperLogLog :: bool
  uv_Items :: "string \<rightharpoonup> 's UniqueCounter"

definition UniqueCounterVec_Get :: "'s sketch_env \<Rightarrow> 's UniqueCounterVec \<Rightarrow> string \<Rightarrow> 's UniqueCounter \<times> 's UniqueCounterVec" where
  "UniqueCounterVec_Get k c name =
     (case uv_Items c name of
        Some item \<Rightarrow> (item, c)
      | None \<Rightarrow> (let item = NewUniqueCounter k (uv_useHyperLogLog c) in (item, c\<lparr>uv_Items := (uv_Items c)(name \<mapsto> item)\<rparr>)))"

definition UniqueCounterVec_WriteTo :: "'f float_env \<Rightarrow> 's sketch_env \<Rightarrow> 's UniqueCounterVec \<Rightarrow> string list \<Rightarrow> mx_map \<Rightarrow> string \<Rightarrow> int \<Rightarrow> int \<Rightarrow> mx_map" where
  "UniqueCounterVec_WriteTo e k c names rv key mul div' =
     fold (\<lambda>name rv. case uv_Items c name of Some v \<Rightarrow> Unique_WriteTo e k v rv (key @ ''_'' @ name) mul div' | None \<Rightarrow> rv) names rv"

definition UniqueCounterVec_Reset :: "'s sketch_env \<Rightarrow> 's UniqueCounterVec \<Rightarrow> 's UniqueCounterVec" where
  "UniqueCounterVec_Reset k c = c\<lparr>uv_Items := (\<lambda>name. map_option (Unique_Reset k) (uv_Items c name))\<rparr>"

section \<open>Bucket bounds\<close>

text \<open>The two loops that fill a slice of bounds; \<^const>\<open>None\<close> is the panic.\<close>

fun fill_bounds :: "('f \<Rightarrow> 'f) \<Rightarrow> 'f \<Rightarrow> nat \<Rightarrow> 'f list" where
  "fill_bounds step start 0 = []"
| "fill_bounds step start (Suc n) = start # fill_bounds step (step start) n"

definition LinearBuckets :: "'f float_env \<Rightarrow> 'f \<Rightarrow> 'f \<Rightarrow> int \<Rightarrow> 'f list option" where
  "LinearBuckets e first width n =
     (if n < 1 then None else Some (fill_bounds (\<lambda>s. fe_add e s width) first (nat n)))"

definition ExponentialBuckets :: "'f float_env \<Rightarrow> 'f \<Rightarrow> 'f \<Rightarrow> int \<Rightarrow> 'f list option" where
  "ExponentialBuckets e first factor n =
     (if n < 1 then None
      else if fe_ge e (fe_of_int e 0) first then None
      else if fe_ge e (fe_of_int e 1) factor then None
      else Some (fill_bounds (\<lambda>s. fe_mul e s factor) first (nat n)))"

lemma fill_bounds_nth: "i < n \<Longrightarrow> fill_bounds step start n ! i = (step ^^ i) start"
  by (induction step start n arbitrary: i rule: fill_bounds.induct) (auto simp: nth_Cons funpow_swap1 split: nat.split)

lemma fill_bounds_length [simp]: "length (fill_bounds step start n) = n"
  by (induction step start n rule: fill_bounds.induct) auto

section \<open>What a histogram counts\<close>

text \<open>The order of the bounds: on them "not less" is transitive and total, and a bound above another is at least
  whatever the other is at least.  Numbers have this order; NaN among the bounds would break it.\<close>

definition bounds_order :: "'f float_env \<Rightarrow> 'f set \<Rightarrow> bool" where
  "bounds_order e S \<longleftrightarrow>
     (\<forall>x \<in> S. \<forall>y \<in> S. \<forall>z \<in> S. \<not> fe_lt e y x \<longrightarrow> \<not> fe_lt e z y \<longrightarrow> \<not> fe_lt e z x)
     \<and> (\<forall>x \<in> S. \<forall>y \<in> S. fe_lt e x y \<longrightarrow> \<not> fe_lt e y x)
     \<and> (\<forall>x \<in> S. \<forall>y \<in> S. \<forall>v. fe_ge e x v \<longrightarrow> \<not> fe_lt e y x \<longrightarrow> fe_ge e y v)"

abbreviation ascending :: "'f float_env \<Rightarrow> 'f list \<Rightarrow> bool" where
  "ascending e \<equiv> sorted_wrt (\<lambda>x y. \<not> fe_lt e y x)"

lemma set_insort_by [simp]: "set (insort_by lt x ys) = insert x (set ys)"
  by (induction ys) auto

lemma set_sort_by [simp]: "set (sort_by lt xs) = set xs"
  by (induction xs) (auto simp: sort_by_def)

lemma bounds_order_subset: "bounds_order e T \<Longrightarrow> S \<subseteq> T \<Longrightarrow> bounds_order e S"
  unfolding bounds_order_def by (meson subsetD)

lemma bounds_orderD:
  assumes "bounds_order e S" and "x \<in> S" "y \<in> S"
  shows "z \<in> S \<Longrightarrow> \<not> fe_lt e y x \<Longrightarrow> \<not> fe_lt e z y \<Longrightarrow> \<not> fe_lt e z x"
    and "fe_lt e x y \<Longrightarrow> \<not> fe_lt e y x"
    and "fe_ge e x v \<Longrightarrow> \<not> fe_lt e y x \<Longrightarrow> fe_ge e y v"
  using assms unfolding bounds_order_def by meson+

lemma insort_by_ascending:
  assumes "bounds_order e (insert x (set ys))" and "ascending e ys"
  shows "ascending e (insort_by (fe_lt e) x ys)"
  using assms
proof (induction ys)
  case (Cons y ys)
  have sub: "bounds_order e (insert x (set ys))" using Cons.prems(1) by (rule bounds_order_subset) auto
  show ?case
  proof (cases "fe_lt e y x")
    case True
    then have "\<not> fe_lt e x y" using bounds_orderD(2) [OF Cons.prems(1), of y x] by simp
    then show ?thesis using Cons.IH [OF sub] Cons.prems(2) True by simp
  next
    case False
    have "\<not> fe_lt e z x" if "z \<in> set ys" for z
      using bounds_orderD(1) [OF Cons.prems(1), of x y z] Cons.prems(2) False that by simp
    then show ?thesis using Cons.prems(2) False by simp
  qed
qed simp

lemma sort_by_Cons: "sort_by lt (x # xs) = insort_by lt x (sort_by lt xs)"
  by (simp add: sort_by_def)

lemma sort_by_ascending: "bounds_order e (set xs) \<Longrightarrow> ascending e (sort_by (fe_lt e) xs)"
proof (induction xs)
  case (Cons x xs)
  have "bounds_order e (set xs)" using Cons.prems by (rule bounds_order_subset) auto
  then show ?case using Cons insort_by_ascending [of e x "sort_by (fe_lt e) xs"] by (simp add: sort_by_Cons)
qed (simp add: sort_by_def)

lemma scan_bounds_first:
  "i \<le> scan_bounds e v i us \<and> scan_bounds e v i us \<le> i + length us
    \<and> (\<forall>k. i \<le> k \<and> k < scan_bounds e v i us \<longrightarrow> \<not> fe_ge e (us ! (k - i)) v)
    \<and> (scan_bounds e v i us < i + length us \<longrightarrow> fe_ge e (us ! (scan_bounds e v i us - i)) v)"
proof (induction us arbitrary: i)
  case (Cons u us)
  show ?case
  proof (cases "fe_ge e u v")
    case False
    let ?s = "scan_bounds e v (Suc i) us"
    note IH = Cons.IH [of "Suc i"]
    have "\<not> fe_ge e ((u # us) ! (k - i)) v" if "i \<le> k" "k < ?s" for k
      using IH that False by (cases "k = i") (auto simp: nth_Cons')
    moreover have "fe_ge e ((u # us) ! (?s - i)) v" if "?s < i + length (u # us)"
      using IH that by (auto simp: nth_Cons')
    ultimately show ?thesis using IH False by auto
  qed simp
qed auto

text \<open>The scan and the bisection find the same bucket: the first whose bound is at least the value.\<close>

lemma bucket_index_iff:
  assumes "bounds_order e (set (hg_upperBounds h))" and "ascending e (hg_upperBounds h)" and "i < length (hg_upperBounds h)"
  shows "searchBucketIndex e h v \<le> i \<longleftrightarrow> fe_ge e (hg_upperBounds h ! i) v"
proof -
  let ?b = "hg_upperBounds h"
  have mono: "fe_ge e (?b ! j) v" if "i \<le> j" "j < length ?b" "fe_ge e (?b ! i) v" for i j
  proof (cases "i = j")
    case False
    then have "\<not> fe_lt e (?b ! j) (?b ! i)" using assms(2) that by (auto simp: sorted_wrt_iff_nth_less)
    moreover have "?b ! i \<in> set ?b" "?b ! j \<in> set ?b" using that by auto
    ultimately show ?thesis using bounds_orderD(3) [OF assms(1)] that(3) by blast
  qed (use that in simp)
  show ?thesis
  proof (cases "length ?b < 30")
    case True
    note F = scan_bounds_first [of 0 e v ?b]
    show ?thesis
    proof
      assume le: "searchBucketIndex e h v \<le> i"
      then show "fe_ge e (?b ! i) v" using F mono [of "scan_bounds e v 0 ?b" i] True assms(3) by (auto simp: searchBucketIndex_def)
    next
      assume "fe_ge e (?b ! i) v"
      then show "searchBucketIndex e h v \<le> i" using F True assms(3) by (auto simp: searchBucketIndex_def not_less [symmetric])
    qed
  next
    case False
    have "(i < sort_Search (\<lambda>i. fe_ge e (?b ! i) v) 0 (length ?b) \<longrightarrow> \<not> fe_ge e (?b ! i) v)
        \<and> (sort_Search (\<lambda>i. fe_ge e (?b ! i) v) 0 (length ?b) \<le> i \<and> i < length ?b \<longrightarrow> fe_ge e (?b ! i) v)"
      by (rule sort_Search_first) (auto intro: mono)
    then show ?thesis using False assms(3) by (auto simp: searchBucketIndex_def)
  qed
qed

text \<open>\<^bold>\<open>Observing.\<close>  The buckets as the values that fell into them.\<close>

definition bucket_count :: "'f float_env \<Rightarrow> 'f histogram \<Rightarrow> nat \<Rightarrow> 'f list \<Rightarrow> int" where
  "bucket_count e h i vs = int (length (filter (\<lambda>v. searchBucketIndex e h v = i) vs))"

lemma int64_id: "- (2 ^ 63) \<le> x \<Longrightarrow> x < 2 ^ 63 \<Longrightarrow> int64 x = x"
  by (simp add: int64_def)

lemma searchBucketIndex_frame:
  "hg_upperBounds h' = hg_upperBounds h \<Longrightarrow> searchBucketIndex e h' v = searchBucketIndex e h v"
  by (simp add: searchBucketIndex_def)

lemma Observe_bounds [simp]: "hg_upperBounds (histogram_Observe e v h) = hg_upperBounds h"
  "hg_rangeBuckets (histogram_Observe e v h) = hg_rangeBuckets h" "length (hg_buckets (histogram_Observe e v h)) = length (hg_buckets h)"
  by (simp_all add: histogram_Observe_def Let_def)

lemma observe_all:
  fixes e :: "'f float_env"
  assumes "hg_buckets h = replicate n 0" "hg_count h = 0" "length vs < 2 ^ 63"
  defines "h' \<equiv> fold (histogram_Observe e) vs h"
  shows "hg_buckets h' = map (\<lambda>i. bucket_count e h i vs) [0..<n] \<and> hg_count h' = int (length vs)
    \<and> hg_upperBounds h' = hg_upperBounds h \<and> hg_rangeBuckets h' = hg_rangeBuckets h"
  unfolding h'_def using assms(3)
proof (induction vs rule: rev_induct)
  case Nil
  then show ?case using assms(1,2) by (simp add: bucket_count_def map_replicate_const)
next
  case (snoc v vs)
  let ?h = "fold (histogram_Observe e) vs h"
  let ?i = "searchBucketIndex e h v"
  have IH: "hg_buckets ?h = map (\<lambda>i. bucket_count e h i vs) [0..<n]" "hg_count ?h = int (length vs)"
    "hg_upperBounds ?h = hg_upperBounds h" "hg_rangeBuckets ?h = hg_rangeBuckets h" using snoc by auto
  have idx: "searchBucketIndex e ?h v = ?i" using IH(3) by (rule searchBucketIndex_frame)
  have le: "bucket_count e h i vs < 2 ^ 63 - 1" for i
  proof -
    have "length (filter (\<lambda>v. searchBucketIndex e h v = i) vs) \<le> length vs" by (rule length_filter_le)
    then have "bucket_count e h i vs \<le> int (length vs)" by (simp add: bucket_count_def)
    then show ?thesis using snoc.prems by simp
  qed
  have inc: "int64 (bucket_count e h i vs + 1) = bucket_count e h i vs + 1" "int64 (int (length vs) + 1) = int (length vs) + 1" for i
    using le [of i] snoc.prems by (auto intro!: int64_id simp: bucket_count_def)
  have cons: "bucket_count e h i (vs @ [v]) = bucket_count e h i vs + (if ?i = i then 1 else 0)" for i
    by (simp add: bucket_count_def)
  have "hg_buckets (histogram_Observe e v ?h) =
      (if ?i < n then (map (\<lambda>i. bucket_count e h i vs) [0..<n])[?i := bucket_count e h ?i vs + 1] else map (\<lambda>i. bucket_count e h i vs) [0..<n])"
    by (simp add: histogram_Observe_def Let_def IH(1) idx inc)
  then have "hg_buckets (histogram_Observe e v ?h) = map (\<lambda>i. bucket_count e h i (vs @ [v])) [0..<n]"
    by (intro nth_equalityI) (auto simp: cons nth_list_update split: if_splits)
  moreover have "hg_count (histogram_Observe e v ?h) = int (length (vs @ [v]))"
    using inc(2) by (simp add: histogram_Observe_def Let_def IH(2))
  ultimately show ?case using IH by simp
qed

text \<open>\<^bold>\<open>Writing.\<close>\<close>

definition bucket_key :: "string \<Rightarrow> nat \<Rightarrow> string" where
  "bucket_key key j = key @ ''_bucket_'' @ Itoa (int j)"

lemma bucket_key_inj [simp]: "bucket_key key i = bucket_key key j \<longleftrightarrow> i = j"
  using Itoa_inj [of "int i" "int j"] by (auto simp: bucket_key_def)

lemma write_buckets_spec:
  assumes "\<forall>b \<in> set bs. 0 \<le> b" and "0 \<le> conn" and "conn + sum_list bs < 2 ^ 63"
  shows "fst (write_buckets ranges key i conn bs rv) = conn + sum_list bs
    \<and> (\<forall>k < length bs. snd (write_buckets ranges key i conn bs rv) (bucket_key key (Suc (i + k)))
      = Some (if ranges then bs ! k else conn + sum_list (take (Suc k) bs)))
    \<and> (\<forall>x. (\<forall>j > i. x \<noteq> bucket_key key j) \<longrightarrow> snd (write_buckets ranges key i conn bs rv) x = rv x)"
  using assms
proof (induction bs arbitrary: i conn rv)
  case (Cons b bs)
  have sum: "0 \<le> sum_list bs" using Cons.prems by (simp add: sum_list_nonneg)
  have c: "int64 (conn + b) = conn + b" using Cons.prems sum by (intro int64_id) auto
  define rv1 where "rv1 = rv(bucket_key key (Suc i) \<mapsto> (if ranges then b else conn + b))"
  have step: "write_buckets ranges key i conn (b # bs) rv = write_buckets ranges key (Suc i) (conn + b) bs rv1"
    using c by (simp add: Let_def bucket_key_def rv1_def)
  let ?w = "write_buckets ranges key (Suc i) (conn + b) bs rv1"
  have IH: "fst ?w = conn + b + sum_list bs"
    "k < length bs \<Longrightarrow> snd ?w (bucket_key key (Suc (Suc i + k))) = Some (if ranges then bs ! k else conn + b + sum_list (take (Suc k) bs))"
    "\<forall>j > Suc i. x \<noteq> bucket_key key j \<Longrightarrow> snd ?w x = rv1 x" for k x
    using Cons.IH [of "conn + b" "Suc i" rv1] Cons.prems by simp_all
  have "snd (write_buckets ranges key (Suc i) (conn + b) bs rv1) (bucket_key key (Suc (i + k)))
      = Some (if ranges then (b # bs) ! k else conn + sum_list (take (Suc k) (b # bs)))" if "k < length (b # bs)" for k
  proof (cases k)
    case 0
    then show ?thesis using IH(3) [of "bucket_key key (Suc i)"] by (simp add: rv1_def)
  next
    case (Suc k')
    then show ?thesis using IH(2) [of k'] that by (simp add: add.assoc)
  qed
  moreover have "snd ?w x = rv x" if "\<forall>j > i. x \<noteq> bucket_key key j" for x
    using IH(3) [of x] that by (simp add: rv1_def)
  ultimately show ?case unfolding step using IH(1) by simp
qed simp

lemma sum_bucket_counts:
  "sum_list (map (\<lambda>i. bucket_count e h i vs) [0..<n]) = int (length (filter (\<lambda>v. searchBucketIndex e h v < n) vs))"
proof (induction vs)
  case (Cons v vs)
  have "sum_list (map (\<lambda>i. bucket_count e h i (v # vs)) [0..<n])
      = sum_list (map (\<lambda>i. (if searchBucketIndex e h v = i then 1 else 0) + bucket_count e h i vs) [0..<n])"
    by (intro arg_cong [of _ _ sum_list] map_cong) (auto simp: bucket_count_def)
  also have "\<dots> = sum_list (map (\<lambda>i. if searchBucketIndex e h v = i then 1 else 0) [0..<n]) + sum_list (map (\<lambda>i. bucket_count e h i vs) [0..<n])"
    by (simp add: sum_list_addf)
  also have "sum_list (map (\<lambda>i. if searchBucketIndex e h v = i then 1 else (0 :: int)) [0..<n]) = (if searchBucketIndex e h v < n then 1 else 0)"
    by (simp add: sum_list_distinct_conv_sum_set)
  finally show ?case using Cons by simp
qed (simp add: bucket_count_def sum_list_0)

lemma histogram_reports:
  fixes e :: "'f float_env" and rv :: mx_map and key :: string and mul d :: int
  assumes "bounds_order e (set (hg_upperBounds h0))" and h0: "h0 = new_histogram e Def ranges bs"
    and "bs = [] \<Longrightarrow> ascending e Def" and "length vs < 2 ^ 63"
  defines "out \<equiv> histogram_WriteTo e (fold (histogram_Observe e) vs h0) rv key mul d"
    and "below \<equiv> \<lambda>i v. fe_ge e (hg_upperBounds h0 ! i) v"
  shows "out (key @ ''_count'') = Some (int (length vs))"
    and "i < length (hg_upperBounds h0) \<Longrightarrow> out (bucket_key key (Suc i)) = Some (int (length (filter
      (\<lambda>v. below i v \<and> (ranges \<longrightarrow> (\<forall>j < i. \<not> below j v))) vs)))"
    and "ranges \<Longrightarrow> out (key @ ''_bucket_inf'') = Some (int (length (filter (\<lambda>v. \<forall>j < length (hg_upperBounds h0). \<not> below j v) vs)))"
proof -
  let ?n = "length (hg_upperBounds h0)"
  let ?h = "fold (histogram_Observe e) vs h0"
  let ?bs = "map (\<lambda>i. bucket_count e h0 i vs) [0..<?n]"
  have asc: "ascending e (hg_upperBounds h0)"
    using assms(1,3) h0 sort_by_ascending [of e bs] by (auto simp: new_histogram_def Let_def)
  note iff = bucket_index_iff [OF assms(1) asc]
  have obs: "hg_buckets ?h = ?bs" "hg_count ?h = int (length vs)" "hg_rangeBuckets ?h = ranges"
    using observe_all [of h0 ?n vs e] h0 assms(4) by (auto simp: new_histogram_def Let_def)
  have sum: "sum_list ?bs = int (length (filter (\<lambda>v. searchBucketIndex e h0 v < ?n) vs))" by (rule sum_bucket_counts)
  have lt: "sum_list ?bs < 2 ^ 63" using sum assms(4) by (auto intro: le_less_trans [OF length_filter_le])
  have nonneg: "\<forall>b \<in> set ?bs. 0 \<le> b" by (auto simp: bucket_count_def)
  let ?rv = "rv(key @ ''_sum'' \<mapsto> scaled e (hg_sum ?h) mul d, key @ ''_count'' \<mapsto> int (length vs))"
  define w where "w = snd (write_buckets ranges key 0 0 ?bs ?rv)"
  have W: "fst (write_buckets ranges key 0 0 ?bs ?rv) = sum_list ?bs"
    "k < ?n \<Longrightarrow> w (bucket_key key (Suc k)) = Some (if ranges then ?bs ! k else sum_list (take (Suc k) ?bs))"
    "\<forall>j. x \<noteq> bucket_key key j \<Longrightarrow> w x = ?rv x" for k x
    unfolding w_def using write_buckets_spec [of ?bs 0 ranges key 0 ?rv] nonneg lt by auto
  have out: "out = (if ranges then w(key @ ''_bucket_inf'' \<mapsto> int64 (int (length vs) - sum_list ?bs)) else w)"
    unfolding out_def histogram_WriteTo_def obs case_prod_beta W(1) w_def by (rule refl)
  have keys: "key @ ''_count'' \<noteq> bucket_key key j" "key @ ''_bucket_inf'' \<noteq> bucket_key key j" for j
    using Itoa_chars [of "CHR ''i''" "int j"] by (auto simp: bucket_key_def is_digit_def dest: sym)
  show "out (key @ ''_count'') = Some (int (length vs))"
    using W(3) [of "key @ ''_count''"] keys by (simp add: out)
  show "out (bucket_key key (Suc i)) = Some (int (length (filter (\<lambda>v. below i v \<and> (ranges \<longrightarrow> (\<forall>j < i. \<not> below j v))) vs)))"
    if i: "i < ?n"
  proof -
    have below: "below i v \<longleftrightarrow> searchBucketIndex e h0 v < Suc i" "\<forall>j < i. below j v \<longleftrightarrow> searchBucketIndex e h0 v \<le> j" for v
      using iff i by (auto simp: below_def less_Suc_eq_le)
    have take: "take (Suc i) ?bs = map (\<lambda>i. bucket_count e h0 i vs) [0..<Suc i]" using i by (simp add: take_map)
    have "out (bucket_key key (Suc i)) = Some (if ranges then bucket_count e h0 i vs else sum_list (take (Suc i) ?bs))"
      using W(2) [of i] keys(2) [symmetric] i by (simp add: out)
    also have "\<dots> = Some (int (length (filter (\<lambda>v. below i v \<and> (ranges \<longrightarrow> (\<forall>j < i. \<not> below j v))) vs)))"
    proof (cases ranges)
      case True
      have "searchBucketIndex e h0 v = i \<longleftrightarrow> below i v \<and> (\<forall>j < i. \<not> below j v)" for v using below by (auto simp: less_Suc_eq)
      then show ?thesis using True by (simp add: bucket_count_def)
    next
      case False
      then show ?thesis unfolding take sum_bucket_counts below by simp
    qed
    finally show ?thesis .
  qed
  show "out (key @ ''_bucket_inf'') = Some (int (length (filter (\<lambda>v. \<forall>j < ?n. \<not> below j v) vs)))" if ranges
  proof -
    have "(\<forall>j < ?n. \<not> below j v) \<longleftrightarrow> \<not> searchBucketIndex e h0 v < ?n" for v
    proof -
      have "below j v \<longleftrightarrow> searchBucketIndex e h0 v \<le> j" if "j < ?n" for j using iff that by (simp add: below_def)
      then show ?thesis by (metis le_less_trans less_le_not_le not_le order_refl)
    qed
    then have "int (length vs) - sum_list ?bs = int (length (filter (\<lambda>v. \<forall>j < ?n. \<not> below j v) vs))"
      using sum sum_length_filter_compl [of "\<lambda>v. searchBucketIndex e h0 v < ?n" vs] by simp
    moreover have "int (length (filter (\<lambda>v. \<forall>j < ?n. \<not> below j v) vs)) < 2 ^ 63"
      using assms(4) by (auto intro: le_less_trans [OF length_filter_le])
    ultimately show ?thesis using that by (simp add: out int64_id)
  qed
qed

text \<open>
  C17. What a histogram reports is what was observed.  After any values, in any order, the cumulative count of bucket i
  is the number of values its bound is at least, for few bounds, which are scanned, and for many, which are
  bisected; with range buckets it is the number of those the bound before is not at least, and the last bucket
  has the rest; the count is the number of values.
\<close>

theorem histogram_reports_observations:
  assumes "bounds_order e (set (hg_upperBounds h0))" and "h0 = new_histogram e Def ranges bs"
    and "bs = [] \<Longrightarrow> ascending e Def" and "length vs < 2 ^ 63"
    and "out = histogram_WriteTo e (fold (histogram_Observe e) vs h0) rv key mul d"
    and "below = (\<lambda>i v. fe_ge e (hg_upperBounds h0 ! i) v)"
  shows "out (key @ ''_count'') = Some (int (length vs))
    \<and> (\<forall>i < length (hg_upperBounds h0). out (bucket_key key (Suc i)) = Some (int (length (filter
        (\<lambda>v. below i v \<and> (ranges \<longrightarrow> (\<forall>j < i. \<not> below j v))) vs))))
    \<and> (ranges \<longrightarrow> out (key @ ''_bucket_inf'') =
         Some (int (length (filter (\<lambda>v. \<forall>j < length (hg_upperBounds h0). \<not> below j v) vs))))"
  unfolding assms(5,6) using histogram_reports [OF assms(1-4), where rv = rv and key = key and mul = mul and d = d] by blast

definition int_floats :: "int float_env" where
  "int_floats = \<lparr>fe_of_int = id, fe_to_int = id, fe_add = (+), fe_mul = (*), fe_div = (div), fe_lt = (<), fe_ge = (\<ge>), fe_eq = (=),
     fe_MaxFloat64 = 1000000, fe_MinFloat64 = -1000000\<rparr>"

theorem histogram_reports_observations_witness:
  "\<exists>out. out = histogram_WriteTo int_floats (fold (histogram_Observe int_floats) [3, 12, 7, 40] (new_histogram int_floats [] True [10, 5])) Map.empty ''k'' 1 1
     \<and> out ''k_count'' = Some 4 \<and> out (bucket_key ''k'' 1) = Some 1 \<and> out (bucket_key ''k'' 2) = Some 1 \<and> out ''k_bucket_inf'' = Some 2"
proof -
  define h0 where "h0 = new_histogram int_floats [] True [10, 5]"
  have b: "hg_upperBounds h0 = [5, 10]" by (simp add: h0_def new_histogram_def Let_def sort_by_def int_floats_def)
  have ord: "bounds_order int_floats (set (hg_upperBounds h0))" by (auto simp: b bounds_order_def int_floats_def)
  define out where "out = histogram_WriteTo int_floats (fold (histogram_Observe int_floats) [3, 12, 7, 40] h0) Map.empty ''k'' 1 1"
  define below :: "nat \<Rightarrow> int \<Rightarrow> bool" where "below = (\<lambda>i v. fe_ge int_floats (hg_upperBounds h0 ! i) v)"
  have below: "below 0 v \<longleftrightarrow> v \<le> 5" "below (Suc 0) v \<longleftrightarrow> v \<le> 10" for v by (auto simp: below_def b int_floats_def)
  have T: "out (''k'' @ ''_count'') = Some (int (length [3, 12, 7, 40 :: int]))
    \<and> (\<forall>i < length (hg_upperBounds h0). out (bucket_key ''k'' (Suc i)) = Some (int (length (filter
        (\<lambda>v. below i v \<and> (True \<longrightarrow> (\<forall>j < i. \<not> below j v))) [3, 12, 7, 40]))))
    \<and> (True \<longrightarrow> out (''k'' @ ''_bucket_inf'') =
         Some (int (length (filter (\<lambda>v. \<forall>j < length (hg_upperBounds h0). \<not> below j v) [3, 12, 7, 40]))))"
    by (rule histogram_reports_observations [OF ord h0_def _ _ out_def below_def]) simp_all
  have "out (bucket_key ''k'' (Suc 0)) = Some 1" "out (bucket_key ''k'' (Suc (Suc 0))) = Some 1"
    using T by (auto simp: b below less_Suc_eq)
  moreover have "out ''k_count'' = Some 4" "out ''k_bucket_inf'' = Some 2" using T by (auto simp: b below less_Suc_eq)
  ultimately show ?thesis unfolding h0_def [symmetric] out_def [symmetric] by (auto simp: numeral_2_eq_2)
qed

text \<open>\<^bold>\<open>Summaries.\<close>  On a linear order: the least, the largest, the sum and the number of the values since the last reset.\<close>

lemma summary_observed:
  fixes e :: "('f :: linorder) float_env"
  assumes "fe_lt e = (<)" and "\<forall>v \<in> set vs. fe_MinFloat64 e \<le> v \<and> v \<le> fe_MaxFloat64 e" and "length vs < 2 ^ 63"
  shows "fold (summary_Observe e) vs (summary_Reset e s) =
    s\<lparr>sm_min := Min (insert (fe_MaxFloat64 e) (set vs)), sm_max := Max (insert (fe_MinFloat64 e) (set vs)),
      sm_sum := foldl (fe_add e) (fe_of_int e 0) vs, sm_count := int (length vs)\<rparr>"
  using assms(2,3)
proof (induction vs rule: rev_induct)
  case (snoc v vs)
  have "int64 (int (length vs) + 1) = int (length vs) + 1" using snoc.prems(2) by (intro int64_id) auto
  moreover have "Max (insert a (set (vs @ [v]))) = (if Max (insert a (set vs)) < v then v else Max (insert a (set vs)))" for a
  proof -
    have "insert a (set (vs @ [v])) = insert v (insert a (set vs))" by auto
    then have "Max (insert a (set (vs @ [v]))) = max v (Max (insert a (set vs)))" by (simp only: Max_insert finite.intros finite_set) simp
    moreover have "(if m < v then v else m) = max v m" for m by (auto simp: max_def)
    ultimately show ?thesis by (simp only:)
  qed
  moreover have "Min (insert a (set (vs @ [v]))) = (if v < Min (insert a (set vs)) then v else Min (insert a (set vs)))" for a
  proof -
    have "insert a (set (vs @ [v])) = insert v (insert a (set vs))" by auto
    then have "Min (insert a (set (vs @ [v]))) = min v (Min (insert a (set vs)))" by (simp only: Min_insert finite.intros finite_set) simp
    moreover have "(if v < m then v else m) = min v m" for m by (auto simp: min_def)
    ultimately show ?thesis by (simp only:)
  qed
  ultimately show ?case using snoc by (simp add: summary_Observe_def assms(1) Let_def)
qed (simp add: summary_Reset_def)

end
