(* ===== verification/Stm.thy ===== *)
theory Stm
  imports Metrics "HOL-Library.Signed_Division"
begin

text \<open>
  \<open>pkg/stm\<close>: a structure whose fields carry tags becomes the map of a collection.  The values reflection walks over are
  a datatype; the tag of a field is its text.  A panic is \<^const>\<open>None\<close>.
\<close>

section \<open>Values\<close>

text \<open>A value that implements \<open>Value\<close>, by its method; a nil pointer or map; a structure with the text of its field
  \<open>STMKey\<close>, if it has one of type string, and its fields, each with its tag; a map in the order of its iteration.\<close>

datatype 'f stm_val =
    SInvalid
  | SValue "mx_map \<Rightarrow> string \<Rightarrow> int \<Rightarrow> int \<Rightarrow> mx_map"
  | SPtr "'f stm_val option"
  | SStruct "string option" "(string option \<times> 'f stm_val) list"
  | SList "'f stm_val list"
  | SMap "(string \<times> 'f stm_val) list option"
  | SBool bool
  | SInt int
  | SFloat 'f
  | SInterface "'f stm_val"
  | SOther

definition joinPrefix :: "string \<Rightarrow> string \<Rightarrow> string" where
  "joinPrefix pre key = (if pre = [] then key else if key = [] then pre else pre @ ''_'' @ key)"

definition parseTag :: "string \<Rightarrow> (string \<times> int \<times> int) option" where
  "parseTag tag =
     (case SplitByte tag CHR '','' of
        [p] \<Rightarrow> Some (p, 1, 1)
      | [p, m] \<Rightarrow> (case ParseInt64 m of Some mul \<Rightarrow> Some (p, mul, 1) | None \<Rightarrow> None)
      | [p, m, d] \<Rightarrow>
          (case ParseInt64 d of
             None \<Rightarrow> None
           | Some div' \<Rightarrow> (case ParseInt64 m of Some mul \<Rightarrow> Some (p, mul, div') | None \<Rightarrow> None))
      | _ \<Rightarrow> None)"

text \<open>The three conversions of a single value: a key that is already there panics, as does a division by zero.\<close>

definition put_new :: "string \<Rightarrow> int \<Rightarrow> mx_map \<Rightarrow> mx_map option" where
  "put_new key x rv = (if rv key \<noteq> None then None else Some (rv(key \<mapsto> x)))"

definition convertBool :: "bool \<Rightarrow> mx_map \<Rightarrow> string \<Rightarrow> mx_map option" where
  "convertBool b rv key = put_new key (if b then 1 else 0) rv"

definition convertInteger :: "int \<Rightarrow> mx_map \<Rightarrow> string \<Rightarrow> int \<Rightarrow> int \<Rightarrow> mx_map option" where
  "convertInteger i rv key mul div' =
     (if rv key \<noteq> None then None
      else if div' = 0 then None
      else Some (rv(key \<mapsto> int64 (int64 (i * mul) sdiv div'))))"

definition convertFloat :: "'f float_env \<Rightarrow> 'f \<Rightarrow> mx_map \<Rightarrow> string \<Rightarrow> int \<Rightarrow> int \<Rightarrow> mx_map option" where
  "convertFloat e f rv key mul div' = put_new key (scaled e f mul div') rv"

text \<open>The loops over the fields of a structure, the elements of a slice and the entries of a map, given how each part is
  converted.\<close>

type_synonym conv = "mx_map \<Rightarrow> string \<Rightarrow> int \<Rightarrow> int \<Rightarrow> mx_map option"

fun convertFields :: "(string option \<times> conv) list \<Rightarrow> mx_map \<Rightarrow> string \<Rightarrow> mx_map option" where
  "convertFields [] rv key = Some rv"
| "convertFields ((None, v) # fs) rv key = convertFields fs rv key"
| "convertFields ((Some tag, v) # fs) rv key =
     (case parseTag tag of
        None \<Rightarrow> None
      | Some (pre, mul, div') \<Rightarrow>
          (case v rv (joinPrefix key pre) mul div' of None \<Rightarrow> None | Some rv1 \<Rightarrow> convertFields fs rv1 key))"

definition convertStruct :: "string option \<Rightarrow> (string option \<times> conv) list \<Rightarrow> mx_map \<Rightarrow> string \<Rightarrow> mx_map option" where
  "convertStruct stmKey fs rv key = convertFields fs rv (case stmKey of Some k \<Rightarrow> joinPrefix key k | None \<Rightarrow> key)"

fun convertArraySlice :: "conv list \<Rightarrow> mx_map \<Rightarrow> string \<Rightarrow> int \<Rightarrow> int \<Rightarrow> mx_map option" where
  "convertArraySlice [] rv key mul div' = Some rv"
| "convertArraySlice (v # vs) rv key mul div' =
     (case v rv key mul div' of None \<Rightarrow> None | Some rv1 \<Rightarrow> convertArraySlice vs rv1 key mul div')"

fun convertMap :: "(string \<times> conv) list \<Rightarrow> mx_map \<Rightarrow> string \<Rightarrow> int \<Rightarrow> int \<Rightarrow> mx_map option" where
  "convertMap [] rv key mul div' = Some rv"
| "convertMap ((k, v) # kvs) rv key mul div' =
     (case v rv (joinPrefix key k) mul div' of None \<Rightarrow> None | Some rv1 \<Rightarrow> convertMap kvs rv1 key mul div')"

primrec toMap :: "'f float_env \<Rightarrow> 'f stm_val \<Rightarrow> conv" where
  "toMap e SInvalid = (\<lambda>rv key mul div'. None)"
| "toMap e (SValue WriteTo) = (\<lambda>rv key mul div'. Some (WriteTo rv key mul div'))"
| "toMap e (SPtr p) = (\<lambda>rv key mul div'. case map_option (toMap e) p of None \<Rightarrow> Some rv | Some v \<Rightarrow> v rv key mul div')"
| "toMap e (SStruct stmKey fs) = (\<lambda>rv key mul div'. convertStruct stmKey (map (map_prod id (toMap e)) fs) rv key)"
| "toMap e (SList vs) = (\<lambda>rv key mul div'. convertArraySlice (map (toMap e) vs) rv key mul div')"
| "toMap e (SMap m) = (\<lambda>rv key mul div'. case map_option (map (map_prod id (toMap e))) m of None \<Rightarrow> None | Some kvs \<Rightarrow> convertMap kvs rv key mul div')"
| "toMap e (SBool b) = (\<lambda>rv key mul div'. convertBool b rv key)"
| "toMap e (SInt i) = (\<lambda>rv key mul div'. convertInteger i rv key mul div')"
| "toMap e (SFloat f) = (\<lambda>rv key mul div'. convertFloat e f rv key mul div')"
| "toMap e (SInterface v) = (\<lambda>rv key mul div'. toMap e v rv key mul div')"
| "toMap e SOther = (\<lambda>rv key mul div'. None)"

text \<open>\<open>ToMap\<close>; each argument is dereferenced once, and the result starts empty.\<close>

fun ToMap_from :: "'f float_env \<Rightarrow> 'f stm_val list \<Rightarrow> mx_map \<Rightarrow> mx_map option" where
  "ToMap_from e [] rv = Some rv"
| "ToMap_from e (v # vs) rv =
     (case toMap e (case v of SPtr (Some w) \<Rightarrow> w | SPtr None \<Rightarrow> SInvalid | _ \<Rightarrow> v) rv [] 1 1 of
        None \<Rightarrow> None | Some rv1 \<Rightarrow> ToMap_from e vs rv1)"

definition ToMap :: "'f float_env \<Rightarrow> 'f stm_val list \<Rightarrow> mx_map option" where
  "ToMap e vs = ToMap_from e vs Map.empty"

section \<open>Every value under its key\<close>

text \<open>The keys and values of a structure, as a list: \<^const>\<open>None\<close> when it has a part that cannot be converted.\<close>

type_synonym leaves_fn = "string \<Rightarrow> int \<Rightarrow> int \<Rightarrow> (string \<times> int) list option"

fun all_leaves :: "(string \<times> int) list option list \<Rightarrow> (string \<times> int) list option" where
  "all_leaves [] = Some []"
| "all_leaves (None # xs) = None"
| "all_leaves (Some l # xs) = map_option ((@) l) (all_leaves xs)"

definition field_leaves :: "string \<Rightarrow> string option \<times> leaves_fn \<Rightarrow> (string \<times> int) list option" where
  "field_leaves key f = (case fst f of
       None \<Rightarrow> Some []
     | Some tag \<Rightarrow> (case parseTag tag of None \<Rightarrow> None | Some (pre, mul, div') \<Rightarrow> snd f (joinPrefix key pre) mul div'))"

primrec leaves :: "'f float_env \<Rightarrow> 'f stm_val \<Rightarrow> leaves_fn" where
  "leaves e SInvalid = (\<lambda>key mul div'. None)"
| "leaves e (SValue w) = (\<lambda>key mul div'. None)"
| "leaves e (SPtr p) = (\<lambda>key mul div'. case map_option (leaves e) p of None \<Rightarrow> Some [] | Some l \<Rightarrow> l key mul div')"
| "leaves e (SStruct stmKey fs) = (\<lambda>key mul div'.
     all_leaves (map (field_leaves (case stmKey of Some k \<Rightarrow> joinPrefix key k | None \<Rightarrow> key)) (map (map_prod id (leaves e)) fs)))"
| "leaves e (SList vs) = (\<lambda>key mul div'. all_leaves (map (\<lambda>l. l key mul div') (map (leaves e) vs)))"
| "leaves e (SMap m) = (\<lambda>key mul div'. case map_option (map (map_prod id (leaves e))) m of
     None \<Rightarrow> None | Some kvs \<Rightarrow> all_leaves (map (\<lambda>(k, l). l (joinPrefix key k) mul div') kvs))"
| "leaves e (SBool b) = (\<lambda>key mul div'. Some [(key, if b then 1 else 0)])"
| "leaves e (SInt i) = (\<lambda>key mul div'. if div' = 0 then None else Some [(key, int64 (int64 (i * mul) sdiv div'))])"
| "leaves e (SFloat f) = (\<lambda>key mul div'. Some [(key, scaled e f mul div')])"
| "leaves e (SInterface v) = (\<lambda>key mul div'. leaves e v key mul div')"
| "leaves e SOther = (\<lambda>key mul div'. None)"

text \<open>No part implements \<open>Value\<close>.\<close>

primrec plain_val :: "'f stm_val \<Rightarrow> bool" where
  "plain_val SInvalid = True"
| "plain_val (SValue w) = False"
| "plain_val (SPtr p) = (case map_option plain_val p of None \<Rightarrow> True | Some b \<Rightarrow> b)"
| "plain_val (SStruct stmKey fs) = (\<forall>x \<in> set (map (map_prod id plain_val) fs). snd x)"
| "plain_val (SList vs) = (\<forall>x \<in> set (map plain_val vs). x)"
| "plain_val (SMap m) = (case map_option (map (map_prod id plain_val)) m of None \<Rightarrow> True | Some kvs \<Rightarrow> (\<forall>x \<in> set kvs. snd x))"
| "plain_val (SBool b) = True"
| "plain_val (SInt i) = True"
| "plain_val (SFloat f) = True"
| "plain_val (SInterface v) = plain_val v"
| "plain_val SOther = True"

definition merge :: "mx_map \<Rightarrow> (string \<times> int) list option \<Rightarrow> mx_map option" where
  "merge rv l = (case l of
       None \<Rightarrow> None
     | Some ls \<Rightarrow> if distinct (map fst ls) \<and> dom rv \<inter> fst ` set ls = {} then Some (rv ++ map_of ls) else None)"

lemma merge_simps [simp]: "merge rv None = None" "merge rv (Some []) = Some rv"
  by (simp_all add: merge_def)

lemma merge_append: "merge rv (Some (a @ b)) = Option.bind (merge rv (Some a)) (\<lambda>rv1. merge rv1 (Some b))"
proof (cases "distinct (map fst (a @ b)) \<and> dom rv \<inter> fst ` set (a @ b) = {}")
  case True
  then have dis: "dom (map_of a) \<inter> dom (map_of b) = {}" by (auto simp: dom_map_of_conv_image_fst)
  have "rv ++ map_of (a @ b) = rv ++ map_of a ++ map_of b"
    using map_add_comm [OF dis] by (simp add: map_add_assoc flip: map_add_assoc)
  moreover have "dom (rv ++ map_of a) \<inter> fst ` set b = {}" using True by (auto simp: dom_map_of_conv_image_fst)
  ultimately show ?thesis using True by (auto simp: merge_def)
next
  case False
  then show ?thesis by (auto simp: merge_def dom_map_of_conv_image_fst image_Un)
qed

definition conv_ok :: "conv \<Rightarrow> leaves_fn \<Rightarrow> bool" where
  "conv_ok c l \<longleftrightarrow> (\<forall>rv key mul div'. c rv key mul div' = merge rv (l key mul div'))"

lemma merge_all: "merge rv (all_leaves (l # ls)) = Option.bind (merge rv l) (\<lambda>rv1. merge rv1 (all_leaves ls))"
proof (cases l)
  case (Some x)
  then show ?thesis by (cases "all_leaves ls") (simp_all add: merge_append Option.bind_eq_None_conv bind_eq_None_conv)
qed simp

lemma convertFields_leaves:
  assumes "\<forall>x \<in> set fs. conv_ok (c (snd x)) (l (snd x))"
  shows "convertFields (map (map_prod id c) fs) rv key = merge rv (all_leaves (map (field_leaves key) (map (map_prod id l) fs)))"
  using assms
proof (induction fs arbitrary: rv)
  case (Cons f fs)
  obtain t v where f: "f = (t, v)" by fastforce
  show ?case
  proof (cases t)
    case None
    then show ?thesis using Cons f by (simp add: merge_all field_leaves_def del: all_leaves.simps)
  next
    case (Some tag)
    then show ?thesis
      using Cons f
      by (auto simp: merge_all field_leaves_def conv_ok_def simp del: all_leaves.simps split: option.split)
  qed
qed simp

lemma convertArraySlice_leaves:
  assumes "\<forall>x \<in> set vs. conv_ok (c x) (l x)"
  shows "convertArraySlice (map c vs) rv key mul d = merge rv (all_leaves (map (\<lambda>l. l key mul d) (map l vs)))"
  using assms
  by (induction vs arbitrary: rv) (auto simp: merge_all conv_ok_def simp del: all_leaves.simps(2,3) split: option.split)

lemma convertMap_leaves:
  assumes "\<forall>x \<in> set kvs. conv_ok (c (snd x)) (l (snd x))"
  shows "convertMap (map (map_prod id c) kvs) rv key mul d
    = merge rv (all_leaves (map (\<lambda>(k, l). l (joinPrefix key k) mul d) (map (map_prod id l) kvs)))"
  using assms
  by (induction kvs arbitrary: rv) (auto simp: merge_all conv_ok_def simp del: all_leaves.simps(2,3) split: option.split)

lemma toMap_leaves:
  assumes "plain_val v"
  shows "conv_ok (toMap e v) (leaves e v)"
  using assms
proof (induction v)
  case (SPtr p)
  then show ?case by (cases p) (auto simp: conv_ok_def)
next
  case (SStruct stmKey fs)
  then have "\<forall>x \<in> set fs. conv_ok (toMap e (snd x)) (leaves e (snd x))" by (fastforce simp: snds.simps)
  then show ?case unfolding conv_ok_def [of "toMap e (SStruct stmKey fs)"]
    by (simp add: convertStruct_def convertFields_leaves del: map_map)
next
  case (SList vs)
  then show ?case unfolding conv_ok_def [of "toMap e (SList vs)"] by (simp add: convertArraySlice_leaves del: map_map)
next
  case (SMap m)
  show ?case
  proof (cases m)
    case (Some kvs)
    then have "\<forall>x \<in> set kvs. conv_ok (toMap e (snd x)) (leaves e (snd x))" using SMap by (fastforce simp: snds.simps)
    then show ?thesis using Some unfolding conv_ok_def [of "toMap e (SMap m)"] by (simp add: convertMap_leaves del: map_map)
  qed (simp add: conv_ok_def)
qed (auto simp: conv_ok_def convertBool_def convertInteger_def convertFloat_def put_new_def merge_def)


definition demo_struct :: "int stm_val" where
  "demo_struct = SStruct None [(Some ''requests'', SInt 7), (None, SInt 1),
     (Some ''disk'', SMap (Some [(''sda'', SStruct None [(Some ''io,1000,2'', SInt 3)])]))]"


end
