(* ===== verification/Weblog_Line.thy ===== *)
theory Weblog_Line
  imports Metrics Utf8
begin

text \<open>
  \<open>modules/weblog/logline.go\<close>: a line of a web server's access log, its fields assigned one by one by the parsers of
  \<open>pkg/logs\<close>, and the checks a line must pass.  \<open>strconv.ParseFloat\<close> and the operations on floating point numbers
  are parameters.
\<close>

section \<open>The line\<close>

record 'f web =
  wb_vhost :: string
  wb_port :: string
  wb_reqScheme :: string
  wb_reqClient :: string
  wb_reqMethod :: string
  wb_reqURL :: string
  wb_reqProto :: string
  wb_reqSize :: int
  wb_reqProcTime :: 'f
  wb_respCode :: int
  wb_respSize :: int
  wb_upsRespTime :: 'f
  wb_sslProto :: string
  wb_sslCipherSuite :: string

record 'f logLine = "'f web" +
  cu_fields :: "string set"
  cu_values :: "(string \<times> string) list"

record 'f wl_env = "'f float_env" +
  fe_ParseFloat :: "string \<Rightarrow> 'f option"

definition emptyString :: string where
  "emptyString = ''__empty_string__''"

definition emptyNumber :: int where
  "emptyNumber = -9999"

definition isEmptyString :: "string \<Rightarrow> bool" where
  "isEmptyString s \<longleftrightarrow> s = emptyString \<or> s = []"

definition isEmptyNumber :: "int \<Rightarrow> bool" where
  "isEmptyNumber n \<longleftrightarrow> n = emptyNumber"

definition logLine_reset :: "('f, 'a) wl_env_scheme \<Rightarrow> 'f logLine \<Rightarrow> 'f logLine" where
  "logLine_reset e l =
     \<lparr>wb_vhost = emptyString, wb_port = emptyString, wb_reqScheme = emptyString, wb_reqClient = emptyString,
      wb_reqMethod = emptyString, wb_reqURL = emptyString, wb_reqProto = emptyString, wb_reqSize = emptyNumber,
      wb_reqProcTime = fe_of_int e emptyNumber, wb_respCode = emptyNumber, wb_respSize = emptyNumber,
      wb_upsRespTime = fe_of_int e emptyNumber, wb_sslProto = emptyString, wb_sslCipherSuite = emptyString,
      cu_fields = cu_fields l, cu_values = []\<rparr>"

section \<open>What is valid\<close>

definition http_methods :: "string list" where
  "http_methods = [''GET'', ''ACL'', ''BASELINE-CONTROL'', ''BIND'', ''CHECKIN'', ''CHECKOUT'', ''CONNECT'', ''COPY'', ''DELETE'',
     ''HEAD'', ''LABEL'', ''LINK'', ''LOCK'', ''MERGE'', ''MKACTIVITY'', ''MKCALENDAR'', ''MKCOL'', ''MKREDIRECTREF'',
     ''MKWORKSPACE'', ''MOVE'', ''OPTIONS'', ''ORDERPATCH'', ''PATCH'', ''POST'', ''PRI'', ''PROPFIND'', ''PROPPATCH'', ''PUT'',
     ''REBIND'', ''REPORT'', ''SEARCH'', ''TRACE'', ''UNBIND'', ''UNCHECKOUT'', ''UNLINK'', ''UNLOCK'', ''UPDATE'', ''UPDATEREDIRECTREF'']"

definition isReqMethodValid :: "string \<Rightarrow> bool" where
  "isReqMethodValid m \<longleftrightarrow> m \<in> set http_methods"

definition isReqProtoVerValid :: "string \<Rightarrow> bool" where
  "isReqProtoVerValid v \<longleftrightarrow> v \<in> set [''1.1'', ''1'', ''1.0'', ''2'', ''2.0'', ''3'', ''3.0'']"

definition isReqProtoValid :: "string \<Rightarrow> bool" where
  "isReqProtoValid p \<longleftrightarrow> length p \<ge> 6 \<and> take 5 p = ''HTTP/'' \<and> isReqProtoVerValid (drop 5 p)"

definition isPortValid :: "string \<Rightarrow> bool" where
  "isPortValid port \<longleftrightarrow> (case ParseInt64 port of Some v \<Rightarrow> v \<ge> 80 \<and> v \<le> 49151 | None \<Rightarrow> False)"

definition isSchemeValid :: "string \<Rightarrow> bool" where
  "isSchemeValid s \<longleftrightarrow> s = ''http'' \<or> s = ''https''"

definition isRespCodeValid :: "int \<Rightarrow> bool" where
  "isRespCodeValid code \<longleftrightarrow> code \<ge> 100 \<and> code \<le> 600"

definition isSizeValid :: "int \<Rightarrow> bool" where
  "isSizeValid n \<longleftrightarrow> n \<ge> 0"

definition isTimeValid :: "('f, 'a) wl_env_scheme \<Rightarrow> 'f \<Rightarrow> bool" where
  "isTimeValid e t \<longleftrightarrow> fe_ge e t (fe_of_int e 0)"

definition isSSLProtoValid :: "string \<Rightarrow> bool" where
  "isSSLProtoValid p \<longleftrightarrow> p \<in> set [''TLSv1.2'', ''TLSv1.3'', ''SSLv2'', ''SSLv3'', ''TLSv1'', ''TLSv1.1'']"

definition ascii_in :: "nat \<Rightarrow> nat \<Rightarrow> char \<Rightarrow> bool" where
  "ascii_in a b c \<longleftrightarrow> a \<le> byte c \<and> byte c \<le> b"

text \<open>\<open>^[a-zA-Z0-9-:.]+$\<close>, \<open>^([\da-f:.]+|localhost)$\<close> and \<open>^[A-Z0-9-_]+$\<close>.\<close>

definition reVhost :: "string \<Rightarrow> bool" where
  "reVhost s \<longleftrightarrow> s \<noteq> [] \<and> list_all (\<lambda>c. ascii_in 97 122 c \<or> ascii_in 65 90 c \<or> is_digit c \<or> c \<in> {CHR ''-'', CHR '':'', CHR ''.''}) s"

definition reClient :: "string \<Rightarrow> bool" where
  "reClient s \<longleftrightarrow> (s \<noteq> [] \<and> list_all (\<lambda>c. is_digit c \<or> ascii_in 97 102 c \<or> c \<in> {CHR '':'', CHR ''.''}) s) \<or> s = ''localhost''"

definition reCipherSuite :: "string \<Rightarrow> bool" where
  "reCipherSuite s \<longleftrightarrow> s \<noteq> [] \<and> list_all (\<lambda>c. ascii_in 65 90 c \<or> is_digit c \<or> c \<in> {CHR ''-'', CHR ''_''}) s"

definition timeMultiplier :: "('f, 'a) wl_env_scheme \<Rightarrow> string \<Rightarrow> 'f" where
  "timeMultiplier e time =
     (case IndexByte time CHR ''.'' of Some i \<Rightarrow> if i > 0 then fe_of_int e 1000000 else fe_of_int e 1 | None \<Rightarrow> fe_of_int e 1)"

section \<open>Assigning\<close>

abbreviation hyphen :: string where "hyphen \<equiv> ''-''"
abbreviation quoted_word :: "string \<Rightarrow> string" where "quoted_word s \<equiv> [CHR 0x27] @ s @ [CHR 0x27]"

definition bad_tight :: "string \<Rightarrow> go_error \<Rightarrow> go_error option" where
  "bad_tight v err = Some (''assign '' @ quoted_word v @ '': '' @ err)"

definition bad :: "string \<Rightarrow> go_error \<Rightarrow> go_error option" where
  "bad v err = Some (''assign '' @ quoted_word v @ '' : '' @ err)"

type_synonym 'f wl_assign = "string \<Rightarrow> 'f logLine \<Rightarrow> go_error option \<times> 'f logLine"

definition assignVhost :: "'f wl_assign" where
  "assignVhost vhost l =
     (if vhost = hyphen then (None, l)
      else (let v = (case IndexByte vhost CHR '']'' of Some idx \<Rightarrow> if idx > 0 then drop 1 (take idx vhost) else vhost | None \<Rightarrow> vhost)
            in (None, l\<lparr>wb_vhost := v\<rparr>)))"

definition assignPort :: "'f wl_assign" where
  "assignPort port l =
     (if port = hyphen then (None, l)
      else if \<not> isPortValid port then (bad port ''bad port'', l)
      else (None, l\<lparr>wb_port := port\<rparr>))"

definition assignVhostWithPort :: "'f wl_assign" where
  "assignVhostWithPort vhostPort l =
     (if vhostPort = hyphen then (None, l)
      else (case LastIndexByte vhostPort CHR '':'' of
              None \<Rightarrow> (bad vhostPort ''bad vhost with port'', l)
            | Some idx \<Rightarrow>
                (case assignPort (drop (idx + 1) vhostPort) l of
                   (Some err, l1) \<Rightarrow> (bad vhostPort ''bad vhost with port'', l1)
                 | (None, l1) \<Rightarrow>
                     (case assignVhost (take idx vhostPort) l1 of
                        (Some err, l2) \<Rightarrow> (bad vhostPort ''bad vhost with port'', l2)
                      | (None, l2) \<Rightarrow> (None, l2)))))"

definition assignReqScheme :: "'f wl_assign" where
  "assignReqScheme scheme l =
     (if scheme = hyphen then (None, l)
      else if \<not> isSchemeValid scheme then (bad scheme ''bad req scheme'', l)
      else (None, l\<lparr>wb_reqScheme := scheme\<rparr>))"

definition assignReqClient :: "'f wl_assign" where
  "assignReqClient client l = (if client = hyphen then (None, l) else (None, l\<lparr>wb_reqClient := client\<rparr>))"

definition assignReqMethod :: "'f wl_assign" where
  "assignReqMethod m l =
     (if m = hyphen then (None, l)
      else if \<not> isReqMethodValid m then (bad m ''bad req method'', l)
      else (None, l\<lparr>wb_reqMethod := m\<rparr>))"

definition assignReqURL :: "'f wl_assign" where
  "assignReqURL url l =
     (if url = hyphen then (None, l)
      else if isEmptyString url then (bad url ''bad req url'', l)
      else (None, l\<lparr>wb_reqURL := url\<rparr>))"

definition assignReqProto :: "'f wl_assign" where
  "assignReqProto proto l =
     (if proto = hyphen then (None, l)
      else if \<not> isReqProtoValid proto then (bad_tight proto ''bad req protocol'', l)
      else (None, l\<lparr>wb_reqProto := drop 5 proto\<rparr>))"

definition assignRequest :: "'f wl_assign" where
  "assignRequest request l =
     (if request = hyphen then (None, l)
      else (case IndexByte request CHR '' '' of
              None \<Rightarrow> (bad_tight request ''bad request'', l)
            | Some i \<Rightarrow>
                (case LastIndexByte request CHR '' '' of
                   None \<Rightarrow> (bad_tight request ''bad request'', l)
                 | Some j \<Rightarrow>
                     if i = j then (bad_tight request ''bad request'', l)
                     else
                       (let proto = drop (j + 1) request; url = drop (i + 1) (take j request); method = take i request in
                        case assignReqMethod method l of
                          (Some err, l1) \<Rightarrow> (Some err, l1)
                        | (None, l1) \<Rightarrow>
                            (case assignReqURL url l1 of
                               (Some err, l2) \<Rightarrow> (Some err, l2)
                             | (None, l2) \<Rightarrow> assignReqProto proto l2)))))"

definition assignRespCode :: "'f wl_assign" where
  "assignRespCode status l =
     (if status = hyphen then (None, l)
      else (case ParseInt64 status of
              Some v \<Rightarrow> if isRespCodeValid v then (None, l\<lparr>wb_respCode := v\<rparr>) else (bad_tight status ''bad resp status code'', l)
            | None \<Rightarrow> (bad_tight status ''bad resp status code'', l)))"

definition assignReqSize :: "'f wl_assign" where
  "assignReqSize sz l =
     (if sz = hyphen then (None, l\<lparr>wb_reqSize := 0\<rparr>)
      else (case ParseInt64 sz of
              Some v \<Rightarrow> if isSizeValid v then (None, l\<lparr>wb_reqSize := v\<rparr>) else (bad_tight sz ''bad req size'', l)
            | None \<Rightarrow> (bad_tight sz ''bad req size'', l)))"

definition assignRespSize :: "'f wl_assign" where
  "assignRespSize sz l =
     (if sz = hyphen then (None, l\<lparr>wb_respSize := 0\<rparr>)
      else (case ParseInt64 sz of
              Some v \<Rightarrow> if isSizeValid v then (None, l\<lparr>wb_respSize := v\<rparr>) else (bad_tight sz ''bad resp size'', l)
            | None \<Rightarrow> (bad_tight sz ''bad resp size'', l)))"

definition assignReqProcTime :: "('f, 'a) wl_env_scheme \<Rightarrow> 'f wl_assign" where
  "assignReqProcTime e time l =
     (if time = hyphen then (None, l)
      else if time = ''0.000'' then (None, l\<lparr>wb_reqProcTime := fe_of_int e 0\<rparr>)
      else (case fe_ParseFloat e time of
              Some v \<Rightarrow>
                if isTimeValid e v then (None, l\<lparr>wb_reqProcTime := fe_mul e v (timeMultiplier e time)\<rparr>)
                else (bad_tight time ''bad req processing time'', l)
            | None \<Rightarrow> (bad_tight time ''bad req processing time'', l)))"

text \<open>\<open>strings.FieldsFunc\<close> for the separators of the upstream times.\<close>

fun ups_fields :: "string \<Rightarrow> string \<Rightarrow> string list" where
  "ups_fields cur [] = (if cur = [] then [] else [cur])"
| "ups_fields cur (c # cs) =
     (if c = CHR '','' \<or> c = CHR '':'' then (if cur = [] then ups_fields [] cs else cur # ups_fields [] cs)
      else ups_fields (cur @ [c]) cs)"

fun sum_times :: "('f, 'a) wl_env_scheme \<Rightarrow> 'f \<Rightarrow> string list \<Rightarrow> 'f option" where
  "sum_times e acc [] = Some acc"
| "sum_times e acc (w # ws) =
     (case fe_ParseFloat e (TrimSpace w) of
        Some v \<Rightarrow> if isTimeValid e v then sum_times e (fe_add e acc v) ws else None
      | None \<Rightarrow> None)"

definition assignUpsRespTime :: "('f, 'a) wl_env_scheme \<Rightarrow> 'f wl_assign" where
  "assignUpsRespTime e time l =
     (if time = hyphen then (None, l)
      else (case sum_times e (fe_of_int e 0) (ups_fields [] time) of
              None \<Rightarrow> (bad_tight time ''bad upstream resp time'', l)
            | Some s \<Rightarrow> (None, l\<lparr>wb_upsRespTime := fe_mul e s (timeMultiplier e time)\<rparr>)))"

definition assignSSLProto :: "'f wl_assign" where
  "assignSSLProto proto l =
     (if proto = hyphen then (None, l)
      else if \<not> isSSLProtoValid proto then (bad_tight proto ''bad ssl protocol'', l)
      else (None, l\<lparr>wb_sslProto := proto\<rparr>))"

definition index_pos :: "string \<Rightarrow> char \<Rightarrow> bool" where
  "index_pos s c \<longleftrightarrow> (case IndexByte s c of Some i \<Rightarrow> i > 0 | None \<Rightarrow> False)"

definition assignSSLCipherSuite :: "'f wl_assign" where
  "assignSSLCipherSuite cipher l =
     (if cipher = hyphen then (None, l)
      else if \<not> index_pos cipher CHR ''-'' \<and> \<not> index_pos cipher CHR ''_'' then (bad_tight cipher ''bad ssl cipher suite'', l)
      else (None, l\<lparr>wb_sslCipherSuite := cipher\<rparr>))"

definition assignCustom :: "string \<Rightarrow> 'f wl_assign" where
  "assignCustom field v l =
     (if cu_fields l = {} \<or> v = hyphen then (None, l)
      else if field \<in> cu_fields l then (None, l\<lparr>cu_values := cu_values l @ [(field, v)]\<rparr>)
      else (None, l))"

text \<open>The switch of \<open>Assign\<close>.\<close>

definition assign_field :: "('f, 'a) wl_env_scheme \<Rightarrow> string \<Rightarrow> 'f wl_assign" where
  "assign_field e field =
     (if field \<in> {''host'', ''http_host'', ''v''} then assignVhost
      else if field \<in> {''server_port'', ''p''} then assignPort
      else if field \<in> {''host:$server_port'', ''v:%p''} then assignVhostWithPort
      else if field = ''scheme'' then assignReqScheme
      else if field \<in> {''remote_addr'', ''a'', ''h''} then assignReqClient
      else if field \<in> {''request'', ''r''} then assignRequest
      else if field \<in> {''request_method'', ''m''} then assignReqMethod
      else if field \<in> {''request_uri'', ''U''} then assignReqURL
      else if field \<in> {''server_protocol'', ''H''} then assignReqProto
      else if field \<in> {''status'', ''s'', ''>s''} then assignRespCode
      else if field \<in> {''request_length'', ''I''} then assignReqSize
      else if field \<in> {''bytes_sent'', ''body_bytes_sent'', ''b'', ''O'', ''B''} then assignRespSize
      else if field \<in> {''request_time'', ''D''} then assignReqProcTime e
      else if field = ''upstream_response_time'' then assignUpsRespTime e
      else if field = ''ssl_protocol'' then assignSSLProto
      else if field = ''ssl_cipher'' then assignSSLCipherSuite
      else assignCustom field)"

definition wl_Assign :: "('f, 'a) wl_env_scheme \<Rightarrow> 'f logLine \<Rightarrow> string \<Rightarrow> string \<Rightarrow> go_error option \<times> 'f logLine" where
  "wl_Assign e l field v =
     (if v = [] then (None, l)
      else (case assign_field e field v l of
              (Some err, l1) \<Rightarrow> (Some (''assign '' @ quoted_word field @ '': '' @ err), l1)
            | (None, l1) \<Rightarrow> (None, l1)))"

section \<open>Verifying\<close>

definition web_empty :: "('f, 'a) wl_env_scheme \<Rightarrow> 'f logLine \<Rightarrow> bool" where
  "web_empty e l \<longleftrightarrow> wb_vhost l = emptyString \<and> wb_port l = emptyString \<and> wb_reqScheme l = emptyString \<and> wb_reqClient l = emptyString
     \<and> wb_reqMethod l = emptyString \<and> wb_reqURL l = emptyString \<and> wb_reqProto l = emptyString \<and> wb_reqSize l = emptyNumber
     \<and> fe_eq e (wb_reqProcTime l) (fe_of_int e emptyNumber) \<and> wb_respCode l = emptyNumber \<and> wb_respSize l = emptyNumber
     \<and> fe_eq e (wb_upsRespTime l) (fe_of_int e emptyNumber) \<and> wb_sslProto l = emptyString \<and> wb_sslCipherSuite l = emptyString"

definition hasCustomFields :: "'f logLine \<Rightarrow> bool" where "hasCustomFields l \<longleftrightarrow> length (cu_values l) > 0"
definition logLine_empty :: "('f, 'a) wl_env_scheme \<Rightarrow> 'f logLine \<Rightarrow> bool" where "logLine_empty e l \<longleftrightarrow> web_empty e l \<and> \<not> hasCustomFields l"
definition hasVhost :: "'f logLine \<Rightarrow> bool" where "hasVhost l \<longleftrightarrow> \<not> isEmptyString (wb_vhost l)"
definition hasPort :: "'f logLine \<Rightarrow> bool" where "hasPort l \<longleftrightarrow> \<not> isEmptyString (wb_port l)"
definition hasReqScheme :: "'f logLine \<Rightarrow> bool" where "hasReqScheme l \<longleftrightarrow> \<not> isEmptyString (wb_reqScheme l)"
definition hasReqClient :: "'f logLine \<Rightarrow> bool" where "hasReqClient l \<longleftrightarrow> \<not> isEmptyString (wb_reqClient l)"
definition hasReqMethod :: "'f logLine \<Rightarrow> bool" where "hasReqMethod l \<longleftrightarrow> \<not> isEmptyString (wb_reqMethod l)"
definition hasReqURL :: "'f logLine \<Rightarrow> bool" where "hasReqURL l \<longleftrightarrow> \<not> isEmptyString (wb_reqURL l)"
definition hasReqProto :: "'f logLine \<Rightarrow> bool" where "hasReqProto l \<longleftrightarrow> \<not> isEmptyString (wb_reqProto l)"
definition hasRespCode :: "'f logLine \<Rightarrow> bool" where "hasRespCode l \<longleftrightarrow> \<not> isEmptyNumber (wb_respCode l)"
definition hasReqSize :: "'f logLine \<Rightarrow> bool" where "hasReqSize l \<longleftrightarrow> \<not> isEmptyNumber (wb_reqSize l)"
definition hasRespSize :: "'f logLine \<Rightarrow> bool" where "hasRespSize l \<longleftrightarrow> \<not> isEmptyNumber (wb_respSize l)"
definition hasReqProcTime :: "('f, 'a) wl_env_scheme \<Rightarrow> 'f logLine \<Rightarrow> bool" where
  "hasReqProcTime e l \<longleftrightarrow> \<not> isEmptyNumber (fe_to_int e (wb_reqProcTime l))"
definition hasUpsRespTime :: "('f, 'a) wl_env_scheme \<Rightarrow> 'f logLine \<Rightarrow> bool" where
  "hasUpsRespTime e l \<longleftrightarrow> \<not> isEmptyNumber (fe_to_int e (wb_upsRespTime l))"
definition hasSSLProto :: "'f logLine \<Rightarrow> bool" where "hasSSLProto l \<longleftrightarrow> \<not> isEmptyString (wb_sslProto l)"
definition hasSSLCipherSuite :: "'f logLine \<Rightarrow> bool" where "hasSSLCipherSuite l \<longleftrightarrow> \<not> isEmptyString (wb_sslCipherSuite l)"

lemmas has_defs = hasVhost_def hasPort_def hasReqScheme_def hasReqClient_def hasReqMethod_def hasReqURL_def hasReqProto_def
  hasRespCode_def hasReqSize_def hasRespSize_def hasReqProcTime_def hasUpsRespTime_def hasSSLProto_def hasSSLCipherSuite_def

datatype verify_err = errEmptyLine | errBadRespCode | errBadVhost | errBadPort | errBadReqScheme | errBadReqClient | errBadReqMethod
  | errBadReqURL | errBadReqProto | errBadReqSize | errBadRespSize | errBadReqProcTime | errBadUpsRespTime | errBadSSLProto
  | errBadSSLCipherSuite

definition wl_verify :: "('f, 'a) wl_env_scheme \<Rightarrow> 'f logLine \<Rightarrow> verify_err option" where
  "wl_verify e l =
     (if logLine_empty e l then Some errEmptyLine
      else if hasRespCode l \<and> \<not> isRespCodeValid (wb_respCode l) then Some errBadRespCode
      else if hasVhost l \<and> \<not> reVhost (wb_vhost l) then Some errBadVhost
      else if hasPort l \<and> \<not> isPortValid (wb_port l) then Some errBadPort
      else if hasReqScheme l \<and> \<not> isSchemeValid (wb_reqScheme l) then Some errBadReqScheme
      else if hasReqClient l \<and> \<not> reClient (wb_reqClient l) then Some errBadReqClient
      else if hasReqMethod l \<and> \<not> isReqMethodValid (wb_reqMethod l) then Some errBadReqMethod
      else if hasReqURL l \<and> isEmptyString (wb_reqURL l) then Some errBadReqURL
      else if hasReqProto l \<and> \<not> isReqProtoVerValid (wb_reqProto l) then Some errBadReqProto
      else if hasReqSize l \<and> \<not> isSizeValid (wb_reqSize l) then Some errBadReqSize
      else if hasRespSize l \<and> \<not> isSizeValid (wb_respSize l) then Some errBadRespSize
      else if hasReqProcTime e l \<and> \<not> isTimeValid e (wb_reqProcTime l) then Some errBadReqProcTime
      else if hasUpsRespTime e l \<and> \<not> isTimeValid e (wb_upsRespTime l) then Some errBadUpsRespTime
      else if hasSSLProto l \<and> \<not> isSSLProtoValid (wb_sslProto l) then Some errBadSSLProto
      else if hasSSLCipherSuite l \<and> \<not> reCipherSuite (wb_sslCipherSuite l) then Some errBadSSLCipherSuite
      else None)"

section \<open>An assigned line is valid\<close>

text \<open>What is used of floating point numbers: times that are not negative stay so, and the mark of an empty number is read
  back.\<close>

definition float_laws :: "('f, 'a) wl_env_scheme \<Rightarrow> bool" where
  "float_laws e \<longleftrightarrow> fe_to_int e (fe_of_int e emptyNumber) = emptyNumber \<and> isTimeValid e (fe_of_int e 0)
     \<and> (\<forall>x y. isTimeValid e x \<longrightarrow> isTimeValid e y \<longrightarrow> isTimeValid e (fe_add e x y))
     \<and> (\<forall>x n. isTimeValid e x \<longrightarrow> n = 1 \<or> n = 1000000 \<longrightarrow> isTimeValid e (fe_mul e x (fe_of_int e n)))"

text \<open>The fields \<open>Assign\<close> checks itself.\<close>

definition checked_fields_ok :: "('f, 'a) wl_env_scheme \<Rightarrow> 'f logLine \<Rightarrow> bool" where
  "checked_fields_ok e l \<longleftrightarrow>
     (hasRespCode l \<longrightarrow> isRespCodeValid (wb_respCode l)) \<and> (hasPort l \<longrightarrow> isPortValid (wb_port l))
     \<and> (hasReqScheme l \<longrightarrow> isSchemeValid (wb_reqScheme l)) \<and> (hasReqMethod l \<longrightarrow> isReqMethodValid (wb_reqMethod l))
     \<and> (hasReqProto l \<longrightarrow> isReqProtoVerValid (wb_reqProto l)) \<and> (hasReqSize l \<longrightarrow> isSizeValid (wb_reqSize l))
     \<and> (hasRespSize l \<longrightarrow> isSizeValid (wb_respSize l)) \<and> (hasReqProcTime e l \<longrightarrow> isTimeValid e (wb_reqProcTime l))
     \<and> (hasUpsRespTime e l \<longrightarrow> isTimeValid e (wb_upsRespTime l)) \<and> (hasSSLProto l \<longrightarrow> isSSLProtoValid (wb_sslProto l))"

lemma reset_ok: "float_laws e \<Longrightarrow> checked_fields_ok e (logLine_reset e l)"
  by (simp add: checked_fields_ok_def has_defs logLine_reset_def isEmptyString_def isEmptyNumber_def float_laws_def)

text \<open>Each of the methods keeps the fields valid, whether it succeeds or not.\<close>

definition keeps_ok :: "('f, 'a) wl_env_scheme \<Rightarrow> 'f wl_assign \<Rightarrow> bool" where
  "keeps_ok e f \<longleftrightarrow> (\<forall>v l. checked_fields_ok e l \<longrightarrow> checked_fields_ok e (snd (f v l)))"

lemma keeps_ok_plain:
  "keeps_ok e assignVhost" "keeps_ok e assignPort" "keeps_ok e assignReqScheme" "keeps_ok e assignReqClient" "keeps_ok e assignReqMethod"
  "keeps_ok e assignReqURL" "keeps_ok e assignReqProto" "keeps_ok e assignRespCode" "keeps_ok e assignReqSize" "keeps_ok e assignRespSize"
  "keeps_ok e assignSSLProto" "keeps_ok e assignSSLCipherSuite" "keeps_ok e (assignCustom field)"
  by (auto simp: keeps_ok_def checked_fields_ok_def has_defs assignVhost_def assignPort_def assignReqScheme_def assignReqClient_def
      assignReqMethod_def assignReqURL_def assignReqProto_def assignRespCode_def assignReqSize_def assignRespSize_def
      assignSSLProto_def assignSSLCipherSuite_def assignCustom_def isReqProtoValid_def isSizeValid_def Let_def split: option.split)

lemma keeps_okD: "keeps_ok e f \<Longrightarrow> checked_fields_ok e l \<Longrightarrow> f v l = (r, l') \<Longrightarrow> checked_fields_ok e l'"
  by (metis keeps_ok_def snd_conv)

lemma keeps_ok_VhostWithPort: "keeps_ok e assignVhostWithPort"
  unfolding keeps_ok_def
  by (auto simp: assignVhostWithPort_def split: option.split prod.split
      dest: keeps_okD [OF keeps_ok_plain(1), rotated] keeps_okD [OF keeps_ok_plain(2), rotated])

lemma keeps_ok_Request: "keeps_ok e assignRequest"
  unfolding keeps_ok_def
  by (auto simp: assignRequest_def Let_def split: option.split prod.split
      dest: keeps_okD [OF keeps_ok_plain(5), rotated] keeps_okD [OF keeps_ok_plain(6), rotated]
        keeps_okD [OF keeps_ok_plain(7), rotated]
      intro: keeps_ok_plain(7) [unfolded keeps_ok_def, rule_format])

lemma timeMultiplier_cases: "\<exists>n. timeMultiplier e t = fe_of_int e n \<and> (n = 1 \<or> n = 1000000)"
  by (auto simp: timeMultiplier_def split: option.split)

lemma isTimeValid_scaled: "float_laws e \<Longrightarrow> isTimeValid e s \<Longrightarrow> isTimeValid e (fe_mul e s (timeMultiplier e t))"
  using timeMultiplier_cases [of e t] by (auto simp: float_laws_def)

lemma keeps_ok_ProcTime:
  assumes "float_laws e"
  shows "keeps_ok e (assignReqProcTime e)"
proof -
  have "isTimeValid e (fe_of_int e 0)" using assms by (simp add: float_laws_def)
  then show ?thesis
    using isTimeValid_scaled [OF assms]
    by (auto simp: keeps_ok_def checked_fields_ok_def has_defs assignReqProcTime_def split: option.split)
qed

lemma sum_times_ok: "float_laws e \<Longrightarrow> isTimeValid e acc \<Longrightarrow> sum_times e acc ws = Some s \<Longrightarrow> isTimeValid e s"
  by (induction e acc ws rule: sum_times.induct) (auto simp: float_laws_def split: option.splits if_splits)

lemma keeps_ok_UpsTime:
  assumes "float_laws e"
  shows "keeps_ok e (assignUpsRespTime e)"
proof -
  have "isTimeValid e (fe_mul e s (timeMultiplier e t))" if "sum_times e (fe_of_int e 0) ws = Some s" for s ws t
    using sum_times_ok [OF assms _ that] assms by (intro isTimeValid_scaled) (auto simp: float_laws_def)
  then show ?thesis
    by (auto simp: keeps_ok_def checked_fields_ok_def has_defs assignUpsRespTime_def split: option.split)
qed

lemma Assign_ok:
  assumes "float_laws e" and "checked_fields_ok e l"
  shows "checked_fields_ok e (snd (wl_Assign e l field v))"
proof -
  have "keeps_ok e (assign_field e field)"
    by (simp add: assign_field_def keeps_ok_plain keeps_ok_VhostWithPort keeps_ok_Request keeps_ok_ProcTime [OF assms(1)]
        keeps_ok_UpsTime [OF assms(1)])
  then show ?thesis
    using assms(2) by (auto simp: wl_Assign_def split: prod.split option.split dest: keeps_okD [rotated])
qed

text \<open>
  C21. Whatever fields and values a parser assigns to a line, and whichever of them are refused, the line never holds a bad
  status code, port, scheme, method, protocol version, size, time or TLS version: of the fifteen checks
  \<open>verify\<close> makes, only those of an empty line, the host, the client and the cipher suite can fail.
\<close>

theorem assigned_line_verifies:
  assumes "float_laws e" and "l = foldl (\<lambda>l (field, v). snd (wl_Assign e l field v)) (logLine_reset e l0) pairs"
  shows "wl_verify e l \<in> {None, Some errEmptyLine, Some errBadVhost, Some errBadReqClient, Some errBadSSLCipherSuite}"
proof -
  have "checked_fields_ok e (foldl (\<lambda>l (field, v). snd (wl_Assign e l field v)) m pairs)" if "checked_fields_ok e m" for m
    using that by (induction pairs arbitrary: m) (auto simp: Assign_ok [OF assms(1)])
  then have "checked_fields_ok e l" using reset_ok [OF assms(1)] assms(2) by blast
  then have ok: "(hasRespCode l \<and> \<not> isRespCodeValid (wb_respCode l)) = False" "(hasPort l \<and> \<not> isPortValid (wb_port l)) = False"
    "(hasReqScheme l \<and> \<not> isSchemeValid (wb_reqScheme l)) = False" "(hasReqMethod l \<and> \<not> isReqMethodValid (wb_reqMethod l)) = False"
    "(hasReqURL l \<and> isEmptyString (wb_reqURL l)) = False" "(hasReqProto l \<and> \<not> isReqProtoVerValid (wb_reqProto l)) = False"
    "(hasReqSize l \<and> \<not> isSizeValid (wb_reqSize l)) = False" "(hasRespSize l \<and> \<not> isSizeValid (wb_respSize l)) = False"
    "(hasReqProcTime e l \<and> \<not> isTimeValid e (wb_reqProcTime l)) = False" "(hasUpsRespTime e l \<and> \<not> isTimeValid e (wb_upsRespTime l)) = False"
    "(hasSSLProto l \<and> \<not> isSSLProtoValid (wb_sslProto l)) = False"
    by (simp_all add: checked_fields_ok_def hasReqURL_def)
  show ?thesis unfolding wl_verify_def ok by simp
qed

definition int_wl :: "int wl_env" where
  "int_wl = \<lparr>fe_of_int = id, fe_to_int = id, fe_add = (+), fe_mul = (*), fe_div = (div), fe_lt = (<), fe_ge = (\<ge>), fe_eq = (=),
     fe_MaxFloat64 = 1000000, fe_MinFloat64 = -1000000, fe_ParseFloat = ParseInt64\<rparr>"

lemma int_wl_laws: "float_laws int_wl"
  by (auto simp: float_laws_def int_wl_def isTimeValid_def)

definition blank_line :: "int logLine" where
  "blank_line = logLine_reset int_wl
     \<lparr>wb_vhost = [], wb_port = [], wb_reqScheme = [], wb_reqClient = [], wb_reqMethod = [], wb_reqURL = [], wb_reqProto = [], wb_reqSize = 0,
      wb_reqProcTime = 0, wb_respCode = 0, wb_respSize = 0, wb_upsRespTime = 0, wb_sslProto = [], wb_sslCipherSuite = [],
      cu_fields = {}, cu_values = []\<rparr>"

theorem assigned_line_verifies_witness:
  "\<exists>l. l = foldl (\<lambda>l (field, v). snd (wl_Assign int_wl l field v)) (logLine_reset int_wl blank_line) [(''status'', ''999''), (''p'', ''80'')]
     \<and> wb_port l = ''80'' \<and> wb_respCode l = emptyNumber
     \<and> wl_verify int_wl l \<in> {None, Some errEmptyLine, Some errBadVhost, Some errBadReqClient, Some errBadSSLCipherSuite}"
proof -
  let ?l = "foldl (\<lambda>l (field, v). snd (wl_Assign int_wl l field v)) (logLine_reset int_wl blank_line) [(''status'', ''999''), (''p'', ''80'')]"
  have n: "ParseInt64 ''999'' = Some 999" "ParseInt64 ''80'' = Some 80"
    by (simp_all add: ParseInt64_def unsigned_digits_def is_digit_def digit_val_def)
  have "wb_port ?l = ''80'' \<and> wb_respCode ?l = emptyNumber"
    by (simp add: wl_Assign_def assign_field_def assignRespCode_def assignPort_def n isRespCodeValid_def isPortValid_def bad_tight_def logLine_reset_def)
  then show ?thesis using assigned_line_verifies [OF int_wl_laws refl] by blast
qed

section \<open>The request line\<close>

lemma IndexByte_first: "c \<notin> set a \<Longrightarrow> IndexByte (a @ c # b) c = Some (length a)"
  by (rule IndexByte_append)

lemma LastIndexByte_last: "c \<notin> set b \<Longrightarrow> LastIndexByte (a @ c # b) c = Some (length a)"
proof -
  assume "c \<notin> set b"
  then have "LastIndexByte b c = None" by simp
  then show ?thesis by (simp add: LastIndexByte_append del: LastIndexByte_None)
qed

lemma methods_no_space: "isReqMethodValid m \<Longrightarrow> CHR '' '' \<notin> set m \<and> m \<noteq> hyphen"
  unfolding isReqMethodValid_def http_methods_def by auto

text \<open>
  A request line is taken apart at its first and its last space: method, URL and protocol version are those of the
  request even when the URL has spaces in it.
\<close>

theorem request_line_parsed:
  assumes "isReqMethodValid m" and "isReqProtoVerValid v" and "\<not> isEmptyString url" and "url \<noteq> hyphen"
  shows "assignRequest (m @ '' '' @ url @ '' HTTP/'' @ v) l = (None, l\<lparr>wb_reqMethod := m, wb_reqURL := url, wb_reqProto := v\<rparr>)"
proof -
  let ?r = "m @ '' '' @ url @ '' HTTP/'' @ v"
  have nv: "CHR '' '' \<notin> set v" "v \<noteq> []" using assms(2) by (auto simp: isReqProtoVerValid_def)
  have i: "IndexByte ?r CHR '' '' = Some (length m)"
    using IndexByte_first [of "CHR '' ''" m "url @ '' HTTP/'' @ v"] methods_no_space [OF assms(1)] by simp
  have j: "LastIndexByte ?r CHR '' '' = Some (length m + 1 + length url)"
    using LastIndexByte_last [of "CHR '' ''" "''HTTP/'' @ v" "m @ '' '' @ url"] nv by simp
  have "?r \<noteq> hyphen" by (cases m) auto
  moreover have "isReqProtoValid (''HTTP/'' @ v)" using assms(2) nv by (cases v) (auto simp: isReqProtoValid_def)
  ultimately show ?thesis
    using methods_no_space [OF assms(1)] assms i j
    by (simp add: assignRequest_def Let_def assignReqMethod_def assignReqURL_def assignReqProto_def)
qed

theorem request_line_parsed_witness:
  "isReqMethodValid ''GET'' \<and> isReqProtoVerValid ''1.1''
   \<and> assignRequest ''GET /a b HTTP/1.1'' blank_line = (None, blank_line\<lparr>wb_reqMethod := ''GET'', wb_reqURL := ''/a b'', wb_reqProto := ''1.1''\<rparr>)"
proof -
  have v: "isReqMethodValid ''GET''" "isReqProtoVerValid ''1.1''" "\<not> isEmptyString ''/a b''" "''/a b'' \<noteq> hyphen"
    by (simp_all add: isReqMethodValid_def http_methods_def isReqProtoVerValid_def isEmptyString_def emptyString_def)
  show ?thesis using v request_line_parsed [OF v, of blank_line] by simp
qed

end
