(* ===== verification/Logs_Csv.thy ===== *)
theory Logs_Csv
  imports Utf8
begin

text \<open>
  \<open>pkg/logs/csv.go\<close>: log lines as records of \<open>encoding/csv\<close>.  The format of the log is itself a record, from which
  each named field gets the index of its column; a line assigns the columns to the fields.  The reader of
  \<open>encoding/csv\<close> is modelled on the bytes it still has to read, without the positions it puts into its messages.
\<close>

section \<open>encoding/csv\<close>

datatype csv_err = ErrBareQuote | ErrQuote | ErrFieldCount | ErrInvalidDelim | CsvEOF

abbreviation dquote_byte :: char where "dquote_byte \<equiv> CHR 0x22"
abbreviation nl_byte :: char where "nl_byte \<equiv> CHR 0x0A"
abbreviation cr_byte :: char where "cr_byte \<equiv> CHR 0x0D"

definition validDelim :: "int \<Rightarrow> bool" where
  "validDelim r \<longleftrightarrow> r \<noteq> 0 \<and> r \<noteq> 34 \<and> r \<noteq> 13 \<and> r \<noteq> 10 \<and> r \<noteq> 0xFFFD
     \<and> ((0 \<le> r \<and> r < 0xD800) \<or> (0xDFFF < r \<and> r \<le> 0x10FFFF))"

text \<open>\<open>readLine\<close>: up to and with the line feed, a carriage return before it or before the end dropped.\<close>

definition csv_readLine :: "string \<Rightarrow> (string \<times> string) option" where
  "csv_readLine rest =
     (if rest = [] then None
      else (case IndexByte rest nl_byte of
              Some i \<Rightarrow>
                let line = take i rest
                in Some ((if line \<noteq> [] \<and> last line = cr_byte then butlast line else line) @ [nl_byte], drop (Suc i) rest)
            | None \<Rightarrow> Some (if last rest = cr_byte then butlast rest else rest, [])))"

lemma csv_readLine_shorter: "csv_readLine rest = Some (line, rest') \<Longrightarrow> length rest' < length rest"
  by (auto simp: csv_readLine_def Let_def split: if_splits option.splits)

definition lengthNL :: "string \<Rightarrow> nat" where
  "lengthNL b = (if b \<noteq> [] \<and> last b = nl_byte then 1 else 0)"

definition trim_left :: "bool \<Rightarrow> string \<Rightarrow> string" where
  "trim_left trim line = (if trim then concat (map snd (dropWhile (\<lambda>(r, bs). IsSpace r) (rune_chunks line))) else line)"

text \<open>The bytes before and after the first occurrence of the delimiter.\<close>

fun cut_at :: "string \<Rightarrow> string \<Rightarrow> (string \<times> string) option" where
  "cut_at sep [] = None"
| "cut_at sep (c # cs) =
     (if HasPrefix (c # cs) sep then Some ([], drop (length sep) (c # cs))
      else map_option (\<lambda>(a, b). (c # a, b)) (cut_at sep cs))"

lemma encode_rune_ne [simp]: "encode_rune r \<noteq> []"
  by (simp add: encode_rune_def)

lemma trim_left_length: "length (trim_left trim line) \<le> length line"
proof -
  have "length (concat (map snd (dropWhile P cs))) \<le> length (concat (map snd cs))" for P and cs :: "(rune \<times> string) list"
    by (induction cs) auto
  then show ?thesis using rune_chunks_concat [of line] by (auto simp: trim_left_def) metis
qed

lemma cut_at_Some: "sep \<noteq> [] \<Longrightarrow> cut_at sep line = Some (a, b) \<Longrightarrow> line = a @ sep @ b"
  by (induction line arbitrary: a) (auto simp: HasPrefix_iff split: if_splits)

text \<open>The loop \<open>parseField\<close>; \<open>quoted\<close> holds the field read so far when the loop is inside quotes.  The result is the
  fields of the record, what is left of the input, and the error.\<close>

function parse_fields :: "rune \<Rightarrow> bool \<Rightarrow> string option \<Rightarrow> string \<Rightarrow> string \<Rightarrow> string list \<Rightarrow> string list \<times> string \<times> csv_err option" where
  "parse_fields comma trim None line0 rest fields =
     (let line = trim_left trim line0 in
      if line = [] \<or> hd line \<noteq> dquote_byte then
        (case cut_at (encode_rune comma) line of
           Some (field, line1) \<Rightarrow>
             if dquote_byte \<in> set field then (fields, rest, Some ErrBareQuote)
             else parse_fields comma trim None line1 rest (fields @ [field])
         | None \<Rightarrow>
             let field = take (length line - lengthNL line) line in
             if dquote_byte \<in> set field then (fields, rest, Some ErrBareQuote) else (fields @ [field], rest, None))
      else parse_fields comma trim (Some []) (tl line) rest fields)"
| "parse_fields comma trim (Some buf) line rest fields =
     (case IndexByte line dquote_byte of
        Some i \<Rightarrow>
          let buf1 = buf @ take i line; line1 = drop (Suc i) line in
          if HasPrefix line1 [dquote_byte] then parse_fields comma trim (Some (buf1 @ [dquote_byte])) (tl line1) rest fields
          else if HasPrefix line1 (encode_rune comma)
          then parse_fields comma trim None (drop (length (encode_rune comma)) line1) rest (fields @ [buf1])
          else if lengthNL line1 = length line1 then (fields @ [buf1], rest, None)
          else (fields, rest, Some ErrQuote)
      | None \<Rightarrow>
          if line \<noteq> [] then
            (case csv_readLine rest of
               Some (line1, rest1) \<Rightarrow> parse_fields comma trim (Some (buf @ line)) line1 rest1 fields
             | None \<Rightarrow> (fields, rest, Some ErrQuote))
          else (fields, rest, Some ErrQuote))"
  by pat_completeness auto
termination
proof (relation "(\<lambda>(comma, trim, q, line, rest, fields). length rest) <*mlex*> measure (\<lambda>(comma, trim, q, line, rest, fields). length line)",
    goal_cases)
  case 1
  then show ?case by (intro wf_mlex) auto
next
  case (2 comma trim line0 rest fields line x field line1)
  have "length line1 < length line" using cut_at_Some [of "encode_rune comma" line field line1] 2 by simp
  then show ?case using trim_left_length [of trim line0] 2 by (intro mlex_leq) auto
next
  case (3 comma trim line0 rest fields line)
  then have "length (tl line) < length line" by (cases line) auto
  then have "length (tl line) < length line0" using trim_left_length [of trim line0] 3(1) by simp
  then show ?case by (intro mlex_leq) auto
qed (auto simp: mlex_iff dest: csv_readLine_shorter IndexByte_SomeD)

declare parse_fields.simps [simp del]

text \<open>The first line that is not empty.\<close>

function next_line :: "string \<Rightarrow> (string \<times> string) option" where
  "next_line rest =
     (case csv_readLine rest of
        None \<Rightarrow> None
      | Some (line, rest1) \<Rightarrow> if length line = lengthNL line then next_line rest1 else Some (line, rest1))"
  by pat_completeness auto
termination
  by (relation "measure length") (auto dest: csv_readLine_shorter)

declare next_line.simps [simp del]

record csv_Reader =
  cr_Comma :: int
  cr_TrimLeadingSpace :: bool
  cr_FieldsPerRecord :: int
  cr_rest :: string

definition csvReader_Read :: "csv_Reader \<Rightarrow> (string list \<times> csv_err option) \<times> csv_Reader" where
  "csvReader_Read r =
     (if \<not> validDelim (cr_Comma r) then (([], Some ErrInvalidDelim), r)
      else (case next_line (cr_rest r) of
              None \<Rightarrow> (([], Some CsvEOF), r\<lparr>cr_rest := []\<rparr>)
            | Some (line, rest1) \<Rightarrow>
                (case parse_fields (nat (cr_Comma r)) (cr_TrimLeadingSpace r) None line rest1 [] of
                   (dst, rest2, err) \<Rightarrow>
                     if cr_FieldsPerRecord r > 0 then
                       ((dst, if int (length dst) \<noteq> cr_FieldsPerRecord r \<and> err = None then Some ErrFieldCount else err),
                        r\<lparr>cr_rest := rest2\<rparr>)
                     else if cr_FieldsPerRecord r = 0 then
                       ((dst, err), r\<lparr>cr_rest := rest2, cr_FieldsPerRecord := int (length dst)\<rparr>)
                     else ((dst, err), r\<lparr>cr_rest := rest2\<rparr>))))"

section \<open>The parser\<close>

text \<open>The errors of the parsers: a \<open>ParseError\<close> wraps its cause, other errors are passed on as they are.\<close>

datatype log_cause = Unmatched | AssignErr go_error | CsvErr csv_err | LibErr go_error

datatype log_err = ParseError log_cause | RawError log_cause

fun IsParseError :: "log_err \<Rightarrow> bool" where
  "IsParseError (ParseError c) \<longleftrightarrow> True"
| "IsParseError (RawError c) \<longleftrightarrow> False"

record CSVConfig =
  cc_FieldsPerRecord :: int
  cc_Delimiter :: string
  cc_TrimLeadingSpace :: bool
  cc_Format :: string
  cc_CheckField :: "(string \<Rightarrow> string \<times> int \<times> bool) option"

record csvFormat =
  cf_raw :: string
  cf_maxIndex :: int
  cf_fields :: "(string \<times> int) list"

record CSVParser =
  cp_Config :: CSVConfig
  cp_reader :: csv_Reader
  cp_format :: csvFormat

definition isNumber :: "string \<Rightarrow> bool" where
  "isNumber s \<longleftrightarrow> ParseInt64 s \<noteq> None"

definition parseCSVDelimiter :: "string \<Rightarrow> int option" where
  "parseCSVDelimiter s =
     (if isNumber s then (case ParseInt64 s of Some d \<Rightarrow> if - (2 ^ 31) \<le> d \<and> d < 2 ^ 31 then Some d else None | None \<Rightarrow> None)
      else if length s \<noteq> 1 then None
      else Some (of_char (hd s)))"

definition csv_comma :: "CSVConfig \<Rightarrow> int" where
  "csv_comma config =
     (if cc_Delimiter config = [] then 44
      else (case parseCSVDelimiter (cc_Delimiter config) of Some d \<Rightarrow> d | None \<Rightarrow> 44))"

definition newCSVReader :: "string \<Rightarrow> CSVConfig \<Rightarrow> csv_Reader" where
  "newCSVReader inp config = \<lparr>cr_Comma = csv_comma config, cr_TrimLeadingSpace = cc_TrimLeadingSpace config,
     cr_FieldsPerRecord = cc_FieldsPerRecord config, cr_rest = inp\<rparr>"

definition checkCSVFormatField :: "string \<Rightarrow> string \<times> int \<times> bool" where
  "checkCSVFormatField name = (if length name < 2 \<or> \<not> HasPrefix name ''$'' then ([], 0, False) else (name, 0, True))"

fun create_fields :: "(string \<Rightarrow> string \<times> int \<times> bool) \<Rightarrow> string list \<Rightarrow> int \<Rightarrow> int \<Rightarrow> string set \<Rightarrow> (string \<times> int) list
    \<Rightarrow> go_error + (string \<times> int) list" where
  "create_fields check [] i offset seen flds = Inr flds"
| "create_fields check (name0 # names) i offset seen flds =
     (case check (TrimBytes name0 {dquote_byte}) of
        (name, addOffset, valid) \<Rightarrow>
          let offset1 = offset + addOffset in
          if \<not> valid then create_fields check names (i + 1) offset1 seen flds
          else if name \<in> seen then Inl (''duplicate field: '' @ name)
          else create_fields check names (i + 1) offset1 (insert name seen) (flds @ [(name, i + offset1)]))"

definition createCSVFields :: "string list \<Rightarrow> (string \<Rightarrow> string \<times> int \<times> bool) option \<Rightarrow> go_error + (string \<times> int) list" where
  "createCSVFields format check =
     create_fields (case check of None \<Rightarrow> checkCSVFormatField | Some c \<Rightarrow> c) format 0 0 {} []"

definition newCSVFormat :: "CSVConfig \<Rightarrow> log_cause + csvFormat" where
  "newCSVFormat config =
     (case csvReader_Read ((newCSVReader (cc_Format config) config)\<lparr>cr_FieldsPerRecord := 0\<rparr>) of
        ((record, Some err), _) \<Rightarrow> Inl (CsvErr err)
      | ((record, None), _) \<Rightarrow>
          (case createCSVFields record (cc_CheckField config) of
             Inl err \<Rightarrow> Inl (LibErr err)
           | Inr flds \<Rightarrow>
               if length flds = 0 then Inl (LibErr ''zero fields'')
               else Inr \<lparr>cf_raw = cc_Format config, cf_maxIndex = snd (last flds), cf_fields = flds\<rparr>))"

definition NewCSVParser :: "CSVConfig \<Rightarrow> string \<Rightarrow> log_cause + CSVParser" where
  "NewCSVParser config inp =
     (if cc_Format config = [] then Inl (LibErr ''empty csv format'')
      else (case newCSVFormat config of
              Inl err \<Rightarrow> Inl err
            | Inr format \<Rightarrow> Inr \<lparr>cp_Config = config, cp_reader = newCSVReader inp config, cp_format = format\<rparr>))"

text \<open>The loop over the fields.  \<open>Assign\<close> is the method of the line; an index outside the record panics.\<close>

fun assign_fields :: "('l \<Rightarrow> string \<Rightarrow> string \<Rightarrow> go_error option \<times> 'l) \<Rightarrow> string list \<Rightarrow> (string \<times> int) list \<Rightarrow> 'l \<Rightarrow> (log_err option \<times> 'l) option" where
  "assign_fields Assign record [] line = Some (None, line)"
| "assign_fields Assign record ((name, idx) # flds) line =
     (if idx < 0 \<or> int (length record) \<le> idx then None
      else (case Assign line name (record ! nat idx) of
              (Some err, line1) \<Rightarrow> Some (Some (ParseError (AssignErr err)), line1)
            | (None, line1) \<Rightarrow> assign_fields Assign record flds line1))"

definition csvFormat_parse :: "('l \<Rightarrow> string \<Rightarrow> string \<Rightarrow> go_error option \<times> 'l) \<Rightarrow> csvFormat \<Rightarrow> string list \<Rightarrow> 'l \<Rightarrow> (log_err option \<times> 'l) option" where
  "csvFormat_parse Assign f record line =
     (if int (length record) \<le> cf_maxIndex f then Some (Some (ParseError Unmatched), line)
      else assign_fields Assign record (cf_fields f) line)"

definition handleCSVReaderError :: "csv_err \<Rightarrow> log_err" where
  "handleCSVReaderError err =
     (if err \<in> {ErrBareQuote, ErrFieldCount, ErrQuote} then ParseError (CsvErr err) else RawError (CsvErr err))"

definition CSVParser_ReadLine :: "('l \<Rightarrow> string \<Rightarrow> string \<Rightarrow> go_error option \<times> 'l) \<Rightarrow> CSVParser \<Rightarrow> 'l \<Rightarrow> ((log_err option \<times> 'l) \<times> CSVParser) option" where
  "CSVParser_ReadLine Assign p line =
     (case csvReader_Read (cp_reader p) of
        ((record, Some err), r1) \<Rightarrow> Some ((Some (handleCSVReaderError err), line), p\<lparr>cp_reader := r1\<rparr>)
      | ((record, None), r1) \<Rightarrow> map_option (\<lambda>res. (res, p\<lparr>cp_reader := r1\<rparr>)) (csvFormat_parse Assign (cp_format p) record line))"

definition CSVParser_Parse :: "('l \<Rightarrow> string \<Rightarrow> string \<Rightarrow> go_error option \<times> 'l) \<Rightarrow> CSVParser \<Rightarrow> string \<Rightarrow> 'l \<Rightarrow> (log_err option \<times> 'l) option" where
  "CSVParser_Parse Assign p row line =
     (case csvReader_Read (newCSVReader row (cp_Config p)) of
        ((record, Some err), _) \<Rightarrow> Some (Some (handleCSVReaderError err), line)
      | ((record, None), _) \<Rightarrow> csvFormat_parse Assign (cp_format p) record line)"

definition CSVParser_Info :: "CSVParser \<Rightarrow> string" where
  "CSVParser_Info p = ''csv: '' @ cf_raw (cp_format p)"

section \<open>The columns of the fields\<close>

definition nonneg_check :: "(string \<Rightarrow> string \<times> int \<times> bool) option \<Rightarrow> bool" where
  "nonneg_check check \<longleftrightarrow> (\<forall>c name. check = Some c \<longrightarrow> 0 \<le> fst (snd (c name)))"

definition columns_ok :: "(string \<times> int) list \<Rightarrow> bool" where
  "columns_ok flds \<longleftrightarrow> sorted_wrt (<) (map snd flds) \<and> distinct (map fst flds) \<and> (\<forall>(n, i) \<in> set flds. 0 \<le> i)"

lemma create_fields_columns:
  assumes "create_fields check names i offset seen flds = Inr flds'" and "\<And>name. 0 \<le> fst (snd (check name))"
    and "columns_ok flds" and "\<forall>(n, k) \<in> set flds. k < i + offset" and "fst ` set flds \<subseteq> seen" and "0 \<le> i + offset"
  shows "columns_ok flds'"
  using assms
proof (induction check names i offset seen flds rule: create_fields.induct)
  case (2 check name0 names i offset seen flds)
  obtain name add valid where c: "check (TrimBytes name0 {dquote_byte}) = (name, add, valid)" by (metis surj_pair)
  have add: "0 \<le> add" using "2.prems"(2) [of "TrimBytes name0 {dquote_byte}"] c by simp
  show ?case
  proof (cases valid)
    case False
    then show ?thesis using 2 c add by (force simp: Let_def)
  next
    case True
    then have new: "name \<notin> seen" using "2.prems"(1) c by (auto simp: Let_def split: if_splits)
    have "columns_ok (flds @ [(name, i + (offset + add))])"
      using "2.prems"(3-6) new add by (force simp: columns_ok_def sorted_wrt_append)
    then show ?thesis
      using "2.IH"(2) [OF c [symmetric] refl refl _ new] "2.prems" new True add c by (force simp: Let_def)
  qed
qed simp

lemma newCSVFormat_columns:
  assumes "newCSVFormat config = Inr f" and "nonneg_check (cc_CheckField config)"
  shows "columns_ok (cf_fields f) \<and> cf_fields f \<noteq> [] \<and> cf_maxIndex f = snd (last (cf_fields f))"
proof -
  define c where "c = (case cc_CheckField config of None \<Rightarrow> checkCSVFormatField | Some c \<Rightarrow> c)"
  have check: "0 \<le> fst (snd (c name))" for name
    using assms(2) by (auto simp: c_def nonneg_check_def checkCSVFormatField_def split: option.split)
  obtain names flds where "create_fields c names 0 0 {} [] = Inr flds" "flds \<noteq> []"
    "f = \<lparr>cf_raw = cc_Format config, cf_maxIndex = snd (last flds), cf_fields = flds\<rparr>"
    using assms(1) unfolding newCSVFormat_def createCSVFields_def c_def [symmetric]
    by (auto split: prod.splits option.splits sum.splits if_splits)
  then show ?thesis using create_fields_columns [of c names 0 0 "{}" "[]" flds] check by (simp add: columns_ok_def)
qed

text \<open>The same without the indices: the values of the fields, assigned in order up to the first error.\<close>

fun assign_values :: "('l \<Rightarrow> string \<Rightarrow> string \<Rightarrow> go_error option \<times> 'l) \<Rightarrow> (string \<times> string) list \<Rightarrow> 'l \<Rightarrow> log_err option \<times> 'l" where
  "assign_values Assign [] line = (None, line)"
| "assign_values Assign ((name, v) # nvs) line =
     (case Assign line name v of
        (Some err, line1) \<Rightarrow> (Some (ParseError (AssignErr err)), line1)
      | (None, line1) \<Rightarrow> assign_values Assign nvs line1)"

lemma assign_fields_values:
  assumes "\<forall>(n, i) \<in> set flds. 0 \<le> i \<and> i < int (length record)"
  shows "assign_fields Assign record flds line = Some (assign_values Assign (map (\<lambda>(n, i). (n, record ! nat i)) flds) line)"
  using assms by (induction flds arbitrary: line) (auto split: prod.split option.split)

lemma sorted_last_max:
  fixes xs :: "('a :: linorder) list"
  assumes "sorted_wrt (<) xs" and "x \<in> set xs"
  shows "x \<le> last xs"
proof -
  have "xs = butlast xs @ [last xs]" using assms(2) by (cases xs rule: rev_cases) auto
  then show ?thesis
    using assms by (metis append_Cons append_Nil butlast_snoc in_set_conv_decomp last_snoc order.strict_implies_order
        order_refl rotate1.simps(2) set_rotate1 set_ConsD sorted_wrt_append)
qed

lemma csvFormat_parse_values:
  assumes "newCSVFormat config = Inr f" and "nonneg_check (cc_CheckField config)"
  shows "csvFormat_parse Assign f record line = Some
    (if int (length record) \<le> cf_maxIndex f then (Some (ParseError Unmatched), line)
     else assign_values Assign (map (\<lambda>(n, i). (n, record ! nat i)) (cf_fields f)) line)"
proof -
  note F = newCSVFormat_columns [OF assms]
  have "i \<le> cf_maxIndex f" if "(n, i) \<in> set (cf_fields f)" for n i
  proof -
    have "i \<in> set (map snd (cf_fields f))" using that by force
    then show ?thesis using F sorted_last_max [of "map snd (cf_fields f)" i] by (simp add: columns_ok_def last_map)
  qed
  then show ?thesis using F by (force simp: csvFormat_parse_def columns_ok_def intro!: assign_fields_values)
qed

section \<open>Plain rows\<close>

text \<open>A value that needs no quotes.\<close>

definition plain_value :: "char \<Rightarrow> bool \<Rightarrow> string \<Rightarrow> bool" where
  "plain_value d trim w \<longleftrightarrow> d \<notin> set w \<and> dquote_byte \<notin> set w \<and> nl_byte \<notin> set w \<and> cr_byte \<notin> set w
     \<and> (trim \<longrightarrow> w \<noteq> [] \<and> byte (hd w) < 128 \<and> \<not> IsSpace (byte (hd w)))"

lemma trim_left_plain: "plain_value d trim w \<Longrightarrow> trim_left trim (w @ x) = w @ x"
proof (cases trim)
  case True
  moreover assume "plain_value d trim w"
  ultimately obtain c w' where w: "w = c # w'" "byte c < 128" "\<not> IsSpace (byte c)" by (cases w) (auto simp: plain_value_def)
  then have "rune_chunks (w @ x) = (byte c, [c]) # rune_chunks (w' @ x)"
    by (simp add: decode_rune_def)
  then show ?thesis using w rune_chunks_concat [of "w' @ x"] by (simp add: trim_left_def)
qed (simp add: trim_left_def)

lemma cut_at_byte:
  "d \<notin> set w \<Longrightarrow> cut_at [d] (w @ d # x) = Some (w, x)" "d \<notin> set w \<Longrightarrow> cut_at [d] w = None"
  by (induction w) (auto simp: HasPrefix_iff)

lemma parse_fields_plain:
  assumes "ws \<noteq> []" and "\<forall>w \<in> set ws. plain_value d trim w" and "byte d < 128" and "d \<noteq> dquote_byte"
  shows "parse_fields (byte d) trim None (Join ws [d]) rest acc = (acc @ ws, rest, None)"
  using assms(1,2)
proof (induction ws "[d]" arbitrary: acc rule: Join.induct)
  case (2 w)
  then have p: "plain_value d trim w" by simp
  have "w \<noteq> [] \<Longrightarrow> hd w \<noteq> dquote_byte \<and> last w \<noteq> nl_byte" using p by (metis hd_in_set last_in_set plain_value_def)
  then show ?case
    using p trim_left_plain [OF p, of "[]"] cut_at_byte(2) [of d w] assms(3)
    by (subst parse_fields.simps) (auto simp: Let_def plain_value_def lengthNL_def)
next
  case (3 w v ws)
  then have p: "plain_value d trim w" by simp
  have "hd (w @ d # x) \<noteq> dquote_byte" for x using p assms(4) by (cases w) (auto simp: plain_value_def)
  then show ?case
    using p trim_left_plain [OF p, of "d # Join (v # ws) [d]"] cut_at_byte(1) [of d w] assms(3) 3
    by (subst parse_fields.simps) (auto simp: Let_def plain_value_def)
qed simp

lemma Join_chars: "c \<in> set (Join ws sep) \<Longrightarrow> c \<in> set sep \<or> (\<exists>w \<in> set ws. c \<in> set w)"
  by (induction ws sep rule: Join.induct) auto

lemma csvReader_Read_plain:
  assumes "ws \<noteq> []" "\<forall>w \<in> set ws. plain_value d (cr_TrimLeadingSpace r) w" "Join ws [d] \<noteq> []" "byte d < 128"
    and "cr_Comma r = int (byte d)" "validDelim (cr_Comma r)" "cr_rest r = Join ws [d]"
    and "cr_FieldsPerRecord r \<le> 0 \<or> cr_FieldsPerRecord r = int (length ws)"
  shows "\<exists>r'. csvReader_Read r = ((ws, None), r')"
proof -
  have d: "d \<noteq> dquote_byte" "d \<noteq> nl_byte" "d \<noteq> cr_byte" using assms(5,6) by (auto simp: validDelim_def)
  then have none: "nl_byte \<notin> set (Join ws [d])" "cr_byte \<notin> set (Join ws [d])"
    using assms(2) by (auto simp: plain_value_def dest!: Join_chars)
  then have "last (Join ws [d]) \<noteq> cr_byte" "last (Join ws [d]) \<noteq> nl_byte" using last_in_set [OF assms(3)] by metis+
  moreover have "IndexByte (Join ws [d]) nl_byte = None" using none(1) by (simp add: IndexByte_None_iff)
  ultimately have "next_line (Join ws [d]) = Some (Join ws [d], [])"
    using assms(3) by (subst next_line.simps) (simp add: csv_readLine_def lengthNL_def)
  then show ?thesis
    using assms(5-8) parse_fields_plain [OF assms(1,2,4) d(1)] by (auto simp: csvReader_Read_def)
qed

text \<open>
  A line of plain values separated by the delimiter is read column by column: each field of the format is assigned the
  value of its column, in the order of the columns and up to the first error of \<open>Assign\<close>; a line with too few
  columns is an unmatched line and leaves the log line as it was.  No index is out of range, provided the check
  of the field names never moves a column to the left.
\<close>

theorem csv_row_assigned:
  assumes "NewCSVParser config inp = Inr p" and "nonneg_check (cc_CheckField config)"
    and "csv_comma config = int (byte d)" "validDelim (csv_comma config)" "byte d < 128"
    and "ws \<noteq> []" "\<forall>w \<in> set ws. plain_value d (cc_TrimLeadingSpace config) w" "Join ws [d] \<noteq> []"
    and "cc_FieldsPerRecord config \<le> 0 \<or> cc_FieldsPerRecord config = int (length ws)"
  shows "CSVParser_Parse Assign p (Join ws [d]) line = Some
    (if int (length ws) \<le> cf_maxIndex (cp_format p) then (Some (ParseError Unmatched), line)
     else assign_values Assign (map (\<lambda>(n, i). (n, ws ! nat i)) (cf_fields (cp_format p))) line)"
proof -
  have p: "cp_Config p = config" "newCSVFormat config = Inr (cp_format p)"
    using assms(1) by (auto simp: NewCSVParser_def split: if_splits sum.splits)
  obtain r' where "csvReader_Read (newCSVReader (Join ws [d]) config) = ((ws, None), r')"
    using csvReader_Read_plain [of ws d "newCSVReader (Join ws [d]) config"] assms by (auto simp: newCSVReader_def)
  then show ?thesis using p(1) by (simp add: CSVParser_Parse_def csvFormat_parse_values [OF p(2) assms(2)])
qed

text \<open>\<^bold>\<open>The default check.\<close>  The fields are the words of the format that start with a dollar sign, with their positions.\<close>

lemma create_fields_default:
  assumes "\<forall>n \<in> set names. TrimBytes n {dquote_byte} = n" and "distinct (filter (\<lambda>n. snd (snd (checkCSVFormatField n))) names)"
    and "set names \<inter> seen = {}"
  shows "create_fields checkCSVFormatField names (int k) 0 seen flds
    = Inr (flds @ filter (\<lambda>(n, i). snd (snd (checkCSVFormatField n))) (zip names (map int [k..<k + length names])))"
  using assms
proof (induction names arbitrary: k seen flds)
  case (Cons n names)
  have upt: "map int [k..<k + length (n # names)] = int k # map int [Suc k..<Suc k + length names]"
    by (simp add: upt_conv_Cons del: upt_Suc)
  have k: "int k + 1 = int (Suc k)" by simp
  show ?case
  proof (cases "snd (snd (checkCSVFormatField n))")
    case False
    then show ?thesis
      using Cons.prems Cons.IH [where k = "Suc k" and seen = seen and flds = flds] unfolding upt by (auto simp: checkCSVFormatField_def Let_def k split: if_splits)
  next
    case True
    then have "n \<notin> set names \<or> \<not> snd (snd (checkCSVFormatField n))" "n \<notin> seen" using Cons.prems by auto
    then have "set names \<inter> insert n seen = {}" using True Cons.prems(3) by auto
    then show ?thesis
      using True Cons.prems Cons.IH [where k = "Suc k" and seen = "insert n seen" and flds = "flds @ [(n, int k)]"] unfolding upt
      by (auto simp: checkCSVFormatField_def Let_def k split: if_splits)
  qed
qed simp

definition demo_csv :: CSVConfig where
  "demo_csv = \<lparr>cc_FieldsPerRecord = -1, cc_Delimiter = '' '', cc_TrimLeadingSpace = False, cc_Format = ''$a - $b'', cc_CheckField = None\<rparr>"

definition demo_assign :: "(string \<times> string) list \<Rightarrow> string \<Rightarrow> string \<Rightarrow> go_error option \<times> (string \<times> string) list" where
  "demo_assign l n v = (None, l @ [(n, v)])"

lemma demo_csv_format: "NewCSVParser demo_csv inp = Inr \<lparr>cp_Config = demo_csv,
    cp_reader = \<lparr>cr_Comma = 32, cr_TrimLeadingSpace = False, cr_FieldsPerRecord = -1, cr_rest = inp\<rparr>,
    cp_format = \<lparr>cf_raw = ''$a - $b'', cf_maxIndex = 2, cf_fields = [(''$a'', 0), (''$b'', 2)]\<rparr>\<rparr>"
proof -
  let ?r = "\<lparr>cr_Comma = 32, cr_TrimLeadingSpace = False, cr_FieldsPerRecord = 0, cr_rest = ''$a - $b''\<rparr>"
  have comma: "csv_comma demo_csv = 32"
    by (simp add: csv_comma_def demo_csv_def parseCSVDelimiter_def isNumber_def ParseInt64_def unsigned_digits_def is_digit_def)
  have "\<exists>r'. csvReader_Read ?r = (([''$a'', ''-'', ''$b''], None), r')"
    by (rule csvReader_Read_plain [where d = "CHR '' ''"]) (simp_all add: plain_value_def validDelim_def)
  then show ?thesis
    by (auto simp: NewCSVParser_def newCSVFormat_def newCSVReader_def comma [unfolded demo_csv_def] demo_csv_def createCSVFields_def TrimBytes_def
        checkCSVFormatField_def HasPrefix_def Let_def)
qed

theorem csv_row_assigned_witness:
  "\<exists>p. NewCSVParser demo_csv [] = Inr p
     \<and> CSVParser_Parse demo_assign p ''10 x 30'' [] = Some (None, [(''$a'', ''10''), (''$b'', ''30'')])
     \<and> CSVParser_Parse demo_assign p ''10 x'' [] = Some (Some (ParseError Unmatched), [])"
proof -
  note p = demo_csv_format [of "[]"]
  have c: "nonneg_check (cc_CheckField demo_csv)" "csv_comma demo_csv = int (byte CHR '' '')" "validDelim (csv_comma demo_csv)"
    "byte CHR '' '' < 128" "cc_TrimLeadingSpace demo_csv = False" "cc_FieldsPerRecord demo_csv = -1"
    by (simp_all add: nonneg_check_def csv_comma_def demo_csv_def parseCSVDelimiter_def isNumber_def ParseInt64_def
        unsigned_digits_def is_digit_def validDelim_def)
  show ?thesis
    using csv_row_assigned [OF p c(1-4), of "[''10'', ''x'', ''30'']" demo_assign "[]"]
      csv_row_assigned [OF p c(1-4), of "[''10'', ''x'']" demo_assign "[]"] p
    by (simp add: plain_value_def c(5,6) demo_assign_def)
qed

end
