(* ===== verification/Logs_Lines.thy ===== *)
theory Logs_Lines
  imports Logs_Csv Logs_Reader
begin

text \<open>
  \<open>pkg/logs/ltsv.go\<close>, \<open>regexp.go\<close>, \<open>json.go\<close> and \<open>parser.go\<close>: the parsers that read a log line by line through a
  buffered reader.  The packages \<open>ltsv\<close>, \<open>fastjson\<close> and \<open>regexp\<close> are parameters: what they find in a row.
\<close>

section \<open>bufio.Reader\<close>

text \<open>What is buffered, the error that waits to be reported, and what the reads of the source will return: an error, or
  bytes, of which a read takes what fits into the buffer.  A source with nothing left is at its end.\<close>

record line_reader =
  lr_buf :: string
  lr_err :: "go_error option"
  lr_src :: "(go_error + string) list"

definition defaultBufSize :: nat where
  "defaultBufSize = 4096"

definition ErrBufferFull :: go_error where
  "ErrBufferFull = ''bufio: buffer full''"

definition bufio_fill :: "line_reader \<Rightarrow> line_reader" where
  "bufio_fill r =
     (case lr_src r of
        [] \<Rightarrow> r\<lparr>lr_err := Some io_EOF\<rparr>
      | Inl err # src \<Rightarrow> r\<lparr>lr_err := Some err, lr_src := src\<rparr>
      | Inr d # src \<Rightarrow>
          let k = defaultBufSize - length (lr_buf r) in
          r\<lparr>lr_buf := lr_buf r @ take k d, lr_src := (if length d \<le> k then src else Inr (drop k d) # src)\<rparr>)"

definition src_size :: "line_reader \<Rightarrow> nat" where
  "src_size r = (if lr_err r = None then 1 else 0) + sum_list (map (\<lambda>e. case e of Inl _ \<Rightarrow> 1 | Inr d \<Rightarrow> Suc (length d)) (lr_src r))"

lemma bufio_fill_size: "lr_err r = None \<Longrightarrow> length (lr_buf r) < defaultBufSize \<Longrightarrow> src_size (bufio_fill r) < src_size r"
  by (auto simp: bufio_fill_def src_size_def Let_def split: list.split sum.split)

text \<open>\<open>ReadSlice('\n')\<close>.\<close>

function ReadSlice :: "line_reader \<Rightarrow> (string \<times> go_error option) \<times> line_reader" where
  "ReadSlice r =
     (case IndexByte (lr_buf r) nl_byte of
        Some i \<Rightarrow> ((take (Suc i) (lr_buf r), None), r\<lparr>lr_buf := drop (Suc i) (lr_buf r)\<rparr>)
      | None \<Rightarrow>
          if lr_err r \<noteq> None then ((lr_buf r, lr_err r), r\<lparr>lr_buf := [], lr_err := None\<rparr>)
          else if length (lr_buf r) \<ge> defaultBufSize then ((lr_buf r, Some ErrBufferFull), r\<lparr>lr_buf := []\<rparr>)
          else ReadSlice (bufio_fill r))"
  by pat_completeness auto
termination
  by (relation "measure src_size") (auto simp: bufio_fill_size)

declare ReadSlice.simps [simp del]

text \<open>The start of the three methods \<open>ReadLine\<close>: a row without its line feed, or the error when there is no row.\<close>

definition next_row :: "line_reader \<Rightarrow> (go_error + string) \<times> line_reader" where
  "next_row r =
     (case ReadSlice r of
        ((row, err), r1) \<Rightarrow>
          if err \<noteq> None \<and> length row = 0 then (Inl (the err), r1)
          else if length row > 0 \<and> last row = nl_byte then (Inr (butlast row), r1)
          else (Inr row, r1))"

section \<open>The parsers\<close>

type_synonym 'l assign = "'l \<Rightarrow> string \<Rightarrow> string \<Rightarrow> go_error option \<times> 'l"

fun assign_pairs :: "'l assign \<Rightarrow> (string \<times> string) list \<Rightarrow> 'l \<Rightarrow> go_error option \<times> 'l" where
  "assign_pairs Assign [] line = (None, line)"
| "assign_pairs Assign ((k, v) # kvs) line =
     (case Assign line k v of (Some err, line1) \<Rightarrow> (Some err, line1) | (None, line1) \<Rightarrow> assign_pairs Assign kvs line1)"

text \<open>\<^bold>\<open>LTSV.\<close>  \<open>ParseLine\<close> calls back with the labels and values of a row in order, stops at an error of the callback, and
  else ends with its own.\<close>

record LTSVConfig =
  lt_FieldDelimiter :: string
  lt_ValueDelimiter :: string
  lt_Mapping :: "string \<rightharpoonup> string"

record LTSVParser =
  ltp_field :: char
  ltp_value :: char
  ltp_mapping :: "string \<rightharpoonup> string"

definition parseLTSVDelimiter :: "string \<Rightarrow> char option" where
  "parseLTSVDelimiter s =
     (if isNumber s then
        (case unsigned_digits s of Some d \<Rightarrow> if d < 256 then Some (char_of d) else None | None \<Rightarrow> None)
      else if length s \<noteq> 1 then None
      else Some (hd s))"

definition NewLTSVParser :: "char \<times> char \<Rightarrow> LTSVConfig \<Rightarrow> LTSVParser" where
  "NewLTSVParser defaults config =
     \<lparr>ltp_field = (if lt_FieldDelimiter config \<noteq> [] then
          (case parseLTSVDelimiter (lt_FieldDelimiter config) of Some d \<Rightarrow> d | None \<Rightarrow> fst defaults) else fst defaults),
      ltp_value = (if lt_ValueDelimiter config \<noteq> [] then
          (case parseLTSVDelimiter (lt_ValueDelimiter config) of Some d \<Rightarrow> d | None \<Rightarrow> snd defaults) else snd defaults),
      ltp_mapping = lt_Mapping config\<rparr>"

definition mapped :: "(string \<rightharpoonup> string) \<Rightarrow> string \<Rightarrow> string" where
  "mapped m s = (case m s of Some v \<Rightarrow> v | None \<Rightarrow> s)"

definition LTSVParser_Parse :: "(char \<Rightarrow> char \<Rightarrow> string \<Rightarrow> (string \<times> string) list \<times> go_error option) \<Rightarrow> 'l assign \<Rightarrow> LTSVParser
    \<Rightarrow> string \<Rightarrow> 'l \<Rightarrow> log_err option \<times> 'l" where
  "LTSVParser_Parse ParseLine Assign p row line =
     (case ParseLine (ltp_field p) (ltp_value p) row of
        (kvs, perr) \<Rightarrow>
          (case assign_pairs Assign (map (\<lambda>(k, v). (mapped (ltp_mapping p) k, v)) kvs) line of
             (Some err, line1) \<Rightarrow> (Some (ParseError (AssignErr err)), line1)
           | (None, line1) \<Rightarrow> (map_option (\<lambda>err. ParseError (LibErr err)) perr, line1)))"

definition LTSVParser_ReadLine :: "(char \<Rightarrow> char \<Rightarrow> string \<Rightarrow> (string \<times> string) list \<times> go_error option) \<Rightarrow> 'l assign \<Rightarrow> LTSVParser
    \<Rightarrow> line_reader \<Rightarrow> 'l \<Rightarrow> (log_err option \<times> 'l) \<times> line_reader" where
  "LTSVParser_ReadLine ParseLine Assign p r line =
     (case next_row r of
        (Inl err, r1) \<Rightarrow> ((Some (RawError (LibErr err)), line), r1)
      | (Inr row, r1) \<Rightarrow> (LTSVParser_Parse ParseLine Assign p row line, r1))"

text \<open>\<^bold>\<open>Regular expressions.\<close>  A compiled pattern, by its methods; a group that took no part in the match is nil.\<close>

record pattern =
  re_SubexpNames :: "string list"
  re_FindSubmatch :: "string \<Rightarrow> string option list option"

text \<open>\<open>NumSubexp\<close> does not count the whole match, which \<open>SubexpNames\<close> lists first.\<close>

definition NewRegExpParser :: "(string \<Rightarrow> go_error + pattern) \<Rightarrow> string \<Rightarrow> go_error + pattern" where
  "NewRegExpParser Compile pat =
     (if pat = [] then Inl ''empty pattern''
      else (case Compile pat of
              Inl err \<Rightarrow> Inl (''compile: '' @ err)
            | Inr p \<Rightarrow> if length (re_SubexpNames p) - 1 = 0 then Inl ''pattern has no named subgroups'' else Inr p))"

fun assign_groups :: "'l assign \<Rightarrow> (string \<times> string option) list \<Rightarrow> 'l \<Rightarrow> log_err option \<times> 'l" where
  "assign_groups Assign [] line = (None, line)"
| "assign_groups Assign ((name, m) # gs) line =
     (case m of
        Some v \<Rightarrow>
          if name = [] then assign_groups Assign gs line
          else (case Assign line name v of
                  (Some err, line1) \<Rightarrow> (Some (ParseError (AssignErr err)), line1)
                | (None, line1) \<Rightarrow> assign_groups Assign gs line1)
      | None \<Rightarrow> assign_groups Assign gs line)"

definition RegExpParser_Parse :: "'l assign \<Rightarrow> pattern \<Rightarrow> string \<Rightarrow> 'l \<Rightarrow> log_err option \<times> 'l" where
  "RegExpParser_Parse Assign p row line =
     (case re_FindSubmatch p row of
        None \<Rightarrow> (Some (ParseError Unmatched), line)
      | Some ms \<Rightarrow> assign_groups Assign (zip (re_SubexpNames p) ms) line)"

definition RegExpParser_ReadLine :: "'l assign \<Rightarrow> pattern \<Rightarrow> line_reader \<Rightarrow> 'l \<Rightarrow> (log_err option \<times> 'l) \<times> line_reader" where
  "RegExpParser_ReadLine Assign p r line =
     (case next_row r of
        (Inl err, r1) \<Rightarrow> ((Some (RawError (LibErr err)), line), r1)
      | (Inr row, r1) \<Rightarrow> (RegExpParser_Parse Assign p row line, r1))"

text \<open>\<^bold>\<open>JSON.\<close>  A value of \<open>fastjson\<close>; a string and a number by the text \<open>MarshalTo\<close> writes, for a string with its quotes.\<close>

datatype jval = JString string | JNumber string | JArray "jval list" | JObject "(string \<times> jval) list" | JOther

definition jsonObjKey :: "string \<Rightarrow> string \<Rightarrow> string" where
  "jsonObjKey pre key = (if pre = [] then key else pre @ ''.'' @ key)"

definition parseStringNumber :: "(string \<rightharpoonup> string) \<Rightarrow> 'l assign \<Rightarrow> string \<Rightarrow> bool \<Rightarrow> string \<Rightarrow> 'l \<Rightarrow> go_error option \<times> 'l" where
  "parseStringNumber mapping Assign key0 is_string buf line =
     (let key = mapped mapping key0 in
      if length buf = 0 then (None, line)
      else if is_string then Assign line key (butlast (tl buf))
      else Assign line key buf)"

fun parseValue :: "(string \<rightharpoonup> string) \<Rightarrow> 'l assign \<Rightarrow> string \<Rightarrow> jval \<Rightarrow> 'l \<Rightarrow> go_error option \<times> 'l"
and parseMembers :: "(string \<rightharpoonup> string) \<Rightarrow> 'l assign \<Rightarrow> string \<Rightarrow> (string \<times> jval) list \<Rightarrow> 'l \<Rightarrow> go_error option \<times> 'l"
and parseItems :: "(string \<rightharpoonup> string) \<Rightarrow> 'l assign \<Rightarrow> string \<Rightarrow> nat \<Rightarrow> jval list \<Rightarrow> 'l \<Rightarrow> go_error option \<times> 'l" where
  "parseValue m Assign k (JString buf) line = parseStringNumber m Assign k True buf line"
| "parseValue m Assign k (JNumber buf) line = parseStringNumber m Assign k False buf line"
| "parseValue m Assign k (JArray vs) line = parseItems m Assign k 0 vs line"
| "parseValue m Assign k (JObject kvs) line = parseMembers m Assign k kvs line"
| "parseValue m Assign k JOther line = (None, line)"
| "parseMembers m Assign pre [] line = (None, line)"
| "parseMembers m Assign pre ((key, v) # kvs) line =
     (case parseValue m Assign (jsonObjKey pre key) v line of
        (Some err, line1) \<Rightarrow> (Some err, line1)
      | (None, line1) \<Rightarrow> parseMembers m Assign pre kvs line1)"
| "parseItems m Assign key i [] line = (None, line)"
| "parseItems m Assign key i (v # vs) line =
     (case parseValue m Assign (jsonObjKey key (Itoa (int i))) v line of
        (Some err, line1) \<Rightarrow> (Some err, line1)
      | (None, line1) \<Rightarrow> parseItems m Assign key (Suc i) vs line1)"

definition ErrNotObject :: go_error where
  "ErrNotObject = ''value doesn't contain object''"

definition parseObject :: "(string \<rightharpoonup> string) \<Rightarrow> 'l assign \<Rightarrow> string \<Rightarrow> jval \<Rightarrow> 'l \<Rightarrow> go_error option \<times> 'l" where
  "parseObject m Assign pre val line =
     (case val of JObject kvs \<Rightarrow> parseMembers m Assign pre kvs line | _ \<Rightarrow> (Some ErrNotObject, line))"

definition JSONParser_Parse :: "(string \<Rightarrow> go_error + jval) \<Rightarrow> (string \<rightharpoonup> string) \<Rightarrow> 'l assign \<Rightarrow> string \<Rightarrow> 'l \<Rightarrow> log_err option \<times> 'l" where
  "JSONParser_Parse ParseBytes mapping Assign row line =
     (case ParseBytes row of
        Inl err \<Rightarrow> (Some (RawError (LibErr err)), line)
      | Inr val \<Rightarrow>
          (case parseObject mapping Assign [] val line of
             (Some err, line1) \<Rightarrow> (Some (ParseError (AssignErr err)), line1)
           | (None, line1) \<Rightarrow> (None, line1)))"

definition JSONParser_ReadLine :: "(string \<Rightarrow> go_error + jval) \<Rightarrow> (string \<rightharpoonup> string) \<Rightarrow> 'l assign \<Rightarrow> line_reader \<Rightarrow> 'l
    \<Rightarrow> (log_err option \<times> 'l) \<times> line_reader" where
  "JSONParser_ReadLine ParseBytes mapping Assign r line =
     (case next_row r of
        (Inl err, r1) \<Rightarrow> ((Some (RawError (LibErr err)), line), r1)
      | (Inr row, r1) \<Rightarrow> (JSONParser_Parse ParseBytes mapping Assign row line, r1))"

text \<open>\<^bold>\<open>Any of them.\<close>\<close>

record ParserConfig =
  pc_LogType :: string
  pc_CSV :: CSVConfig
  pc_LTSV :: LTSVConfig
  pc_RegExp :: string
  pc_JSON :: "string \<rightharpoonup> string"

datatype log_parser = PCsv CSVParser | PLtsv LTSVParser | PRegExp pattern | PJson "string \<rightharpoonup> string"

definition NewParser :: "(string \<Rightarrow> go_error + pattern) \<Rightarrow> char \<times> char \<Rightarrow> ParserConfig \<Rightarrow> string \<Rightarrow> log_cause + log_parser" where
  "NewParser Compile defaults config inp =
     (if pc_LogType config = ''csv'' then map_sum id PCsv (NewCSVParser (pc_CSV config) inp)
      else if pc_LogType config = ''ltsv'' then Inr (PLtsv (NewLTSVParser defaults (pc_LTSV config)))
      else if pc_LogType config = ''regexp'' then map_sum LibErr PRegExp (NewRegExpParser Compile (pc_RegExp config))
      else if pc_LogType config = ''json'' then Inr (PJson (pc_JSON config))
      else Inl (LibErr (''invalid type: '' @ pc_LogType config)))"

section \<open>Rows\<close>

text \<open>What is still to come, and a source without errors.\<close>

definition pending :: "line_reader \<Rightarrow> string" where
  "pending r = lr_buf r @ concat (map (\<lambda>e. case e of Inl _ \<Rightarrow> [] | Inr d \<Rightarrow> d) (lr_src r))"

definition calm :: "line_reader \<Rightarrow> bool" where
  "calm r \<longleftrightarrow> lr_err r = None \<and> (\<forall>e \<in> set (lr_src r). \<exists>d. e = Inr d)"

lemma bufio_fill_calm:
  assumes "calm r" and "lr_src r \<noteq> []"
  shows "calm (bufio_fill r)" "pending (bufio_fill r) = pending r"
  using assms by (auto simp: calm_def pending_def bufio_fill_def Let_def neq_Nil_conv split: if_splits)

lemma ReadSlice_line:
  assumes "calm r" and "pending r = line @ nl_byte # rest" and "nl_byte \<notin> set line" and "length line < defaultBufSize"
  shows "\<exists>r1. ReadSlice r = ((line @ [nl_byte], None), r1) \<and> calm r1 \<and> pending r1 = rest"
  using assms
proof (induction r rule: ReadSlice.induct)
  case (1 r)
  show ?case
  proof (cases "nl_byte \<in> set (lr_buf r)")
    case True
    then obtain a b where ab: "lr_buf r = a @ nl_byte # b" "nl_byte \<notin> set a" by (metis split_list_first)
    have tw: "takeWhile (\<lambda>c. c \<noteq> nl_byte) (x @ nl_byte # y) = x" if "nl_byte \<notin> set x" for x y
      using that by (induction x) auto
    have "a = line"
      using arg_cong [OF "1.prems"(2), of "takeWhile (\<lambda>c. c \<noteq> nl_byte)"] tw [OF "1.prems"(3)] tw [OF ab(2)] ab(1)
      by (simp add: pending_def)
    then show ?thesis
      using "1.prems" ab by (subst ReadSlice.simps) (auto simp: IndexByte_append pending_def calm_def)
  next
    case False
    then have none: "IndexByte (lr_buf r) nl_byte = None" by (simp add: IndexByte_None_iff)
    have short: "length (lr_buf r) < defaultBufSize"
      using False "1.prems"(2-4) by (auto simp: pending_def append_eq_append_conv2 append_eq_Cons_conv)
    have "lr_src r \<noteq> []" using False "1.prems"(2) by (auto simp: pending_def)
    moreover have "lr_err r = None" using "1.prems"(1) by (simp add: calm_def)
    ultimately show ?thesis
      using "1.IH" [OF none] bufio_fill_calm [OF "1.prems"(1)] "1.prems" none short by (subst ReadSlice.simps) simp
  qed
qed

text \<open>The rows of a reader, up to the first error.\<close>

primrec rows :: "nat \<Rightarrow> line_reader \<Rightarrow> (go_error + string) list" where
  "rows 0 r = []"
| "rows (Suc n) r = (case next_row r of (Inl err, r1) \<Rightarrow> [Inl err] | (Inr row, r1) \<Rightarrow> Inr row # rows n r1)"

lemma next_row_line:
  assumes "calm r" and "pending r = line @ nl_byte # rest" and "nl_byte \<notin> set line" and "length line < defaultBufSize"
  shows "\<exists>r1. next_row r = (Inr line, r1) \<and> calm r1 \<and> pending r1 = rest"
  using ReadSlice_line [OF assms] by (auto simp: next_row_def)

lemma ReadSlice_end:
  assumes "calm r" and "pending r = []"
  shows "\<exists>r1. ReadSlice r = (([], Some io_EOF), r1)"
  using assms
proof (induction r rule: ReadSlice.induct)
  case (1 r)
  have e: "lr_buf r = []" "lr_err r = None" using "1.prems" by (auto simp: calm_def pending_def)
  show ?case
  proof (cases "lr_src r = []")
    case True
    then show ?thesis using e
      by (subst ReadSlice.simps, subst ReadSlice.simps) (auto simp: bufio_fill_def defaultBufSize_def)
  next
    case False
    then show ?thesis
      using e "1.IH" bufio_fill_calm [OF "1.prems"(1) False] "1.prems" by (subst ReadSlice.simps) (simp add: defaultBufSize_def)
  qed
qed



text \<open>
  A line that is only partly written when the end of the file is reached becomes two rows: what is there is returned as
  a row, and the rest is the next row when it has been written.
\<close>

theorem partial_line_split:
  assumes "a \<noteq> []" "nl_byte \<notin> set (a @ b)" "length (a @ b) < defaultBufSize"
  shows "rows 2 \<lparr>lr_buf = [], lr_err = None, lr_src = [Inr a, Inl io_EOF, Inr (b @ [nl_byte])]\<rparr> = [Inr a, Inr b]"
proof -
  have a: "IndexByte a nl_byte = None" "last a \<noteq> nl_byte" 
    using assms(1,2) by (auto simp: IndexByte_None_iff dest: last_in_set)
  have "ReadSlice \<lparr>lr_buf = [], lr_err = None, lr_src = [Inr a, Inl io_EOF, Inr (b @ [nl_byte])]\<rparr>
      = ((a, Some io_EOF), \<lparr>lr_buf = [], lr_err = None, lr_src = [Inr (b @ [nl_byte])]\<rparr>)"
    using assms a by (subst ReadSlice.simps, subst ReadSlice.simps, subst ReadSlice.simps) (simp add: bufio_fill_def)
  moreover have "\<exists>r1. next_row \<lparr>lr_buf = [], lr_err = None, lr_src = [Inr (b @ [nl_byte])]\<rparr> = (Inr b, r1)"
    using next_row_line [of "\<lparr>lr_buf = [], lr_err = None, lr_src = [Inr (b @ [nl_byte])]\<rparr>" b "[]"] assms
    by (auto simp: calm_def pending_def)
  ultimately show ?thesis using assms(1) a(2) by (auto simp: next_row_def eval_nat_numeral)
qed

theorem partial_line_split_witness:
  "rows 2 \<lparr>lr_buf = [], lr_err = None, lr_src = [Inr ''GET /in'', Inl io_EOF, Inr (''dex 200'' @ [nl_byte])]\<rparr> = [Inr ''GET /in'', Inr ''dex 200'']"
  using partial_line_split [of "''GET /in''" "''dex 200''"] by (simp add: defaultBufSize_def)

section \<open>JSON lines\<close>

text \<open>The leaves of a value with their paths.\<close>

fun json_leaves :: "string \<Rightarrow> jval \<Rightarrow> (string \<times> string) list"
and member_leaves :: "string \<Rightarrow> (string \<times> jval) list \<Rightarrow> (string \<times> string) list"
and item_leaves :: "string \<Rightarrow> nat \<Rightarrow> jval list \<Rightarrow> (string \<times> string) list" where
  "json_leaves k (JString buf) = (if buf = [] then [] else [(k, butlast (tl buf))])"
| "json_leaves k (JNumber buf) = (if buf = [] then [] else [(k, buf)])"
| "json_leaves k (JArray vs) = item_leaves k 0 vs"
| "json_leaves k (JObject kvs) = member_leaves k kvs"
| "json_leaves k JOther = []"
| "member_leaves pre [] = []"
| "member_leaves pre ((key, v) # kvs) = json_leaves (jsonObjKey pre key) v @ member_leaves pre kvs"
| "item_leaves key i [] = []"
| "item_leaves key i (v # vs) = json_leaves (jsonObjKey key (Itoa (int i))) v @ item_leaves key (Suc i) vs"

lemma assign_pairs_append:
  "assign_pairs Assign (xs @ ys) line =
    (case assign_pairs Assign xs line of (Some err, line1) \<Rightarrow> (Some err, line1) | (None, line1) \<Rightarrow> assign_pairs Assign ys line1)"
  by (induction Assign xs line rule: assign_pairs.induct) (auto split: prod.split option.split)

lemma parseValue_leaves:
  "parseValue m Assign k v line = assign_pairs Assign (map (\<lambda>(k, v). (mapped m k, v)) (json_leaves k v)) line"
  "parseMembers m Assign pre kvs line = assign_pairs Assign (map (\<lambda>(k, v). (mapped m k, v)) (member_leaves pre kvs)) line"
  "parseItems m Assign k i vs line = assign_pairs Assign (map (\<lambda>(k, v). (mapped m k, v)) (item_leaves k i vs)) line"
  by (induction m Assign k v line and m Assign pre kvs line and m Assign k i vs line
      rule: parseValue_parseMembers_parseItems.induct)
    (auto simp: parseStringNumber_def assign_pairs_append Let_def split: prod.split option.split)

text \<open>
  A JSON line assigns its strings and numbers, wherever they are nested: each under the path of keys and indices that
  leads to it, joined by dots and then renamed by the mapping, in document order and up to the first error;
  booleans and null are skipped.  Text that is not JSON is no parse error, so it ends the reading of the log.
\<close>

theorem json_line_flattened:
  "JSONParser_Parse ParseBytes mapping Assign row line =
    (case ParseBytes row of
       Inl err \<Rightarrow> (Some (RawError (LibErr err)), line)
     | Inr (JObject kvs) \<Rightarrow>
         apfst (map_option (\<lambda>err. ParseError (AssignErr err)))
           (assign_pairs Assign (map (\<lambda>(k, v). (mapped mapping k, v)) (member_leaves [] kvs)) line)
     | Inr _ \<Rightarrow> (Some (ParseError (AssignErr ErrNotObject)), line))"
  by (auto simp: JSONParser_Parse_def parseObject_def parseValue_leaves split: sum.split jval.split prod.split option.split)

end
