(* ===== verification/Weblog_Collect.thy ===== *)
theory Weblog_Collect
  imports Weblog_Line Logs_Lines Charts "HOL-Library.Monad_Syntax"
begin

text \<open>
  \<open>modules/weblog/collect.go\<close> and \<open>metrics.go\<close>: the lines of a log become counters, and dimensions are added to the charts
  for the names that come up.  \<^const>\<open>None\<close> is the panic of a counter that is given a negative number.
\<close>

section \<open>State\<close>

record 'f patternMetrics =
  pm_RespCode :: "'f CounterVec"
  pm_ReqMethod :: "'f CounterVec"
  pm_BytesSent :: "'f Counter"
  pm_BytesReceived :: "'f Counter"
  pm_ReqProcTime :: "'f summary"

record 'f customTimeFieldMetrics =
  tf_Time :: "'f summary"
  tf_TimeHist :: "'f histogram"

record 'f customNumericFieldMetrics =
  nf_Summary :: "'f summary"
  nf_multiplier :: int
  nf_divisor :: int

record ('f, 's) metricsData =
  mx_Requests :: "'f Counter"
  mx_ReqUnmatched :: "'f Counter"
  mx_RespCode :: "'f CounterVec"
  mx_Resp1xx :: "'f Counter"
  mx_Resp2xx :: "'f Counter"
  mx_Resp3xx :: "'f Counter"
  mx_Resp4xx :: "'f Counter"
  mx_Resp5xx :: "'f Counter"
  mx_ReqSuccess :: "'f Counter"
  mx_ReqRedirect :: "'f Counter"
  mx_ReqBad :: "'f Counter"
  mx_ReqError :: "'f Counter"
  mx_UniqueIPv4 :: "'s UniqueCounter"
  mx_UniqueIPv6 :: "'s UniqueCounter"
  mx_BytesSent :: "'f Counter"
  mx_BytesReceived :: "'f Counter"
  mx_ReqProcTime :: "'f summary"
  mx_ReqProcTimeHist :: "'f histogram option"
  mx_UpsRespTime :: "'f summary"
  mx_UpsRespTimeHist :: "'f histogram option"
  mx_ReqVhost :: "'f CounterVec"
  mx_ReqPort :: "'f CounterVec"
  mx_ReqMethod :: "'f CounterVec"
  mx_ReqURLPattern :: "'f CounterVec"
  mx_ReqVersion :: "'f CounterVec"
  mx_ReqSSLProto :: "'f CounterVec"
  mx_ReqSSLCipherSuite :: "'f CounterVec"
  mx_ReqHTTPScheme :: "'f Counter"
  mx_ReqHTTPSScheme :: "'f Counter"
  mx_ReqIPv4 :: "'f Counter"
  mx_ReqIPv6 :: "'f Counter"
  mx_ReqCustomField :: "string \<rightharpoonup> 'f CounterVec"
  mx_URLPatternStats :: "string \<rightharpoonup> 'f patternMetrics"
  mx_ReqCustomTimeField :: "string \<rightharpoonup> 'f customTimeFieldMetrics"
  mx_ReqCustomNumericField :: "string \<rightharpoonup> 'f customNumericFieldMetrics"

text \<open>A pattern is its name and the matcher.\<close>

record ('f, 's) WebLog =
  wl_line :: "'f logLine"
  wl_mx :: "('f, 's) metricsData"
  wl_charts :: Charts
  wl_urlPatterns :: "(string \<times> (string \<Rightarrow> bool)) list"
  wl_customFields :: "string \<rightharpoonup> (string \<times> (string \<Rightarrow> bool)) list"
  wl_customTimeFields :: "string \<rightharpoonup> 'f list option"
  wl_customNumericFields :: "string set"
  wl_GroupRespCodes :: bool

abbreviation fenv :: "('f, 'a) wl_env_scheme \<Rightarrow> 'f float_env" where "fenv \<equiv> float_env.truncate"

text \<open>The configuration, the parser and the paths left out; \<^const>\<open>None\<close> is a histogram that is not set.\<close>

record userPattern =
  up_Name :: string
  up_Match :: string

record customField =
  cf_Name :: string
  cf_Patterns :: "userPattern list"

record 'f customTimeField =
  ctf_Name :: string
  ctf_Histogram :: "'f list option"

record customNumericField =
  cnf_Name :: string
  cnf_Units :: string
  cnf_Multiplier :: int
  cnf_Divisor :: int

record 'f wl_Config =
  cg_URLPatterns :: "userPattern list"
  cg_CustomFields :: "customField list"
  cg_CustomTimeFields :: "'f customTimeField list"
  cg_CustomNumericFields :: "customNumericField list"
  cg_Histogram :: "'f list"

definition newCounterVecFromPatterns :: "('f, 'a) wl_env_scheme \<Rightarrow> userPattern list \<Rightarrow> 'f CounterVec" where
  "newCounterVecFromPatterns e patterns = fold (\<lambda>p c. snd (CounterVec_GetP (fenv e) c (up_Name p))) patterns Map.empty"

definition newURLPatternStats :: "('f, 'a) wl_env_scheme \<Rightarrow> userPattern list \<Rightarrow> (string \<rightharpoonup> 'f patternMetrics)" where
  "newURLPatternStats e patterns = fold (\<lambda>p stats. stats(up_Name p \<mapsto>
     \<lparr>pm_RespCode = Map.empty, pm_ReqMethod = Map.empty, pm_BytesSent = zero_Counter (fenv e), pm_BytesReceived = zero_Counter (fenv e),
      pm_ReqProcTime = NewSummary (fenv e)\<rparr>)) patterns Map.empty"

definition newReqCustomField :: "('f, 'a) wl_env_scheme \<Rightarrow> customField list \<Rightarrow> (string \<rightharpoonup> 'f CounterVec)" where
  "newReqCustomField e flds = fold (\<lambda>f cf. cf(cf_Name f \<mapsto> newCounterVecFromPatterns e (cf_Patterns f))) flds Map.empty"

definition convHistOptionsToMicroseconds :: "('f, 'a) wl_env_scheme \<Rightarrow> 'f list \<Rightarrow> 'f list" where
  "convHistOptionsToMicroseconds e hist = map (\<lambda>v. fe_mul e v (fe_of_int e 1000000)) hist"

definition newReqCustomTimeField :: "('f, 'a) wl_env_scheme \<Rightarrow> 'f list \<Rightarrow> 'f customTimeField list \<Rightarrow> (string \<rightharpoonup> 'f customTimeFieldMetrics)" where
  "newReqCustomTimeField e DefBuckets flds = fold (\<lambda>f cf. cf(ctf_Name f \<mapsto>
     \<lparr>tf_Time = NewSummary (fenv e),
      tf_TimeHist = NewHistogram (fenv e) DefBuckets (convHistOptionsToMicroseconds e (case ctf_Histogram f of None \<Rightarrow> [] | Some h \<Rightarrow> h))\<rparr>))
     flds Map.empty"

definition newReqCustomNumericField :: "('f, 'a) wl_env_scheme \<Rightarrow> customNumericField list \<Rightarrow> (string \<rightharpoonup> 'f customNumericFieldMetrics)" where
  "newReqCustomNumericField e flds = fold (\<lambda>f rv. rv(cnf_Name f \<mapsto>
     \<lparr>nf_Summary = NewSummary (fenv e), nf_multiplier = cnf_Multiplier f, nf_divisor = cnf_Divisor f\<rparr>)) flds Map.empty"

definition newMetricsData :: "('f, 'a) wl_env_scheme \<Rightarrow> 's sketch_env \<Rightarrow> 'f list \<Rightarrow> 'f wl_Config \<Rightarrow> ('f, 's) metricsData" where
  "newMetricsData e k DefBuckets cfg =
     (let z = zero_Counter (fenv e); hist = NewHistogram (fenv e) DefBuckets (convHistOptionsToMicroseconds e (cg_Histogram cfg)) in
     \<lparr>mx_Requests = z, mx_ReqUnmatched = z, mx_RespCode = Map.empty, mx_Resp1xx = z, mx_Resp2xx = z, mx_Resp3xx = z, mx_Resp4xx = z,
      mx_Resp5xx = z, mx_ReqSuccess = z, mx_ReqRedirect = z, mx_ReqBad = z, mx_ReqError = z,
      mx_UniqueIPv4 = NewUniqueCounter k True, mx_UniqueIPv6 = NewUniqueCounter k True, mx_BytesSent = z, mx_BytesReceived = z,
      mx_ReqProcTime = NewSummary (fenv e), mx_ReqProcTimeHist = Some hist, mx_UpsRespTime = NewSummary (fenv e), mx_UpsRespTimeHist = Some hist,
      mx_ReqVhost = Map.empty, mx_ReqPort = Map.empty, mx_ReqMethod = Map.empty,
      mx_ReqURLPattern = newCounterVecFromPatterns e (cg_URLPatterns cfg), mx_ReqVersion = Map.empty,
      mx_ReqSSLProto = Map.empty, mx_ReqSSLCipherSuite = Map.empty, mx_ReqHTTPScheme = z, mx_ReqHTTPSScheme = z, mx_ReqIPv4 = z, mx_ReqIPv6 = z,
      mx_ReqCustomField = newReqCustomField e (cg_CustomFields cfg), mx_URLPatternStats = newURLPatternStats e (cg_URLPatterns cfg),
      mx_ReqCustomTimeField = newReqCustomTimeField e DefBuckets (cg_CustomTimeFields cfg),
      mx_ReqCustomNumericField = newReqCustomNumericField e (cg_CustomNumericFields cfg)\<rparr>)"

definition metricsData_reset :: "('f, 'a) wl_env_scheme \<Rightarrow> 's sketch_env \<Rightarrow> ('f, 's) metricsData \<Rightarrow> ('f, 's) metricsData" where
  "metricsData_reset e k m = m\<lparr>
     mx_UniqueIPv4 := Unique_Reset k (mx_UniqueIPv4 m), mx_UniqueIPv6 := Unique_Reset k (mx_UniqueIPv6 m),
     mx_ReqProcTime := summary_Reset (fenv e) (mx_ReqProcTime m), mx_UpsRespTime := summary_Reset (fenv e) (mx_UpsRespTime m),
     mx_URLPatternStats := (\<lambda>n. map_option (\<lambda>v. v\<lparr>pm_ReqProcTime := summary_Reset (fenv e) (pm_ReqProcTime v)\<rparr>) (mx_URLPatternStats m n)),
     mx_ReqCustomTimeField := (\<lambda>n. map_option (\<lambda>v. v\<lparr>tf_Time := summary_Reset (fenv e) (tf_Time v)\<rparr>) (mx_ReqCustomTimeField m n)),
     mx_ReqCustomNumericField := (\<lambda>n. map_option (\<lambda>v. v\<lparr>nf_Summary := summary_Reset (fenv e) (nf_Summary v)\<rparr>) (mx_ReqCustomNumericField m n))\<rparr>"

section \<open>Dimensions\<close>

definition inc_dim :: "string \<Rightarrow> string \<Rightarrow> Dim" where
  "inc_dim i n = zero_dim\<lparr>d_ID := i, d_Name := n, d_Algo := Incremental\<rparr>"

text \<open>The end of the methods \<open>addDimTo...\<close>: the chart in the list gets the dimension, a refused one is only logged.\<close>

definition chart_add_dim :: "string \<Rightarrow> Dim \<Rightarrow> Charts \<Rightarrow> Charts" where
  "chart_add_dim cid dim cs =
     (case Charts_index cs cid of
        None \<Rightarrow> cs
      | Some i \<Rightarrow> (case AddDim (cs ! i) dim of (Some err, _) \<Rightarrow> cs | (None, c) \<Rightarrow> cs[i := MarkNotCreated c]))"

definition with_charts :: "(Charts \<Rightarrow> Charts) \<Rightarrow> ('f, 's) WebLog \<Rightarrow> ('f, 's) WebLog" where
  "with_charts f w = w\<lparr>wl_charts := f (wl_charts w)\<rparr>"

definition addDimToVhostChart :: "string \<Rightarrow> ('f, 's) WebLog \<Rightarrow> ('f, 's) WebLog" where
  "addDimToVhostChart vhost = with_charts (chart_add_dim ''requests_by_vhost'' (inc_dim (''req_vhost_'' @ vhost) vhost))"

definition addDimToPortChart :: "string \<Rightarrow> ('f, 's) WebLog \<Rightarrow> ('f, 's) WebLog" where
  "addDimToPortChart port = with_charts (chart_add_dim ''requests_by_port'' (inc_dim (''req_port_'' @ port) port))"

definition addDimToReqMethodChart :: "string \<Rightarrow> ('f, 's) WebLog \<Rightarrow> ('f, 's) WebLog" where
  "addDimToReqMethodChart m = with_charts (chart_add_dim ''requests_by_http_method'' (inc_dim (''req_method_'' @ m) m))"

definition addDimToReqVersionChart :: "string \<Rightarrow> ('f, 's) WebLog \<Rightarrow> ('f, 's) WebLog" where
  "addDimToReqVersionChart v = with_charts (chart_add_dim ''requests_by_http_version'' (inc_dim (''req_version_'' @ v) v))"

definition reqBySSLProto :: Chart where
  "reqBySSLProto = zero_chart\<lparr>c_ID := ''requests_by_ssl_proto'', c_Title := ''Requests By SSL Connection Protocol'', c_Units := ''requests/s'',
     c_Fam := ''ssl conn'', c_Ctx := ''web_log.ssl_proto_requests'', c_Type := Stacked, c_Priority := 70022\<rparr>"

definition reqBySSLCipherSuite :: Chart where
  "reqBySSLCipherSuite = zero_chart\<lparr>c_ID := ''requests_by_ssl_cipher_suite'', c_Title := ''Requests By SSL Connection Cipher Suite'',
     c_Units := ''requests/s'', c_Fam := ''ssl conn'', c_Ctx := ''web_log.ssl_cipher_suite_requests'', c_Type := Stacked, c_Priority := 70023\<rparr>"

text \<open>The charts of TLS are made when they are needed.\<close>

definition chart_made_add_dim :: "Chart \<Rightarrow> Dim \<Rightarrow> Charts \<Rightarrow> Charts" where
  "chart_made_add_dim tmpl dim cs =
     (if Charts_Get cs (c_ID tmpl) \<noteq> None then chart_add_dim (c_ID tmpl) dim cs
      else (case Charts_Add cs [tmpl] of (Some err, cs1) \<Rightarrow> cs1 | (None, cs1) \<Rightarrow> chart_add_dim (c_ID tmpl) dim cs1))"

definition addDimToSSLProtoChart :: "string \<Rightarrow> ('f, 's) WebLog \<Rightarrow> ('f, 's) WebLog" where
  "addDimToSSLProtoChart p = with_charts (chart_made_add_dim reqBySSLProto (inc_dim (''req_ssl_proto_'' @ p) p))"

definition addDimToSSLCipherSuiteChart :: "string \<Rightarrow> ('f, 's) WebLog \<Rightarrow> ('f, 's) WebLog" where
  "addDimToSSLCipherSuiteChart c = with_charts (chart_made_add_dim reqBySSLCipherSuite (inc_dim (''req_ssl_cipher_suite_'' @ c) c))"

definition findRespCodesChart :: "bool \<Rightarrow> string \<Rightarrow> string option" where
  "findRespCodesChart grouped code =
     (if \<not> grouped then Some ''responses_by_status_code''
      else if take 1 code = ''1'' then Some ''status_code_class_1xx_responses''
      else if take 1 code = ''2'' then Some ''status_code_class_2xx_responses''
      else if take 1 code = ''3'' then Some ''status_code_class_3xx_responses''
      else if take 1 code = ''4'' then Some ''status_code_class_4xx_responses''
      else if take 1 code = ''5'' then Some ''status_code_class_5xx_responses''
      else None)"

definition addDimToRespCodesChart :: "string \<Rightarrow> ('f, 's) WebLog \<Rightarrow> ('f, 's) WebLog" where
  "addDimToRespCodesChart code w =
     (case findRespCodesChart (wl_GroupRespCodes w) code of
        None \<Rightarrow> w
      | Some cid \<Rightarrow> with_charts (chart_add_dim cid (inc_dim (''resp_code_'' @ code) code)) w)"

definition addDimToURLPatternRespCodesChart :: "string \<Rightarrow> string \<Rightarrow> ('f, 's) WebLog \<Rightarrow> ('f, 's) WebLog" where
  "addDimToURLPatternRespCodesChart name code =
     with_charts (chart_add_dim (''url_pattern_'' @ name @ ''_responses_by_status_code'') (inc_dim (''url_ptn_'' @ name @ ''_resp_code_'' @ code) code))"

definition addDimToURLPatternReqMethodsChart :: "string \<Rightarrow> string \<Rightarrow> ('f, 's) WebLog \<Rightarrow> ('f, 's) WebLog" where
  "addDimToURLPatternReqMethodsChart name m =
     with_charts (chart_add_dim (''url_pattern_'' @ name @ ''_requests_by_http_method'') (inc_dim (''url_ptn_'' @ name @ ''_req_method_'' @ m) m))"

section \<open>Collecting a line\<close>

definition upd_mx :: "(('f, 's) metricsData \<Rightarrow> ('f, 's) metricsData) \<Rightarrow> ('f, 's) WebLog \<Rightarrow> ('f, 's) WebLog" where
  "upd_mx f w = w\<lparr>wl_mx := f (wl_mx w)\<rparr>"

text \<open>\<open>GetP\<close> and \<open>Inc\<close>: the vector with the counter one higher, and whether the name was there.\<close>

definition vec_inc :: "('f, 'a) wl_env_scheme \<Rightarrow> string \<Rightarrow> 'f CounterVec \<Rightarrow> bool \<times> 'f CounterVec" where
  "vec_inc e name c = (case CounterVec_GetP (fenv e) c name of ((counter, ok), c1) \<Rightarrow> (ok, c1(name \<mapsto> Counter_Inc counter)))"

definition collectVhost :: "('f, 'a) wl_env_scheme \<Rightarrow> ('f, 's) WebLog \<Rightarrow> ('f, 's) WebLog" where
  "collectVhost e w =
     (if \<not> hasVhost (wl_line w) then w
      else (case vec_inc e (wb_vhost (wl_line w)) (mx_ReqVhost (wl_mx w)) of (ok, c) \<Rightarrow>
              upd_mx (\<lambda>m. m\<lparr>mx_ReqVhost := c\<rparr>) (if ok then w else addDimToVhostChart (wb_vhost (wl_line w)) w)))"

definition collectPort :: "('f, 'a) wl_env_scheme \<Rightarrow> ('f, 's) WebLog \<Rightarrow> ('f, 's) WebLog" where
  "collectPort e w =
     (if \<not> hasPort (wl_line w) then w
      else (case vec_inc e (wb_port (wl_line w)) (mx_ReqPort (wl_mx w)) of (ok, c) \<Rightarrow>
              upd_mx (\<lambda>m. m\<lparr>mx_ReqPort := c\<rparr>) (if ok then w else addDimToPortChart (wb_port (wl_line w)) w)))"

text \<open>\<open>strings.ContainsRune(_, ':')\<close>.\<close>

definition collectReqClient :: "'s sketch_env \<Rightarrow> ('f, 's) WebLog \<Rightarrow> ('f, 's) WebLog" where
  "collectReqClient k w =
     (if \<not> hasReqClient (wl_line w) then w
      else if CHR '':'' \<in> set (wb_reqClient (wl_line w)) then
        upd_mx (\<lambda>m. m\<lparr>mx_ReqIPv6 := Counter_Inc (mx_ReqIPv6 m), mx_UniqueIPv6 := Unique_Insert k (mx_UniqueIPv6 m) (wb_reqClient (wl_line w))\<rparr>) w
      else upd_mx (\<lambda>m. m\<lparr>mx_ReqIPv4 := Counter_Inc (mx_ReqIPv4 m), mx_UniqueIPv4 := Unique_Insert k (mx_UniqueIPv4 m) (wb_reqClient (wl_line w))\<rparr>) w)"

definition collectReqScheme :: "('f, 's) WebLog \<Rightarrow> ('f, 's) WebLog" where
  "collectReqScheme w =
     (if \<not> hasReqScheme (wl_line w) then w
      else if wb_reqScheme (wl_line w) = ''https'' then upd_mx (\<lambda>m. m\<lparr>mx_ReqHTTPSScheme := Counter_Inc (mx_ReqHTTPSScheme m)\<rparr>) w
      else upd_mx (\<lambda>m. m\<lparr>mx_ReqHTTPScheme := Counter_Inc (mx_ReqHTTPScheme m)\<rparr>) w)"

definition collectReqMethod :: "('f, 'a) wl_env_scheme \<Rightarrow> ('f, 's) WebLog \<Rightarrow> ('f, 's) WebLog" where
  "collectReqMethod e w =
     (if \<not> hasReqMethod (wl_line w) then w
      else (case vec_inc e (wb_reqMethod (wl_line w)) (mx_ReqMethod (wl_mx w)) of (ok, c) \<Rightarrow>
              upd_mx (\<lambda>m. m\<lparr>mx_ReqMethod := c\<rparr>) (if ok then w else addDimToReqMethodChart (wb_reqMethod (wl_line w)) w)))"

definition upd_stats :: "string \<Rightarrow> ('f patternMetrics \<Rightarrow> 'f patternMetrics) \<Rightarrow> ('f, 's) WebLog \<Rightarrow> ('f, 's) WebLog" where
  "upd_stats name f = upd_mx (\<lambda>m. m\<lparr>mx_URLPatternStats := (mx_URLPatternStats m)(name := map_option f (mx_URLPatternStats m name))\<rparr>)"

definition collectURLPatternStats :: "('f, 'a) wl_env_scheme \<Rightarrow> string \<Rightarrow> ('f, 's) WebLog \<Rightarrow> ('f, 's) WebLog option" where
  "collectURLPatternStats e name w =
     (case mx_URLPatternStats (wl_mx w) name of
        None \<Rightarrow> Some w
      | Some v \<Rightarrow>
          let l = wl_line w;
              w1 = (if hasRespCode l then
                      (case vec_inc e (Itoa (wb_respCode l)) (pm_RespCode v) of (ok, c) \<Rightarrow>
                         upd_stats name (\<lambda>v. v\<lparr>pm_RespCode := c\<rparr>) (if ok then w else addDimToURLPatternRespCodesChart name (Itoa (wb_respCode l)) w))
                    else w);
              w2 = (if hasReqMethod l then
                      (case vec_inc e (wb_reqMethod l) (pm_ReqMethod v) of (ok, c) \<Rightarrow>
                         upd_stats name (\<lambda>v. v\<lparr>pm_ReqMethod := c\<rparr>) (if ok then w1 else addDimToURLPatternReqMethodsChart name (wb_reqMethod l) w1))
                    else w1)
          in do {
               w3 \<leftarrow> (if hasReqSize l then
                        map_option (\<lambda>c. upd_stats name (\<lambda>v. v\<lparr>pm_BytesReceived := c\<rparr>) w2)
                          (Counter_Add (fenv e) (fe_of_int e (wb_reqSize l)) (pm_BytesReceived v))
                      else Some w2);
               w4 \<leftarrow> (if hasRespSize l then
                        map_option (\<lambda>c. upd_stats name (\<lambda>v. v\<lparr>pm_BytesSent := c\<rparr>) w3)
                          (Counter_Add (fenv e) (fe_of_int e (wb_respSize l)) (pm_BytesSent v))
                      else Some w3);
               Some (if hasReqProcTime e l
                     then upd_stats name (\<lambda>v. v\<lparr>pm_ReqProcTime := summary_Observe (fenv e) (wb_reqProcTime l) (pm_ReqProcTime v)\<rparr>) w4 else w4)
             })"

fun first_match :: "(string \<times> (string \<Rightarrow> bool)) list \<Rightarrow> string \<Rightarrow> string option" where
  "first_match [] s = None"
| "first_match ((n, m) # ps) s = (if m s then Some n else first_match ps s)"

definition collectReqURL :: "('f, 'a) wl_env_scheme \<Rightarrow> ('f, 's) WebLog \<Rightarrow> ('f, 's) WebLog option" where
  "collectReqURL e w =
     (if \<not> hasReqURL (wl_line w) then Some w
      else (case first_match (wl_urlPatterns w) (wb_reqURL (wl_line w)) of
              None \<Rightarrow> Some w
            | Some name \<Rightarrow>
                collectURLPatternStats e name
                  (upd_mx (\<lambda>m. m\<lparr>mx_ReqURLPattern := snd (vec_inc e name (mx_ReqURLPattern m))\<rparr>) w)))"

definition collectReqProto :: "('f, 'a) wl_env_scheme \<Rightarrow> ('f, 's) WebLog \<Rightarrow> ('f, 's) WebLog" where
  "collectReqProto e w =
     (if \<not> hasReqProto (wl_line w) then w
      else (case vec_inc e (wb_reqProto (wl_line w)) (mx_ReqVersion (wl_mx w)) of (ok, c) \<Rightarrow>
              upd_mx (\<lambda>m. m\<lparr>mx_ReqVersion := c\<rparr>) (if ok then w else addDimToReqVersionChart (wb_reqProto (wl_line w)) w)))"

text \<open>The two switches over the status code.\<close>

definition count_type :: "int \<Rightarrow> ('f, 's) metricsData \<Rightarrow> ('f, 's) metricsData" where
  "count_type code m =
     (if (100 \<le> code \<and> code < 300) \<or> code = 304 \<or> code = 401 then m\<lparr>mx_ReqSuccess := Counter_Inc (mx_ReqSuccess m)\<rparr>
      else if 300 \<le> code \<and> code < 400 then m\<lparr>mx_ReqRedirect := Counter_Inc (mx_ReqRedirect m)\<rparr>
      else if 400 \<le> code \<and> code < 500 then m\<lparr>mx_ReqBad := Counter_Inc (mx_ReqBad m)\<rparr>
      else if 500 \<le> code \<and> code < 600 then m\<lparr>mx_ReqError := Counter_Inc (mx_ReqError m)\<rparr>
      else m)"

definition count_class :: "int \<Rightarrow> ('f, 's) metricsData \<Rightarrow> ('f, 's) metricsData" where
  "count_class code m =
     (let c = code div 100 in
      if c = 1 then m\<lparr>mx_Resp1xx := Counter_Inc (mx_Resp1xx m)\<rparr>
      else if c = 2 then m\<lparr>mx_Resp2xx := Counter_Inc (mx_Resp2xx m)\<rparr>
      else if c = 3 then m\<lparr>mx_Resp3xx := Counter_Inc (mx_Resp3xx m)\<rparr>
      else if c = 4 then m\<lparr>mx_Resp4xx := Counter_Inc (mx_Resp4xx m)\<rparr>
      else if c = 5 then m\<lparr>mx_Resp5xx := Counter_Inc (mx_Resp5xx m)\<rparr>
      else m)"

definition collectRespCode :: "('f, 'a) wl_env_scheme \<Rightarrow> ('f, 's) WebLog \<Rightarrow> ('f, 's) WebLog" where
  "collectRespCode e w =
     (if \<not> hasRespCode (wl_line w) then w
      else (let code = wb_respCode (wl_line w); w1 = upd_mx (count_class code \<circ> count_type code) w in
            case vec_inc e (Itoa code) (mx_RespCode (wl_mx w1)) of (ok, c) \<Rightarrow>
              upd_mx (\<lambda>m. m\<lparr>mx_RespCode := c\<rparr>) (if ok then w1 else addDimToRespCodesChart (Itoa code) w1)))"

definition collectReqSize :: "('f, 'a) wl_env_scheme \<Rightarrow> ('f, 's) WebLog \<Rightarrow> ('f, 's) WebLog option" where
  "collectReqSize e w =
     (if \<not> hasReqSize (wl_line w) then Some w
      else map_option (\<lambda>c. upd_mx (\<lambda>m. m\<lparr>mx_BytesReceived := c\<rparr>) w)
             (Counter_Add (fenv e) (fe_of_int e (wb_reqSize (wl_line w))) (mx_BytesReceived (wl_mx w))))"

definition collectRespSize :: "('f, 'a) wl_env_scheme \<Rightarrow> ('f, 's) WebLog \<Rightarrow> ('f, 's) WebLog option" where
  "collectRespSize e w =
     (if \<not> hasRespSize (wl_line w) then Some w
      else map_option (\<lambda>c. upd_mx (\<lambda>m. m\<lparr>mx_BytesSent := c\<rparr>) w)
             (Counter_Add (fenv e) (fe_of_int e (wb_respSize (wl_line w))) (mx_BytesSent (wl_mx w))))"

definition collectReqProcTime :: "('f, 'a) wl_env_scheme \<Rightarrow> ('f, 's) WebLog \<Rightarrow> ('f, 's) WebLog" where
  "collectReqProcTime e w =
     (if \<not> hasReqProcTime e (wl_line w) then w
      else upd_mx (\<lambda>m. m\<lparr>mx_ReqProcTime := summary_Observe (fenv e) (wb_reqProcTime (wl_line w)) (mx_ReqProcTime m),
                       mx_ReqProcTimeHist := map_option (histogram_Observe (fenv e) (wb_reqProcTime (wl_line w))) (mx_ReqProcTimeHist m)\<rparr>) w)"

definition collectUpsRespTime :: "('f, 'a) wl_env_scheme \<Rightarrow> ('f, 's) WebLog \<Rightarrow> ('f, 's) WebLog" where
  "collectUpsRespTime e w =
     (if \<not> hasUpsRespTime e (wl_line w) then w
      else upd_mx (\<lambda>m. m\<lparr>mx_UpsRespTime := summary_Observe (fenv e) (wb_upsRespTime (wl_line w)) (mx_UpsRespTime m),
                       mx_UpsRespTimeHist := map_option (histogram_Observe (fenv e) (wb_upsRespTime (wl_line w))) (mx_UpsRespTimeHist m)\<rparr>) w)"

definition collectSSLProto :: "('f, 'a) wl_env_scheme \<Rightarrow> ('f, 's) WebLog \<Rightarrow> ('f, 's) WebLog" where
  "collectSSLProto e w =
     (if \<not> hasSSLProto (wl_line w) then w
      else (case vec_inc e (wb_sslProto (wl_line w)) (mx_ReqSSLProto (wl_mx w)) of (ok, c) \<Rightarrow>
              upd_mx (\<lambda>m. m\<lparr>mx_ReqSSLProto := c\<rparr>) (if ok then w else addDimToSSLProtoChart (wb_sslProto (wl_line w)) w)))"

definition collectSSLCipherSuite :: "('f, 'a) wl_env_scheme \<Rightarrow> ('f, 's) WebLog \<Rightarrow> ('f, 's) WebLog" where
  "collectSSLCipherSuite e w =
     (if \<not> hasSSLCipherSuite (wl_line w) then w
      else (case vec_inc e (wb_sslCipherSuite (wl_line w)) (mx_ReqSSLCipherSuite (wl_mx w)) of (ok, c) \<Rightarrow>
              upd_mx (\<lambda>m. m\<lparr>mx_ReqSSLCipherSuite := c\<rparr>) (if ok then w else addDimToSSLCipherSuiteChart (wb_sslCipherSuite (wl_line w)) w)))"

text \<open>One custom field: by its patterns, as a time, or as a number.\<close>

definition collect_custom :: "('f, 'a) wl_env_scheme \<Rightarrow> string \<times> string \<Rightarrow> ('f, 's) WebLog \<Rightarrow> ('f, 's) WebLog" where
  "collect_custom e cv w =
     (case cv of (name, v) \<Rightarrow>
        case wl_customFields w name of
          Some ps \<Rightarrow>
            (case first_match ps v of
               None \<Rightarrow> w
             | Some pn \<Rightarrow> upd_mx (\<lambda>m. m\<lparr>mx_ReqCustomField := (mx_ReqCustomField m)(name := map_option (\<lambda>c. snd (vec_inc e pn c)) (mx_ReqCustomField m name))\<rparr>) w)
        | None \<Rightarrow>
            (case wl_customTimeFields w name of
               Some hist \<Rightarrow>
                 (case fe_ParseFloat e v of
                    Some ctf \<Rightarrow>
                      if \<not> isTimeValid e ctf then w
                      else upd_mx (\<lambda>m. m\<lparr>mx_ReqCustomTimeField := (mx_ReqCustomTimeField m)(name := map_option (\<lambda>t.
                             t\<lparr>tf_Time := summary_Observe (fenv e) ctf (tf_Time t),
                               tf_TimeHist := (if hist \<noteq> None then histogram_Observe (fenv e) (fe_mul e ctf (timeMultiplier e v)) (tf_TimeHist t) else tf_TimeHist t)\<rparr>)
                             (mx_ReqCustomTimeField m name))\<rparr>) w
                  | None \<Rightarrow> w)
             | None \<Rightarrow>
                 if name \<in> wl_customNumericFields w then
                   (case fe_ParseFloat e v of
                      Some x \<Rightarrow> upd_mx (\<lambda>m. m\<lparr>mx_ReqCustomNumericField := (mx_ReqCustomNumericField m)(name := map_option (\<lambda>n.
                                  n\<lparr>nf_Summary := summary_Observe (fenv e) (fe_mul e x (fe_of_int e (nf_multiplier n))) (nf_Summary n)\<rparr>)
                                  (mx_ReqCustomNumericField m name))\<rparr>) w
                    | None \<Rightarrow> w)
                 else w))"

definition collectCustomFields :: "('f, 'a) wl_env_scheme \<Rightarrow> ('f, 's) WebLog \<Rightarrow> ('f, 's) WebLog" where
  "collectCustomFields e w = fold (collect_custom e) (cu_values (wl_line w)) w"

definition collectLogLine :: "('f, 'a) wl_env_scheme \<Rightarrow> 's sketch_env \<Rightarrow> ('f, 's) WebLog \<Rightarrow> ('f, 's) WebLog option" where
  "collectLogLine e k w0 = do {
     let w1 = upd_mx (\<lambda>m. m\<lparr>mx_Requests := Counter_Inc (mx_Requests m)\<rparr>) w0;
     let w2 = collectReqMethod e (collectReqClient k (collectReqScheme (collectPort e (collectVhost e w1))));
     w3 \<leftarrow> collectReqURL e w2;
     let w4 = collectRespCode e (collectReqProto e w3);
     w5 \<leftarrow> collectReqSize e w4;
     w6 \<leftarrow> collectRespSize e w5;
     Some (collectCustomFields e (collectSSLCipherSuite e (collectSSLProto e (collectUpsRespTime e (collectReqProcTime e w6)))))
   }"

definition collectUnmatched :: "('f, 's) WebLog \<Rightarrow> ('f, 's) WebLog" where
  "collectUnmatched = upd_mx (\<lambda>m. m\<lparr>mx_Requests := Counter_Inc (mx_Requests m), mx_ReqUnmatched := Counter_Inc (mx_ReqUnmatched m)\<rparr>)"

section \<open>Collecting a log\<close>

text \<open>What the successive calls of \<open>ReadLine\<close> do with the line, which is reset before each; after them the log is at its end.
  The result is the number of lines and the error that stopped the loop.\<close>

definition is_EOF :: "log_err \<Rightarrow> bool" where
  "is_EOF err \<longleftrightarrow> err = RawError (LibErr io_EOF) \<or> err = RawError (CsvErr CsvEOF)"

fun collectLogLines :: "('f, 'a) wl_env_scheme \<Rightarrow> 's sketch_env \<Rightarrow> ('f logLine \<Rightarrow> log_err option \<times> 'f logLine) list \<Rightarrow> nat \<Rightarrow> ('f, 's) WebLog
    \<Rightarrow> ((nat \<times> log_err option) \<times> ('f, 's) WebLog) option" where
  "collectLogLines e k [] n w = Some ((n, None), w\<lparr>wl_line := logLine_reset e (wl_line w)\<rparr>)"
| "collectLogLines e k (ReadLine # rest) n w =
     (case ReadLine (logLine_reset e (wl_line w)) of
        (Some err, l) \<Rightarrow>
          if is_EOF err then Some ((n, None), w\<lparr>wl_line := l\<rparr>)
          else if \<not> IsParseError err then Some ((n, Some err), w\<lparr>wl_line := l\<rparr>)
          else collectLogLines e k rest (n + 1) (collectUnmatched (w\<lparr>wl_line := l\<rparr>))
      | (None, l) \<Rightarrow>
          if logLine_empty e l then collectLogLines e k rest (n + 1) (collectUnmatched (w\<lparr>wl_line := l\<rparr>))
          else (case collectLogLine e k (w\<lparr>wl_line := l\<rparr>) of None \<Rightarrow> None | Some w1 \<Rightarrow> collectLogLines e k rest (n + 1) w1))"

section \<open>What the counters count\<close>

text \<open>The counters of requests and responses, by name.\<close>

datatype req_type = Success | Redirect | BadReq | ReqErr

datatype tally_key = KRequests | KUnmatched | KType req_type | KClass int | KCode string

definition vec_val :: "'f CounterVec \<Rightarrow> string \<Rightarrow> int" where
  "vec_val c n = (case c n of None \<Rightarrow> 0 | Some ct \<Rightarrow> ct_valInt ct)"

fun tally :: "('f, 's) metricsData \<Rightarrow> tally_key \<Rightarrow> int" where
  "tally m KRequests = ct_valInt (mx_Requests m)"
| "tally m KUnmatched = ct_valInt (mx_ReqUnmatched m)"
| "tally m (KType Success) = ct_valInt (mx_ReqSuccess m)"
| "tally m (KType Redirect) = ct_valInt (mx_ReqRedirect m)"
| "tally m (KType BadReq) = ct_valInt (mx_ReqBad m)"
| "tally m (KType ReqErr) = ct_valInt (mx_ReqError m)"
| "tally m (KClass c) = (if c = 1 then ct_valInt (mx_Resp1xx m) else if c = 2 then ct_valInt (mx_Resp2xx m)
     else if c = 3 then ct_valInt (mx_Resp3xx m) else if c = 4 then ct_valInt (mx_Resp4xx m)
     else if c = 5 then ct_valInt (mx_Resp5xx m) else 0)"
| "tally m (KCode c) = vec_val (mx_RespCode m) c"

text \<open>A line counts once for each key it belongs to.\<close>

definition type_of_code :: "int \<Rightarrow> req_type option" where
  "type_of_code code =
     (if (100 \<le> code \<and> code < 300) \<or> code = 304 \<or> code = 401 then Some Success
      else if 300 \<le> code \<and> code < 400 then Some Redirect
      else if 400 \<le> code \<and> code < 500 then Some BadReq
      else if 500 \<le> code \<and> code < 600 then Some ReqErr
      else None)"

definition code_in :: "'f logLine \<Rightarrow> (int \<Rightarrow> bool) \<Rightarrow> int" where
  "code_in l P = (if hasRespCode l \<and> P (wb_respCode l) then 1 else 0)"

fun line_hits :: "'f logLine \<Rightarrow> tally_key \<Rightarrow> int" where
  "line_hits l KRequests = 1"
| "line_hits l KUnmatched = 0"
| "line_hits l (KType t) = code_in l (\<lambda>c. type_of_code c = Some t)"
| "line_hits l (KClass k) = code_in l (\<lambda>c. c div 100 = k \<and> 1 \<le> k \<and> k \<le> 5)"
| "line_hits l (KCode s) = code_in l (\<lambda>c. Itoa c = s)"

fun unmatched_hits :: "tally_key \<Rightarrow> int" where
  "unmatched_hits KRequests = 1"
| "unmatched_hits KUnmatched = 1"
| "unmatched_hits _ = 0"

lemmas add_dim_defs = addDimToVhostChart_def addDimToPortChart_def addDimToReqMethodChart_def addDimToReqVersionChart_def
  addDimToSSLProtoChart_def addDimToSSLCipherSuiteChart_def addDimToRespCodesChart_def addDimToURLPatternRespCodesChart_def
  addDimToURLPatternReqMethodsChart_def with_charts_def

definition counts :: "('f, 's) metricsData \<Rightarrow> 'f Counter list \<times> 'f CounterVec" where
  "counts m = ([mx_Requests m, mx_ReqUnmatched m, mx_ReqSuccess m, mx_ReqRedirect m, mx_ReqBad m, mx_ReqError m,
     mx_Resp1xx m, mx_Resp2xx m, mx_Resp3xx m, mx_Resp4xx m, mx_Resp5xx m], mx_RespCode m)"

lemma counts_tally: "counts m = counts m' \<Longrightarrow> tally m = tally m'"
proof
  fix k
  assume "counts m = counts m'"
  then show "tally m k = tally m' k" by (cases "(m, k)" rule: tally.cases) (simp_all add: counts_def)
qed

text \<open>The other parts of a line leave these counters and the line alone.\<close>

definition leaves_counts :: "('f, 's) WebLog \<Rightarrow> ('f, 's) WebLog \<Rightarrow> bool" where
  "leaves_counts w w' \<longleftrightarrow> counts (wl_mx w') = counts (wl_mx w) \<and> wl_line w' = wl_line w"

lemma leaves_counts_trans: "leaves_counts w w1 \<Longrightarrow> leaves_counts w1 w2 \<Longrightarrow> leaves_counts w w2"
  by (simp add: leaves_counts_def)

lemma leaves_counts_refl [simp]: "leaves_counts w w"
  by (simp add: leaves_counts_def)

lemma leaves_upd:
  "(\<And>m. counts (f m) = counts m) \<Longrightarrow> leaves_counts w w1 \<Longrightarrow> leaves_counts w (upd_mx f w1)"
  by (simp add: leaves_counts_def upd_mx_def)

lemma leaves_add_dims [simp]:
  "leaves_counts w (addDimToVhostChart s w)" "leaves_counts w (addDimToPortChart s w)" "leaves_counts w (addDimToReqMethodChart s w)"
  "leaves_counts w (addDimToReqVersionChart s w)" "leaves_counts w (addDimToSSLProtoChart s w)" "leaves_counts w (addDimToSSLCipherSuiteChart s w)"
  "leaves_counts w (addDimToRespCodesChart s w)" "leaves_counts w (addDimToURLPatternRespCodesChart n s w)"
  "leaves_counts w (addDimToURLPatternReqMethodsChart n s w)"
  by (simp_all add: leaves_counts_def add_dim_defs split: option.split)

lemma leaves_simple:
  "leaves_counts w (collectVhost e w)" "leaves_counts w (collectPort e w)" "leaves_counts w (collectReqClient k w)" "leaves_counts w (collectReqScheme w)"
  "leaves_counts w (collectReqMethod e w)" "leaves_counts w (collectReqProto e w)" "leaves_counts w (collectReqProcTime e w)"
  "leaves_counts w (collectUpsRespTime e w)" "leaves_counts w (collectSSLProto e w)" "leaves_counts w (collectSSLCipherSuite e w)"
  by (auto simp: collectVhost_def collectPort_def collectReqClient_def collectReqScheme_def collectReqMethod_def collectReqProto_def
      collectReqProcTime_def collectUpsRespTime_def collectSSLProto_def collectSSLCipherSuite_def counts_def
      intro!: leaves_upd split: prod.split)

lemma leaves_custom:
  fixes e :: "('f, 'a) wl_env_scheme" and w :: "('f, 's) WebLog"
  shows "leaves_counts w (collectCustomFields e w)"
proof -
  have one: "leaves_counts w (collect_custom e cv w)" for cv and w :: "('f, 's) WebLog"
    by (auto simp: collect_custom_def counts_def intro!: leaves_upd split: prod.split option.split)
  have "leaves_counts w (fold (collect_custom e) cvs w1)" if "leaves_counts w w1" for cvs w1
    using that by (induction cvs arbitrary: w1) (simp_all add: leaves_counts_trans [OF _ one])
  then show ?thesis by (simp add: collectCustomFields_def)
qed

text \<open>A size that passed the checks of the line never makes a counter panic: what is read of the floats is that a number which is not
  negative is not below zero.\<close>

definition int_order :: "('f, 'a) wl_env_scheme \<Rightarrow> bool" where
  "int_order e \<longleftrightarrow> (\<forall>n \<ge> 0. \<not> fe_lt e (fe_of_int e n) (fe_of_int e 0))"

lemma Counter_Add_some: "int_order e \<Longrightarrow> 0 \<le> n \<Longrightarrow> \<exists>c'. Counter_Add (fenv e) (fe_of_int e n) c = Some c'"
  by (simp add: int_order_def Counter_Add_def float_env.defs Let_def)

lemma sizes_nonneg:
  "checked_fields_ok e l \<Longrightarrow> hasReqSize l \<Longrightarrow> 0 \<le> wb_reqSize l" "checked_fields_ok e l \<Longrightarrow> hasRespSize l \<Longrightarrow> 0 \<le> wb_respSize l"
  by (simp_all add: checked_fields_ok_def isSizeValid_def)

lemma leaves_sizes:
  assumes "int_order e" and "checked_fields_ok e (wl_line w)"
  shows "\<exists>w'. collectReqSize e w = Some w' \<and> leaves_counts w w'" and "\<exists>w'. collectRespSize e w = Some w' \<and> leaves_counts w w'"
  using Counter_Add_some [OF assms(1) sizes_nonneg(1) [OF assms(2)]] Counter_Add_some [OF assms(1) sizes_nonneg(2) [OF assms(2)]]
  by (fastforce simp: collectReqSize_def collectRespSize_def counts_def intro: leaves_upd)+

lemma leaves_stats: "leaves_counts w w1 \<Longrightarrow> leaves_counts w (upd_stats n f w1)"
  by (simp add: upd_stats_def leaves_upd counts_def)

lemma leaves_URL:
  assumes o: "int_order e" and ok: "checked_fields_ok e (wl_line w)"
  shows "\<exists>w'. collectReqURL e w = Some w' \<and> leaves_counts w w'"
proof -
  have dims: "leaves_counts w (addDimToURLPatternRespCodesChart n s u)" "leaves_counts w (addDimToURLPatternReqMethodsChart n s u)"
    if "leaves_counts w u" for n s u
    using that leaves_counts_trans by (metis leaves_add_dims)+
  have add: "\<exists>u'. (if hasReqSize (wl_line w) then map_option (\<lambda>c. upd_stats n (f c) u) (Counter_Add (fenv e) (fe_of_int e (wb_reqSize (wl_line w))) c)
              else Some u) = Some u' \<and> leaves_counts w u'"
            "\<exists>u'. (if hasRespSize (wl_line w) then map_option (\<lambda>c. upd_stats n (f c) u) (Counter_Add (fenv e) (fe_of_int e (wb_respSize (wl_line w))) c)
              else Some u) = Some u' \<and> leaves_counts w u'"
    if "leaves_counts w u" for n u f c
    using that Counter_Add_some [OF o sizes_nonneg(1) [OF ok], of c] Counter_Add_some [OF o sizes_nonneg(2) [OF ok], of c]
    by (auto intro: leaves_stats)
  have "\<exists>w'. collectURLPatternStats e name u = Some w' \<and> leaves_counts w w'" if u: "leaves_counts w u" for name u
  proof (cases "mx_URLPatternStats (wl_mx u) name")
    case None
    with u show ?thesis by (simp add: collectURLPatternStats_def)
  next
    case (Some v)
    have l: "wl_line u = wl_line w" using u by (simp add: leaves_counts_def)
    define w1 where "w1 = (if hasRespCode (wl_line w) then
        (case vec_inc e (Itoa (wb_respCode (wl_line w))) (pm_RespCode v) of (ok, c) \<Rightarrow>
           upd_stats name (\<lambda>v. v\<lparr>pm_RespCode := c\<rparr>) (if ok then u else addDimToURLPatternRespCodesChart name (Itoa (wb_respCode (wl_line w))) u))
        else u)"
    define w2 where "w2 = (if hasReqMethod (wl_line w) then
        (case vec_inc e (wb_reqMethod (wl_line w)) (pm_ReqMethod v) of (ok, c) \<Rightarrow>
           upd_stats name (\<lambda>v. v\<lparr>pm_ReqMethod := c\<rparr>) (if ok then w1 else addDimToURLPatternReqMethodsChart name (wb_reqMethod (wl_line w)) w1))
        else w1)"
    have "leaves_counts w w1" using u by (auto simp: w1_def intro!: leaves_stats dims split: prod.split)
    then have "leaves_counts w w2" by (auto simp: w2_def intro!: leaves_stats dims split: prod.split)
    from add(1) [OF this, where n = name and f = "\<lambda>c v. v\<lparr>pm_BytesReceived := c\<rparr>" and c = "pm_BytesReceived v"] obtain w3 where w3:
      "(if hasReqSize (wl_line w) then map_option (\<lambda>c. upd_stats name (\<lambda>v. v\<lparr>pm_BytesReceived := c\<rparr>) w2)
          (Counter_Add (fenv e) (fe_of_int e (wb_reqSize (wl_line w))) (pm_BytesReceived v)) else Some w2) = Some w3" "leaves_counts w w3" by blast
    from add(2) [OF this(2), where n = name and f = "\<lambda>c v. v\<lparr>pm_BytesSent := c\<rparr>" and c = "pm_BytesSent v"] obtain w4 where w4:
      "(if hasRespSize (wl_line w) then map_option (\<lambda>c. upd_stats name (\<lambda>v. v\<lparr>pm_BytesSent := c\<rparr>) w3)
          (Counter_Add (fenv e) (fe_of_int e (wb_respSize (wl_line w))) (pm_BytesSent v)) else Some w3) = Some w4" "leaves_counts w w4" by blast
    have "collectURLPatternStats e name u = Some (if hasReqProcTime e (wl_line w)
        then upd_stats name (\<lambda>v. v\<lparr>pm_ReqProcTime := summary_Observe (fenv e) (wb_reqProcTime (wl_line w)) (pm_ReqProcTime v)\<rparr>) w4 else w4)"
      unfolding collectURLPatternStats_def Some Let_def option.case l w1_def [symmetric] w2_def [symmetric] w3(1) Option.bind.simps w4(1) by simp
    then show ?thesis using w4(2) by (auto intro: leaves_stats)
  qed
  moreover have "leaves_counts w (upd_mx (\<lambda>m. m\<lparr>mx_ReqURLPattern := snd (vec_inc e name (mx_ReqURLPattern m))\<rparr>) w)" for name
    by (rule leaves_upd) (simp_all add: counts_def)
  ultimately show ?thesis by (simp add: collectReqURL_def split: option.split)
qed

section \<open>The lines of a round\<close>

lemma vec_inc_val: "vec_inc e n c = (ok, c') \<Longrightarrow> vec_val c' s = (if s = n then int64 (vec_val c n + 1) else vec_val c s)"
  by (auto simp: vec_inc_def CounterVec_GetP_def vec_val_def Counter_Inc_def zero_Counter_def split: option.splits)

definition room :: "('f, 's) metricsData \<Rightarrow> nat \<Rightarrow> bool" where
  "room m n \<longleftrightarrow> (\<forall>k. 0 \<le> tally m k \<and> tally m k + int n < 2 ^ 63)"

lemma roomD: "room m (Suc n) \<Longrightarrow> int64 (tally m k + 1) = tally m k + 1"
  unfolding room_def by (intro int64_id; drule spec [of _ k]) simp_all

lemma collectRespCode_line: "wl_line (collectRespCode e w) = wl_line w"
  by (simp add: collectRespCode_def upd_mx_def add_dim_defs Let_def split: prod.split option.split)

definition inc_type :: "req_type \<Rightarrow> ('f, 's) metricsData \<Rightarrow> ('f, 's) metricsData" where
  "inc_type t m = (case t of Success \<Rightarrow> m\<lparr>mx_ReqSuccess := Counter_Inc (mx_ReqSuccess m)\<rparr>
     | Redirect \<Rightarrow> m\<lparr>mx_ReqRedirect := Counter_Inc (mx_ReqRedirect m)\<rparr> | BadReq \<Rightarrow> m\<lparr>mx_ReqBad := Counter_Inc (mx_ReqBad m)\<rparr>
     | ReqErr \<Rightarrow> m\<lparr>mx_ReqError := Counter_Inc (mx_ReqError m)\<rparr>)"

lemma count_type_by: "count_type code m = (case type_of_code code of None \<Rightarrow> m | Some t \<Rightarrow> inc_type t m)"
  by (simp add: count_type_def type_of_code_def inc_type_def)

lemma tally_inc_type: "tally (inc_type t m) key = (if key = KType t then int64 (tally m key + 1) else tally m key)"
  by (cases "(m, key)" rule: tally.cases; cases t) (simp_all add: inc_type_def Counter_Inc_def)

lemma tally_count_type:
  "tally (count_type code m) key = (if \<exists>t. key = KType t \<and> type_of_code code = Some t then int64 (tally m key + 1) else tally m key)"
  by (cases "type_of_code code") (auto simp: count_type_by tally_inc_type simp del: tally.simps)

lemma tally_count_class:
  "tally (count_class code m) key =
     (if \<exists>c. key = KClass c \<and> code div 100 = c \<and> 1 \<le> c \<and> c \<le> 5 then int64 (tally m key + 1) else tally m key)"
proof (cases "1 \<le> code div 100 \<and> code div 100 \<le> 5")
  case True
  define d where "d = code div 100"
  with True have five: "d = 1 \<or> d = 2 \<or> d = 3 \<or> d = 4 \<or> d = 5" by auto
  then have "tally (count_class code m) (KClass c) = (if c = d then int64 (tally m (KClass c) + 1) else tally m (KClass c))" for c
    unfolding count_class_def d_def [symmetric] Let_def by (cases "c = d") (elim disjE; simp add: Counter_Inc_def)+
  moreover have "tally (count_class code m) KRequests = tally m KRequests" "tally (count_class code m) KUnmatched = tally m KUnmatched"
    "tally (count_class code m) (KType t) = tally m (KType t)" "tally (count_class code m) (KCode s) = tally m (KCode s)" for t s
    unfolding count_class_def d_def [symmetric] Let_def by (insert five, cases t; elim disjE; simp)+
  ultimately show ?thesis using True by (cases key) (simp_all add: d_def del: tally.simps)
next
  case False
  have "d \<noteq> 1 \<and> d \<noteq> 2 \<and> d \<noteq> 3 \<and> d \<noteq> 4 \<and> d \<noteq> 5" if "\<not> (1 \<le> d \<and> d \<le> 5)" for d :: int using that by auto
  from this [OF False] have "code div 100 \<noteq> 1" "code div 100 \<noteq> 2" "code div 100 \<noteq> 3" "code div 100 \<noteq> 4" "code div 100 \<noteq> 5" by blast+
  then have "count_class code m = m" unfolding count_class_def Let_def by (simp only: if_False)
  moreover have "\<not> (\<exists>c. key = KClass c \<and> code div 100 = c \<and> 1 \<le> c \<and> c \<le> 5)" using False by blast
  ultimately show ?thesis by (simp only: if_False)
qed

text \<open>The counters of responses after one response.\<close>

lemma collectRespCode_mx:
  fixes e :: "('f, 'a) wl_env_scheme" and w :: "('f, 's) WebLog"
  assumes "hasRespCode (wl_line w)"
  shows "\<exists>ok c. vec_inc e (Itoa (wb_respCode (wl_line w))) (mx_RespCode (wl_mx w)) = (ok, c)
    \<and> wl_mx (collectRespCode e w) = (count_class (wb_respCode (wl_line w)) (count_type (wb_respCode (wl_line w)) (wl_mx w)))\<lparr>mx_RespCode := c\<rparr>"
proof -
  obtain ok c where v: "vec_inc e (Itoa (wb_respCode (wl_line w))) (mx_RespCode (wl_mx w)) = (ok, c)" by force
  have "mx_RespCode (count_class code (count_type code m)) = mx_RespCode m" for code and m :: "('f, 's) metricsData"
    by (simp add: count_class_def count_type_by inc_type_def Let_def split: option.split req_type.split)
  then show ?thesis using v assms by (simp add: collectRespCode_def upd_mx_def add_dim_defs Let_def split: option.split)
qed

lemma tally_upd_code: "tally (m\<lparr>mx_RespCode := c\<rparr>) key = (case key of KCode s \<Rightarrow> vec_val c s | _ \<Rightarrow> tally m key)"
  by (cases "(m, key)" rule: tally.cases) simp_all

lemma tally_code:
  assumes "\<And>key. key \<noteq> KRequests \<Longrightarrow> int64 (tally (wl_mx w) key + 1) = tally (wl_mx w) key + 1"
  shows "tally (wl_mx (collectRespCode e w)) key = tally (wl_mx w) key + (if key = KRequests then 0 else line_hits (wl_line w) key)"
proof (cases "hasRespCode (wl_line w)")
  case True
  then obtain ok c where c: "vec_inc e (Itoa (wb_respCode (wl_line w))) (mx_RespCode (wl_mx w)) = (ok, c)"
    "wl_mx (collectRespCode e w) = (count_class (wb_respCode (wl_line w)) (count_type (wb_respCode (wl_line w)) (wl_mx w)))\<lparr>mx_RespCode := c\<rparr>"
    using collectRespCode_mx by blast
  note r = assms [of key] assms [of "KCode (Itoa (wb_respCode (wl_line w)))"]
  show ?thesis
    unfolding c(2) tally_upd_code tally_count_class tally_count_type
    using True r by (cases key) (simp_all add: code_in_def vec_inc_val [OF c(1)] del: tally.simps(1-7))
next
  case False
  then show ?thesis by (cases key) (simp_all add: collectRespCode_def code_in_def)
qed

text \<open>One line: its counters go up, whatever else it changes.\<close>

lemma tally_line:
  fixes e :: "('f, 'a) wl_env_scheme" and w :: "('f, 's) WebLog"
  assumes o: "int_order e" and ok: "checked_fields_ok e (wl_line w)" and r: "room (wl_mx w) (Suc n)"
  shows "\<exists>w'. collectLogLine e k w = Some w' \<and> wl_line w' = wl_line w
           \<and> (\<forall>key. tally (wl_mx w') key = tally (wl_mx w) key + line_hits (wl_line w) key)"
proof -
  have line: "wl_line u = wl_line v" if "leaves_counts v u" for u v :: "('f, 's) WebLog" using that by (simp add: leaves_counts_def)
  have same: "tally (wl_mx u) = tally (wl_mx v)" if "leaves_counts v u" for u v :: "('f, 's) WebLog"
    using that by (intro counts_tally) (simp add: leaves_counts_def)
  define w1 where "w1 = upd_mx (\<lambda>m. m\<lparr>mx_Requests := Counter_Inc (mx_Requests m)\<rparr>) w"
  have t1: "tally (wl_mx w1) key = tally (wl_mx w) key + (if key = KRequests then 1 else 0)" for key
    using roomD [OF r, of KRequests] unfolding w1_def upd_mx_def
    by (cases "(wl_mx w, key)" rule: tally.cases) (simp_all add: Counter_Inc_def)
  have l1: "wl_line w1 = wl_line w" by (simp add: w1_def upd_mx_def)
  define w2 where "w2 = collectReqMethod e (collectReqClient k (collectReqScheme (collectPort e (collectVhost e w1))))"
  have k2: "leaves_counts w1 w2" unfolding w2_def by (intro leaves_simple leaves_counts_trans [OF _ leaves_simple(5)]
      leaves_counts_trans [OF _ leaves_simple(3)] leaves_counts_trans [OF _ leaves_simple(4)] leaves_counts_trans [OF _ leaves_simple(2)])
  obtain w3 where w3: "collectReqURL e w2 = Some w3" "leaves_counts w2 w3"
    using leaves_URL [OF o, of w2] ok line [OF k2] l1 by auto
  have k4: "leaves_counts w1 (collectReqProto e w3)"
    by (rule leaves_counts_trans [OF leaves_counts_trans [OF k2 w3(2)] leaves_simple(6)])
  define w4 where "w4 = collectRespCode e (collectReqProto e w3)"
  have l4: "wl_line w4 = wl_line w" using line [OF k4] l1 by (simp add: w4_def collectRespCode_line)
  obtain w5 where w5: "collectReqSize e w4 = Some w5" "leaves_counts w4 w5" using leaves_sizes(1) [OF o, of w4] ok l4 by auto
  obtain w6 where w6: "collectRespSize e w5 = Some w6" "leaves_counts w5 w6" using leaves_sizes(2) [OF o, of w5] ok l4 line [OF w5(2)] by auto
  define w7 where "w7 = collectCustomFields e (collectSSLCipherSuite e (collectSSLProto e (collectUpsRespTime e (collectReqProcTime e w6))))"
  have k7: "leaves_counts w4 w7" unfolding w7_def
    by (intro leaves_counts_trans [OF _ leaves_custom] leaves_counts_trans [OF _ leaves_simple(10)] leaves_counts_trans [OF _ leaves_simple(9)]
        leaves_counts_trans [OF _ leaves_simple(8)] leaves_counts_trans [OF _ leaves_simple(7)] leaves_counts_trans [OF w5(2) w6(2)])
  have run: "collectLogLine e k w = Some w7"
    unfolding collectLogLine_def Let_def w1_def [symmetric] w2_def [symmetric] w7_def by (simp add: w3(1) w4_def [symmetric] w5(1) w6(1))
  have "tally (wl_mx w4) key = tally (wl_mx w) key + line_hits (wl_line w) key" for key
  proof -
    have "int64 (tally (wl_mx (collectReqProto e w3)) key + 1) = tally (wl_mx (collectReqProto e w3)) key + 1" if "key \<noteq> KRequests" for key
      using that roomD [OF r, of key] by (simp add: same [OF k4] t1)
    from tally_code [OF this, of e key] show ?thesis unfolding w4_def using line [OF k4] l1 by (simp add: same [OF k4] t1)
  qed
  then show ?thesis using run same [OF k7] line [OF k7] l4 by auto
qed

lemma tally_unmatched:
  assumes "room (wl_mx w) (Suc n)"
  shows "tally (wl_mx (collectUnmatched w)) key = tally (wl_mx w) key + unmatched_hits key" and "wl_line (collectUnmatched w) = wl_line w"
  using roomD [OF assms, of key] unfolding collectUnmatched_def upd_mx_def
  by (cases "(wl_mx w, key)" rule: tally.cases; simp add: Counter_Inc_def)+

lemma hits_01: "0 \<le> line_hits l key \<and> line_hits l key \<le> 1" "0 \<le> unmatched_hits key \<and> unmatched_hits key \<le> 1"
  by (cases key; simp add: code_in_def)+

text \<open>What a round reads: for every line the fields of it, or \<^const>\<open>None\<close> for a line that did not match, and the error that ended it.\<close>

fun read_lines :: "('f, 'a) wl_env_scheme \<Rightarrow> ('f logLine \<Rightarrow> log_err option \<times> 'f logLine) list \<Rightarrow> 'f logLine
    \<Rightarrow> 'f logLine option list \<times> log_err option" where
  "read_lines e [] l = ([], None)"
| "read_lines e (ReadLine # rest) l =
     (case ReadLine (logLine_reset e l) of
        (Some err, l1) \<Rightarrow>
          if is_EOF err then ([], None)
          else if \<not> IsParseError err then ([], Some err)
          else apfst ((#) None) (read_lines e rest l1)
      | (None, l1) \<Rightarrow> apfst ((#) (if logLine_empty e l1 then None else Some l1)) (read_lines e rest l1))"

definition hits :: "'f logLine option \<Rightarrow> tally_key \<Rightarrow> int" where
  "hits x key = (case x of None \<Rightarrow> unmatched_hits key | Some l \<Rightarrow> line_hits l key)"

text \<open>The reads leave every checked field valid, as the reads of a parser do, which change the line by \<open>Assign\<close> alone.\<close>

definition reads_ok :: "('f, 'a) wl_env_scheme \<Rightarrow> ('f logLine \<Rightarrow> log_err option \<times> 'f logLine) list \<Rightarrow> bool" where
  "reads_ok e rs \<longleftrightarrow> (\<forall>R \<in> set rs. \<forall>l. checked_fields_ok e l \<longrightarrow> checked_fields_ok e (snd (R l)))"

lemma room_step:
  "room m (Suc n) \<Longrightarrow> (\<And>key. tally m' key = tally m key + hits x key) \<Longrightarrow> room m' n"
proof -
  assume r: "room m (Suc n)" and t: "\<And>key. tally m' key = tally m key + hits x key"
  have "0 \<le> hits x key \<and> hits x key \<le> 1" for key
    by (cases x) (simp_all only: hits_def option.case hits_01)
  then have "0 \<le> tally m' key \<and> tally m' key + int n < 2 ^ 63" for key
    using t [of key] r [unfolded room_def, rule_format, of key] by (smt (verit) of_nat_Suc)
  then show ?thesis unfolding room_def by blast
qed

text \<open>A round over reads that leave valid fields: it does not panic, and every counter goes up by the lines that belong to it.\<close>

lemma collected_lines_counted:
  fixes e :: "('f, 'a) wl_env_scheme" and w :: "('f, 's) WebLog" and reads :: "('f logLine \<Rightarrow> log_err option \<times> 'f logLine) list"
  assumes fl: "float_laws e" and o: "int_order e"
    and ok: "reads_ok e reads"
    and r: "room (wl_mx w) (length reads)"
  shows "\<exists>w'. collectLogLines e k reads n w = Some ((n + length (fst (read_lines e reads (wl_line w))), snd (read_lines e reads (wl_line w))), w')
           \<and> (\<forall>key. tally (wl_mx w') key = tally (wl_mx w) key + (\<Sum>x\<leftarrow>fst (read_lines e reads (wl_line w)). hits x key))"
  using ok r
proof (induction reads arbitrary: n w)
  case Nil
  then show ?case by simp
next
  case (Cons R rest)
  obtain res l where R: "R (logLine_reset e (wl_line w)) = (res, l)" by force
  have okl: "checked_fields_ok e l" and rest: "reads_ok e rest"
    using Cons.prems(1) reset_ok [OF fl, of "wl_line w"] R by (force simp: reads_ok_def)+
  define u where "u = w\<lparr>wl_line := l\<rparr>"
  have u: "wl_mx u = wl_mx w" "wl_line u = l" by (simp_all add: u_def)
  have room: "room (wl_mx u) (Suc (length rest))" using Cons.prems(2) u by simp
  have step: ?case
    if x: "\<And>key. tally (wl_mx w1) key = tally (wl_mx w) key + hits x key" and l1: "wl_line w1 = l"
      and run: "collectLogLines e k (R # rest) n w = collectLogLines e k rest (n + 1) w1"
      and rl: "read_lines e (R # rest) (wl_line w) = apfst ((#) x) (read_lines e rest l)" for x w1
  proof -
    have "room (wl_mx w1) (length rest)" using room_step [OF room] x u by metis
    from Cons.IH [OF rest this, of "n + 1"] show ?thesis unfolding run rl l1 by (simp add: x add.assoc)
  qed
  have unmatched: ?case
    if "collectLogLines e k (R # rest) n w = collectLogLines e k rest (n + 1) (collectUnmatched u)"
      and "read_lines e (R # rest) (wl_line w) = apfst ((#) None) (read_lines e rest l)"
    using step [of "collectUnmatched u" None] that tally_unmatched [OF room] u by (simp add: hits_def)
  show ?case
  proof (cases res)
    case (Some err)
    show ?thesis
    proof (cases "is_EOF err \<or> \<not> IsParseError err")
      case True
      then show ?thesis by (auto simp: R Some)
    next
      case False
      then show ?thesis by (intro unmatched) (simp_all add: R Some u_def)
    qed
  next
    case None
    show ?thesis
    proof (cases "logLine_empty e l")
      case True
      then show ?thesis by (intro unmatched) (simp_all add: R None u_def)
    next
      case False
      obtain w1 where w1: "collectLogLine e k u = Some w1" "wl_line w1 = l"
        "\<forall>key. tally (wl_mx w1) key = tally (wl_mx w) key + line_hits l key"
        using tally_line [OF o _ room] okl u by auto
      then show ?thesis using False by (intro step [of w1 "Some l"]) (simp_all add: R None hits_def u_def)
    qed
  qed
qed

end
