(* ===== verification/Logs_Kept.thy ===== *)
theory Logs_Kept
  imports Logs_Lines
begin

text \<open>
  A log line is changed by a parser through its method \<open>Assign\<close> alone.  The locale states this as the contract between
  \<open>pkg/logs\<close> and the collectors that give it their lines: what \<open>Assign\<close> keeps true of a line, every parser keeps,
  whether it reads a row or parses one it is given.
\<close>

locale kept_by_Assign =
  fixes Assign :: "'l assign" and P :: "'l \<Rightarrow> bool"
  assumes Assign_keeps: "P l \<Longrightarrow> P (snd (Assign l key v))"
begin

lemma assign_values_keeps: "P l \<Longrightarrow> P (snd (assign_values Assign nvs l))"
  by (induction nvs arbitrary: l) (auto simp: case_prod_beta Assign_keeps split: option.split)

lemma assign_fields_keeps: "assign_fields Assign row flds l = Some (r, l1) \<Longrightarrow> P l \<Longrightarrow> P l1"
  by (induction flds arbitrary: l)
    (auto simp: case_prod_beta Assign_keeps split: if_splits option.splits)

lemma assign_pairs_keeps: "P l \<Longrightarrow> P (snd (assign_pairs Assign kvs l))"
  by (induction kvs arbitrary: l) (auto simp: case_prod_beta Assign_keeps split: option.split)

lemma assign_groups_keeps: "P l \<Longrightarrow> P (snd (assign_groups Assign gs l))"
  by (induction gs arbitrary: l) (auto simp: case_prod_beta Assign_keeps split: option.split)

lemma json_keeps_all:
  "A = Assign \<Longrightarrow> P l \<Longrightarrow> P (snd (parseValue m A k v l))" "A = Assign \<Longrightarrow> P l \<Longrightarrow> P (snd (parseMembers m A pre kvs l))"
  "A = Assign \<Longrightarrow> P l \<Longrightarrow> P (snd (parseItems m A key i vs l))"
  by (induction m A k v l and m A pre kvs l and m A key i vs l rule: parseValue_parseMembers_parseItems.induct)
    (auto simp: parseStringNumber_def Let_def Assign_keeps split: prod.split option.split)

lemmas json_keeps = json_keeps_all [OF refl]

lemma CSV_keeps: "CSVParser_Parse Assign p row l = Some (r, l1) \<Longrightarrow> P l \<Longrightarrow> P l1"
  by (auto simp: CSVParser_Parse_def csvFormat_parse_def split: prod.splits option.splits if_splits dest: assign_fields_keeps)

lemma CSV_ReadLine_keeps: "CSVParser_ReadLine Assign p l = Some ((r, l1), p1) \<Longrightarrow> P l \<Longrightarrow> P l1"
  by (auto simp: CSVParser_ReadLine_def csvFormat_parse_def split: prod.splits option.splits if_splits dest: assign_fields_keeps)

lemma LTSV_keeps: "P l \<Longrightarrow> P (snd (LTSVParser_Parse ParseLine Assign p row l))"
  using assign_pairs_keeps by (auto simp: LTSVParser_Parse_def split: prod.split option.split) (metis snd_conv)+

lemma RegExp_keeps: "P l \<Longrightarrow> P (snd (RegExpParser_Parse Assign p row l))"
  using assign_groups_keeps by (auto simp: RegExpParser_Parse_def split: option.split)

lemma JSON_keeps: "P l \<Longrightarrow> P (snd (JSONParser_Parse ParseBytes m Assign row l))"
  using json_keeps(2) by (auto simp: JSONParser_Parse_def parseObject_def split: sum.split jval.split prod.split option.split) (metis snd_conv)+

lemma ReadLine_keeps:
  "P l \<Longrightarrow> P (snd (fst (LTSVParser_ReadLine ParseLine Assign lp r l)))" "P l \<Longrightarrow> P (snd (fst (RegExpParser_ReadLine Assign rp r l)))"
  "P l \<Longrightarrow> P (snd (fst (JSONParser_ReadLine ParseBytes m Assign r l)))"
  by (auto simp: LTSVParser_ReadLine_def RegExpParser_ReadLine_def JSONParser_ReadLine_def LTSV_keeps RegExp_keeps JSON_keeps
      split: prod.split sum.split)

end

end
