(* ===== verification/Weblog_Init.thy ===== *)
theory Weblog_Init
  imports Weblog_Collect Matcher Logs_Kept
begin

text \<open>
  \<open>modules/weblog/init.go\<close>, \<open>parser.go\<close> and the method \<open>Init\<close> of \<open>weblog.go\<close>: what the configuration sets up, and which parser reads
  the log.  \<^const>\<open>None\<close> is a panic of a matcher.
\<close>

section \<open>The configuration\<close>

definition newPattern :: "(string \<Rightarrow> go_error + 're) \<Rightarrow> ('re \<Rightarrow> string \<Rightarrow> bool) \<Rightarrow> userPattern
    \<Rightarrow> (go_error + (string \<times> (string \<Rightarrow> bool))) option" where
  "newPattern compile re up =
     (if up_Name up = [] \<or> up_Match up = [] then Some (Inl (''empty 'name' or 'match'' @ [CHR 0x27]))
      else map_option (map_sum id (\<lambda>m. (up_Name up, MatchString re m))) (Parse compile (up_Match up)))"

text \<open>The loops over patterns: those made so far stay when one fails.\<close>

fun create_patterns :: "(string \<Rightarrow> go_error + 're) \<Rightarrow> ('re \<Rightarrow> string \<Rightarrow> bool) \<Rightarrow> string \<Rightarrow> userPattern list
    \<Rightarrow> (string \<times> (string \<Rightarrow> bool)) list \<Rightarrow> (go_error option \<times> (string \<times> (string \<Rightarrow> bool)) list) option" where
  "create_patterns compile re what [] ps = Some (None, ps)"
| "create_patterns compile re what (up # ups) ps =
     (case newPattern compile re up of
        None \<Rightarrow> None
      | Some (Inl err) \<Rightarrow> Some (Some (what @ ''{Name:'' @ up_Name up @ '' Match:'' @ up_Match up @ ''}: '' @ err), ps)
      | Some (Inr p) \<Rightarrow> create_patterns compile re what ups (ps @ [p]))"

definition createURLPatterns :: "(string \<Rightarrow> go_error + 're) \<Rightarrow> ('re \<Rightarrow> string \<Rightarrow> bool) \<Rightarrow> 'f wl_Config \<Rightarrow> ('f, 's) WebLog
    \<Rightarrow> (go_error option \<times> ('f, 's) WebLog) option" where
  "createURLPatterns compile re cfg w =
     map_option (\<lambda>(err, ps). (err, w\<lparr>wl_urlPatterns := ps\<rparr>)) (create_patterns compile re ''create pattern '' (cg_URLPatterns cfg) (wl_urlPatterns w))"

text \<open>The patterns of a custom field are added to the map one by one: a field without patterns is not in it.\<close>

fun create_custom :: "(string \<Rightarrow> go_error + 're) \<Rightarrow> ('re \<Rightarrow> string \<Rightarrow> bool) \<Rightarrow> nat \<Rightarrow> customField list
    \<Rightarrow> (string \<rightharpoonup> (string \<times> (string \<Rightarrow> bool)) list) \<Rightarrow> (go_error option \<times> (string \<rightharpoonup> (string \<times> (string \<Rightarrow> bool)) list)) option" where
  "create_custom compile re i [] m = Some (None, m)"
| "create_custom compile re i (cf # cfs) m =
     (if cf_Name cf = [] then Some (Some (''create custom field: name not set (field '' @ Itoa (int (i + 1)) @ '')''), m)
      else (case create_patterns compile re (''create field '' @ [CHR 0x27] @ cf_Name cf @ [CHR 0x27] @ '' pattern '') (cf_Patterns cf)
              (case m (cf_Name cf) of None \<Rightarrow> [] | Some ps \<Rightarrow> ps) of
              None \<Rightarrow> None
            | Some (err, ps) \<Rightarrow>
                let m1 = (if ps = [] then m else m(cf_Name cf \<mapsto> ps)) in
                (case err of Some e \<Rightarrow> Some (Some e, m1) | None \<Rightarrow> create_custom compile re (Suc i) cfs m1)))"

definition createCustomFields :: "(string \<Rightarrow> go_error + 're) \<Rightarrow> ('re \<Rightarrow> string \<Rightarrow> bool) \<Rightarrow> 'f wl_Config \<Rightarrow> ('f, 's) WebLog
    \<Rightarrow> (go_error option \<times> ('f, 's) WebLog) option" where
  "createCustomFields compile re cfg w =
     (if length (cg_CustomFields cfg) = 0 then Some (None, w)
      else map_option (\<lambda>(err, m). (err, w\<lparr>wl_customFields := m\<rparr>)) (create_custom compile re 0 (cg_CustomFields cfg) Map.empty))"

fun create_time :: "nat \<Rightarrow> 'f customTimeField list \<Rightarrow> (string \<rightharpoonup> 'f list option) \<Rightarrow> go_error option \<times> (string \<rightharpoonup> 'f list option)" where
  "create_time i [] m = (None, m)"
| "create_time i (ctf # ctfs) m =
     (if ctf_Name ctf = [] then (Some (''create custom field: name not set (field '' @ Itoa (int (i + 1)) @ '')''), m)
      else create_time (Suc i) ctfs (m(ctf_Name ctf \<mapsto> ctf_Histogram ctf)))"

definition createCustomTimeFields :: "'f wl_Config \<Rightarrow> ('f, 's) WebLog \<Rightarrow> go_error option \<times> ('f, 's) WebLog" where
  "createCustomTimeFields cfg w =
     (if length (cg_CustomTimeFields cfg) = 0 then (None, w)
      else (case create_time 0 (cg_CustomTimeFields cfg) Map.empty of (err, m) \<Rightarrow> (err, w\<lparr>wl_customTimeFields := m\<rparr>)))"

text \<open>The numeric fields are written back with their defaults: the configuration changes too.\<close>

definition numeric_defaults :: "customNumericField \<Rightarrow> customNumericField" where
  "numeric_defaults v = v\<lparr>cnf_Multiplier := (if cnf_Multiplier v \<le> 0 then 1 else cnf_Multiplier v),
     cnf_Divisor := (if cnf_Divisor v \<le> 0 then 1 else cnf_Divisor v)\<rparr>"

fun create_numeric :: "nat \<Rightarrow> customNumericField list \<Rightarrow> string set \<Rightarrow> go_error option \<times> customNumericField list \<times> string set" where
  "create_numeric i [] names = (None, [], names)"
| "create_numeric i (v # vs) names =
     (if cnf_Name v = [] then (Some (''custom numeric field ('' @ Itoa (int (i + 1)) @ ''): 'name' not set''), v # vs, names)
      else if cnf_Units v = [] then (Some (''custom numeric field ('' @ cnf_Name v @ ''): 'units' not set''), v # vs, names)
      else (case create_numeric (Suc i) vs (insert (cnf_Name v) names) of (err, vs1, names1) \<Rightarrow> (err, numeric_defaults v # vs1, names1)))"

definition createCustomNumericFields :: "'f wl_Config \<Rightarrow> ('f, 's) WebLog \<Rightarrow> go_error option \<times> 'f wl_Config \<times> ('f, 's) WebLog" where
  "createCustomNumericFields cfg w =
     (if length (cg_CustomNumericFields cfg) = 0 then (None, cfg, w)
      else (case create_numeric 0 (cg_CustomNumericFields cfg) {} of (err, vs, names) \<Rightarrow>
              (err, cfg\<lparr>cg_CustomNumericFields := vs\<rparr>, w\<lparr>wl_customNumericFields := names\<rparr>)))"

definition newEmptyLogLine :: "('f, 'a) wl_env_scheme \<Rightarrow> 'f logLine" where
  "newEmptyLogLine e = logLine_reset e
     \<lparr>wb_vhost = [], wb_port = [], wb_reqScheme = [], wb_reqClient = [], wb_reqMethod = [], wb_reqURL = [], wb_reqProto = [], wb_reqSize = 0,
      wb_reqProcTime = fe_of_int e 0, wb_respCode = 0, wb_respSize = 0, wb_upsRespTime = fe_of_int e 0, wb_sslProto = [], wb_sslCipherSuite = [],
      cu_fields = {}, cu_values = []\<rparr>"

definition createLogLine :: "('f, 'a) wl_env_scheme \<Rightarrow> ('f, 's) WebLog \<Rightarrow> ('f, 's) WebLog" where
  "createLogLine e w = w\<lparr>wl_line := (newEmptyLogLine e)
     \<lparr>cu_fields := dom (wl_customFields w) \<union> dom (wl_customTimeFields w) \<union> wl_customNumericFields w\<rparr>\<rparr>"

text \<open>\<open>Init\<close>.  The error of the numeric fields is logged, and the rest goes on.\<close>

definition WebLog_Init :: "('f, 'a) wl_env_scheme \<Rightarrow> 's sketch_env \<Rightarrow> 'f list \<Rightarrow> (string \<Rightarrow> go_error + 're) \<Rightarrow> ('re \<Rightarrow> string \<Rightarrow> bool)
    \<Rightarrow> 'f wl_Config \<Rightarrow> ('f, 's) WebLog \<Rightarrow> (bool \<times> 'f wl_Config \<times> ('f, 's) WebLog) option" where
  "WebLog_Init e k DefBuckets compile re cfg w0 =
     (case createURLPatterns compile re cfg w0 of
        None \<Rightarrow> None
      | Some (Some err, w1) \<Rightarrow> Some (False, cfg, w1)
      | Some (None, w1) \<Rightarrow>
          (case createCustomFields compile re cfg w1 of
             None \<Rightarrow> None
           | Some (Some err, w2) \<Rightarrow> Some (False, cfg, w2)
           | Some (None, w2) \<Rightarrow>
               (case createCustomTimeFields cfg w2 of
                  (Some err, w3) \<Rightarrow> Some (False, cfg, w3)
                | (None, w3) \<Rightarrow>
                    (case createCustomNumericFields cfg w3 of (_, cfg1, w4) \<Rightarrow>
                       Some (True, cfg1, (createLogLine e w4)\<lparr>wl_mx := newMetricsData e k DefBuckets cfg1\<rparr>)))))"

section \<open>The parser of the log\<close>

definition guessOrder :: "string list" where
  "guessOrder =
    [''$host:$server_port $remote_addr - - [$time_local] \"$request\" $status $body_bytes_sent - - $request_length $request_time $upstream_response_time'',
     ''$host:$server_port $remote_addr - - [$time_local] \"$request\" $status $body_bytes_sent - - $request_length $request_time'',
     ''$host:$server_port $remote_addr - - [$time_local] \"$request\" $status $body_bytes_sent     $request_length $request_time $upstream_response_time'',
     ''$host:$server_port $remote_addr - - [$time_local] \"$request\" $status $body_bytes_sent     $request_length $request_time'',
     ''$host:$server_port $remote_addr - - [$time_local] \"$request\" $status $body_bytes_sent'',
     ''                   $remote_addr - - [$time_local] \"$request\" $status $body_bytes_sent - - $request_length $request_time $upstream_response_time'',
     ''                   $remote_addr - - [$time_local] \"$request\" $status $body_bytes_sent - - $request_length $request_time'',
     ''                   $remote_addr - - [$time_local] \"$request\" $status $body_bytes_sent     $request_length $request_time $upstream_response_time'',
     ''                   $remote_addr - - [$time_local] \"$request\" $status $body_bytes_sent     $request_length $request_time'',
     ''                   $remote_addr - - [$time_local] \"$request\" $status $body_bytes_sent'']"

definition cleanCSVFormat :: "string \<Rightarrow> string" where
  "cleanCSVFormat format = Join (Fields format) '' ''"

definition cleanApacheLogFormat :: "string \<Rightarrow> string" where
  "cleanApacheLogFormat format = filter (\<lambda>c. c \<noteq> CHR 0x5C) format"

text \<open>The regular expressions \<open>reLTSV\<close> and \<open>reJSON\<close>.\<close>

definition alnum_byte :: "char \<Rightarrow> bool" where
  "alnum_byte c \<longleftrightarrow> (CHR ''a'' \<le> c \<and> c \<le> CHR ''z'') \<or> (CHR ''A'' \<le> c \<and> c \<le> CHR ''Z'') \<or> is_digit c"

definition reLTSV :: "string \<Rightarrow> bool" where
  "reLTSV s \<longleftrightarrow> (\<forall>part \<in> set (SplitByte s CHR 0x09). takeWhile alnum_byte part \<noteq> [] \<and> take 1 (dropWhile alnum_byte part) = '':'')"

definition space_byte :: "char \<Rightarrow> bool" where
  "space_byte c \<longleftrightarrow> c \<in> {CHR 0x09, CHR 0x0A, CHR 0x0B, CHR 0x0C, CHR 0x0D, CHR 0x20}"

definition reJSON :: "string \<Rightarrow> bool" where
  "reJSON s \<longleftrightarrow> (let t = rev (dropWhile space_byte (rev (dropWhile space_byte s))) in
     length t \<ge> 2 \<and> hd t = CHR ''{'' \<and> last t = CHR ''}'' \<and> CHR 0x0A \<notin> set t)"

definition isTimeField :: "string \<Rightarrow> bool" where
  "isTimeField field \<longleftrightarrow> field = ''[$time_local]'' \<or> field = ''$time_local'' \<or> field = ''%t''"

definition isFieldValid :: "string \<Rightarrow> bool" where
  "isFieldValid field \<longleftrightarrow> length field > 1 \<and> (HasPrefix field ''$'' \<or> HasPrefix field ''%'')"

definition wl_checkCSVFormatField :: "string \<Rightarrow> string \<times> int \<times> bool" where
  "wl_checkCSVFormatField field =
     (if isTimeField field then ([], 1, False)
      else if \<not> isFieldValid field then ([], 0, False)
      else (tl field, 0, True))"

text \<open>The first format whose parser reads the line into fields that verify.\<close>

fun guess_csv :: "('f, 'a) wl_env_scheme \<Rightarrow> CSVConfig \<Rightarrow> string \<Rightarrow> string \<Rightarrow> string list \<Rightarrow> (log_cause + CSVParser) option" where
  "guess_csv e cfg inp record [] = Some (Inl (LibErr ''cannot auto-detect log format, use custom log format''))"
| "guess_csv e cfg inp record (format # formats) =
     (case NewCSVParser (cfg\<lparr>cc_Format := cleanCSVFormat format\<rparr>) inp of
        Inl err \<Rightarrow> Some (Inl err)
      | Inr parser \<Rightarrow>
          (case CSVParser_Parse (wl_Assign e) parser record (newEmptyLogLine e) of
             None \<Rightarrow> None
           | Some (Some err, line) \<Rightarrow> guess_csv e cfg inp record formats
           | Some (None, line) \<Rightarrow>
               if wl_verify e line \<noteq> None then guess_csv e cfg inp record formats else Some (Inr parser)))"

definition guessCSVParser :: "('f, 'a) wl_env_scheme \<Rightarrow> CSVConfig \<Rightarrow> string \<Rightarrow> string \<Rightarrow> (log_cause + CSVParser) option" where
  "guessCSVParser e cfg inp record = guess_csv e cfg inp record guessOrder"

text \<open>What is used of the packages for LTSV, regular expressions and JSON.\<close>

record log_libs =
  ll_ltsv_defaults :: "char \<times> char"
  ll_ParseLine :: "char \<Rightarrow> char \<Rightarrow> string \<Rightarrow> (string \<times> string) list \<times> go_error option"
  ll_Compile :: "string \<Rightarrow> go_error + pattern"
  ll_ParseBytes :: "string \<Rightarrow> go_error + jval"

definition guessParser :: "('f, 'a) wl_env_scheme \<Rightarrow> log_libs \<Rightarrow> ParserConfig \<Rightarrow> string \<Rightarrow> string \<Rightarrow> (log_cause + log_parser) option" where
  "guessParser e L cfg inp record =
     (if reLTSV record then Some (Inr (PLtsv (NewLTSVParser (ll_ltsv_defaults L) (pc_LTSV cfg))))
      else if reJSON record then Some (Inr (PJson (pc_JSON cfg)))
      else map_option (map_sum id PCsv) (guessCSVParser e (pc_CSV cfg) inp record))"

definition newParser :: "('f, 'a) wl_env_scheme \<Rightarrow> log_libs \<Rightarrow> ParserConfig \<Rightarrow> string \<Rightarrow> string
    \<Rightarrow> (log_cause + log_parser) option \<times> ParserConfig" where
  "newParser e L cfg inp record =
     (if pc_LogType cfg = ''auto'' then
        ((if length record = 0 then Some (Inl (LibErr ''empty line, can't auto-detect format'')) else guessParser e L cfg inp record), cfg)
      else (let cfg1 = cfg\<lparr>pc_CSV := (pc_CSV cfg)\<lparr>cc_Format := cleanApacheLogFormat (cc_Format (pc_CSV cfg))\<rparr>\<rparr> in
            (Some (NewParser (ll_Compile L) (ll_ltsv_defaults L) cfg1 inp), cfg1)))"

text \<open>The method \<open>Parse\<close> of the parsers.\<close>

definition parser_Parse :: "log_libs \<Rightarrow> 'l assign \<Rightarrow> log_parser \<Rightarrow> string \<Rightarrow> 'l \<Rightarrow> (log_err option \<times> 'l) option" where
  "parser_Parse L Assign p row line =
     (case p of
        PCsv c \<Rightarrow> CSVParser_Parse Assign c row line
      | PLtsv l \<Rightarrow> Some (LTSVParser_Parse (ll_ParseLine L) Assign l row line)
      | PRegExp r \<Rightarrow> Some (RegExpParser_Parse Assign r row line)
      | PJson m \<Rightarrow> Some (JSONParser_Parse (ll_ParseBytes L) m Assign row line))"

text \<open>\<open>createParser\<close> over the last lines of the file: whether a parser was found, the one tried last, the configuration and the line.\<close>

fun createParser :: "('f, 'a) wl_env_scheme \<Rightarrow> log_libs \<Rightarrow> string \<Rightarrow> string list \<Rightarrow> log_parser option \<Rightarrow> ParserConfig \<Rightarrow> 'f logLine
    \<Rightarrow> (bool \<times> log_parser option \<times> ParserConfig \<times> 'f logLine) option" where
  "createParser e L inp [] parser cfg l = Some (False, parser, cfg, l)"
| "createParser e L inp (line0 # lines) parser cfg l =
     (let line = TrimSpace line0 in
      if line = [] then createParser e L inp lines parser cfg l
      else (case newParser e L cfg inp line of
              (None, _) \<Rightarrow> None
            | (Some (Inl err), cfg1) \<Rightarrow> createParser e L inp lines None cfg1 l
            | (Some (Inr p), cfg1) \<Rightarrow>
                (case parser_Parse L (wl_Assign e) p line (logLine_reset e l) of
                   None \<Rightarrow> None
                 | Some (Some err, l1) \<Rightarrow> createParser e L inp lines (Some p) cfg1 l1
                 | Some (None, l1) \<Rightarrow>
                     if wl_verify e l1 \<noteq> None then createParser e L inp lines (Some p) cfg1 l1
                     else Some (True, Some p, cfg1, l1))))"

section \<open>What the parsers keep of a line\<close>

lemma assign_keeps_custom:
  "cu_fields (snd (assignVhost v l)) = cu_fields l" "cu_fields (snd (assignPort v l)) = cu_fields l"
  "cu_fields (snd (assignReqScheme v l)) = cu_fields l" "cu_fields (snd (assignReqClient v l)) = cu_fields l"
  "cu_fields (snd (assignReqMethod v l)) = cu_fields l" "cu_fields (snd (assignReqURL v l)) = cu_fields l"
  "cu_fields (snd (assignReqProto v l)) = cu_fields l" "cu_fields (snd (assignRespCode v l)) = cu_fields l"
  "cu_fields (snd (assignReqSize v l)) = cu_fields l" "cu_fields (snd (assignRespSize v l)) = cu_fields l"
  "cu_fields (snd (assignSSLProto v l)) = cu_fields l" "cu_fields (snd (assignSSLCipherSuite v l)) = cu_fields l"
  "cu_fields (snd (assignCustom f v l)) = cu_fields l" "cu_fields (snd (assignReqProcTime e v l)) = cu_fields l"
  "cu_fields (snd (assignUpsRespTime e v l)) = cu_fields l"
  by (auto simp: assignVhost_def assignPort_def assignReqScheme_def assignReqClient_def assignReqMethod_def assignReqURL_def assignReqProto_def
      assignRespCode_def assignReqSize_def assignRespSize_def assignSSLProto_def assignSSLCipherSuite_def assignCustom_def assignReqProcTime_def
      assignUpsRespTime_def Let_def split: option.split)

lemma assign_keeps_custom_both:
  "cu_fields (snd (assignVhostWithPort v l)) = cu_fields l" "cu_fields (snd (assignRequest v l)) = cu_fields l"
  by (simp_all add: assignVhostWithPort_def assignRequest_def Let_def case_prod_beta assign_keeps_custom split: option.split)

definition keeps_custom :: "'f wl_assign \<Rightarrow> bool" where
  "keeps_custom f \<longleftrightarrow> (\<forall>v l. cu_fields (snd (f v l)) = cu_fields l)"

lemma keeps_custom_all:
  "keeps_custom assignVhost" "keeps_custom assignPort" "keeps_custom assignReqScheme" "keeps_custom assignReqClient"
  "keeps_custom assignReqMethod" "keeps_custom assignReqURL" "keeps_custom assignReqProto" "keeps_custom assignRespCode"
  "keeps_custom assignReqSize" "keeps_custom assignRespSize" "keeps_custom assignSSLProto" "keeps_custom assignSSLCipherSuite"
  "keeps_custom (assignCustom field)" "keeps_custom (assignReqProcTime e)" "keeps_custom (assignUpsRespTime e)"
  "keeps_custom assignVhostWithPort" "keeps_custom assignRequest"
  by (simp_all add: keeps_custom_def assign_keeps_custom assign_keeps_custom_both)

lemma Assign_keeps_custom: "cu_fields (snd (wl_Assign e l field v)) = cu_fields l"
proof -
  have "keeps_custom (assign_field e field)" by (simp add: assign_field_def keeps_custom_all)
  then show ?thesis by (simp add: wl_Assign_def keeps_custom_def case_prod_beta split: option.split)
qed

interpretation custom_kept: kept_by_Assign "wl_Assign e" "\<lambda>l. cu_fields l = S" for e S
  by unfold_locales (simp add: Assign_keeps_custom)

interpretation checks_kept: kept_by_Assign "wl_Assign e" "\<lambda>l. float_laws e \<longrightarrow> checked_fields_ok e l" for e
  by unfold_locales (simp add: Assign_ok)

section \<open>A round of the web log\<close>

text \<open>One call of \<open>ReadLine\<close> of a parser, whatever it finds in its input.\<close>

definition parser_read :: "('f, 'a) wl_env_scheme \<Rightarrow> log_libs \<Rightarrow> ('f logLine \<Rightarrow> log_err option \<times> 'f logLine) \<Rightarrow> bool" where
  "parser_read e L R \<longleftrightarrow>
     (\<exists>p. \<forall>l. map_option fst (CSVParser_ReadLine (wl_Assign e) p l) = Some (R l))
     \<or> (\<exists>p r. R = (\<lambda>l. fst (LTSVParser_ReadLine (ll_ParseLine L) (wl_Assign e) p r l)))
     \<or> (\<exists>p r. R = (\<lambda>l. fst (RegExpParser_ReadLine (wl_Assign e) p r l)))
     \<or> (\<exists>m r. R = (\<lambda>l. fst (JSONParser_ReadLine (ll_ParseBytes L) m (wl_Assign e) r l)))"

lemma parser_read_ok:
  assumes "parser_read e L R" and "float_laws e" and "checked_fields_ok e l"
  shows "checked_fields_ok e (snd (R l))"
proof -
  consider (csv) p where "map_option fst (CSVParser_ReadLine (wl_Assign e) p l) = Some (R l)"
    | (ltsv) p r where "R = (\<lambda>l. fst (LTSVParser_ReadLine (ll_ParseLine L) (wl_Assign e) p r l))"
    | (regexp) p r where "R = (\<lambda>l. fst (RegExpParser_ReadLine (wl_Assign e) p r l))"
    | (json) m r where "R = (\<lambda>l. fst (JSONParser_ReadLine (ll_ParseBytes L) m (wl_Assign e) r l))"
    using assms(1) unfolding parser_read_def by blast
  then show ?thesis
  proof cases
    case csv
    then obtain p1 where "CSVParser_ReadLine (wl_Assign e) p l = Some ((fst (R l), snd (R l)), p1)" by auto
    then show ?thesis using checks_kept.CSV_ReadLine_keeps assms(2,3) by blast
  qed (use checks_kept.ReadLine_keeps assms(2,3) in blast)+
qed


text \<open>Three rows of a log with nothing but the status: 404, a row that does not match, 200.\<close>

definition demo_pattern :: pattern where
  "demo_pattern = \<lparr>re_SubexpNames = [[], ''status''], re_FindSubmatch = \<lambda>row. if row = ''-'' then None else Some [Some row, Some row]\<rparr>"

definition demo_reads :: "(int logLine \<Rightarrow> log_err option \<times> int logLine) list" where
  "demo_reads = map (\<lambda>row l. fst (RegExpParser_ReadLine (wl_Assign int_wl) demo_pattern \<lparr>lr_buf = row @ [nl_byte], lr_err = None, lr_src = []\<rparr> l))
     [''404'', ''-'', ''200'']"

definition demo_libs :: log_libs where
  "demo_libs = \<lparr>ll_ltsv_defaults = (CHR 0x09, CHR '':''), ll_ParseLine = \<lambda>f v row. ([(row, row)], None), ll_Compile = \<lambda>s. Inr demo_pattern,
     ll_ParseBytes = \<lambda>s. Inl ''not JSON''\<rparr>"

definition demo_sketch :: "nat sketch_env" where
  "demo_sketch = \<lparr>sk_new = 0, sk_Insert = \<lambda>n s. n + length s, sk_Estimate = int\<rparr>"

definition demo_weblog :: "(int, nat) WebLog" where
  "demo_weblog = \<lparr>wl_line = blank_line,
     wl_mx = newMetricsData int_wl demo_sketch []
       \<lparr>cg_URLPatterns = [], cg_CustomFields = [], cg_CustomTimeFields = [], cg_CustomNumericFields = [], cg_Histogram = []\<rparr>,
     wl_charts = [], wl_urlPatterns = [], wl_customFields = Map.empty, wl_customTimeFields = Map.empty, wl_customNumericFields = {},
     wl_GroupRespCodes = True\<rparr>"

lemma demo_tally: "tally (wl_mx demo_weblog) key = 0"
  by (cases "(wl_mx demo_weblog, key)" rule: tally.cases) (simp_all add: demo_weblog_def newMetricsData_def zero_Counter_def Let_def vec_val_def)

lemma demo_row:
  assumes "nl_byte \<notin> set row"
  shows "fst (RegExpParser_ReadLine A p \<lparr>lr_buf = row @ [nl_byte], lr_err = None, lr_src = []\<rparr> l) = RegExpParser_Parse A p row l"
proof -
  have "IndexByte (row @ [nl_byte]) nl_byte = Some (length row)" using IndexByte_append [OF assms, of "[]"] by simp
  then have "next_row \<lparr>lr_buf = row @ [nl_byte], lr_err = None, lr_src = []\<rparr> = (Inr row, \<lparr>lr_buf = [], lr_err = None, lr_src = []\<rparr>)"
    by (simp add: next_row_def ReadSlice.simps)
  then show ?thesis by (simp add: RegExpParser_ReadLine_def)
qed

lemma demo_lines:
  "read_lines int_wl demo_reads blank_line = ([Some (blank_line\<lparr>wb_respCode := 404\<rparr>), None, Some (blank_line\<lparr>wb_respCode := 200\<rparr>)], None)"
proof -
  have n: "ParseInt64 ''404'' = Some 404" "ParseInt64 ''200'' = Some 200"
    by (simp_all add: ParseInt64_def unsigned_digits_def is_digit_def digit_val_def)
  have reset: "logLine_reset int_wl (blank_line\<lparr>wb_respCode := c\<rparr>) = blank_line" "logLine_reset int_wl blank_line = blank_line" for c
    by (simp_all add: blank_line_def logLine_reset_def)
  have a: "wl_Assign int_wl blank_line ''status'' ''404'' = (None, blank_line\<lparr>wb_respCode := 404\<rparr>)"
    "wl_Assign int_wl blank_line ''status'' ''200'' = (None, blank_line\<lparr>wb_respCode := 200\<rparr>)"
    by (simp_all add: wl_Assign_def assign_field_def assignRespCode_def n isRespCodeValid_def)
  have rows: "nl_byte \<notin> set ''404''" "nl_byte \<notin> set ''-''" "nl_byte \<notin> set ''200''" by simp_all
  have p: "RegExpParser_Parse (wl_Assign int_wl) demo_pattern ''404'' blank_line = (None, blank_line\<lparr>wb_respCode := 404\<rparr>)"
    "RegExpParser_Parse (wl_Assign int_wl) demo_pattern ''-'' blank_line = (Some (ParseError Unmatched), blank_line)"
    "RegExpParser_Parse (wl_Assign int_wl) demo_pattern ''200'' blank_line = (None, blank_line\<lparr>wb_respCode := 200\<rparr>)"
    by (simp_all add: RegExpParser_Parse_def demo_pattern_def a)
  have "\<not> logLine_empty int_wl (blank_line\<lparr>wb_respCode := c\<rparr>)" if "c \<noteq> emptyNumber" for c
    using that by (simp add: logLine_empty_def web_empty_def)
  from this [of 404] this [of 200] show ?thesis
    by (simp add: demo_reads_def demo_row [OF rows(1), simplified] demo_row [OF rows(2), simplified] demo_row [OF rows(3), simplified] p reset
        is_EOF_def emptyNumber_def)
qed


section \<open>Finding the parser\<close>

lemma reset_from_empty: "logLine_reset e l = (newEmptyLogLine e)\<lparr>cu_fields := cu_fields l\<rparr>"
  by (simp add: newEmptyLogLine_def logLine_reset_def)

lemma CSV_total:
  assumes "NewCSVParser config inp = Inr c" and "nonneg_check (cc_CheckField config)"
  shows "CSVParser_Parse A c row l \<noteq> None"
proof -
  have "newCSVFormat config = Inr (cp_format c)" using assms(1) by (auto simp: NewCSVParser_def split: if_splits sum.splits)
  then show ?thesis by (simp add: CSVParser_Parse_def csvFormat_parse_values [OF _ assms(2)] split: prod.split option.split)
qed

lemma guess_csv_total:
  assumes "nonneg_check (cc_CheckField cfg)"
  shows "\<exists>res. guess_csv e cfg inp row formats = Some res \<and> (\<forall>c. res = Inr c \<longrightarrow> (\<exists>format. NewCSVParser (cfg\<lparr>cc_Format := format\<rparr>) inp = Inr c))"
proof (induction formats)
  case (Cons f formats)
  show ?case
  proof (cases "NewCSVParser (cfg\<lparr>cc_Format := cleanCSVFormat f\<rparr>) inp")
    case (Inr c)
    moreover have "nonneg_check (cc_CheckField (cfg\<lparr>cc_Format := cleanCSVFormat f\<rparr>))" using assms by simp
    ultimately obtain r l where "CSVParser_Parse (wl_Assign e) c row (newEmptyLogLine e) = Some (r, l)" using CSV_total by fast
    with Inr Cons show ?thesis by (cases r) (simp_all, blast)
  qed simp
qed simp

lemma newParser_total:
  assumes "nonneg_check (cc_CheckField (pc_CSV cfg))"
  shows "fst (newParser e L cfg inp row) \<noteq> None"
    and "fst (newParser e L cfg inp row) = Some (Inr p) \<Longrightarrow> parser_Parse L A p row' l \<noteq> None"
proof -
  obtain res where res: "guessCSVParser e (pc_CSV cfg) inp row = Some res"
    "\<forall>c. res = Inr c \<longrightarrow> (\<exists>format. NewCSVParser ((pc_CSV cfg)\<lparr>cc_Format := format\<rparr>) inp = Inr c)"
    using guess_csv_total [OF assms] unfolding guessCSVParser_def by blast
  show "fst (newParser e L cfg inp row) \<noteq> None"
    by (simp add: newParser_def guessParser_def res(1) Let_def)
  assume p: "fst (newParser e L cfg inp row) = Some (Inr p)"
  have "\<exists>format. NewCSVParser ((pc_CSV cfg)\<lparr>cc_Format := format\<rparr>) inp = Inr c" if "p = PCsv c" for c
    using p that res
    by (auto simp: newParser_def guessParser_def NewParser_def Let_def map_sum_def split: if_splits sum.splits)
  then show "parser_Parse L A p row' l \<noteq> None"
    using CSV_total [of "(pc_CSV cfg)\<lparr>cc_Format := _\<rparr>"] assms by (cases p) (fastforce simp: parser_Parse_def)+
qed

lemma snd_newParser: "snd (newParser e L cfg inp row) = snd (newParser e L cfg inp row')"
  by (simp add: newParser_def Let_def)

lemma newParser_again: "newParser e L (snd (newParser e L cfg inp row)) inp row' = (fst (newParser e L cfg inp row'), snd (newParser e L cfg inp row))"
  by (simp add: newParser_def cleanApacheLogFormat_def Let_def)

lemma newParser_same:
  assumes "cfg0 = cfg \<or> (\<exists>row'. cfg0 = snd (newParser e L cfg inp row'))"
  shows "newParser e L cfg0 inp row = (fst (newParser e L cfg inp row), snd (newParser e L cfg inp row))"
  using assms
proof
  assume "\<exists>row'. cfg0 = snd (newParser e L cfg inp row')"
  then obtain row' where "cfg0 = snd (newParser e L cfg inp row')" by blast
  then show ?thesis using newParser_again [of e L cfg inp row' row] snd_newParser [of e L cfg inp row' row] by simp
qed simp

lemma parser_Parse_custom:
  assumes "parser_Parse L (wl_Assign e) p row l = Some (r, l1)"
  shows "cu_fields l1 = cu_fields l"
proof (cases p)
  case (PCsv c)
  then show ?thesis using assms custom_kept.CSV_keeps [OF _ refl] by (simp add: parser_Parse_def)
next
  case (PLtsv lp)
  then show ?thesis using assms custom_kept.LTSV_keeps [OF refl, where e = e and ParseLine = "ll_ParseLine L" and p = lp and row = row and l = l] by (simp add: parser_Parse_def)
next
  case (PRegExp rp)
  then show ?thesis using assms custom_kept.RegExp_keeps [OF refl, where e = e and p = rp and row = row and l = l] by (simp add: parser_Parse_def)
next
  case (PJson m)
  then show ?thesis using assms custom_kept.JSON_keeps [OF refl, where e = e and ParseBytes = "ll_ParseBytes L" and m = m and row = row and l = l] by (simp add: parser_Parse_def)
qed

text \<open>A row is readable when the parser made for it parses it into fields that verify; \<open>S\<close> are the custom fields.\<close>

definition readable :: "('f, 'a) wl_env_scheme \<Rightarrow> log_libs \<Rightarrow> ParserConfig \<Rightarrow> string \<Rightarrow> string set \<Rightarrow> log_parser \<Rightarrow> string \<Rightarrow> 'f logLine \<Rightarrow> bool" where
  "readable e L cfg inp S p row l \<longleftrightarrow> row \<noteq> [] \<and> fst (newParser e L cfg inp row) = Some (Inr p)
     \<and> parser_Parse L (wl_Assign e) p row ((newEmptyLogLine e)\<lparr>cu_fields := S\<rparr>) = Some (None, l) \<and> wl_verify e l = None"

text \<open>What is said of the search over the last lines: whether a parser was found, and which.\<close>

definition finds :: "('f, 'a) wl_env_scheme \<Rightarrow> log_libs \<Rightarrow> ParserConfig \<Rightarrow> string \<Rightarrow> string set \<Rightarrow> string list
    \<Rightarrow> (bool \<times> log_parser option \<times> ParserConfig \<times> 'f logLine) option \<Rightarrow> bool" where
  "finds e L cfg inp S lines res \<longleftrightarrow> (\<exists>found p cfg' l'. res = Some (found, p, cfg', l')
     \<and> found = (\<exists>row \<in> TrimSpace ` set lines. \<exists>q m. readable e L cfg inp S q row m)
     \<and> (found \<longrightarrow> (\<exists>row \<in> TrimSpace ` set lines. \<exists>q. p = Some q \<and> readable e L cfg inp S q row l')))"

lemma finds_Nil: "finds e L cfg inp S [] (Some (False, p, c, l))"
  unfolding finds_def by (rule exI [of _ False]) simp

lemma finds_hit: "readable e L cfg inp S q (TrimSpace x) l \<Longrightarrow> finds e L cfg inp S (x # lines) (Some (True, Some q, c, l))"
  unfolding finds_def by auto

lemma finds_skip:
  "(\<And>q m. \<not> readable e L cfg inp S q (TrimSpace x) m) \<Longrightarrow> finds e L cfg inp S lines res \<Longrightarrow> finds e L cfg inp S (x # lines) res"
  unfolding finds_def by (elim exE conjE) (simp del: Set.bex_simps, blast)

lemma createParser_finds:
  assumes nn: "nonneg_check (cc_CheckField (pc_CSV cfg))"
    and "cfg0 = cfg \<or> (\<exists>row. cfg0 = snd (newParser e L cfg inp row))" and "cu_fields l0 = S"
  shows "finds e L cfg inp S lines (createParser e L inp lines p0 cfg0 l0)"
  using assms(2,3)
proof (induction lines arbitrary: cfg0 p0 l0)
  case Nil
  then show ?case by (simp add: finds_Nil)
next
  case (Cons x lines)
  define row where "row = TrimSpace x"
  define c where "c = snd (newParser e L cfg inp row)"
  have c: "c = cfg \<or> (\<exists>row. c = snd (newParser e L cfg inp row))" unfolding c_def by blast
  have np: "newParser e L cfg0 inp row = (fst (newParser e L cfg inp row), c)" unfolding c_def using Cons.prems(1) by (rule newParser_same)
  obtain res where res: "fst (newParser e L cfg inp row) = Some res" using newParser_total(1) [OF nn] by blast
  have reset: "logLine_reset e l0 = (newEmptyLogLine e)\<lparr>cu_fields := S\<rparr>" using Cons.prems(2) by (simp add: reset_from_empty)
  consider (empty) "row = []" | (refused) err where "row \<noteq> []" "res = Inl err" | (made) q where "row \<noteq> []" "res = Inr q"
    by (cases res) auto
  then show ?case
  proof cases
    case empty
    then show ?thesis using finds_skip [OF _ Cons.IH [OF Cons.prems]] by (simp add: readable_def row_def)
  next
    case refused
    then show ?thesis
      using finds_skip [OF _ Cons.IH [OF c Cons.prems(2)]] np res by (simp add: readable_def row_def [symmetric])
  next
    case made
    obtain r l1 where parse: "parser_Parse L (wl_Assign e) q row ((newEmptyLogLine e)\<lparr>cu_fields := S\<rparr>) = Some (r, l1)"
      using newParser_total(2) [OF nn] res made(2) by fast
    have rd: "readable e L cfg inp S q' row m \<longleftrightarrow> q' = q \<and> r = None \<and> m = l1 \<and> wl_verify e l1 = None" for q' m
      using made res parse by (auto simp: readable_def)
    have l1: "cu_fields l1 = S" using parser_Parse_custom [OF parse] by simp
    show ?thesis
    proof (cases "r = None \<and> wl_verify e l1 = None")
      case True
      then show ?thesis using finds_hit [of e L cfg inp S q x l1] rd np res made parse reset by (simp add: row_def [symmetric])
    next
      case False
      then show ?thesis
        using finds_skip [OF _ Cons.IH [OF c l1], of x "Some q"] rd np res made parse reset
        by (auto simp: row_def [symmetric] split: option.split)
    qed
  qed
qed

text \<open>
  C22. Finding the parser of a log never panics, and succeeds exactly when one of its last lines can be read: then the parser
  that is kept is the one made for such a line, it parsed that line without an error and the fields it found verified.  This is for
  formats whose fields move no column to the left, as those of the package do.
\<close>

theorem created_parser_reads_a_line:
  assumes "nonneg_check (cc_CheckField (pc_CSV cfg))"
  shows "\<exists>found p cfg' l'. createParser e L inp lines p0 cfg l = Some (found, p, cfg', l')
    \<and> found = (\<exists>row \<in> TrimSpace ` set lines. \<exists>q m. readable e L cfg inp (cu_fields l) q row m)
    \<and> (found \<longrightarrow> (\<exists>row \<in> TrimSpace ` set lines. \<exists>q. p = Some q \<and> readable e L cfg inp (cu_fields l) q row l'))"
  using createParser_finds [OF assms, of cfg e L inp l "cu_fields l" lines p0] by (simp only: finds_def simp_thms)

definition demo_parser_config :: ParserConfig where
  "demo_parser_config = \<lparr>pc_LogType = ''regexp'',
     pc_CSV = \<lparr>cc_FieldsPerRecord = -1, cc_Delimiter = '' '', cc_TrimLeadingSpace = False, cc_Format = [], cc_CheckField = Some wl_checkCSVFormatField\<rparr>,
     pc_LTSV = \<lparr>lt_FieldDelimiter = [], lt_ValueDelimiter = [], lt_Mapping = Map.empty\<rparr>, pc_RegExp = ''(?P<status>.+)'', pc_JSON = Map.empty\<rparr>"

theorem created_parser_reads_a_line_witness:
  "nonneg_check (Some wl_checkCSVFormatField)
   \<and> (\<exists>p cfg' l'. createParser int_wl demo_libs [] [''  '', ''404''] None demo_parser_config blank_line = Some (True, p, cfg', l'))"
proof -
  have check: "nonneg_check (Some wl_checkCSVFormatField)" by (simp add: nonneg_check_def wl_checkCSVFormatField_def)
  then have nn: "nonneg_check (cc_CheckField (pc_CSV demo_parser_config))" by (simp add: demo_parser_config_def)
  have trim: "TrimSpace ''404'' = ''404''" by (simp add: TrimSpace_def rune_chunks_ascii IsSpace_def)
  have n: "ParseInt64 ''404'' = Some 404" by (simp add: ParseInt64_def unsigned_digits_def is_digit_def digit_val_def)
  have empty: "(newEmptyLogLine int_wl)\<lparr>cu_fields := cu_fields blank_line\<rparr> = blank_line"
    by (simp add: newEmptyLogLine_def blank_line_def logLine_reset_def)
  have a: "wl_Assign int_wl blank_line ''status'' ''404'' = (None, blank_line\<lparr>wb_respCode := 404\<rparr>)"
    by (simp add: wl_Assign_def assign_field_def assignRespCode_def n isRespCodeValid_def)
  have v: "wl_verify int_wl (blank_line\<lparr>wb_respCode := 404\<rparr>) = None"
    by (simp add: wl_verify_def logLine_empty_def web_empty_def has_defs blank_line_def logLine_reset_def isEmptyString_def isEmptyNumber_def
        emptyNumber_def isRespCodeValid_def int_wl_def)
  have "readable int_wl demo_libs demo_parser_config [] (cu_fields blank_line) (PRegExp demo_pattern) ''404'' (blank_line\<lparr>wb_respCode := 404\<rparr>)"
    by (simp add: readable_def empty v newParser_def demo_parser_config_def NewParser_def NewRegExpParser_def demo_libs_def Let_def parser_Parse_def
        RegExpParser_Parse_def demo_pattern_def a)
  then have "\<exists>row \<in> TrimSpace ` set [''  '', ''404'']. \<exists>q m. readable int_wl demo_libs demo_parser_config [] (cu_fields blank_line) q row m"
    using trim by fastforce
  with created_parser_reads_a_line [OF nn, of int_wl demo_libs "[]" "[''  '', ''404'']" None blank_line]
  have "\<exists>p cfg' l'. createParser int_wl demo_libs [] [''  '', ''404''] None demo_parser_config blank_line = Some (True, p, cfg', l')"
    by (elim exE conjE) simp
  with check show ?thesis by (rule conjI)
qed

section \<open>What \<open>Init\<close> sets up\<close>

lemma newPattern_name: "newPattern compile re up = Some (Inr p) \<Longrightarrow> fst p = up_Name up"
  by (cases "Parse compile (up_Match up)") (auto simp: newPattern_def map_sum_def split: if_splits sum.splits)

lemma create_patterns_names:
  "create_patterns compile re what ups ps = Some (None, ps') \<Longrightarrow> map fst ps' = map fst ps @ map up_Name ups"
  by (induction compile re what ups ps rule: create_patterns.induct) (auto dest: newPattern_name split: option.splits sum.splits)

lemma create_custom_dom:
  "create_custom compile re i cfs m = Some (None, m') \<Longrightarrow> dom m' \<subseteq> dom m \<union> cf_Name ` set cfs"
proof (induction cfs arbitrary: i m)
  case (Cons cf cfs)
  define w where "w = ''create field '' @ [CHR 0x27] @ cf_Name cf @ [CHR 0x27] @ '' pattern ''"
  have "create_custom compile re (Suc i) cfs m = Some (None, m') \<or> (\<exists>ps. create_custom compile re (Suc i) cfs (m(cf_Name cf \<mapsto> ps)) = Some (None, m'))"
    using Cons.prems unfolding create_custom.simps w_def [symmetric] Let_def
    by (auto simp del: fun_upd_apply split: if_split_asm option.splits prod.splits)
  then show ?case using Cons.IH by (elim disjE exE) fastforce+
qed simp

lemma create_time_dom: "create_time i ctfs m = (err, m') \<Longrightarrow> dom m' \<subseteq> dom m \<union> ctf_Name ` set ctfs"
proof (induction ctfs arbitrary: i m)
  case (Cons ctf ctfs)
  show ?case
  proof (cases "ctf_Name ctf = []")
    case False
    then have "create_time (Suc i) ctfs (m(ctf_Name ctf \<mapsto> ctf_Histogram ctf)) = (err, m')" using Cons.prems by simp
    from Cons.IH [OF this] show ?thesis by auto
  qed (use Cons.prems in auto)
qed simp

lemma create_numeric_names:
  "create_numeric i vs names = (err, vs', names') \<Longrightarrow> names \<subseteq> names' \<and> names' \<subseteq> names \<union> cnf_Name ` set vs' \<and> map cnf_Name vs' = map cnf_Name vs"
  by (induction i vs names arbitrary: err vs' names' rule: create_numeric.induct)
    (auto simp: numeric_defaults_def split: if_splits prod.splits)

lemma create_numeric_broken:
  assumes "\<forall>f \<in> set good. cnf_Name f \<noteq> [] \<and> cnf_Units f \<noteq> []" and "cnf_Name broken = [] \<or> cnf_Units broken = []"
  shows "\<exists>err vs. create_numeric i (good @ broken # rest) S = (Some err, vs, S \<union> cnf_Name ` set good)"
  using assms(1)
proof (induction good arbitrary: i S)
  case Nil
  then show ?case using assms(2) by auto
next
  case (Cons g good)
  then obtain err vs where "create_numeric (Suc i) (good @ broken # rest) (insert (cnf_Name g) S) = (Some err, vs, insert (cnf_Name g) S \<union> cnf_Name ` set good)"
    by (metis list.set_intros(2))
  then show ?case using Cons.prems by simp
qed

lemma fold_put_dom: "dom (fold (\<lambda>x m. m(f x \<mapsto> g x)) xs m) = dom m \<union> f ` set xs"
  by (induction xs arbitrary: m) auto

lemma newMetricsData_doms:
  "dom (mx_URLPatternStats (newMetricsData e k D cfg)) = up_Name ` set (cg_URLPatterns cfg)"
  "dom (mx_ReqCustomField (newMetricsData e k D cfg)) = cf_Name ` set (cg_CustomFields cfg)"
  "dom (mx_ReqCustomTimeField (newMetricsData e k D cfg)) = ctf_Name ` set (cg_CustomTimeFields cfg)"
  "dom (mx_ReqCustomNumericField (newMetricsData e k D cfg)) = cnf_Name ` set (cg_CustomNumericFields cfg)"
  by (simp_all add: newMetricsData_def Let_def newURLPatternStats_def newReqCustomField_def newReqCustomTimeField_def newReqCustomNumericField_def
      fold_put_dom)

lemma Init_steps:
  "WebLog_Init e k D compile re cfg w0 = Some (True, cfg', w) \<longleftrightarrow>
     (\<exists>w1 w2 w3 err w4. createURLPatterns compile re cfg w0 = Some (None, w1) \<and> createCustomFields compile re cfg w1 = Some (None, w2)
        \<and> createCustomTimeFields cfg w2 = (None, w3) \<and> createCustomNumericFields cfg w3 = (err, cfg', w4)
        \<and> w = (createLogLine e w4)\<lparr>wl_mx := newMetricsData e k D cfg'\<rparr>)"
  by (auto simp: WebLog_Init_def split: option.splits prod.splits)

text \<open>
  After a successful \<open>Init\<close> every name a line can be counted under has its metrics: the patterns of URLs are those of
  the configuration and have their statistics, every custom field, time field and numeric field that is looked for has its counters,
  and the line collects values for these names and no others.
\<close>

theorem Init_prepares_metrics:
  assumes "WebLog_Init e k D compile re cfg w0 = Some (True, cfg', w)" and "wl_urlPatterns w0 = []"
    and "wl_customFields w0 = Map.empty" and "wl_customTimeFields w0 = Map.empty" and "wl_customNumericFields w0 = {}"
  shows "map fst (wl_urlPatterns w) = map up_Name (cg_URLPatterns cfg)
    \<and> fst ` set (wl_urlPatterns w) \<subseteq> dom (mx_URLPatternStats (wl_mx w))
    \<and> dom (wl_customFields w) \<subseteq> dom (mx_ReqCustomField (wl_mx w))
    \<and> dom (wl_customTimeFields w) \<subseteq> dom (mx_ReqCustomTimeField (wl_mx w))
    \<and> wl_customNumericFields w \<subseteq> dom (mx_ReqCustomNumericField (wl_mx w))
    \<and> cu_fields (wl_line w) = dom (wl_customFields w) \<union> dom (wl_customTimeFields w) \<union> wl_customNumericFields w"
proof -
  obtain w1 w2 w3 err w4 where w1: "createURLPatterns compile re cfg w0 = Some (None, w1)" and w2: "createCustomFields compile re cfg w1 = Some (None, w2)"
    and w3: "createCustomTimeFields cfg w2 = (None, w3)"
    and w4: "createCustomNumericFields cfg w3 = (err, cfg', w4)" "w = (createLogLine e w4)\<lparr>wl_mx := newMetricsData e k D cfg'\<rparr>"
    using assms(1) unfolding Init_steps by blast
  obtain ps where ps: "create_patterns compile re ''create pattern '' (cg_URLPatterns cfg) [] = Some (None, ps)" "w1 = w0\<lparr>wl_urlPatterns := ps\<rparr>"
    using w1 assms(2) by (auto simp: createURLPatterns_def)
  have cf: "dom (wl_customFields w2) \<subseteq> cf_Name ` set (cg_CustomFields cfg)" "wl_urlPatterns w2 = ps" "wl_customTimeFields w2 = Map.empty"
    "wl_customNumericFields w2 = {}"
    using w2 assms(3-5) ps(2) create_custom_dom [of compile re 0 "cg_CustomFields cfg" Map.empty]
    by (fastforce simp: createCustomFields_def split: if_splits)+
  have tf: "dom (wl_customTimeFields w3) \<subseteq> ctf_Name ` set (cg_CustomTimeFields cfg)" "wl_urlPatterns w3 = ps"
    "wl_customFields w3 = wl_customFields w2" "wl_customNumericFields w3 = {}"
    using w3 cf create_time_dom [of 0 "cg_CustomTimeFields cfg" Map.empty] by (auto simp: createCustomTimeFields_def split: if_splits prod.splits)
  have nf: "wl_customNumericFields w4 \<subseteq> cnf_Name ` set (cg_CustomNumericFields cfg')" "wl_urlPatterns w4 = ps"
    "wl_customFields w4 = wl_customFields w2" "wl_customTimeFields w4 = wl_customTimeFields w3"
    "cg_URLPatterns cfg' = cg_URLPatterns cfg" "cg_CustomFields cfg' = cg_CustomFields cfg" "cg_CustomTimeFields cfg' = cg_CustomTimeFields cfg"
    using w4(1) tf create_numeric_names [of 0 "cg_CustomNumericFields cfg" "{}"]
    by (auto simp: createCustomNumericFields_def split: if_splits prod.splits)
  have names: "map fst ps = map up_Name (cg_URLPatterns cfg)" using create_patterns_names [OF ps(1)] by simp
  then have "fst ` set ps = up_Name ` set (cg_URLPatterns cfg)" by (metis list.set_map)
  then show ?thesis using names cf tf nf unfolding w4(2) by (simp add: newMetricsData_doms createLogLine_def)
qed

definition demo_config :: "int wl_Config" where
  "demo_config = \<lparr>cg_URLPatterns = [\<lparr>up_Name = ''api'', up_Match = ''= /api''\<rparr>], cg_CustomFields = [],
     cg_CustomTimeFields = [\<lparr>ctf_Name = ''t'', ctf_Histogram = None\<rparr>], cg_CustomNumericFields = [], cg_Histogram = []\<rparr>"

lemma demo_Init: "\<exists>w. WebLog_Init int_wl demo_sketch [] no_regexp (\<lambda>r s. False) demo_config demo_weblog = Some (True, demo_config, w)"
proof -
  have "Parse no_regexp ''= /api'' = Some (Inr (stringFullMatcher ''/api''))"
    by (simp add: Parse_def parseShortFormat_def short_syntax_def NewStringMatcher_def negate_built_def NewMatcher_def
        FmtString_def FmtGlob_def FmtRegExp_def FmtSimplePattern_def re_space_def)
  then show ?thesis
    by (simp add: WebLog_Init_def demo_config_def createURLPatterns_def newPattern_def createCustomFields_def createCustomTimeFields_def
        createCustomNumericFields_def)
qed

theorem Init_prepares_metrics_witness:
  "\<exists>w. WebLog_Init int_wl demo_sketch [] no_regexp (\<lambda>r s. False) demo_config demo_weblog = Some (True, demo_config, w)
     \<and> map fst (wl_urlPatterns w) = [''api''] \<and> ''api'' \<in> dom (mx_URLPatternStats (wl_mx w))"
proof -
  obtain w where w: "WebLog_Init int_wl demo_sketch [] no_regexp (\<lambda>r s. False) demo_config demo_weblog = Some (True, demo_config, w)"
    using demo_Init by blast
  have fresh: "wl_urlPatterns demo_weblog = []" "wl_customFields demo_weblog = Map.empty" "wl_customTimeFields demo_weblog = Map.empty"
    "wl_customNumericFields demo_weblog = {}" by (simp_all add: demo_weblog_def)
  from Init_prepares_metrics [OF w fresh]
  have names: "map fst (wl_urlPatterns w) = [''api'']" and sub: "fst ` set (wl_urlPatterns w) \<subseteq> dom (mx_URLPatternStats (wl_mx w))"
    by (auto simp: demo_config_def)
  have "fst ` set (wl_urlPatterns w) = {''api''}" using arg_cong [OF names, of set] by simp
  with w names sub show ?thesis by auto
qed

text \<open>
  An invalid numeric field is not an error of \<open>Init\<close>: when the rest of the configuration is accepted, so is any list of
  numeric fields, and from the first field without a name or without units on, none is collected.
\<close>

theorem Init_accepts_bad_numeric_field:
  fixes w0 :: "('f, 's) WebLog"
  assumes "WebLog_Init e k D compile re (cfg\<lparr>cg_CustomNumericFields := []\<rparr>) w0 = Some (True, c, v)"
    and "cg_CustomNumericFields cfg = good @ broken # rest" and "\<forall>f \<in> set good. cnf_Name f \<noteq> [] \<and> cnf_Units f \<noteq> []"
    and "cnf_Name broken = [] \<or> cnf_Units broken = []"
  shows "\<exists>cfg' w. WebLog_Init e k D compile re cfg w0 = Some (True, cfg', w) \<and> wl_customNumericFields w = cnf_Name ` set good"
proof -
  have "\<exists>err vs. create_numeric 0 (good @ broken # rest) {} = (Some err, vs, {} \<union> cnf_Name ` set good)"
    using assms(3,4) by (rule create_numeric_broken)
  then obtain err vs where "create_numeric 0 (good @ broken # rest) {} = (Some err, vs, cnf_Name ` set good)" by auto
  then have n: "\<exists>err c' w'. createCustomNumericFields cfg w = (err, c', w') \<and> wl_customNumericFields w' = cnf_Name ` set good" for w :: "('f, 's) WebLog"
    by (simp add: createCustomNumericFields_def assms(2))
  have cfg: "createURLPatterns compile re (cfg\<lparr>cg_CustomNumericFields := []\<rparr>) = createURLPatterns compile re cfg"
    "createCustomFields compile re (cfg\<lparr>cg_CustomNumericFields := []\<rparr>) = createCustomFields compile re cfg"
    "createCustomTimeFields (cfg\<lparr>cg_CustomNumericFields := []\<rparr>) = createCustomTimeFields cfg"
    by (auto simp: fun_eq_iff createURLPatterns_def createCustomFields_def createCustomTimeFields_def)
  from assms(1) obtain w1 w2 w3 where "createURLPatterns compile re cfg w0 = Some (None, w1)" "createCustomFields compile re cfg w1 = Some (None, w2)"
    "createCustomTimeFields cfg w2 = (None, w3)"
    unfolding Init_steps cfg by blast
  moreover from n [of w3] obtain err1 c' w4 where "createCustomNumericFields cfg w3 = (err1, c', w4)" "wl_customNumericFields w4 = cnf_Name ` set good"
    by blast
  moreover have "wl_customNumericFields ((createLogLine e w4)\<lparr>wl_mx := newMetricsData e k D c'\<rparr>) = wl_customNumericFields w4"
    by (simp add: createLogLine_def)
  ultimately show ?thesis unfolding Init_steps by blast
qed

theorem Init_accepts_bad_numeric_field_witness:
  "\<exists>cfg' w. WebLog_Init int_wl demo_sketch [] no_regexp (\<lambda>r s. False)
       (demo_config\<lparr>cg_CustomNumericFields := [\<lparr>cnf_Name = ''a'', cnf_Units = ''B'', cnf_Multiplier = 0, cnf_Divisor = 0\<rparr>,
          \<lparr>cnf_Name = ''b'', cnf_Units = [], cnf_Multiplier = 1, cnf_Divisor = 1\<rparr>]\<rparr>) demo_weblog = Some (True, cfg', w)
     \<and> wl_customNumericFields w = {''a''}"
proof -
  define good where "good = \<lparr>cnf_Name = ''a'', cnf_Units = ''B'', cnf_Multiplier = 0, cnf_Divisor = 0\<rparr>"
  define broken where "broken = \<lparr>cnf_Name = ''b'', cnf_Units = [], cnf_Multiplier = 1, cnf_Divisor = 1\<rparr>"
  let ?cfg = "demo_config\<lparr>cg_CustomNumericFields := [good, broken]\<rparr>"
  obtain w where "WebLog_Init int_wl demo_sketch [] no_regexp (\<lambda>r s. False) demo_config demo_weblog = Some (True, demo_config, w)"
    using demo_Init by blast
  then have rest: "WebLog_Init int_wl demo_sketch [] no_regexp (\<lambda>r s. False) (?cfg\<lparr>cg_CustomNumericFields := []\<rparr>) demo_weblog = Some (True, demo_config, w)"
    by (simp add: demo_config_def)
  have "cg_CustomNumericFields ?cfg = [good] @ broken # []" "\<forall>f \<in> set [good]. cnf_Name f \<noteq> [] \<and> cnf_Units f \<noteq> []"
    "cnf_Name broken = [] \<or> cnf_Units broken = []" by (simp_all add: good_def broken_def)
  from Init_accepts_bad_numeric_field [OF rest this] show ?thesis by (simp add: good_def broken_def)
qed

end
