(* ===== verification/Net_IP.thy ===== *)
theory Net_IP
  imports Prelude "HOL-Library.Word"
begin

text \<open>
  What the sources use of the packages \<open>net\<close> and \<open>net/netip\<close>: addresses as slices of bytes, their
  texts, prefixes and masks, and \<open>bytes.Compare\<close>.  A nil address is \<^const>\<open>None\<close> where a function returns
  it.  Shown: the text of an address is read back as the address (for both families, with the run of
  zeros that is left out), and comparing bytes is comparing the numbers the addresses stand for.
\<close>

section \<open>Addresses\<close>

type_synonym IP = "8 word list"

definition v4InV6Prefix :: IP where
  "v4InV6Prefix = replicate 10 0 @ [255, 255]"

definition To4 :: "IP \<Rightarrow> IP option" where
  "To4 ip = (if length ip = 4 then Some ip
     else if length ip = 16 \<and> take 12 ip = v4InV6Prefix then Some (drop 12 ip) else None)"

definition To16 :: "IP \<Rightarrow> IP option" where
  "To16 ip = (if length ip = 4 then Some (v4InV6Prefix @ ip) else if length ip = 16 then Some ip else None)"

section \<open>Reading an address\<close>

text \<open>The loop of \<open>parseIPv4\<close>: the fields so far, the value and the number of digits of the present one.\<close>

fun ipv4_fields :: "IP \<Rightarrow> nat \<Rightarrow> nat \<Rightarrow> string \<Rightarrow> IP option" where
  "ipv4_fields fs val digLen [] = (if length fs < 3 then None else Some (fs @ [of_nat val]))"
| "ipv4_fields fs val digLen (c # s) =
     (if is_digit c then
        (if digLen = 1 \<and> val = 0 then None
         else if 255 < val * 10 + digit_val c then None
         else ipv4_fields fs (val * 10 + digit_val c) (Suc digLen) s)
      else if c = CHR ''.'' then
        (if digLen = 0 \<or> s = [] \<or> length fs = 3 then None else ipv4_fields (fs @ [of_nat val]) 0 0 s)
      else None)"

definition hex_val :: "char \<Rightarrow> nat option" where
  "hex_val c = (let b = (of_char c :: nat) in
     if is_digit c then Some (b - 48)
     else if 97 \<le> b \<and> b \<le> 102 then Some (b - 87)
     else if 65 \<le> b \<and> b \<le> 70 then Some (b - 55) else None)"

text \<open>One group of \<open>parseIPv6\<close>: the number of digits, their value and what follows them.\<close>

fun hex_group :: "nat \<Rightarrow> nat \<Rightarrow> string \<Rightarrow> (nat \<times> nat \<times> string) option" where
  "hex_group off acc [] = Some (off, acc, [])"
| "hex_group off acc (c # s) = (case hex_val c of
      None \<Rightarrow> Some (off, acc, c # s)
    | Some d \<Rightarrow> if 3 < off \<or> 65535 < acc * 16 + d then None else hex_group (Suc off) (acc * 16 + d) s)"

definition group_bytes :: "nat \<Rightarrow> IP" where
  "group_bytes g = [of_nat (g div 256), of_nat g]"

text \<open>The loop of \<open>parseIPv6\<close>: the bytes so far, the place of the ellipsis and the rest of the text.\<close>

function ipv6_loop :: "IP \<Rightarrow> nat option \<Rightarrow> string \<Rightarrow> (IP \<times> nat option) option" where
  "ipv6_loop ip ellipsis s =
     (if 16 \<le> length ip then (if s = [] then Some (ip, ellipsis) else None)
      else case hex_group 0 0 s of
        None \<Rightarrow> None
      | Some (off, acc, rest) \<Rightarrow>
          if off = 0 then None
          else if rest \<noteq> [] \<and> hd rest = CHR ''.'' then
            (if ellipsis = None \<and> length ip \<noteq> 12 \<or> 16 < length ip + 4 then None
             else map_option (\<lambda>v4. (ip @ v4, ellipsis)) (ipv4_fields [] 0 0 s))
          else if rest = [] then Some (ip @ group_bytes acc, ellipsis)
          else if hd rest \<noteq> CHR '':'' \<or> tl rest = [] then None
          else if hd (tl rest) = CHR '':'' then
            (if ellipsis \<noteq> None then None
             else if tl (tl rest) = [] then Some (ip @ group_bytes acc, Some (length ip + 2))
             else ipv6_loop (ip @ group_bytes acc) (Some (length ip + 2)) (tl (tl rest)))
          else ipv6_loop (ip @ group_bytes acc) ellipsis (tl rest))"
  by pat_completeness auto

termination by (relation "measure (\<lambda>(ip, e, s). 16 - length ip)") (auto simp: group_bytes_def)

declare ipv6_loop.simps [simp del]

text \<open>The end of \<open>parseIPv6\<close>: zeros for the ellipsis, which must stand for something.\<close>

definition ipv6_expand :: "IP \<times> nat option \<Rightarrow> IP option" where
  "ipv6_expand r = (let (ip, ellipsis) = r in
     if length ip < 16 then map_option (\<lambda>e. take e ip @ replicate (16 - length ip) 0 @ drop e ip) ellipsis
     else if ellipsis = None then Some ip else None)"

text \<open>An address with a zone is no address for the callers here, and one with an empty zone is an error.\<close>

definition parseIPv6 :: "string \<Rightarrow> IP option" where
  "parseIPv6 s =
     (if CHR ''%'' \<in> set s then None
      else if HasPrefix s ''::'' then
        (if drop 2 s = [] then Some (replicate 16 0) else Option.bind (ipv6_loop [] (Some 0) (drop 2 s)) ipv6_expand)
      else Option.bind (ipv6_loop [] None s) ipv6_expand)"

datatype netip_Addr = Addr4 IP | Addr6 IP

definition ParseAddr :: "string \<Rightarrow> netip_Addr option" where
  "ParseAddr s = (case List.find (\<lambda>c. c \<in> {CHR ''.'', CHR '':'', CHR ''%''}) s of
      None \<Rightarrow> None
    | Some c \<Rightarrow> if c = CHR ''.'' then map_option Addr4 (ipv4_fields [] 0 0 s)
                else if c = CHR '':'' then map_option Addr6 (parseIPv6 s) else None)"

fun As16 :: "netip_Addr \<Rightarrow> IP" where
  "As16 (Addr4 ip) = v4InV6Prefix @ ip"
| "As16 (Addr6 ip) = ip"

fun BitLen :: "netip_Addr \<Rightarrow> nat" where
  "BitLen (Addr4 ip) = 32"
| "BitLen (Addr6 ip) = 128"

definition ParseIP :: "string \<Rightarrow> IP option" where
  "ParseIP s = map_option As16 (ParseAddr s)"

section \<open>Printing an address\<close>

definition hex_char :: "nat \<Rightarrow> char" where
  "hex_char d = (if d < 10 then char_of (48 + d) else char_of (87 + d))"

fun hex_digits :: "nat \<Rightarrow> string" where
  "hex_digits n = (if n < 16 then [hex_char n] else hex_digits (n div 16) @ [hex_char (n mod 16)])"

declare hex_digits.simps [simp del]

fun u16s :: "IP \<Rightarrow> nat list" where
  "u16s (a # b # ip) = (256 * unat a + unat b) # u16s ip"
| "u16s ip = []"

text \<open>The first of the longest runs of at least two zero groups; \<open>(255, 255)\<close> when there is none.\<close>

definition longer_run :: "nat list \<Rightarrow> nat \<Rightarrow> nat \<times> nat \<Rightarrow> nat \<times> nat" where
  "longer_run gs i run = (let l = length (takeWhile (\<lambda>g. g = 0) (drop i gs)) in
     if 2 \<le> l \<and> snd run - fst run < l then (i, i + l) else run)"

definition zero_run :: "nat list \<Rightarrow> nat \<times> nat" where
  "zero_run gs = fold (longer_run gs) [0..<8] (255, 255)"

definition ipv6_text :: "nat list \<Rightarrow> string" where
  "ipv6_text gs = (let (zeroStart, zeroEnd) = zero_run gs in
     if zeroStart = 255 then Join (map hex_digits gs) '':''
     else Join (map hex_digits (take zeroStart gs)) '':'' @ ''::'' @ Join (map hex_digits (drop zeroEnd gs)) '':'')"

definition IP_String :: "IP \<Rightarrow> string" where
  "IP_String ip =
     (if ip = [] then ''<nil>''
      else if length ip \<noteq> 4 \<and> length ip \<noteq> 16 then
        CHR ''?'' # concat (map (\<lambda>b. [hex_char (unat b div 16), hex_char (unat b mod 16)]) ip)
      else case To4 ip of
          Some p4 \<Rightarrow> Join (map (\<lambda>b. nat_digits (unat b)) p4) ''.''
        | None \<Rightarrow> ipv6_text (u16s ip))"

section \<open>Prefixes and masks\<close>

text \<open>\<open>dtoi\<close> on a text that must be a number to its end; values of 0xFFFFFF and more are refused.\<close>

definition dtoi :: "string \<Rightarrow> nat option" where
  "dtoi s = (case unsigned_digits s of None \<Rightarrow> None | Some n \<Rightarrow> if 16777215 \<le> n then None else Some n)"

fun CIDRMask :: "nat \<Rightarrow> nat \<Rightarrow> IP" where
  "CIDRMask ones 0 = []"
| "CIDRMask ones (Suc n) = (if 8 \<le> ones then 255 # CIDRMask (ones - 8) n
     else of_nat (256 - 2 ^ (8 - ones)) # CIDRMask 0 n)"

definition IP_Mask :: "IP \<Rightarrow> IP \<Rightarrow> IP option" where
  "IP_Mask ip m =
     (let m = (if length m = 16 \<and> length ip = 4 \<and> (\<forall>b \<in> set (take 12 m). b = 255) then drop 12 m else m);
          ip = (if length m = 4 \<and> length ip = 16 \<and> take 12 ip = v4InV6Prefix then drop 12 ip else ip)
      in if length ip \<noteq> length m then None else Some (map2 (\<lambda>a b. and a b) ip m))"

record IPNet =
  net_IP :: IP
  net_Mask :: IP

text \<open>\<open>net.ParseCIDR\<close>: the address, and the network it is in.\<close>

definition ParseCIDR :: "string \<Rightarrow> (IP \<times> IPNet) option" where
  "ParseCIDR s = (case IndexByte s (CHR ''/'') of None \<Rightarrow> None | Some i \<Rightarrow>
     (case ParseAddr (take i s) of None \<Rightarrow> None | Some addr \<Rightarrow>
     (case dtoi (drop (Suc i) s) of None \<Rightarrow> None | Some n \<Rightarrow>
       if BitLen addr < n then None
       else (let m = CIDRMask n (BitLen addr div 8)
             in map_option (\<lambda>nip. (As16 addr, \<lparr>net_IP = nip, net_Mask = m\<rparr>)) (IP_Mask (As16 addr) m)))))"

text \<open>The number of leading ones of a byte, when only zeros follow them, and of a mask.\<close>

definition byte_ones :: "8 word \<Rightarrow> nat option" where
  "byte_ones b = List.find (\<lambda>k. unat b = 256 - 2 ^ (8 - k)) [0..<8]"

fun simpleMaskLength :: "IP \<Rightarrow> nat option" where
  "simpleMaskLength [] = Some 0"
| "simpleMaskLength (b # m) =
     (if b = 255 then map_option (\<lambda>n. 8 + n) (simpleMaskLength m)
      else if \<forall>x \<in> set m. x = 0 then byte_ones b else None)"

text \<open>\<open>IPMask.Size\<close>: ones and bits, both 0 for a mask that is not ones followed by zeros.\<close>

definition Mask_Size :: "IP \<Rightarrow> nat \<times> nat" where
  "Mask_Size m = (case simpleMaskLength m of None \<Rightarrow> (0, 0) | Some n \<Rightarrow> (n, 8 * length m))"

section \<open>Addresses as numbers\<close>

text \<open>\<open>bytes.Compare\<close>, and \<open>big.Int.SetBytes\<close>.\<close>

fun bytes_Compare :: "IP \<Rightarrow> IP \<Rightarrow> int" where
  "bytes_Compare [] [] = 0"
| "bytes_Compare [] (b # bs) = -1"
| "bytes_Compare (a # as) [] = 1"
| "bytes_Compare (a # as) (b # bs) = (if a < b then -1 else if b < a then 1 else bytes_Compare as bs)"

fun be :: "IP \<Rightarrow> nat" where
  "be [] = 0"
| "be (b # bs) = unat b * 256 ^ length bs + be bs"

lemma byte_less: "unat (b :: 8 word) < 256"
  by (rule order.strict_trans2 [OF unsigned_less]) simp

lemma be_less: "be ip < 256 ^ length ip"
proof (induction ip)
  case (Cons b bs)
  have "unat b \<le> 255" using byte_less [of b] by simp
  then have "unat b * 256 ^ length bs \<le> 255 * 256 ^ length bs" by (rule mult_le_mono1)
  then show ?case using Cons.IH by (simp only: be.simps list.size add_0_right add_Suc_right power_Suc)
qed simp

lemma be_append: "be (xs @ ys) = be xs * 256 ^ length ys + be ys"
  by (induction xs) (auto simp: power_add algebra_simps)

lemma be_less_head: "a < b \<Longrightarrow> length as = length bs \<Longrightarrow> be (a # as) < be (b # bs)"
proof -
  assume ab: "a < b" and l: "length as = length bs"
  have "Suc (unat a) \<le> unat b" using ab by (simp add: word_less_nat_alt)
  then have "Suc (unat a) * 256 ^ length bs \<le> unat b * 256 ^ length bs" by (rule mult_le_mono1)
  then show ?thesis using be_less [of as] l by simp
qed

lemma Compare_be:
  "length as = length bs \<Longrightarrow> bytes_Compare as bs = (if be as < be bs then -1 else if be bs < be as then 1 else 0)"
proof (induction as bs rule: bytes_Compare.induct)
  case (4 a as b bs)
  then show ?case using be_less_head [of a b as bs] be_less_head [of b a bs as] by (cases a b rule: linorder_cases) auto
qed auto

lemma Compare_0: "bytes_Compare as bs = 0 \<longleftrightarrow> as = bs"
  by (induction as bs rule: bytes_Compare.induct) auto

lemma be_inj: "length as = length bs \<Longrightarrow> be as = be bs \<longleftrightarrow> as = bs"
  using Compare_be [of as bs] Compare_0 [of as bs] by (auto split: if_splits)

text \<open>Every number below \<open>256 ^ n\<close> is that of one address of \<open>n\<close> bytes.\<close>

fun of_be :: "nat \<Rightarrow> nat \<Rightarrow> IP" where
  "of_be 0 k = []"
| "of_be (Suc n) k = of_nat (k div 256 ^ n) # of_be n (k mod 256 ^ n)"

lemma length_of_be [simp]: "length (of_be n k) = n"
  by (induction n arbitrary: k) auto

lemma be_of_be [simp]: "k < 256 ^ n \<Longrightarrow> be (of_be n k) = k"
proof (induction n arbitrary: k)
  case (Suc n)
  have "k div 256 ^ n < 256" using Suc.prems by (simp add: less_mult_imp_div_less)
  then show ?case using Suc.IH [of "k mod 256 ^ n"] by (simp add: unat_of_nat div_mult_mod_eq)
qed simp

lemma card_addresses:
  assumes "hi < 256 ^ n"
  shows "finite {ip. length ip = n \<and> lo \<le> be ip \<and> be ip \<le> hi}"
    and "card {ip. length ip = n \<and> lo \<le> be ip \<and> be ip \<le> hi} = Suc hi - lo"
proof -
  let ?A = "{ip. length ip = n \<and> lo \<le> be ip \<and> be ip \<le> hi}"
  have inj: "inj_on be ?A" by (auto simp: inj_on_def be_inj)
  have "be ` ?A = {lo..hi}"
  proof (rule set_eqI, rule iffI)
    fix k assume "k \<in> {lo..hi}"
    then show "k \<in> be ` ?A" using assms by (auto simp: image_iff intro!: exI [of _ "of_be n k"])
  qed auto
  then show "finite ?A" and "card ?A = Suc hi - lo"
    using finite_imageD [OF _ inj] card_image [OF inj] by simp_all
qed

section \<open>The text of an address is read as the address\<close>

subsection \<open>Dotted decimal\<close>

lemma nat_digits_snoc: "0 < a \<Longrightarrow> b < 10 \<Longrightarrow> nat_digits (10 * a + b) = nat_digits a @ [digit_char b]"
  by (subst nat_digits.simps) simp

lemma ipv4_field:
  assumes "n < 256"
  shows "ipv4_fields fs 0 0 (nat_digits n @ s) = ipv4_fields fs n (length (nat_digits n)) s"
proof -
  consider "n < 10" | "10 \<le> n" "n < 100" | "100 \<le> n" by linarith
  then show ?thesis
  proof cases
    case 1
    then show ?thesis by (simp add: nat_digits.simps [of n] is_digit_digit_char digit_val_digit_char)
  next
    case 2
    obtain a b where n: "n = 10 * a + b" "b < 10" by (metis mult_div_mod_eq mod_less_divisor zero_less_numeral)
    then have a: "a < 10" "0 < a" using 2 by auto
    then have "nat_digits n = [digit_char a, digit_char b]" using n by (simp add: nat_digits_snoc nat_digits.simps [of a])
    then show ?thesis using a n by (simp add: is_digit_digit_char digit_val_digit_char mult.commute)
  next
    case 3
    obtain m c where m: "n = 10 * m + c" "c < 10" by (metis mult_div_mod_eq mod_less_divisor zero_less_numeral)
    obtain a b where n: "m = 10 * a + b" "b < 10" by (metis mult_div_mod_eq mod_less_divisor zero_less_numeral)
    then have a: "a < 10" "0 < a" "0 < m" using 3 assms m by auto
    then have "nat_digits n = [digit_char a, digit_char b, digit_char c]"
      using nat_digits_snoc [OF a(3) m(2)] nat_digits_snoc [OF a(2) n(2)] m(1) n(1) by (simp add: nat_digits.simps [of a])
    then show ?thesis using a n m assms by (simp add: is_digit_digit_char digit_val_digit_char mult.commute)
  qed
qed

lemma length4: "length xs = 4 \<longleftrightarrow> (\<exists>a b c d. xs = [a, b, c, d])"
  by (auto simp: length_Suc_conv eval_nat_numeral)

lemma ipv4_text_read:
  assumes "length p4 = 4"
  shows "ipv4_fields [] 0 0 (Join (map (\<lambda>b. nat_digits (unat b)) p4) ''.'') = Some p4"
proof -
  obtain a b c d where p4: "p4 = [a, b, c, d]" using assms unfolding length4 by blast
  have dot: "\<not> is_digit CHR ''.''" by (simp add: is_digit_def)
  then show ?thesis unfolding p4
    by (simp add: ipv4_field byte_less ipv4_field [of _ _ "[]", simplified])
qed

subsection \<open>Groups of hexadecimal digits\<close>

lemma hex_val_hex_char: "d < 16 \<Longrightarrow> hex_val (hex_char d) = Some d"
  by (auto simp: hex_val_def hex_char_def is_digit_def Let_def)

lemma hex_digits_snoc: "0 < a \<Longrightarrow> b < 16 \<Longrightarrow> hex_digits (16 * a + b) = hex_digits a @ [hex_char b]"
  by (subst hex_digits.simps) simp

lemma hex_digits_chars: "c \<in> set (hex_digits n) \<Longrightarrow> c \<in> hex_char ` {..<16}"
proof (induction n rule: hex_digits.induct)
  case (1 n)
  then show ?case by (cases "n < 16") (auto simp: hex_digits.simps [of n])
qed

lemma hex_digits_ne [simp]: "hex_digits n \<noteq> []"
  by (subst hex_digits.simps) simp

lemma hex_group_read:
  "n < 16 ^ Suc k \<Longrightarrow> k \<le> 3 \<Longrightarrow>
   hex_group 0 0 (hex_digits n @ s) = hex_group (length (hex_digits n)) n s \<and> length (hex_digits n) \<le> Suc k"
proof (induction k arbitrary: n s)
  case 0
  then show ?case by (simp add: hex_digits.simps [of n] hex_val_hex_char)
next
  case (Suc k)
  obtain a b where n: "n = 16 * a + b" "b < 16" by (metis mult_div_mod_eq mod_less_divisor zero_less_numeral)
  have "(16 :: nat) ^ Suc (Suc k) \<le> 16 ^ 4" using Suc.prems(2) by (intro power_increasing) auto
  then have less: "n < 65536" using Suc.prems(1) by simp
  show ?case
  proof (cases "a = 0")
    case True
    then show ?thesis using n by (simp add: hex_digits.simps [of b] hex_val_hex_char)
  next
    case False
    have "a < 16 ^ Suc k" using Suc.prems(1) n(1) by simp
    then have ih: "hex_group 0 0 (hex_digits a @ hex_char b # s) = hex_group (length (hex_digits a)) a (hex_char b # s)"
      "length (hex_digits a) \<le> Suc k" using Suc.IH [of a "hex_char b # s"] Suc.prems(2) by simp_all
    moreover have "hex_digits n = hex_digits a @ [hex_char b]" using False n by (simp add: hex_digits_snoc)
    ultimately show ?thesis using Suc.prems(2) n less by (simp add: hex_val_hex_char mult.commute)
  qed
qed

lemma hex_group_text:
  assumes "g < 65536" and "s = [] \<or> hd s = CHR '':''"
  shows "hex_group 0 0 (hex_digits g @ s) = Some (length (hex_digits g), g, s)"
proof -
  have "hex_val CHR '':'' = None" by (simp add: hex_val_def is_digit_def)
  then show ?thesis using assms hex_group_read [of g 3 s] by (cases s) auto
qed

lemma group_bytes_u16: "group_bytes (256 * unat a + unat b) = [a, b]"
proof -
  have "(256 * unat a + unat b) div 256 = unat a" using byte_less [of b] by simp
  moreover have z: "(256 :: 8 word) = 0" by simp
  have "256 * a = 0" by (simp only: z mult_zero_left)
  ultimately show ?thesis by (simp add: group_bytes_def)
qed

lemma bytes_u16s: "even (length ip) \<Longrightarrow> concat (map group_bytes (u16s ip)) = ip"
  by (induction ip rule: u16s.induct) (simp_all add: group_bytes_u16)

lemma u16s_less: "g \<in> set (u16s ip) \<Longrightarrow> g < 65536"
proof (induction ip rule: u16s.induct)
  case (1 a b ip)
  then show ?case using byte_less [of a] byte_less [of b] by auto
qed auto

lemma length_u16s: "length (u16s ip) = length ip div 2"
  by (induction ip rule: u16s.induct) auto

lemma length_group_bytes [simp]: "length (group_bytes g) = 2"
  by (simp add: group_bytes_def)

lemma length_bytes: "length (concat (map group_bytes gs)) = 2 * length gs"
  by (induction gs) auto

lemma bytes_zeros: "concat (replicate k (group_bytes 0)) = replicate (2 * k) 0"
  by (induction k) (auto simp: group_bytes_def)

subsection \<open>The loop over the groups\<close>

lemma loop_last: "length ip < 16 \<Longrightarrow> g < 65536 \<Longrightarrow> ipv6_loop ip e (hex_digits g) = Some (ip @ group_bytes g, e)"
  using hex_group_text [of g "[]"] by (simp add: ipv6_loop.simps [of ip])

lemma loop_colon:
  "length ip < 16 \<Longrightarrow> g < 65536 \<Longrightarrow> t \<noteq> [] \<Longrightarrow> hd t \<noteq> CHR '':'' \<Longrightarrow>
   ipv6_loop ip e (hex_digits g @ CHR '':'' # t) = ipv6_loop (ip @ group_bytes g) e t"
  using hex_group_text [of g "CHR '':'' # t"] by (simp add: ipv6_loop.simps [of ip])

lemma loop_ellipsis:
  "length ip < 16 \<Longrightarrow> g < 65536 \<Longrightarrow> ipv6_loop ip None (hex_digits g @ CHR '':'' # CHR '':'' # t) =
     (if t = [] then Some (ip @ group_bytes g, Some (length ip + 2))
      else ipv6_loop (ip @ group_bytes g) (Some (length ip + 2)) t)"
  using hex_group_text [of g "CHR '':'' # CHR '':'' # t"] by (simp add: ipv6_loop.simps [of ip])

lemma hex_text_starts:
  "gs \<noteq> [] \<Longrightarrow> Join (map hex_digits gs) '':'' @ s \<noteq> [] \<and> hd (Join (map hex_digits gs) '':'' @ s) \<noteq> CHR '':''"
proof -
  assume "gs \<noteq> []"
  then obtain g hs where gs: "gs = g # hs" by (cases gs) auto
  obtain c cs where c: "hex_digits g = c # cs" by (meson hex_digits_ne list.exhaust)
  then have "hex_val c \<noteq> None" using hex_digits_chars [of c g] by (auto simp: hex_val_hex_char)
  then have "c \<noteq> CHR '':''" by (auto simp: hex_val_def is_digit_def)
  then show ?thesis using c unfolding gs by (cases hs) simp_all
qed

lemma loop_groups:
  "gs \<noteq> [] \<Longrightarrow> \<forall>g \<in> set gs. g < 65536 \<Longrightarrow> length ip + 2 * length gs \<le> 16 \<Longrightarrow>
   ipv6_loop ip e (Join (map hex_digits gs) '':'') = Some (ip @ concat (map group_bytes gs), e)"
proof (induction gs arbitrary: ip rule: induct_list012)
  case (3 g h gs)
  then show ?case using loop_colon [of ip g] hex_text_starts [of "h # gs" "[]"] by simp
qed (simp_all add: loop_last)

lemma loop_groups_ellipsis:
  "gs \<noteq> [] \<Longrightarrow> \<forall>g \<in> set (gs @ hs). g < 65536 \<Longrightarrow> length ip + 2 * length (gs @ hs) \<le> 16 \<Longrightarrow>
   ipv6_loop ip None (Join (map hex_digits gs) '':'' @ ''::'' @ Join (map hex_digits hs) '':'')
     = Some (ip @ concat (map group_bytes (gs @ hs)), Some (length ip + 2 * length gs))"
proof (induction gs arbitrary: ip rule: induct_list012)
  case (2 g)
  then show ?case using loop_ellipsis [of ip g] loop_groups [of hs "ip @ group_bytes g"] hex_text_starts [of hs "[]"]
    by (cases "hs = []") simp_all
next
  case (3 g h gs)
  then show ?case using loop_colon [of ip g] hex_text_starts [of "h # gs"] by simp
qed simp

subsection \<open>The run of zeros\<close>

definition run_ok :: "nat list \<Rightarrow> nat \<times> nat \<Rightarrow> bool" where
  "run_ok gs r \<longleftrightarrow> r = (255, 255) \<or> (fst r < snd r \<and> snd r \<le> length gs
     \<and> gs = take (fst r) gs @ replicate (snd r - fst r) 0 @ drop (snd r) gs)"

lemma takeWhile_zero: "takeWhile (\<lambda>g. g = 0) gs = replicate (length (takeWhile (\<lambda>g. g = 0) gs)) (0 :: nat)"
  by (induction gs) auto

lemma longer_run_ok:
  assumes "run_ok gs r"
  shows "run_ok gs (longer_run gs i r)"
proof -
  define l where "l = length (takeWhile (\<lambda>g. g = 0) (drop i gs))"
  have "drop i gs = replicate l 0 @ drop (l + i) gs"
    using takeWhile_zero [of "drop i gs"] takeWhile_dropWhile_id [of "\<lambda>g. g = 0" "drop i gs"]
    by (metis dropWhile_eq_drop drop_drop l_def)
  then have eq: "gs = take i gs @ replicate l 0 @ drop (i + l) gs" by (metis add.commute append_take_drop_id)
  have "l \<le> length gs - i" unfolding l_def using length_takeWhile_le [of _ "drop i gs"] by simp
  then show ?thesis using assms eq unfolding longer_run_def l_def [symmetric] Let_def
    by (cases "2 \<le> l") (auto simp: run_ok_def)
qed

lemma zero_run_ok: "run_ok gs (zero_run gs)"
proof -
  have "run_ok gs (fold (longer_run gs) is r)" if "run_ok gs r" for r "is"
    using that by (induction "is" arbitrary: r) (simp_all add: longer_run_ok)
  then show ?thesis by (simp add: zero_run_def run_ok_def)
qed

text \<open>The text of eight groups: all of them, or those around a run of zeros.\<close>

lemma ipv6_text_cases:
  assumes "length gs = 8"
  obtains "ipv6_text gs = Join (map hex_digits gs) '':''"
  | as k bs where "gs = as @ replicate k 0 @ bs" "0 < k"
      "ipv6_text gs = Join (map hex_digits as) '':'' @ ''::'' @ Join (map hex_digits bs) '':''"
proof -
  obtain zs ze where r: "zero_run gs = (zs, ze)" by fastforce
  then have "run_ok gs (zs, ze)" using zero_run_ok [of gs] by simp
  then show ?thesis using r that(1) that(2) [of "take zs gs" "ze - zs" "drop ze gs"]
    by (cases "zs = 255") (auto simp: run_ok_def ipv6_text_def)
qed

lemma parseIPv6_text:
  assumes "length gs = 8" and "\<forall>g \<in> set gs. g < 65536" and "CHR ''%'' \<notin> set (ipv6_text gs)"
  shows "parseIPv6 (ipv6_text gs) = Some (concat (map group_bytes gs))"
proof (rule ipv6_text_cases [OF assms(1)])
  assume t: "ipv6_text gs = Join (map hex_digits gs) '':''"
  have ne: "gs \<noteq> []" using assms(1) by auto
  have "\<not> HasPrefix (ipv6_text gs) ''::''"
    using hex_text_starts [of gs "[]", OF ne] by (cases "ipv6_text gs") (auto simp: HasPrefix_def t)
  then show ?thesis using assms loop_groups [of gs "[]" None, OF ne]
    by (auto simp: parseIPv6_def t ipv6_expand_def length_bytes)
next
  fix as k bs
  assume gs: "gs = as @ replicate k 0 @ bs" "0 < k"
    and t: "ipv6_text gs = Join (map hex_digits as) '':'' @ ''::'' @ Join (map hex_digits bs) '':''"
  have len: "length as + k + length bs = 8" and less: "\<forall>g \<in> set (as @ bs). g < 65536" using assms(1,2) gs by auto
  have ex: "ipv6_expand (concat (map group_bytes (as @ bs)), Some (2 * length as)) = Some (concat (map group_bytes gs))"
  proof -
    have "16 - (2 * length as + 2 * length bs) = 2 * k" using len by simp
    then show ?thesis using len gs by (simp add: ipv6_expand_def length_bytes bytes_zeros)
  qed
  show ?thesis
  proof (cases "as = []")
    case first: True
    show ?thesis
    proof (cases "bs = []")
      case True
      then have "concat (map group_bytes gs) = replicate 16 0" using len gs(1) first by (simp add: bytes_zeros)
      then show ?thesis using True first assms(3) unfolding t by (simp add: parseIPv6_def HasPrefix_def)
    next
      case False
      then show ?thesis using ex assms(3) loop_groups [OF False, of "[]" "Some 0"] less len hex_text_starts [OF False, of "[]"] first
        unfolding t by (simp add: parseIPv6_def HasPrefix_def)
    qed
  next
    case False
    have "\<not> HasPrefix (ipv6_text gs) ''::''"
      using hex_text_starts [OF False, of "''::'' @ Join (map hex_digits bs) '':''"] unfolding t
      by (cases "Join (map hex_digits as) '':'' @ ''::'' @ Join (map hex_digits bs) '':''") (auto simp: HasPrefix_def)
    then show ?thesis using ex assms(3) loop_groups_ellipsis [OF False less, of "[]"] len
      by (simp add: parseIPv6_def t)
  qed
qed

subsection \<open>Both families\<close>

definition addr_char :: "char \<Rightarrow> bool" where
  "addr_char c \<longleftrightarrow> (let b = (of_char c :: nat) in 48 \<le> b \<and> b \<le> 57 \<or> 97 \<le> b \<and> b \<le> 102 \<or> c = CHR ''.'' \<or> c = CHR '':'')"

lemma set_Join: "set (Join ws sep) \<subseteq> \<Union> (set ` set ws) \<union> set sep"
  by (induction ws sep rule: Join.induct) auto

lemma hex_chars_addr: "c \<in> set (hex_digits n) \<Longrightarrow> addr_char c \<and> c \<noteq> CHR ''.''"
proof -
  assume "c \<in> set (hex_digits n)"
  then obtain d where d: "d < 16" "c = hex_char d" using hex_digits_chars by blast
  then have "hex_val c \<noteq> None" by (simp add: hex_val_hex_char)
  then have "c \<noteq> CHR ''.''" by (auto simp: hex_val_def is_digit_def)
  then show ?thesis using d by (auto simp: hex_char_def addr_char_def Let_def)
qed

lemma digit_addr: "is_digit c \<Longrightarrow> addr_char c"
  by (simp add: is_digit_def addr_char_def Let_def)

lemma ipv6_text_chars:
  assumes "length gs = 8"
  shows "\<forall>c \<in> set (ipv6_text gs). addr_char c \<and> c \<noteq> CHR ''.''" and "CHR '':'' \<in> set (ipv6_text gs)"
proof -
  have colon: "addr_char CHR '':''" by (simp add: addr_char_def)
  have join: "\<forall>c \<in> set (Join (map hex_digits hs) '':''). addr_char c \<and> c \<noteq> CHR ''.''" for hs
    using set_Join [of "map hex_digits hs" "'':''"] hex_chars_addr colon by auto
  show "\<forall>c \<in> set (ipv6_text gs). addr_char c \<and> c \<noteq> CHR ''.''"
    by (rule ipv6_text_cases [OF assms]) (use join colon in auto)
  obtain g h hs where "gs = g # h # hs" using assms that by (auto simp: length_Suc_conv eval_nat_numeral)
  then have "CHR '':'' \<in> set (Join (map hex_digits gs) '':'')" by simp
  then show "CHR '':'' \<in> set (ipv6_text gs)" by (cases rule: ipv6_text_cases [OF assms]) simp_all
qed

lemma find_colon:
  "\<forall>c \<in> set s. c \<noteq> CHR ''.'' \<and> c \<noteq> CHR ''%'' \<Longrightarrow> CHR '':'' \<in> set s \<Longrightarrow>
   List.find (\<lambda>c. c \<in> {CHR ''.'', CHR '':'', CHR ''%''}) s = Some CHR '':''"
  by (induction s) auto

lemma find_dot:
  "\<forall>c \<in> set s. c = CHR ''.'' \<or> is_digit c \<Longrightarrow> CHR ''.'' \<in> set s \<Longrightarrow>
   List.find (\<lambda>c. c \<in> {CHR ''.'', CHR '':'', CHR ''%''}) s = Some CHR ''.''"
proof (induction s)
  case (Cons c s)
  have "is_digit c \<Longrightarrow> c \<notin> {CHR ''.'', CHR '':'', CHR ''%''}" by (auto simp: is_digit_def)
  then show ?case using Cons by (cases "c = CHR ''.''") simp_all
qed simp

lemma v4_text_chars:
  assumes "length p4 = 4"
  shows "\<forall>c \<in> set (Join (map (\<lambda>b. nat_digits (unat b)) p4) ''.''). c = CHR ''.'' \<or> is_digit c"
    and "CHR ''.'' \<in> set (Join (map (\<lambda>b. nat_digits (unat b)) p4) ''.'')"
proof -
  show "\<forall>c \<in> set (Join (map (\<lambda>b. nat_digits (unat b)) p4) ''.''). c = CHR ''.'' \<or> is_digit c"
    using set_Join [of "map (\<lambda>b. nat_digits (unat b)) p4" "''.''"] nat_digits_digits by fastforce
  obtain a b r where "p4 = a # b # r" using assms unfolding length4 by blast
  then show "CHR ''.'' \<in> set (Join (map (\<lambda>b. nat_digits (unat b)) p4) ''.'')" by simp
qed

lemma To4_16: "length ip = 16 \<Longrightarrow> To4 ip = Some p4 \<Longrightarrow> length p4 = 4 \<and> ip = v4InV6Prefix @ p4"
  by (auto simp: To4_def split: if_splits) (metis append_take_drop_id)

lemma percent_no_addr: "\<not> addr_char CHR ''%''"
  by (simp add: addr_char_def)

theorem ParseIP_String:
  assumes "length ip = 16"
  shows "ParseIP (IP_String ip) = Some ip"
proof (cases "To4 ip")
  case None
  let ?gs = "u16s ip"
  have gs: "length ?gs = 8" "\<forall>g \<in> set ?gs. g < 65536" using assms by (auto simp: length_u16s u16s_less)
  have "IP_String ip = ipv6_text ?gs" using None assms by (auto simp: IP_String_def)
  moreover have "CHR ''%'' \<notin> set (ipv6_text ?gs)" using ipv6_text_chars(1) [OF gs(1)] percent_no_addr by auto
  moreover have "parseIPv6 (ipv6_text ?gs) = Some ip" using parseIPv6_text [OF gs calculation(2)] bytes_u16s [of ip] assms by simp
  moreover have "List.find (\<lambda>c. c \<in> {CHR ''.'', CHR '':'', CHR ''%''}) (ipv6_text ?gs) = Some CHR '':''"
    using ipv6_text_chars [OF gs(1)] calculation(2) by (intro find_colon) auto
  ultimately show ?thesis by (simp add: ParseIP_def ParseAddr_def)
next
  case (Some p4)
  then have p4: "length p4 = 4" "ip = v4InV6Prefix @ p4" using To4_16 assms by blast+
  have "IP_String ip = Join (map (\<lambda>b. nat_digits (unat b)) p4) ''.''" using Some assms by (auto simp: IP_String_def)
  then show ?thesis using ipv4_text_read [OF p4(1)] find_dot [OF v4_text_chars [OF p4(1)]] p4(2)
    by (simp add: ParseIP_def ParseAddr_def)
qed

text \<open>The texts of addresses have only digits, letters, dots and colons, so that a dash can stand between two.\<close>

lemma IP_String_chars:
  assumes "length ip = 16" and "c \<in> set (IP_String ip)"
  shows "addr_char c"
proof (cases "To4 ip")
  case None
  then have "IP_String ip = ipv6_text (u16s ip)" using assms(1) by (auto simp: IP_String_def)
  then show ?thesis using assms ipv6_text_chars(1) [of "u16s ip"] by (simp add: length_u16s)
next
  case (Some p4)
  have dot: "addr_char CHR ''.''" by (simp add: addr_char_def)
  have "IP_String ip = Join (map (\<lambda>b. nat_digits (unat b)) p4) ''.''" using Some assms(1) by (auto simp: IP_String_def)
  then have "c = CHR ''.'' \<or> is_digit c" using assms(2) v4_text_chars(1) [of p4] To4_16 [OF assms(1) Some] by auto
  then show ?thesis using dot digit_addr by auto
qed


section \<open>Networks\<close>

lemma length_CIDRMask [simp]: "length (CIDRMask k n) = n"
  by (induction n arbitrary: k) auto

lemma byte_mask:
  assumes "k \<le> 8"
  shows "unat (and b (of_nat (256 - 2 ^ (8 - k))) :: 8 word) = unat b div 2 ^ (8 - k) * 2 ^ (8 - k)"
proof -
  let ?j = "8 - k" and ?n = "unat b"
  have p: "(256 :: nat) = 2 ^ (8 - k) * 2 ^ k" using assms by (simp add: power_add [symmetric])
  have m: "256 - 2 ^ ?j = push_bit ?j (mask k :: nat)" using p by (simp add: push_bit_eq_mult mask_eq_exp_minus_1 algebra_simps)
  have "256 - 2 ^ ?j < (256 :: nat)" by simp
  then have "unat (of_nat (256 - 2 ^ ?j) :: 8 word) = 256 - 2 ^ ?j" by (simp add: unat_of_nat)
  then have "unat (and b (of_nat (256 - 2 ^ ?j))) = and ?n (push_bit ?j (mask k))" by (simp add: unsigned_and_eq m)
  also have "\<dots> = push_bit ?j (drop_bit ?j ?n)"
  proof (rule bit_eqI)
    fix i
    have "take_bit 8 ?n = ?n" using byte_less [of b] by (simp add: take_bit_nat_eq_self)
    then have "bit ?n i \<Longrightarrow> i < 8" using bit_take_bit_iff [of 8 ?n i] by simp
    then show "bit (and ?n (push_bit ?j (mask k))) i \<longleftrightarrow> bit (push_bit ?j (drop_bit ?j ?n)) i"
      using assms by (auto simp: bit_and_iff bit_push_bit_iff bit_mask_iff bit_drop_bit_eq)
  qed
  finally show ?thesis by (simp add: push_bit_eq_mult drop_bit_eq_div)
qed

lemma multiple_div: "0 < m \<Longrightarrow> a * (m * q) + y div m * m = (a * (m * q) + y) div m * (m :: nat)"
proof -
  assume "0 < m"
  moreover have "a * (m * q) + y = y + m * (a * q)" by simp
  ultimately show ?thesis by (simp only: div_mult_self2) (simp add: add_mult_distrib)
qed

lemma be_masked: "length xs = n \<Longrightarrow> k \<le> 8 * n \<Longrightarrow> be (map2 and xs (CIDRMask k n)) = be xs div 2 ^ (8 * n - k) * 2 ^ (8 * n - k)"
proof (induction n arbitrary: xs k)
  case (Suc n)
  obtain b ys where xs: "xs = b # ys" "length ys = n" using Suc.prems(1) by (cases xs) auto
  have pow: "(256 :: nat) ^ n = 2 ^ (8 * n)" by (simp add: power_mult)
  show ?case
  proof (cases "8 \<le> k")
    case True
    let ?h = "8 * Suc n - k"
    have h: "?h = 8 * n - (k - 8)" "?h \<le> 8 * n" using True by auto
    obtain q where q: "(256 :: nat) ^ n = 2 ^ ?h * q" unfolding pow using le_imp_power_dvd [OF h(2), of "2 :: nat"] by (auto elim: dvdE)
    have ones: "(255 :: 8 word) = - 1" by simp
    have "and b 255 = b" by (simp only: ones and.right_neutral)
    then have "be (map2 and xs (CIDRMask k (Suc n))) = unat b * 256 ^ n + be ys div 2 ^ ?h * 2 ^ ?h"
      using True xs Suc.IH [of ys "k - 8"] Suc.prems(2) h(1) by simp
    also have "\<dots> = (unat b * 256 ^ n + be ys) div 2 ^ ?h * 2 ^ ?h"
      unfolding q by (rule multiple_div) simp
    finally show ?thesis using xs by simp
  next
    case False
    have z: "map2 and ys (CIDRMask 0 n) = replicate n 0" if "length ys = n" for ys :: IP and n
      using that by (induction n arbitrary: ys) (auto simp: length_Suc_conv)
    have be0: "be (replicate n 0) = 0" for n by (induction n) auto
    let ?j = "8 - k"
    have h: "8 * Suc n - k = 8 * n + ?j" using False by simp
    have e: "(2 :: nat) ^ (8 + 8 * n - k) = 2 ^ ?j * 2 ^ (8 * n)" using False by (simp add: power_add [symmetric])
    have "be ys < 256 ^ n" using be_less [of ys] xs by simp
    then have "be xs div 2 ^ (8 * Suc n - k) = unat b div 2 ^ ?j" unfolding h power_add pow [symmetric] xs(1)
      by (simp add: div_mult2_eq xs(2))
    then show ?thesis using False xs z [OF xs(2)] be0 byte_mask [of k b] by (simp add: e pow)
  qed
qed simp

lemma simpleMaskLength_CIDRMask: "k \<le> 8 * n \<Longrightarrow> simpleMaskLength (CIDRMask k n) = Some k"
proof (induction n arbitrary: k)
  case (Suc n)
  have z: "\<forall>x \<in> set (CIDRMask 0 n). x = 0" for n by (induction n) auto
  show ?case
  proof (cases "8 \<le> k")
    case True
    then show ?thesis using Suc.IH [of "k - 8"] Suc.prems by simp
  next
    case False
    then consider "k = 0" | "k = 1" | "k = 2" | "k = 3" | "k = 4" | "k = 5" | "k = 6" | "k = 7" by linarith
    then show ?thesis using z [of n] by cases (simp_all add: byte_ones_def upt_rec)
  qed
qed simp

section \<open>Every address that is read has 16 bytes\<close>

lemma ipv4_fields_length: "ipv4_fields fs v d s = Some r \<Longrightarrow> length fs \<le> 3 \<Longrightarrow> length r = 4"
  by (induction fs v d s rule: ipv4_fields.induct) (auto split: if_splits)

lemma ParseAddr4: "ParseAddr a = Some (Addr4 x) \<Longrightarrow> length x = 4 \<and> ipv4_fields [] 0 0 a = Some x"
  by (auto simp: ParseAddr_def split: option.splits if_splits dest: ipv4_fields_length)

lemma ipv6_loop_length: "ipv6_loop ip e s = Some (ip', e') \<Longrightarrow> even (length ip) \<Longrightarrow> length ip \<le> 16 \<Longrightarrow> length ip' \<le> 16"
proof (induction ip e s arbitrary: ip' e' rule: ipv6_loop.induct)
  case (1 ip e s)
  show ?case
  proof (cases "16 \<le> length ip")
    case True
    then show ?thesis using "1.prems" by (auto simp: ipv6_loop.simps [of ip] split: if_splits)
  next
    case False
    then have l: "length ip + 2 \<le> 16" using "1.prems"(2) by presburger
    have g: "even (length (ip @ group_bytes a))" "length (ip @ group_bytes a) \<le> 16" for a using l "1.prems"(2) by auto
    obtain off acc rest where h: "hex_group 0 0 s = Some (off, acc, rest)" using False "1.prems"(1)
      by (auto simp: ipv6_loop.simps [of ip] split: option.splits)
    note ih = "1.IH" [OF False h refl refl]
    show ?thesis using "1.prems"(1) False h l g ih ipv4_fields_length [of "[]"]
      by (auto simp: ipv6_loop.simps [of ip] split: if_splits)
  qed
qed

lemma parseIPv6_length: "parseIPv6 s = Some ip \<Longrightarrow> length ip = 16"
  by (auto simp: parseIPv6_def ipv6_expand_def bind_eq_Some_conv split: if_splits dest: ipv6_loop_length)

lemma ParseIP_length: "ParseIP s = Some ip \<Longrightarrow> length ip = 16"
  by (auto simp: ParseIP_def ParseAddr_def v4InV6Prefix_def split: option.splits if_splits dest: ipv4_fields_length parseIPv6_length)

end
