(* ===== verification/Iprange.thy ===== *)
theory Iprange
  imports Net_IP Utf8
begin

text \<open>
  The package \<open>pkg/iprange\<close>: ranges of addresses, their texts (one address, two with a dash, a prefix, a
  mask) and pools of them.  \<open>github.com/apparentlymart/go-cidr\<close> is a parameter, whose documented behaviour is
  \<open>cidr_laws\<close>.  Shown: the size of a range is the number of the addresses in it, the text of a range parses
  to the range, and a prefix gives the addresses of its network without the first and the last one.
\<close>

section \<open>range.go\<close>

datatype Family = V4Family | V6Family

datatype Range = v4Range (range_start: IP) (range_end: IP) | v6Range (range_start: IP) (range_end: IP)

definition isV4IP :: "IP \<Rightarrow> bool" where
  "isV4IP ip \<longleftrightarrow> To4 ip \<noteq> None"

definition isV6IP :: "IP \<Rightarrow> bool" where
  "isV6IP ip \<longleftrightarrow> \<not> isV4IP ip \<and> To16 ip \<noteq> None"

definition isV4RangeValid :: "IP \<Rightarrow> IP \<Rightarrow> bool" where
  "isV4RangeValid start end \<longleftrightarrow> isV4IP start \<and> isV4IP end \<and> 0 \<le> bytes_Compare end start"

definition isV6RangeValid :: "IP \<Rightarrow> IP \<Rightarrow> bool" where
  "isV6RangeValid start end \<longleftrightarrow> isV6IP start \<and> isV6IP end \<and> 0 \<le> bytes_Compare end start"

definition New_Range :: "IP \<Rightarrow> IP \<Rightarrow> Range option" where
  "New_Range start end = (if isV4RangeValid start end then Some (v4Range start end)
     else if isV6RangeValid start end then Some (v6Range start end) else None)"

fun Range_Family :: "Range \<Rightarrow> Family" where
  "Range_Family (v4Range start end) = V4Family"
| "Range_Family (v6Range start end) = V6Family"

definition Range_String :: "Range \<Rightarrow> string" where
  "Range_String r = IP_String (range_start r) @ ''-'' @ IP_String (range_end r)"

definition Range_Contains :: "Range \<Rightarrow> IP \<Rightarrow> bool" where
  "Range_Contains r ip \<longleftrightarrow> 0 \<le> bytes_Compare ip (range_start r) \<and> bytes_Compare ip (range_end r) \<le> 0"

text \<open>Indexing a nil address panics: \<^const>\<open>None\<close>.\<close>

definition v4ToInt :: "IP \<Rightarrow> int option" where
  "v4ToInt ip = (case To4 ip of
      Some [a, b, c, d] \<Rightarrow> Some (or (or (or (push_bit 24 (uint a)) (push_bit 16 (uint b))) (push_bit 8 (uint c))) (uint d))
    | _ \<Rightarrow> None)"

fun Range_Size :: "Range \<Rightarrow> int option" where
  "Range_Size (v4Range start end) = (case v4ToInt end of None \<Rightarrow> None | Some e \<Rightarrow>
     (case v4ToInt start of None \<Rightarrow> None | Some s \<Rightarrow> Some (int64 (int64 (e - s) + 1))))"
| "Range_Size (v6Range start end) = Some (0 + int (be end) - int (be start) + 1)"

section \<open>parse.go\<close>

text \<open>The package \<open>cidr\<close>.\<close>

record cidr_pkg =
  AddressRange :: "IPNet \<Rightarrow> IP \<times> IP"
  cidr_Inc :: "IP \<Rightarrow> IP"
  cidr_Dec :: "IP \<Rightarrow> IP"

text \<open>\<open>strings.ToLower\<close> on letters of ASCII.  Other characters are left alone: none of them has a lower case among the characters
  of an address, so that \<open>ParseRange\<close> refuses them in any case.\<close>

definition lower_char :: "char \<Rightarrow> char" where
  "lower_char c = (let b = (of_char c :: nat) in if 65 \<le> b \<and> b \<le> 90 then char_of (b + 32) else c)"

definition ToLower :: "string \<Rightarrow> string" where
  "ToLower s = map lower_char s"

definition mask_char :: "char \<Rightarrow> bool" where
  "mask_char c \<longleftrightarrow> is_digit c \<or> c = CHR ''.''"

definition reRange :: "string \<Rightarrow> bool" where
  "reRange s \<longleftrightarrow> s \<noteq> [] \<and> (\<forall>c \<in> set s. addr_char c \<or> c = CHR ''-'')"

text \<open>The characters of the part before the slash do not match a slash, so the first slash divides the text.\<close>

definition reCIDR :: "string \<Rightarrow> bool" where
  "reCIDR s \<longleftrightarrow> (case IndexByte s (CHR ''/'') of None \<Rightarrow> False | Some i \<Rightarrow>
     0 < i \<and> (\<forall>c \<in> set (take i s). addr_char c)
     \<and> length (drop (Suc i) s) \<in> {1..3} \<and> (\<forall>c \<in> set (drop (Suc i) s). is_digit c))"

definition reSubnetMask :: "string \<Rightarrow> bool" where
  "reSubnetMask s \<longleftrightarrow> (case IndexByte s (CHR ''/'') of None \<Rightarrow> False | Some i \<Rightarrow>
     0 < i \<and> (\<forall>c \<in> set (take i s). mask_char c)
     \<and> 7 \<le> length (drop (Suc i) s) \<and> (\<forall>c \<in> set (drop (Suc i) s). mask_char c))"

text \<open>A nil address is the empty slice.\<close>

definition ip_or_nil :: "IP option \<Rightarrow> IP" where
  "ip_or_nil r = (case r of None \<Rightarrow> [] | Some ip \<Rightarrow> ip)"

definition parseRange :: "string \<Rightarrow> Range option" where
  "parseRange s = (case IndexByte s (CHR ''-'') of
      Some idx \<Rightarrow> New_Range (ip_or_nil (ParseIP (take idx s))) (ip_or_nil (ParseIP (drop (Suc idx) s)))
    | None \<Rightarrow> New_Range (ip_or_nil (ParseIP s)) (ip_or_nil (ParseIP s)))"

definition parseCIDR :: "cidr_pkg \<Rightarrow> string \<Rightarrow> Range option" where
  "parseCIDR pkg s = (case ParseCIDR s of None \<Rightarrow> None | Some (ip, network) \<Rightarrow>
     (let (start, end) = AddressRange pkg network;
          prefixLen = fst (Mask_Size (net_Mask network));
          (start, end) = (if isV4IP ip \<and> prefixLen < 31 \<or> isV6IP ip \<and> prefixLen < 127
                          then (cidr_Inc pkg start, cidr_Dec pkg end) else (start, end))
      in parseRange (IP_String start @ ''-'' @ IP_String end)))"

definition parseSubnetMask :: "cidr_pkg \<Rightarrow> string \<Rightarrow> Range option" where
  "parseSubnetMask pkg s = (case LastIndexByte s (CHR ''/'') of None \<Rightarrow> None | Some idx \<Rightarrow>
     (case To4 (ip_or_nil (ParseIP (drop (Suc idx) s))) of None \<Rightarrow> None | Some ip \<Rightarrow>
       (let (prefixLen, bits) = Mask_Size ip
        in if prefixLen + bits = 0 then None else parseCIDR pkg (take idx s @ ''/'' @ nat_digits prefixLen))))"

datatype iprange_error = InvalidSyntax

definition ParseRange :: "cidr_pkg \<Rightarrow> string \<Rightarrow> iprange_error + Range option" where
  "ParseRange pkg s0 = (let s = ToLower s0 in
     if s = [] then Inr None
     else case (if reRange s then parseRange s else if reCIDR s then parseCIDR pkg s
                else if reSubnetMask s then parseSubnetMask pkg s else None) of
            None \<Rightarrow> Inl InvalidSyntax
          | Some r \<Rightarrow> Inr (Some r))"

fun parse_parts :: "cidr_pkg \<Rightarrow> string list \<Rightarrow> Range list \<Rightarrow> iprange_error + Range list" where
  "parse_parts pkg [] ranges = Inr ranges"
| "parse_parts pkg (v # parts) ranges = (case ParseRange pkg v of
      Inl err \<Rightarrow> Inl err
    | Inr None \<Rightarrow> parse_parts pkg parts ranges
    | Inr (Some r) \<Rightarrow> parse_parts pkg parts (ranges @ [r]))"

definition ParseRanges :: "cidr_pkg \<Rightarrow> string \<Rightarrow> iprange_error + Range list" where
  "ParseRanges pkg s = (let parts = Fields s in if parts = [] then Inr [] else parse_parts pkg parts [])"

section \<open>pool.go\<close>

type_synonym Pool = "Range list"

definition Pool_String :: "Pool \<Rightarrow> string" where
  "Pool_String p = TrimSpace (concat (map (\<lambda>r. Range_String r @ '' '') p))"

fun Pool_Size :: "Pool \<Rightarrow> int option" where
  "Pool_Size [] = Some 0"
| "Pool_Size (r # p) = (case Range_Size r of None \<Rightarrow> None | Some n \<Rightarrow> map_option (\<lambda>m. n + m) (Pool_Size p))"

definition Pool_Contains :: "Pool \<Rightarrow> IP \<Rightarrow> bool" where
  "Pool_Contains p ip \<longleftrightarrow> list_ex (\<lambda>r. Range_Contains r ip) p"

section \<open>Ranges as sets of addresses\<close>

text \<open>The addresses a range stands for, as \<open>net.ParseIP\<close> gives them; a proper range has such ends.\<close>

definition addresses :: "Range \<Rightarrow> IP set" where
  "addresses r = {ip. length ip = 16 \<and> Range_Contains r ip}"

definition proper :: "Range \<Rightarrow> bool" where
  "proper r \<longleftrightarrow> length (range_start r) = 16 \<and> length (range_end r) = 16
     \<and> New_Range (range_start r) (range_end r) = Some r"

lemma Contains_be:
  "length ip = 16 \<Longrightarrow> length (range_start r) = 16 \<Longrightarrow> length (range_end r) = 16 \<Longrightarrow>
   Range_Contains r ip \<longleftrightarrow> be (range_start r) \<le> be ip \<and> be ip \<le> be (range_end r)"
  by (auto simp: Range_Contains_def Compare_be)

lemma New_Range_proper: "New_Range s e = Some r \<Longrightarrow> length s = 16 \<Longrightarrow> length e = 16 \<Longrightarrow> proper r \<and> range_start r = s \<and> range_end r = e"
  by (auto simp: New_Range_def proper_def split: if_splits)

lemma proper_le: "proper r \<Longrightarrow> be (range_start r) \<le> be (range_end r)"
  by (auto simp: proper_def New_Range_def isV4RangeValid_def isV6RangeValid_def Compare_be split: if_splits)

lemma card_range:
  assumes "proper r"
  shows "finite (addresses r)" and "int (card (addresses r)) = int (be (range_end r)) - int (be (range_start r)) + 1"
proof -
  have l: "length (range_start r) = 16" "length (range_end r) = 16" using assms by (simp_all add: proper_def)
  then have set: "addresses r = {ip. length ip = 16 \<and> be (range_start r) \<le> be ip \<and> be ip \<le> be (range_end r)}"
    by (auto simp: addresses_def Contains_be)
  have "be (range_end r) < 256 ^ 16" using be_less [of "range_end r"] l by simp
  from card_addresses [OF this, of "be (range_start r)"] proper_le [OF assms]
  show "finite (addresses r)" and "int (card (addresses r)) = int (be (range_end r)) - int (be (range_start r)) + 1"
    by (simp_all add: set)
qed

text \<open>The four bytes, shifted and combined, are the number they stand for.\<close>

lemma or_disjoint: "0 \<le> b \<Longrightarrow> b < 2 ^ n \<Longrightarrow> or (push_bit n a) b = push_bit n a + (b :: int)"
proof -
  assume b: "0 \<le> b" "b < 2 ^ n"
  then have "take_bit n b = b" by (simp add: take_bit_int_eq_self)
  then have "bit b i \<Longrightarrow> i < n" for i using bit_take_bit_iff [of n b i] by simp
  then have "\<not> bit (push_bit n a) i \<or> \<not> bit b i" for i by (fastforce simp: bit_push_bit_iff)
  then show ?thesis by (simp add: disjunctive_add)
qed

lemma v4_number:
  "or (or (or (push_bit 24 (uint a)) (push_bit 16 (uint b))) (push_bit 8 (uint c))) (uint d) = int (be [a, b, c, d :: 8 word])"
proof -
  have u: "0 \<le> uint x" "uint x < 256" "int (unat x) = uint x" for x :: "8 word"
    by (simp, rule order.strict_trans2 [OF unsigned_less], simp_all)
  have c: "or (push_bit 8 (uint c)) (uint d) = push_bit 8 (uint c) + uint d" using u by (intro or_disjoint) auto
  have b: "or (push_bit 16 (uint b)) (push_bit 8 (uint c) + uint d) = push_bit 16 (uint b) + (push_bit 8 (uint c) + uint d)"
    using u(1,2) [of c] u(1,2) [of d] by (intro or_disjoint) (auto simp: push_bit_eq_mult)
  have a: "or (push_bit 24 (uint a)) (push_bit 16 (uint b) + (push_bit 8 (uint c) + uint d))
      = push_bit 24 (uint a) + (push_bit 16 (uint b) + (push_bit 8 (uint c) + uint d))"
    using u(1,2) [of b] u(1,2) [of c] u(1,2) [of d] by (intro or_disjoint) (auto simp: push_bit_eq_mult)
  show ?thesis unfolding or.assoc c b a by (simp add: push_bit_eq_mult u(3))
qed

lemma v4ToInt_be:
  assumes "length ip = 16" and "isV4IP ip"
  obtains p4 where "length p4 = 4" and "ip = v4InV6Prefix @ p4" and "v4ToInt ip = Some (int (be p4))"
    and "be ip = be v4InV6Prefix * 2 ^ 32 + be p4"
proof -
  obtain p4 where t: "To4 ip = Some p4" using assms(2) by (auto simp: isV4IP_def)
  then have p4: "length p4 = 4" "ip = v4InV6Prefix @ p4" using To4_16 [OF assms(1) t] by auto
  moreover have "v4ToInt ip = Some (int (be p4))"
  proof -
    obtain a b c d where "p4 = [a, b, c, d]" using p4(1) unfolding length4 by blast
    then show ?thesis using t by (simp only: v4ToInt_def v4_number option.case list.case)
  qed
  moreover have "be ip = be v4InV6Prefix * 2 ^ 32 + be p4" by (simp add: p4 be_append)
  ultimately show ?thesis by (rule that)
qed

lemma Size_be:
  assumes "proper r"
  shows "Range_Size r = Some (int (be (range_end r)) - int (be (range_start r)) + 1)"
proof (cases r)
  case (v4Range s e)
  then have se: "length s = 16" "length e = 16" "isV4IP s" "isV4IP e" using assms
    by (auto simp: proper_def New_Range_def isV4RangeValid_def split: if_splits)
  obtain p where p: "length p = 4" "v4ToInt s = Some (int (be p))" "be s = be v4InV6Prefix * 2 ^ 32 + be p"
    by (rule v4ToInt_be [OF se(1,3)])
  obtain q where q: "length q = 4" "v4ToInt e = Some (int (be q))" "be e = be v4InV6Prefix * 2 ^ 32 + be q"
    by (rule v4ToInt_be [OF se(2,4)])
  have "be p < 2 ^ 32" "be q < 2 ^ 32" using be_less [of p] be_less [of q] p(1) q(1) by simp_all
  then have "int64 (int64 (int (be q) - int (be p)) + 1) = int (be q) - int (be p) + 1" by (simp add: int64_def)
  then show ?thesis using p q by (simp add: v4Range)
qed simp

text \<open>
  C23. The size of a range is the number of the addresses it contains.
\<close>

theorem Size_counts_addresses:
  assumes "length s = 16" and "length e = 16" and "New_Range s e = Some r"
  shows "finite {ip. length ip = 16 \<and> Range_Contains r ip}
     \<and> Range_Size r = Some (int (card {ip. length ip = 16 \<and> Range_Contains r ip}))"
proof -
  have "proper r" using New_Range_proper [OF assms(3,1,2)] by simp
  then show ?thesis
    using card_range [of r] Size_be [of r] by (simp_all add: addresses_def)
qed

definition ip4 :: "8 word \<Rightarrow> 8 word \<Rightarrow> 8 word \<Rightarrow> 8 word \<Rightarrow> IP" where
  "ip4 a b c d = v4InV6Prefix @ [a, b, c, d]"

theorem Size_counts_addresses_witness:
  "New_Range (ip4 10 0 0 1) (ip4 10 0 0 3) = Some (v4Range (ip4 10 0 0 1) (ip4 10 0 0 3))
   \<and> card {ip. length ip = 16 \<and> Range_Contains (v4Range (ip4 10 0 0 1) (ip4 10 0 0 3)) ip} = 3"
proof -
  let ?s = "ip4 10 0 0 1" and ?e = "ip4 10 0 0 3"
  have l: "length ?s = 16" "length ?e = 16" by (simp_all add: ip4_def v4InV6Prefix_def)
  moreover have r: "New_Range ?s ?e = Some (v4Range ?s ?e)" by code_simp
  moreover have "Range_Size (v4Range ?s ?e) = Some 3" by code_simp
  ultimately show ?thesis using Size_counts_addresses [OF l r] by simp
qed

section \<open>Addresses within ranges\<close>

text \<open>What the clients of a range rely on: it holds finitely many addresses and its size is their number.\<close>

locale address_ranges =
  fixes valid :: "'r \<Rightarrow> bool" and holds :: "'r \<Rightarrow> IP \<Rightarrow> bool" and size_of :: "'r \<Rightarrow> int option"
  assumes fin: "valid r \<Longrightarrow> finite {ip. length ip = 16 \<and> holds r ip}"
    and size_of: "valid r \<Longrightarrow> size_of r = Some (int (card {ip. length ip = 16 \<and> holds r ip}))"
begin

lemma held_le_size:
  assumes "valid r" and "distinct ips" and "\<And>ip. ip \<in> set ips \<Longrightarrow> length ip = 16 \<and> holds r ip"
  shows "\<exists>n. size_of r = Some n \<and> int (length ips) \<le> n"
proof -
  have "card (set ips) \<le> card {ip. length ip = 16 \<and> holds r ip}" using assms(3) by (intro card_mono fin [OF assms(1)]) auto
  then show ?thesis using size_of [OF assms(1)] by (simp add: distinct_card [OF assms(2)])
qed

lemma union_size:
  assumes "\<forall>r \<in> set p. valid r"
  shows "finite {ip. length ip = 16 \<and> (\<exists>r \<in> set p. holds r ip)}
    \<and> int (card {ip. length ip = 16 \<and> (\<exists>r \<in> set p. holds r ip)}) \<le> (\<Sum>r\<leftarrow>p. the (size_of r))
    \<and> (sorted_wrt (\<lambda>r r'. \<forall>ip. length ip = 16 \<longrightarrow> \<not> (holds r ip \<and> holds r' ip)) p \<longrightarrow>
         int (card {ip. length ip = 16 \<and> (\<exists>r \<in> set p. holds r ip)}) = (\<Sum>r\<leftarrow>p. the (size_of r)))"
  using assms
proof (induction p)
  case (Cons r p)
  let ?A = "{ip. length ip = 16 \<and> holds r ip}" and ?B = "{ip. length ip = 16 \<and> (\<exists>r \<in> set p. holds r ip)}"
  have eq: "{ip. length ip = 16 \<and> (\<exists>r \<in> set (r # p). holds r ip)} = ?A \<union> ?B" by auto
  have A: "finite ?A" "size_of r = Some (int (card ?A))" using Cons.prems fin size_of by auto
  have B: "finite ?B" using Cons by simp
  have "?A \<inter> ?B = {}" if "sorted_wrt (\<lambda>r r'. \<forall>ip. length ip = 16 \<longrightarrow> \<not> (holds r ip \<and> holds r' ip)) (r # p)"
    using that by auto
  then show ?case unfolding eq using Cons A B card_Un_le [of ?A ?B] card_Un_disjoint [OF A(1) B] by auto
qed simp

end

interpretation ranges: address_ranges proper Range_Contains Range_Size
proof
  fix r assume "proper r"
  then show "finite {ip. length ip = 16 \<and> Range_Contains r ip}"
    and "Range_Size r = Some (int (card {ip. length ip = 16 \<and> Range_Contains r ip}))"
    using card_range [of r] Size_be [of r] by (simp_all add: addresses_def)
qed

lemma Pool_Size_sum: "\<forall>r \<in> set p. proper r \<Longrightarrow> Pool_Size p = Some (\<Sum>r\<leftarrow>p. the (Range_Size r))"
  by (induction p) (auto simp: Size_be)

text \<open>A pool is no larger than its size, and as large when no address is in two of its ranges.\<close>

lemma Pool_Size_bound:
  assumes "\<forall>r \<in> set p. proper r"
  shows "\<exists>n. Pool_Size p = Some n \<and> int (card {ip. length ip = 16 \<and> Pool_Contains p ip}) \<le> n
     \<and> (sorted_wrt (\<lambda>r r'. \<forall>ip. length ip = 16 \<longrightarrow> \<not> (Range_Contains r ip \<and> Range_Contains r' ip)) p \<longrightarrow>
          int (card {ip. length ip = 16 \<and> Pool_Contains p ip}) = n)"
  using ranges.union_size [OF assms] Pool_Size_sum [OF assms] by (simp add: Pool_Contains_def list_ex_iff)

text \<open>An IPv4 address in its form of four bytes is in no range that was parsed, since the bytes are compared.\<close>

lemma four_bytes_in_no_range:
  assumes "proper r" and "Range_Family r = V4Family" and "length ip = 4"
  shows "\<not> Range_Contains r ip"
proof -
  obtain s e where r: "r = v4Range s e" using assms(2) by (cases r) auto
  then have "length s = 16" "length e = 16" "isV4IP s" "isV4IP e" using assms(1)
    by (auto simp: proper_def New_Range_def isV4RangeValid_def split: if_splits)
  then obtain p q where se: "s = v4InV6Prefix @ p" "e = v4InV6Prefix @ q" using v4ToInt_be by metis
  obtain a b c d where ip: "ip = [a, b, c, d]" using assms(3) unfolding length4 by blast
  have pre: "v4InV6Prefix = 0 # 0 # 0 # 0 # 0 # replicate 5 0 @ [255, 255]" by (simp add: v4InV6Prefix_def numeral_eq_Suc)
  have "bytes_Compare ip (v4InV6Prefix @ x) = (if a = 0 \<and> b = 0 \<and> c = 0 \<and> d = 0 then -1 else 1)" for x
    unfolding ip pre append_Cons bytes_Compare.simps by (auto simp: word_gt_0)
  then show ?thesis by (simp add: r se Range_Contains_def split: if_splits)
qed

section \<open>The text of a range\<close>

lemma lower_addr: "addr_char c \<or> c = CHR ''-'' \<or> c = CHR ''/'' \<Longrightarrow> lower_char c = c"
  by (auto simp: addr_char_def lower_char_def Let_def)

lemma ToLower_id: "\<forall>c \<in> set s. addr_char c \<or> c = CHR ''-'' \<or> c = CHR ''/'' \<Longrightarrow> ToLower s = s"
  by (induction s) (auto simp: ToLower_def lower_addr)

lemma dash_no_addr: "\<not> addr_char CHR ''-''" and slash_no_addr: "\<not> addr_char CHR ''/''"
  by (simp_all add: addr_char_def)

lemma parseRange_texts:
  assumes "length s = 16" and "length e = 16"
  shows "parseRange (IP_String s @ ''-'' @ IP_String e) = New_Range s e"
proof -
  have "CHR ''-'' \<notin> set (IP_String s)" using IP_String_chars [OF assms(1)] dash_no_addr by auto
  then show ?thesis using assms by (simp add: parseRange_def IndexByte_append ParseIP_String ip_or_nil_def)
qed

lemma ParseRange_texts:
  assumes "length s = 16" and "length e = 16"
  shows "ParseRange pkg (IP_String s @ ''-'' @ IP_String e) = (case New_Range s e of None \<Rightarrow> Inl InvalidSyntax | Some r \<Rightarrow> Inr (Some r))"
proof -
  let ?t = "IP_String s @ ''-'' @ IP_String e"
  have chars: "\<forall>c \<in> set ?t. addr_char c \<or> c = CHR ''-''" using IP_String_chars [OF assms(1)] IP_String_chars [OF assms(2)] by auto
  then have "ToLower ?t = ?t" by (intro ToLower_id) auto
  moreover have "reRange ?t" using chars by (simp add: reRange_def)
  ultimately show ?thesis using parseRange_texts [OF assms] by (simp add: ParseRange_def)
qed

lemma proper_parsed: "proper r \<Longrightarrow> ParseRange pkg (Range_String r) = Inr (Some r)"
  using ParseRange_texts [of "range_start r" "range_end r" pkg] by (simp add: proper_def Range_String_def)

lemma Range_String_inj: "proper r \<Longrightarrow> proper r' \<Longrightarrow> Range_String r = Range_String r' \<longleftrightarrow> r = r'"
  by (metis proper_parsed Inr_inject option.inject)

text \<open>
  C24. What a range prints is parsed to the same range.
\<close>

theorem ParseRange_String:
  assumes "length s = 16" and "length e = 16" and "New_Range s e = Some r"
  shows "ParseRange pkg (Range_String r) = Inr (Some r)"
  using New_Range_proper [OF assms(3,1,2)] proper_parsed by simp

text \<open>Whatever is parsed is proper: the ends were read by \<open>net.ParseIP\<close>.\<close>

lemma New_Range_ne: "New_Range a b = Some r \<Longrightarrow> a \<noteq> [] \<and> b \<noteq> []"
  by (auto simp: New_Range_def isV4RangeValid_def isV6RangeValid_def isV4IP_def isV6IP_def To4_def To16_def split: if_splits)

lemma ip_or_nil_length: "ip_or_nil (ParseIP x) \<noteq> [] \<Longrightarrow> length (ip_or_nil (ParseIP x)) = 16"
  by (cases "ParseIP x") (auto simp: ip_or_nil_def ParseIP_length)

lemma parseRange_proper: "parseRange s = Some r \<Longrightarrow> proper r"
proof -
  assume a: "parseRange s = Some r"
  obtain x y where r: "New_Range (ip_or_nil (ParseIP x)) (ip_or_nil (ParseIP y)) = Some r"
    using a by (auto simp: parseRange_def split: option.splits)
  then show "proper r" using New_Range_proper [OF r] New_Range_ne [OF r] ip_or_nil_length by simp
qed

lemma parseCIDR_proper: "parseCIDR pkg s = Some r \<Longrightarrow> proper r"
  by (auto simp: parseCIDR_def Let_def split: option.splits prod.splits dest: parseRange_proper)

lemma parseSubnetMask_proper: "parseSubnetMask pkg s = Some r \<Longrightarrow> proper r"
  by (auto simp: parseSubnetMask_def Let_def split: option.splits prod.splits if_splits dest: parseCIDR_proper)

lemma ParseRange_proper: "ParseRange pkg s = Inr (Some r) \<Longrightarrow> proper r"
proof -
  assume a: "ParseRange pkg s = Inr (Some r)"
  let ?t = "ToLower s"
  have "(if reRange ?t then parseRange ?t else if reCIDR ?t then parseCIDR pkg ?t else if reSubnetMask ?t then parseSubnetMask pkg ?t else None) = Some r"
    using a unfolding ParseRange_def Let_def by (simp split: if_split_asm option.split_asm)
  then show "proper r"
    using parseRange_proper [of ?t r] parseCIDR_proper [of pkg ?t r] parseSubnetMask_proper [of pkg ?t r] by (simp split: if_split_asm)
qed

lemma parse_parts_proper: "parse_parts pkg parts rs = Inr rs' \<Longrightarrow> \<forall>r \<in> set rs. proper r \<Longrightarrow> \<forall>r \<in> set rs'. proper r"
proof (induction parts arbitrary: rs)
  case (Cons v parts)
  show ?case
  proof (cases "ParseRange pkg v")
    case (Inl err)
    then show ?thesis using Cons.prems(1) by simp
  next
    case (Inr x)
    then show ?thesis using Cons.IH [of rs] Cons.IH [of "rs @ [the x]"] Cons.prems ParseRange_proper [of pkg v] by (cases x) simp_all
  qed
qed simp

lemma ParseRanges_proper: "ParseRanges pkg s = Inr rs \<Longrightarrow> \<forall>r \<in> set rs. proper r"
  by (auto simp: ParseRanges_def Let_def split: if_splits dest: parse_parts_proper)

section \<open>Prefixes\<close>

text \<open>What the package \<open>cidr\<close> documents: the first and the last address of a network, the next and the previous address.\<close>

definition cidr_laws :: "cidr_pkg \<Rightarrow> bool" where
  "cidr_laws pkg \<longleftrightarrow>
     (\<forall>net k. simpleMaskLength (net_Mask net) = Some k \<and> length (net_IP net) = length (net_Mask net)
          \<and> IP_Mask (net_IP net) (net_Mask net) = Some (net_IP net) \<longrightarrow>
        fst (AddressRange pkg net) = net_IP net \<and> length (snd (AddressRange pkg net)) = length (net_IP net)
        \<and> be (snd (AddressRange pkg net)) = be (net_IP net) + (2 ^ (8 * length (net_IP net) - k) - 1))
     \<and> (\<forall>ip. be ip + 1 < 256 ^ length ip \<longrightarrow> length (cidr_Inc pkg ip) = length ip \<and> be (cidr_Inc pkg ip) = be ip + 1)
     \<and> (\<forall>ip. 0 < be ip \<longrightarrow> length (cidr_Dec pkg ip) = length ip \<and> be (cidr_Dec pkg ip) = be ip - 1)"

lemma ipv4_fields_chars: "ipv4_fields fs v d s = Some r \<Longrightarrow> c \<in> set s \<Longrightarrow> mask_char c"
  by (induction fs v d s rule: ipv4_fields.induct) (auto simp: mask_char_def split: if_splits)

lemma mask_char_addr: "mask_char c \<Longrightarrow> addr_char c \<and> c \<noteq> CHR ''/'' \<and> c \<noteq> CHR ''-''"
  by (auto simp: mask_char_def addr_char_def is_digit_def)

lemma mapped16: "length p4 = 4 \<Longrightarrow> length (v4InV6Prefix @ p4) = 16 \<and> To4 (v4InV6Prefix @ p4) = Some p4"
  by (simp add: v4InV6Prefix_def To4_def)

lemma IP_String_mapped: "length p4 = 4 \<Longrightarrow> IP_String (v4InV6Prefix @ p4) = IP_String p4"
  using mapped16 [of p4] by (auto simp: IP_String_def To4_def)

lemma New_Range_v4:
  assumes "length s = 4" and "length e = 4" and "be s \<le> be e"
  shows "New_Range (v4InV6Prefix @ s) (v4InV6Prefix @ e) = Some (v4Range (v4InV6Prefix @ s) (v4InV6Prefix @ e))"
  using assms mapped16 [of s] mapped16 [of e] by (simp add: New_Range_def isV4RangeValid_def isV4IP_def Compare_be be_append)

lemma dtoi_digits: "k \<le> 32 \<Longrightarrow> dtoi (nat_digits k) = Some k"
  using nat_digits_digits [of k] by (simp add: dtoi_def unsigned_digits_def digits_val_nat_digits)

text \<open>The network of an IPv4 address and the one that \<open>net.ParseCIDR\<close> returns.\<close>

definition network4 :: "IP \<Rightarrow> nat \<Rightarrow> IPNet" where
  "network4 x k = \<lparr>net_IP = map2 and x (CIDRMask k 4), net_Mask = CIDRMask k 4\<rparr>"

lemma map2_and_idem: "length xs = length ms \<Longrightarrow> map2 and (map2 and xs ms) ms = map2 and xs (ms :: IP)"
  by (induction xs ms rule: list_induct2) (auto simp: and.assoc)

lemma ParseCIDR4:
  assumes "ParseAddr a = Some (Addr4 x)" and "k \<le> 32"
  shows "ParseCIDR (a @ ''/'' @ nat_digits k) = Some (v4InV6Prefix @ x, network4 x k)"
proof -
  have x: "length x = 4" "ipv4_fields [] 0 0 a = Some x" using ParseAddr4 [OF assms(1)] by auto
  then have "CHR ''/'' \<notin> set a" using ipv4_fields_chars mask_char_addr by blast
  then have "IndexByte (a @ ''/'' @ nat_digits k) CHR ''/'' = Some (length a)" by (simp add: IndexByte_append)
  then show ?thesis using assms x(1) mapped16 [OF x(1)] dtoi_digits
    by (simp add: ParseCIDR_def IP_Mask_def network4_def v4InV6Prefix_def Let_def)
qed

lemma network4_range:
  assumes "cidr_laws pkg" and "length x = 4" and "k \<le> 32"
  obtains n l where "AddressRange pkg (network4 x k) = (n, l)" and "length n = 4" and "length l = 4"
    and "be n = be x div 2 ^ (32 - k) * 2 ^ (32 - k)" and "be l = be n + (2 ^ (32 - k) - 1)"
proof -
  let ?net = "network4 x k"
  have n: "length (net_IP ?net) = 4" "be (net_IP ?net) = be x div 2 ^ (32 - k) * 2 ^ (32 - k)"
    using assms be_masked [of x 4 k] by (simp_all add: network4_def)
  have "IP_Mask (net_IP ?net) (net_Mask ?net) = Some (net_IP ?net)"
    using assms(2) map2_and_idem [of x "CIDRMask k 4"] by (simp add: IP_Mask_def network4_def)
  moreover have "simpleMaskLength (net_Mask ?net) = Some k" using simpleMaskLength_CIDRMask [of k 4] assms(3) by (simp add: network4_def)
  moreover have "length (net_IP ?net) = length (net_Mask ?net)" using assms(2) by (simp add: network4_def)
  ultimately have "fst (AddressRange pkg ?net) = net_IP ?net" "length (snd (AddressRange pkg ?net)) = 4"
    "be (snd (AddressRange pkg ?net)) = be (net_IP ?net) + (2 ^ (32 - k) - 1)"
    using assms(1) n(1) by (auto simp: cidr_laws_def)
  then show ?thesis using that [of "net_IP ?net" "snd (AddressRange pkg ?net)"] n by (metis prod.collapse)
qed

text \<open>The ends of the range that a prefix gives.\<close>

lemma parseCIDR4:
  assumes "cidr_laws pkg" and "ParseAddr a = Some (Addr4 x)" and "k \<le> 32"
  obtains s e where "parseCIDR pkg (a @ ''/'' @ nat_digits k) = Some (v4Range (v4InV6Prefix @ s) (v4InV6Prefix @ e))"
    and "length s = 4" and "length e = 4"
    and "be s = be x div 2 ^ (32 - k) * 2 ^ (32 - k) + (if k < 31 then 1 else 0)"
    and "be e + (if k < 31 then 1 else 0) = be x div 2 ^ (32 - k) * 2 ^ (32 - k) + (2 ^ (32 - k) - 1)"
proof -
  have x: "length x = 4" using ParseAddr4 [OF assms(2)] by simp
  obtain n l where nl: "AddressRange pkg (network4 x k) = (n, l)" "length n = 4" "length l = 4"
    "be n = be x div 2 ^ (32 - k) * 2 ^ (32 - k)" "be l = be n + (2 ^ (32 - k) - 1)" by (rule network4_range [OF assms(1) x assms(3)])
  define s where "s = (if k < 31 then cidr_Inc pkg n else n)"
  define e where "e = (if k < 31 then cidr_Dec pkg l else l)"
  have big: "(4 :: nat) \<le> 2 ^ (32 - k)" if "k < 31"
    using power_increasing [of 2 "32 - k" "2 :: nat"] that by simp
  have l: "be l < 256 ^ 4" using be_less [of l] nl(3) by simp
  have "k < 31 \<Longrightarrow> be n + 1 < 256 ^ length n" "k < 31 \<Longrightarrow> 0 < be l" using big l nl(2,3,5) by auto
  then have se: "length s = 4" "length e = 4" "be s = be n + (if k < 31 then 1 else 0)" "be e + (if k < 31 then 1 else 0) = be l"
    using assms(1) nl(2,3) by (auto simp: cidr_laws_def s_def e_def)
  have "be s \<le> be e"
  proof (cases "k < 31")
    case True
    then show ?thesis using big [OF True] nl(5) se(3,4) by simp
  next
    case False
    then have "be s = be n" "be e = be n + (2 ^ (32 - k) - 1)" using se(3,4) nl(5) by simp_all
    then show ?thesis by (simp only: le_add1)
  qed
  then have "New_Range (v4InV6Prefix @ s) (v4InV6Prefix @ e) = Some (v4Range (v4InV6Prefix @ s) (v4InV6Prefix @ e))"
    using se by (intro New_Range_v4)
  moreover have "fst (Mask_Size (net_Mask (network4 x k))) = k"
    using simpleMaskLength_CIDRMask [of k 4] assms(3) by (simp add: Mask_Size_def network4_def)
  moreover have "isV4IP (v4InV6Prefix @ x)" using mapped16 [OF x] by (simp add: isV4IP_def)
  ultimately have "parseCIDR pkg (a @ ''/'' @ nat_digits k) = Some (v4Range (v4InV6Prefix @ s) (v4InV6Prefix @ e))"
    using parseRange_texts [of "v4InV6Prefix @ s" "v4InV6Prefix @ e"] mapped16 se(1,2) nl(1) ParseCIDR4 [OF assms(2,3)]
    by (cases "k < 31") (simp_all add: parseCIDR_def IP_String_mapped isV6IP_def s_def e_def)
  then show ?thesis using that se nl(4,5) by simp
qed

lemma within_network:
  fixes y b c d :: nat
  assumes "0 < b" and "d \<le> 1"
  shows "c * b + d \<le> y \<and> y + d \<le> c * b + (b - 1) \<longleftrightarrow> y div b = c \<and> d \<le> y mod b \<and> y mod b + d \<le> b - 1"
proof -
  define q m where "q = y div b" and "m = y mod b"
  have y: "y = q * b + m" and m: "m < b" using assms(1) by (simp_all add: q_def m_def)
  have "q = c" if "c * b \<le> y" "y \<le> c * b + (b - 1)"
  proof -
    have "y < Suc c * b" using that(2) assms(1) by simp
    then show ?thesis using that(1) assms(1) unfolding q_def by (intro div_nat_eqI) (simp_all add: mult.commute)
  qed
  then show ?thesis unfolding q_def [symmetric] m_def [symmetric] using y m by auto
qed

text \<open>
  C25. A prefix of IPv4 gives exactly the addresses of its network, without the first (the network's own) and the
  last (broadcast) when it is shorter than 31, however the address in it is chosen.
\<close>

theorem ParseRange_prefix:
  assumes "cidr_laws pkg" and "ParseAddr a = Some (Addr4 x)" and "k \<le> 32"
  shows "\<exists>r. ParseRange pkg (a @ ''/'' @ nat_digits k) = Inr (Some r) \<and> Range_Family r = V4Family
     \<and> (\<forall>y. length y = 4 \<longrightarrow> (Range_Contains r (v4InV6Prefix @ y) \<longleftrightarrow>
          be y div 2 ^ (32 - k) = be x div 2 ^ (32 - k)
          \<and> (k < 31 \<longrightarrow> be y mod 2 ^ (32 - k) \<noteq> 0 \<and> be y mod 2 ^ (32 - k) \<noteq> 2 ^ (32 - k) - 1)))"
proof -
  let ?s = "a @ ''/'' @ nat_digits k"
  obtain s e where r: "parseCIDR pkg ?s = Some (v4Range (v4InV6Prefix @ s) (v4InV6Prefix @ e))" "length s = 4" "length e = 4"
    "be s = be x div 2 ^ (32 - k) * 2 ^ (32 - k) + (if k < 31 then 1 else 0)"
    "be e + (if k < 31 then 1 else 0) = be x div 2 ^ (32 - k) * 2 ^ (32 - k) + (2 ^ (32 - k) - 1)"
    by (rule parseCIDR4 [OF assms])
  have x: "ipv4_fields [] 0 0 a = Some x" using ParseAddr4 [OF assms(2)] by simp
  then have a: "\<forall>c \<in> set a. addr_char c \<and> c \<noteq> CHR ''/''" "a \<noteq> []" using ipv4_fields_chars mask_char_addr by (blast, auto)
  have d: "\<forall>c \<in> set (nat_digits k). is_digit c" "length (nat_digits k) \<in> {1..3}"
    using nat_digits_digits [of k] assms(3) by (auto simp: nat_digits.simps [of k] nat_digits.simps [of "k div 10"])
  have "ToLower ?s = ?s" using a(1) d(1) digit_addr by (intro ToLower_id) auto
  moreover have "\<not> reRange ?s" using slash_no_addr by (auto simp: reRange_def)
  moreover have "IndexByte ?s CHR ''/'' = Some (length a)" using a(1) by (auto intro: IndexByte_append)
  then have "reCIDR ?s" using a d by (simp add: reCIDR_def)
  ultimately have "ParseRange pkg ?s = Inr (Some (v4Range (v4InV6Prefix @ s) (v4InV6Prefix @ e)))" using r(1) by (simp add: ParseRange_def)
  moreover have "Range_Contains (v4Range (v4InV6Prefix @ s) (v4InV6Prefix @ e)) (v4InV6Prefix @ y) \<longleftrightarrow>
      be y div 2 ^ (32 - k) = be x div 2 ^ (32 - k)
      \<and> (k < 31 \<longrightarrow> be y mod 2 ^ (32 - k) \<noteq> 0 \<and> be y mod 2 ^ (32 - k) \<noteq> 2 ^ (32 - k) - 1)" if y: "length y = 4" for y
  proof -
    let ?d = "if k < 31 then 1 else 0 :: nat" and ?b = "2 ^ (32 - k) :: nat"
    have "Range_Contains (v4Range (v4InV6Prefix @ s) (v4InV6Prefix @ e)) (v4InV6Prefix @ y) \<longleftrightarrow> be s \<le> be y \<and> be y \<le> be e"
      using y r(2,3) mapped16 by (simp add: Contains_be be_append)
    also have "\<dots> \<longleftrightarrow> be x div ?b * ?b + ?d \<le> be y \<and> be y + ?d \<le> be x div ?b * ?b + (?b - 1)" using r(4,5) by auto
    also have "\<dots> \<longleftrightarrow> be y div ?b = be x div ?b \<and> ?d \<le> be y mod ?b \<and> be y mod ?b + ?d \<le> ?b - 1" by (intro within_network) auto
    also have "\<dots> \<longleftrightarrow> be y div ?b = be x div ?b \<and> (k < 31 \<longrightarrow> be y mod ?b \<noteq> 0 \<and> be y mod ?b \<noteq> ?b - 1)"
    proof -
      have "m < b \<Longrightarrow> (?d \<le> m \<and> m + ?d \<le> b - 1) \<longleftrightarrow> (k < 31 \<longrightarrow> m \<noteq> 0 \<and> m \<noteq> b - 1)" for m b :: nat by auto
      from this [of "be y mod ?b" ?b] show ?thesis by simp
    qed
    finally show ?thesis .
  qed
  ultimately show ?thesis by auto
qed

text \<open>Arithmetic on the numbers of addresses does what the package documents.\<close>

definition number_cidr :: cidr_pkg where
  "number_cidr = \<lparr>
     AddressRange = (\<lambda>net. (net_IP net, of_be (length (net_IP net))
        (be (net_IP net) + (2 ^ (8 * length (net_IP net) - fst (Mask_Size (net_Mask net))) - 1)))),
     cidr_Inc = (\<lambda>ip. of_be (length ip) (be ip + 1)),
     cidr_Dec = (\<lambda>ip. of_be (length ip) (be ip - 1))\<rparr>"

lemma simpleMaskLength_ones: "simpleMaskLength m = Some k \<Longrightarrow> m = CIDRMask k (length m) \<and> k \<le> 8 * length m"
proof (induction m arbitrary: k)
  case (Cons b m)
  show ?case
  proof (cases "b = 255")
    case True
    then show ?thesis using Cons by auto
  next
    case False
    then have z: "\<forall>x \<in> set m. x = 0" "byte_ones b = Some k" using Cons.prems by (auto split: if_splits)
    then have k: "unat b = 256 - 2 ^ (8 - k)" "k < 8" by (auto simp: byte_ones_def find_Some_iff)
    moreover have "of_nat (unat b) = b" by simp
    ultimately have "b = of_nat (256 - 2 ^ (8 - k))" by (simp only:)
    moreover have "m = CIDRMask 0 (length m)" using z(1) by (induction m) auto
    ultimately show ?thesis using k(2) by simp
  qed
qed simp

lemma multiple_room: "b dvd c \<Longrightarrow> m = m div b * b \<Longrightarrow> m < (c :: nat) \<Longrightarrow> 0 < b \<Longrightarrow> m + (b - 1) < c"
proof -
  assume a: "b dvd c" "m = m div b * b" "m < c" "0 < b"
  obtain q where q: "c = b * q" using a(1) by (elim dvdE)
  have "m div b < q" using a(3) q by (simp add: less_mult_imp_div_less mult.commute)
  then have "Suc (m div b) * b \<le> q * b" by (intro mult_le_mono1) simp
  then have "m + b \<le> c" using a(2) q by (simp add: mult.commute)
  then show ?thesis using a(4) by simp
qed

lemma number_cidr_laws: "cidr_laws number_cidr"
proof -
  have "be n + (2 ^ (8 * length n - k) - 1) < 256 ^ length n" if "simpleMaskLength m = Some k" "length n = length m" "IP_Mask n m = Some n" for n m k
  proof -
    have k: "m = CIDRMask k (length n)" "k \<le> 8 * length n" using simpleMaskLength_ones [OF that(1)] that(2) by simp_all
    then have "map2 and n (CIDRMask k (length n)) = n" using that(2,3) by (auto simp: IP_Mask_def Let_def split: if_splits)
    then have "be n = be n div 2 ^ (8 * length n - k) * 2 ^ (8 * length n - k)" using be_masked [OF refl k(2)] by metis
    moreover have "(2 :: nat) ^ (8 * length n - k) dvd 256 ^ length n"
      using le_imp_power_dvd [of "8 * length n - k" "8 * length n" "2 :: nat"] by (simp add: power_mult)
    ultimately show ?thesis using be_less [of n] by (intro multiple_room) simp_all
  qed
  moreover have "be ip - 1 < 256 ^ length ip" for ip using be_less [of ip] by simp
  ultimately show ?thesis by (simp add: cidr_laws_def number_cidr_def Mask_Size_def)
qed

theorem ParseRange_prefix_witness:
  "cidr_laws number_cidr \<and> (\<exists>r. ParseRange number_cidr ''10.0.0.77/24'' = Inr (Some r)
     \<and> Range_Contains r (ip4 10 0 0 254) \<and> \<not> Range_Contains r (ip4 10 0 0 255) \<and> \<not> Range_Contains r (ip4 10 0 1 7))"
proof -
  have "ParseAddr ''10.0.0.77'' = Some (Addr4 [10, 0, 0, 77])" by code_simp
  from ParseRange_prefix [OF number_cidr_laws this, of 24] obtain r where
    r: "ParseRange number_cidr (''10.0.0.77'' @ ''/'' @ nat_digits 24) = Inr (Some r)"
    and c: "\<And>y. length y = 4 \<Longrightarrow> Range_Contains r (v4InV6Prefix @ y) \<longleftrightarrow> be y div 2 ^ 8 = be [10, 0, 0, 77] div 2 ^ 8
       \<and> be y mod 2 ^ 8 \<noteq> 0 \<and> be y mod 2 ^ 8 \<noteq> 2 ^ 8 - 1" by auto
  have "nat_digits 24 = ''24''" by code_simp
  then show ?thesis using r number_cidr_laws c [of "[10, 0, 0, 254]"] c [of "[10, 0, 0, 255]"] c [of "[10, 0, 1, 7]"] by (simp add: ip4_def)
qed

theorem ParseRange_String_witness:
  "Range_String (v6Range (replicate 15 0 @ [1]) (replicate 14 0 @ [1, 5])) = ''::1-::105''
   \<and> ParseRange number_cidr ''::1-::105'' = Inr (Some (v6Range (replicate 15 0 @ [1]) (replicate 14 0 @ [1, 5])))"
proof -
  let ?s = "replicate 15 0 @ [1 :: 8 word]" and ?e = "replicate 14 0 @ [1, 5 :: 8 word]"
  have t: "Range_String (v6Range ?s ?e) = ''::1-::105''" by code_simp
  have r: "New_Range ?s ?e = Some (v6Range ?s ?e)" by code_simp
  show ?thesis using ParseRange_String [OF _ _ r] t by simp
qed

end
