(* ===== verification/Dnsmasq_Config.thy ===== *)
theory Dnsmasq_Config
  imports Iprange Filepath
begin

text \<open>
  The configuration of a dnsmasq server as the collector \<open>dnsmasq_dhcp\<close> reads it
  (\<open>modules/dnsmasq_dhcp/parse_configuration.go\<close>): a file may include files and directories, whose files
  may include more, and the ranges and hosts of all of them count.  The file system is a parameter.
  The search has fuel for its depth; it is shown that a number of steps above the number of the files
  that can be named is enough, that then every file is read once, and which ones are.
\<close>

section \<open>Files\<close>

text \<open>What \<open>os.Open\<close> returns: whether the file is regular and when it was modified (unless \<open>Stat\<close> fails), and what can be
  read from it.  A directory is a list of names, each with whether it is a regular file unless \<open>Info\<close> fails.\<close>

record os_file =
  f_Stat :: "(bool \<times> int) option"
  f_data :: string

record dn_fs =
  os_Open :: "string \<Rightarrow> os_file option"
  os_ReadDir :: "string \<Rightarrow> (string \<times> bool option) list option"

text \<open>The lines \<open>bufio.Scanner\<close> delivers: without the line feed and a carriage return before it, and none from
  the first line on that does not fit its buffer of 64 KB.\<close>

definition MaxScanTokenSize :: nat where
  "MaxScanTokenSize = 65536"

definition dropCR :: "string \<Rightarrow> string" where
  "dropCR s = (if s \<noteq> [] \<and> last s = char_of (13 :: nat) then butlast s else s)"

fun scan_lines :: "string list \<Rightarrow> string list" where
  "scan_lines [] = []"
| "scan_lines (raw # rest) =
     (if MaxScanTokenSize \<le> length raw then [] else if rest = [] \<and> raw = [] then [] else dropCR raw # scan_lines rest)"

definition Scan_all :: "string \<Rightarrow> string list" where
  "Scan_all s = scan_lines (SplitByte s (char_of (10 :: nat)))"

definition openFile :: "dn_fs \<Rightarrow> string \<Rightarrow> os_file option" where
  "openFile fs filepath = (case os_Open fs filepath of None \<Rightarrow> None | Some f \<Rightarrow>
     (case f_Stat f of None \<Rightarrow> None | Some (regular, mtime) \<Rightarrow> if \<not> regular then None else Some f))"

record configFile =
  cf_path :: string
  cf_options :: "(string \<times> string) list"

definition cf_get :: "configFile \<Rightarrow> string \<Rightarrow> string list" where
  "cf_get cf name = map snd (filter (\<lambda>(key, value). key = name) (cf_options cf))"

text \<open>One line of a configuration: \<open>key=value\<close>, blanks removed.\<close>

definition conf_option :: "string \<Rightarrow> (string \<times> string) list" where
  "conf_option text = (let line = TrimSpace text in
     if HasPrefix line ''#'' then []
     else if \<not> Contains line ''='' then []
     else case SplitByte (filter (\<lambda>c. c \<noteq> CHR '' '') line) (CHR ''='') of
            [key, value] \<Rightarrow> [(key, value)]
          | _ \<Rightarrow> [])"

definition parseConfFile :: "dn_fs \<Rightarrow> string \<Rightarrow> configFile option" where
  "parseConfFile fs filename = (case openFile fs filename of None \<Rightarrow> None | Some f \<Rightarrow>
     Some \<lparr>cf_path = filename, cf_options = concat (map conf_option (Scan_all (f_data f)))\<rparr>)"

section \<open>Directories\<close>

record configDir =
  cd_path :: string
  cd_include :: "string list"
  cd_exclude :: "string list"

definition extensions_match :: "string list \<Rightarrow> string \<Rightarrow> bool" where
  "extensions_match es filename = list_ex (\<lambda>e. HasSuffix filename e) es"

fun conf_dir_args :: "string list \<Rightarrow> configDir \<Rightarrow> configDir" where
  "conf_dir_args [] cd = cd"
| "conf_dir_args (a # args) cd = (let arg = TrimSpace a in
     conf_dir_args args (if HasPrefix arg ''*'' then cd\<lparr>cd_include := cd_include cd @ [drop 1 arg]\<rparr>
                         else cd\<lparr>cd_exclude := cd_exclude cd @ [arg]\<rparr>))"

definition parseConfDir :: "string \<Rightarrow> configDir" where
  "parseConfDir confDirStr = (let parts = SplitByte confDirStr (CHR '','') in
     conf_dir_args (tl parts) \<lparr>cd_path = hd parts, cd_include = [], cd_exclude = []\<rparr>)"

definition isValidFilename :: "string \<Rightarrow> bool" where
  "isValidFilename filename \<longleftrightarrow> \<not> (HasPrefix filename ''.'' \<or> HasPrefix filename ''~''
     \<or> HasPrefix filename ''#'' \<and> HasSuffix filename ''#'')"

definition configDir_match :: "configDir \<Rightarrow> string \<Rightarrow> bool" where
  "configDir_match cd filename \<longleftrightarrow> \<not> (\<not> isValidFilename filename
     \<or> cd_include cd \<noteq> [] \<and> \<not> extensions_match (cd_include cd) filename
     \<or> extensions_match (cd_exclude cd) filename)"

fun dir_files :: "configDir \<Rightarrow> (string \<times> bool option) list \<Rightarrow> string list option" where
  "dir_files cd [] = Some []"
| "dir_files cd ((name, info) # fis) = (case info of
      None \<Rightarrow> None
    | Some regular \<Rightarrow> (if \<not> regular \<or> \<not> configDir_match cd name then dir_files cd fis
                       else map_option (\<lambda>files. filepath_Join [cd_path cd, name] # files) (dir_files cd fis)))"

definition findConfigs :: "dn_fs \<Rightarrow> configDir \<Rightarrow> string list option" where
  "findConfigs fs cd = (case os_ReadDir fs (cd_path cd) of None \<Rightarrow> None | Some fis \<Rightarrow> dir_files cd fis)"

section \<open>The search\<close>

record ConfigFinder =
  visitedConfigs :: "string set"
  visitedDirs :: "string set"

text \<open>\<open>recursiveFind\<close> and its two loops; the number is the depth of recursion that is left, \<^const>\<open>None\<close> that it was not enough.\<close>

function (sequential) recursiveFind :: "nat \<Rightarrow> dn_fs \<Rightarrow> string \<Rightarrow> ConfigFinder \<Rightarrow> (configFile list \<times> ConfigFinder) option"
  and find_conf_files :: "nat \<Rightarrow> dn_fs \<Rightarrow> string list \<Rightarrow> ConfigFinder \<Rightarrow> (configFile list \<times> ConfigFinder) option"
  and find_conf_dirs :: "nat \<Rightarrow> dn_fs \<Rightarrow> string list \<Rightarrow> ConfigFinder \<Rightarrow> (configFile list \<times> ConfigFinder) option" where
  "recursiveFind 0 fs filename f = None"
| "recursiveFind (Suc n) fs filename f =
     (if filename \<in> visitedConfigs f then Some ([], f)
      else case parseConfFile fs filename of
        None \<Rightarrow> Some ([], f)
      | Some config \<Rightarrow>
          (case find_conf_files n fs (cf_get config ''conf-file'') (f\<lparr>visitedConfigs := insert filename (visitedConfigs f)\<rparr>) of
             None \<Rightarrow> None
           | Some (configs, f1) \<Rightarrow>
               (case find_conf_dirs n fs (cf_get config ''conf-dir'') f1 of
                  None \<Rightarrow> None
                | Some (configs', f2) \<Rightarrow> Some (config # configs @ configs', f2))))"
| "find_conf_files n fs [] f = Some ([], f)"
| "find_conf_files n fs (file # files) f = (case recursiveFind n fs file f of None \<Rightarrow> None | Some (configs, f1) \<Rightarrow>
     (case find_conf_files n fs files f1 of None \<Rightarrow> None | Some (configs', f2) \<Rightarrow> Some (configs @ configs', f2)))"
| "find_conf_dirs n fs [] f = Some ([], f)"
| "find_conf_dirs n fs (dir # dirs) f =
     (if dir = [] then find_conf_dirs n fs dirs f
      else let d = parseConfDir dir in
        if cd_path d \<in> visitedDirs f then find_conf_dirs n fs dirs f
        else let f = f\<lparr>visitedDirs := insert (cd_path d) (visitedDirs f)\<rparr> in
          case findConfigs fs d of
            None \<Rightarrow> find_conf_dirs n fs dirs f
          | Some files \<Rightarrow> (case find_conf_files n fs files f of None \<Rightarrow> None | Some (configs, f1) \<Rightarrow>
              (case find_conf_dirs n fs dirs f1 of None \<Rightarrow> None | Some (configs', f2) \<Rightarrow> Some (configs @ configs', f2))))"
  by pat_completeness auto

termination
  by (relation "inv_image (less_than <*lex*> less_than <*lex*> less_than)
      (\<lambda>x. case x of Inl (n, fs, file, f) \<Rightarrow> (n, 0, 0)
                   | Inr (Inl (n, fs, files, f)) \<Rightarrow> (n, 1, length files)
                   | Inr (Inr (n, fs, dirs, f)) \<Rightarrow> (n, 2, length dirs))") auto

definition entryDirConfigs :: "dn_fs \<Rightarrow> string \<Rightarrow> string list" where
  "entryDirConfigs fs entryDir = (if entryDir = [] then []
     else case findConfigs fs (parseConfDir entryDir) of None \<Rightarrow> [] | Some files \<Rightarrow> files)"

definition ConfigFinder_find :: "nat \<Rightarrow> dn_fs \<Rightarrow> string \<Rightarrow> string \<Rightarrow> configFile list option" where
  "ConfigFinder_find n fs entryConfig entryDir =
     (case recursiveFind n fs entryConfig \<lparr>visitedConfigs = {}, visitedDirs = {}\<rparr> of None \<Rightarrow> None | Some (configs, f) \<Rightarrow>
       (case find_conf_files n fs (entryDirConfigs fs entryDir) f of None \<Rightarrow> None | Some (configs', f') \<Rightarrow> Some (configs @ configs')))"

definition findConfigurationFiles :: "nat \<Rightarrow> dn_fs \<Rightarrow> string \<Rightarrow> string \<Rightarrow> configFile list option" where
  "findConfigurationFiles n fs entryConfig entryDir = ConfigFinder_find n fs entryConfig entryDir"

section \<open>What the search finds\<close>

lemma Scan_one_line:
  assumes "char_of (10 :: nat) \<notin> set s" and "s \<noteq> []" and "length s < 65536" and "last s \<noteq> char_of (13 :: nat)"
  shows "Scan_all s = [s]"
  using assms by (simp add: Scan_all_def SplitByte_no_sep_id MaxScanTokenSize_def dropCR_def)

text \<open>The names a file includes, and the names that can be reached from the first ones.\<close>

definition included_names :: "dn_fs \<Rightarrow> configFile \<Rightarrow> string set" where
  "included_names fs c = set (cf_get c ''conf-file'')
     \<union> (\<Union>d \<in> set (cf_get c ''conf-dir'') - {[]}. case findConfigs fs (parseConfDir d) of None \<Rightarrow> {} | Some files \<Rightarrow> set files)"

inductive conf_reach :: "dn_fs \<Rightarrow> string set \<Rightarrow> string \<Rightarrow> bool" for fs and S where
  first: "x \<in> S \<Longrightarrow> conf_reach fs S x"
| included: "conf_reach fs S x \<Longrightarrow> parseConfFile fs x = Some c \<Longrightarrow> y \<in> included_names fs c \<Longrightarrow> conf_reach fs S y"

definition closed_names :: "dn_fs \<Rightarrow> string set \<Rightarrow> bool" where
  "closed_names fs R \<longleftrightarrow> (\<forall>x \<in> R. \<forall>c. parseConfFile fs x = Some c \<longrightarrow> included_names fs c \<subseteq> R)"

definition dir_values :: "dn_fs \<Rightarrow> string set \<Rightarrow> string set" where
  "dir_values fs R = {d. d \<noteq> [] \<and> (\<exists>x \<in> R. \<exists>c. parseConfFile fs x = Some c \<and> d \<in> set (cf_get c ''conf-dir''))}"

definition handled :: "dn_fs \<Rightarrow> ConfigFinder \<Rightarrow> string \<Rightarrow> bool" where
  "handled fs f x \<longleftrightarrow> x \<in> visitedConfigs f \<or> parseConfFile fs x = None"

text \<open>What is known of a file and of a directory once the search is through with them.  A directory that was visited
  before may still be in work further up, so that nothing is said of its files where it is named again.\<close>

definition config_done :: "dn_fs \<Rightarrow> string set \<Rightarrow> ConfigFinder \<Rightarrow> configFile \<Rightarrow> bool" where
  "config_done fs R f c \<longleftrightarrow> cf_path c \<in> R \<and> parseConfFile fs (cf_path c) = Some c
     \<and> (\<forall>y \<in> set (cf_get c ''conf-file''). handled fs f y)
     \<and> (\<forall>d \<in> set (cf_get c ''conf-dir'') - {[]}. cd_path (parseConfDir d) \<in> visitedDirs f)"

definition dir_done :: "dn_fs \<Rightarrow> string set \<Rightarrow> ConfigFinder \<Rightarrow> string \<Rightarrow> bool" where
  "dir_done fs R f p \<longleftrightarrow> (\<exists>d \<in> dir_values fs R. cd_path (parseConfDir d) = p
     \<and> (\<forall>files. findConfigs fs (parseConfDir d) = Some files \<longrightarrow> (\<forall>y \<in> set files. handled fs f y)))"

text \<open>A part of the search, from one state of the finder to a later one: it returns the files that were not visited before.\<close>

definition searched :: "dn_fs \<Rightarrow> string set \<Rightarrow> ConfigFinder \<Rightarrow> configFile list \<Rightarrow> ConfigFinder \<Rightarrow> bool" where
  "searched fs R f cs f' \<longleftrightarrow>
     visitedConfigs f \<subseteq> visitedConfigs f' \<and> visitedDirs f \<subseteq> visitedDirs f'
     \<and> distinct (map cf_path cs) \<and> cf_path ` set cs = visitedConfigs f' - visitedConfigs f
     \<and> (\<forall>c \<in> set cs. config_done fs R f' c) \<and> (\<forall>p \<in> visitedDirs f' - visitedDirs f. dir_done fs R f' p)"

lemma handled_mono: "handled fs f x \<Longrightarrow> visitedConfigs f \<subseteq> visitedConfigs f' \<Longrightarrow> handled fs f' x"
  by (auto simp: handled_def)

lemma config_done_mono:
  "config_done fs R f c \<Longrightarrow> visitedConfigs f \<subseteq> visitedConfigs f' \<Longrightarrow> visitedDirs f \<subseteq> visitedDirs f' \<Longrightarrow> config_done fs R f' c"
  unfolding config_done_def using handled_mono by blast

lemma dir_done_mono: "dir_done fs R f p \<Longrightarrow> visitedConfigs f \<subseteq> visitedConfigs f' \<Longrightarrow> dir_done fs R f' p"
  unfolding dir_done_def using handled_mono by blast

lemma searched_refl: "searched fs R f [] f"
  by (simp add: searched_def)

lemma searched_mono: "searched fs R f cs f' \<Longrightarrow> visitedConfigs f \<subseteq> visitedConfigs f' \<and> visitedDirs f \<subseteq> visitedDirs f'"
  by (simp add: searched_def)

lemma searched_append:
  assumes "searched fs R f cs f1" and "searched fs R f1 cs' f2"
  shows "searched fs R f (cs @ cs') f2"
proof -
  note m = searched_mono [OF assms(1)] searched_mono [OF assms(2)]
  have i: "cf_path ` set cs = visitedConfigs f1 - visitedConfigs f" "cf_path ` set cs' = visitedConfigs f2 - visitedConfigs f1"
    "distinct (map cf_path cs)" "distinct (map cf_path cs')" using assms by (simp_all add: searched_def)
  then have "distinct (map cf_path (cs @ cs'))" by auto
  moreover have "cf_path ` set (cs @ cs') = visitedConfigs f2 - visitedConfigs f" unfolding set_append image_Un i using m by auto
  moreover have "\<forall>c \<in> set (cs @ cs'). config_done fs R f2 c"
    using assms m config_done_mono [of fs R f1 _ f2] by (auto simp: searched_def)
  moreover have "\<forall>p \<in> visitedDirs f2 - visitedDirs f. dir_done fs R f2 p"
    using assms m dir_done_mono [of fs R f1 _ f2] by (auto simp: searched_def)
  ultimately show ?thesis using m unfolding searched_def by blast
qed

definition finds_file :: "nat \<Rightarrow> dn_fs \<Rightarrow> string set \<Rightarrow> bool" where
  "finds_file n fs R \<longleftrightarrow> (\<forall>x f. x \<in> R \<longrightarrow> card (R - visitedConfigs f) < n \<longrightarrow>
     (\<exists>cs f'. recursiveFind n fs x f = Some (cs, f') \<and> searched fs R f cs f' \<and> handled fs f' x))"

lemma fewer_left: "finite R \<Longrightarrow> V \<subseteq> V' \<Longrightarrow> card (R - V) < n \<Longrightarrow> card (R - V') < (n :: nat)"
  by (meson Diff_mono card_mono finite_Diff le_less_trans order_refl)

lemma find_conf_files_finds:
  assumes "finds_file n fs R" and "finite R"
  shows "set xs \<subseteq> R \<Longrightarrow> card (R - visitedConfigs f) < n \<Longrightarrow>
     \<exists>cs f'. find_conf_files n fs xs f = Some (cs, f') \<and> searched fs R f cs f' \<and> (\<forall>y \<in> set xs. handled fs f' y)"
proof (induction xs arbitrary: f)
  case (Cons x xs)
  obtain cs f1 where 1: "recursiveFind n fs x f = Some (cs, f1)" "searched fs R f cs f1" "handled fs f1 x"
    using assms(1) Cons.prems unfolding finds_file_def by (meson list.set_intros(1) subsetD)
  have "card (R - visitedConfigs f1) < n"
    using fewer_left [OF assms(2) _ Cons.prems(2)] searched_mono [OF 1(2)] by blast
  then obtain cs' f2 where 2: "find_conf_files n fs xs f1 = Some (cs', f2)" "searched fs R f1 cs' f2" "\<forall>y \<in> set xs. handled fs f2 y"
    using Cons.IH [of f1] Cons.prems(1) by auto
  then show ?case using 1 searched_append [OF 1(2) 2(2)] handled_mono [OF 1(3)] searched_mono [OF 2(2)] by simp
qed (simp add: searched_refl)

lemma dir_values_files:
  assumes "closed_names fs R" and "d \<in> dir_values fs R" and "findConfigs fs (parseConfDir d) = Some files"
  shows "set files \<subseteq> R"
proof -
  obtain x c where c: "x \<in> R" "parseConfFile fs x = Some c" "d \<in> set (cf_get c ''conf-dir'') - {[]}" using assms(2) by (auto simp: dir_values_def)
  then have "set files \<subseteq> included_names fs c" using assms(3) by (force simp: included_names_def)
  then show ?thesis using assms(1) c by (auto simp: closed_names_def)
qed

lemma find_conf_dirs_finds:
  assumes "finds_file n fs R" and "finite R" and "closed_names fs R"
  shows "set ds - {[]} \<subseteq> dir_values fs R \<Longrightarrow> card (R - visitedConfigs f) < n \<Longrightarrow>
     \<exists>cs f'. find_conf_dirs n fs ds f = Some (cs, f') \<and> searched fs R f cs f'
       \<and> (\<forall>d \<in> set ds - {[]}. cd_path (parseConfDir d) \<in> visitedDirs f')"
proof (induction ds arbitrary: f)
  case (Cons d ds)
  let ?p = "cd_path (parseConfDir d)"
  define g where "g = f\<lparr>visitedDirs := insert ?p (visitedDirs f)\<rparr>"
  have ih: "\<exists>cs f'. find_conf_dirs n fs ds f1 = Some (cs, f') \<and> searched fs R f1 cs f'
       \<and> (\<forall>d \<in> set ds - {[]}. cd_path (parseConfDir d) \<in> visitedDirs f')" if "visitedConfigs f \<subseteq> visitedConfigs f1" for f1
    using Cons.IH [of f1] Cons.prems fewer_left [OF assms(2) that] by auto
  consider "d = []" | "d \<noteq> []" "?p \<in> visitedDirs f" | "d \<noteq> []" "?p \<notin> visitedDirs f" by blast
  then show ?case
  proof cases
    case 1
    then show ?thesis using ih [of f] by auto
  next
    case 2
    then show ?thesis using ih [of f] searched_mono by fastforce
  next
    case 3
    have d: "d \<in> dir_values fs R" using 3(1) Cons.prems(1) by auto
    define files where "files = (case findConfigs fs (parseConfDir d) of None \<Rightarrow> [] | Some files \<Rightarrow> files)"
    have "set files \<subseteq> R"
      using dir_values_files [OF assms(3) d] by (cases "findConfigs fs (parseConfDir d)") (simp_all add: files_def)
    moreover have "card (R - visitedConfigs g) < n" using Cons.prems(2) by (simp add: g_def)
    ultimately obtain cs f1 where 1: "find_conf_files n fs files g = Some (cs, f1)" "searched fs R g cs f1" "\<forall>y \<in> set files. handled fs f1 y"
      using find_conf_files_finds [OF assms(1,2)] by meson
    have new: "searched fs R f cs f1"
    proof -
      have "dir_done fs R f1 ?p" unfolding dir_done_def using d 1(3) by (intro bexI [of _ d]) (auto simp: files_def)
      then show ?thesis using 1(2) by (auto simp: searched_def g_def)
    qed
    obtain cs' f2 where 2: "find_conf_dirs n fs ds f1 = Some (cs', f2)" "searched fs R f1 cs' f2"
        "\<forall>d \<in> set ds - {[]}. cd_path (parseConfDir d) \<in> visitedDirs f2"
      using ih [of f1] searched_mono [OF new] by blast
    have "?p \<in> visitedDirs f2" using searched_mono [OF 1(2)] searched_mono [OF 2(2)] by (auto simp: g_def)
    moreover have "find_conf_dirs n fs (d # ds) f = Some (cs @ cs', f2)"
      using 3 1(1) 2(1) by (cases "findConfigs fs (parseConfDir d)") (auto simp: Let_def g_def files_def)
    ultimately show ?thesis using searched_append [OF new 2(2)] 2(3) by auto
  qed
qed (simp add: searched_refl)

lemma parseConfFile_path: "parseConfFile fs x = Some c \<Longrightarrow> cf_path c = x"
  by (auto simp: parseConfFile_def split: option.splits)

lemma recursiveFind_finds:
  assumes "finite R" and "closed_names fs R"
  shows "finds_file n fs R"
proof (induction n)
  case (Suc n)
  show ?case unfolding finds_file_def
  proof (intro allI impI)
    fix x and f :: ConfigFinder assume x: "x \<in> R" and n: "card (R - visitedConfigs f) < Suc n"
    show "\<exists>cs f'. recursiveFind (Suc n) fs x f = Some (cs, f') \<and> searched fs R f cs f' \<and> handled fs f' x"
    proof (cases "handled fs f x")
      case True
      then show ?thesis by (auto simp: handled_def searched_refl)
    next
      case False
      then obtain c where c: "x \<notin> visitedConfigs f" "parseConfFile fs x = Some c" by (auto simp: handled_def)
      define g where "g = f\<lparr>visitedConfigs := insert x (visitedConfigs f)\<rparr>"
      have left: "card (R - visitedConfigs g) < n"
      proof -
        have eq: "R - visitedConfigs g = (R - visitedConfigs f) - {x}" by (auto simp: g_def)
        have "card (R - visitedConfigs g) < card (R - visitedConfigs f)"
          unfolding eq by (rule card_Diff1_less) (use x c(1) assms(1) in simp_all)
        then show ?thesis using n by linarith
      qed
      have inc: "included_names fs c \<subseteq> R" using assms(2) x c(2) by (auto simp: closed_names_def)
      then have "set (cf_get c ''conf-file'') \<subseteq> R" by (auto simp: included_names_def)
      then obtain cs f1 where 1: "find_conf_files n fs (cf_get c ''conf-file'') g = Some (cs, f1)" "searched fs R g cs f1"
          "\<forall>y \<in> set (cf_get c ''conf-file''). handled fs f1 y"
        using find_conf_files_finds [OF Suc.IH assms(1) _ left] by blast
      have "set (cf_get c ''conf-dir'') - {[]} \<subseteq> dir_values fs R" using x c(2) by (auto simp: dir_values_def)
      moreover have "card (R - visitedConfigs f1) < n" using fewer_left [OF assms(1) _ left] searched_mono [OF 1(2)] by blast
      ultimately obtain cs' f2 where 2: "find_conf_dirs n fs (cf_get c ''conf-dir'') f1 = Some (cs', f2)" "searched fs R f1 cs' f2"
          "\<forall>d \<in> set (cf_get c ''conf-dir'') - {[]}. cd_path (parseConfDir d) \<in> visitedDirs f2"
        using find_conf_dirs_finds [OF Suc.IH assms] by blast
      have all: "searched fs R g (cs @ cs') f2" using 1(2) 2(2) by (rule searched_append)
      have h: "\<forall>y \<in> set (cf_get c ''conf-file''). handled fs f2 y" using 1(3) handled_mono searched_mono [OF 2(2)] by blast
      have "config_done fs R f2 c" using h 2(3) x c(2) parseConfFile_path [OF c(2)] by (simp add: config_done_def)
      then have "searched fs R f (c # cs @ cs') f2"
        using all c(1) parseConfFile_path [OF c(2)] by (auto simp: searched_def g_def)
      moreover have "handled fs f2 x" using searched_mono [OF all] by (auto simp: handled_def g_def)
      ultimately show ?thesis using 1(1) 2(1) c by (simp add: g_def)
    qed
  qed
qed (simp add: finds_file_def)

lemma conf_search_complete:
  assumes "searched fs R \<lparr>visitedConfigs = {}, visitedDirs = {}\<rparr> cs f" and "\<forall>y \<in> S. handled fs f y" and "R = {x. conf_reach fs S x}"
    and agree: "\<forall>d \<in> dir_values fs R. \<forall>d' \<in> dir_values fs R. cd_path (parseConfDir d) = cd_path (parseConfDir d')
           \<longrightarrow> findConfigs fs (parseConfDir d) = findConfigs fs (parseConfDir d')"
  shows "c \<in> set cs \<longleftrightarrow> (\<exists>x \<in> R. parseConfFile fs x = Some c)"
proof -
  have cs: "cf_path ` set cs = visitedConfigs f" "\<And>c. c \<in> set cs \<Longrightarrow> config_done fs R f c" "\<And>p. p \<in> visitedDirs f \<Longrightarrow> dir_done fs R f p"
    using assms(1) by (simp_all add: searched_def)
  have in_cs: "c \<in> set cs" if handled: "handled fs f x" and c: "parseConfFile fs x = Some c" for x c
  proof -
    have "x \<in> cf_path ` set cs" using handled c cs(1) by (simp add: handled_def)
    then show ?thesis using cs(2) c by (fastforce simp: config_done_def)
  qed
  have "handled fs f x" if "conf_reach fs S x" for x using that
  proof induction
    case (included x c y)
    have fin: "config_done fs R f c" using cs(2) in_cs [OF included.IH included.hyps(2)] by simp
    consider "y \<in> set (cf_get c ''conf-file'')"
      | d files where "d \<in> set (cf_get c ''conf-dir'') - {[]}" "findConfigs fs (parseConfDir d) = Some files" "y \<in> set files"
      using included.hyps(3) by (auto simp: included_names_def split: option.splits)
    then show ?case
    proof cases
      case 1
      then show ?thesis using fin by (simp add: config_done_def)
    next
      case 2
      then have "dir_done fs R f (cd_path (parseConfDir d))" using fin cs(3) by (auto simp: config_done_def)
      moreover have "d \<in> dir_values fs R" using 2(1) included.hyps(1,2) by (auto simp: dir_values_def assms(3))
      ultimately show ?thesis using 2(2,3) agree unfolding dir_done_def by metis
    qed
  qed (use assms(2) in auto)
  then show ?thesis using in_cs cs(2) unfolding assms(3) config_done_def by blast
qed


text \<open>Two files that include each other.\<close>

definition circle_fs :: dn_fs where
  "circle_fs = \<lparr>os_Open = (\<lambda>p. if p = ''/a'' then Some \<lparr>f_Stat = Some (True, 0), f_data = ''conf-file=/b''\<rparr>
       else if p = ''/b'' then Some \<lparr>f_Stat = Some (True, 0), f_data = ''conf-file=/a''\<rparr> else None),
     os_ReadDir = (\<lambda>p. None)\<rparr>"



end
