(* ===== verification/Dnsmasq.thy ===== *)
theory Dnsmasq
  imports Dnsmasq_Config Charts Metrics
begin

text \<open>
  The collector \<open>dnsmasq_dhcp\<close> (\<open>modules/dnsmasq_dhcp\<close>): the ranges and hosts of the configuration, the leases, what is
  counted for each range, and the charts of the ranges.  Shown: every address counts at the first range that holds it,
  and as long as no address occurs twice no range reports more leases than it has addresses; an
  address that is both a host of the configuration and leased counts twice; and the charts of a range that is gone
  are never removed.
\<close>

section \<open>Ranges and hosts of the configuration\<close>

text \<open>What is a parameter: the package \<open>cidr\<close>, the order \<open>sort.Slice\<close> gives to ranges of one family, and floating point arithmetic.\<close>

record 'f dn_env =
  dn_cidr :: cidr_pkg
  dn_sort :: "Range list \<Rightarrow> Range list"
  dn_float :: "'f float_env"
  dn_Round :: "'f \<Rightarrow> 'f"

text \<open>\<open>reDHCPRange.FindStringSubmatch\<close>: the leftmost place where two runs of the characters of addresses have a comma between them.\<close>

fun reDHCPRange :: "string \<Rightarrow> (string \<times> string) option" where
  "reDHCPRange [] = None"
| "reDHCPRange (c # s) =
     (let a = takeWhile addr_char (c # s); r = dropWhile addr_char (c # s)
      in if a \<noteq> [] \<and> r \<noteq> [] \<and> hd r = CHR '','' \<and> takeWhile addr_char (tl r) \<noteq> []
         then Some (a, takeWhile addr_char (tl r)) else reDHCPRange s)"

definition parseDHCPRangeValue :: "string \<Rightarrow> string" where
  "parseDHCPRangeValue s =
     (if Contains s ''ra-stateless'' then []
      else case reDHCPRange s of None \<Rightarrow> [] | Some (m1, m2) \<Rightarrow>
        (case (ParseIP m1, ParseIP m2) of
           (Some start, Some end) \<Rightarrow> IP_String start @ ''-'' @ IP_String end
         | _ \<Rightarrow> []))"

text \<open>\<open>reDHCPHostV4.FindString\<close>: groups of one to three digits before dots, and up to three digits; \<open>reDHCPHostV6.FindString\<close>.\<close>

fun v4_groups :: "nat \<Rightarrow> string \<Rightarrow> string option" where
  "v4_groups 0 s = (let d = take 3 (takeWhile is_digit s) in if d = [] then None else Some d)"
| "v4_groups (Suc k) s = (let d = takeWhile is_digit s; r = dropWhile is_digit s in
     if d \<noteq> [] \<and> length d \<le> 3 \<and> r \<noteq> [] \<and> hd r = CHR ''.'' then map_option (\<lambda>m. d @ ''.'' @ m) (v4_groups k (tl r)) else None)"

fun reDHCPHostV4 :: "string \<Rightarrow> string" where
  "reDHCPHostV4 [] = []"
| "reDHCPHostV4 (c # s) = (case v4_groups 3 (c # s) of Some m \<Rightarrow> m | None \<Rightarrow> reDHCPHostV4 s)"

fun reDHCPHostV6 :: "string \<Rightarrow> string" where
  "reDHCPHostV6 [] = []"
| "reDHCPHostV6 (c # s) = (let a = takeWhile addr_char s; r = dropWhile addr_char s in
     if c = CHR ''['' \<and> a \<noteq> [] \<and> r \<noteq> [] \<and> hd r = CHR '']'' then ''['' @ a @ '']'' else reDHCPHostV6 s)"

definition parseDHCPHostValue :: "string \<Rightarrow> string" where
  "parseDHCPHostValue s = (if Contains s ''['' then TrimBytes (reDHCPHostV6 s) {CHR ''['', CHR '']''} else reDHCPHostV4 s)"

fun dhcp_ranges :: "'f dn_env \<Rightarrow> string list \<Rightarrow> string set \<Rightarrow> Range list \<Rightarrow> Range list" where
  "dhcp_ranges e [] seen dhcpRanges = dhcpRanges"
| "dhcp_ranges e (value # values) seen dhcpRanges =
     (let parsed = parseDHCPRangeValue value in
      if parsed = [] \<or> parsed \<in> seen then dhcp_ranges e values seen dhcpRanges
      else case ParseRange (dn_cidr e) parsed of
             Inr (Some r) \<Rightarrow> dhcp_ranges e values (insert parsed seen) (dhcpRanges @ [r])
           | _ \<Rightarrow> dhcp_ranges e values (insert parsed seen) dhcpRanges)"

definition getDHCPRanges :: "'f dn_env \<Rightarrow> configFile list \<Rightarrow> Range list" where
  "getDHCPRanges e configs = dn_sort e (dhcp_ranges e (concat (map (\<lambda>conf. cf_get conf ''dhcp-range'') configs)) {} [])"

fun dhcp_hosts :: "string list \<Rightarrow> string set \<Rightarrow> IP list \<Rightarrow> IP list" where
  "dhcp_hosts [] seen dhcpHosts = dhcpHosts"
| "dhcp_hosts (value # values) seen dhcpHosts =
     (let parsed = parseDHCPHostValue value in
      if parsed = [] \<or> parsed \<in> seen then dhcp_hosts values seen dhcpHosts
      else case ParseIP parsed of
             None \<Rightarrow> dhcp_hosts values (insert parsed seen) dhcpHosts
           | Some v \<Rightarrow> dhcp_hosts values (insert parsed seen) (dhcpHosts @ [v]))"

definition getDHCPHosts :: "configFile list \<Rightarrow> IP list" where
  "getDHCPHosts configs = dhcp_hosts (concat (map (\<lambda>conf. cf_get conf ''dhcp-host'') configs)) {} []"

section \<open>Charts\<close>

definition charts :: Charts where
  "charts = [
     zero_chart\<lparr>c_ID := ''dhcp_ranges'', c_Title := ''Number of DHCP Ranges'', c_Units := ''ranges'', c_Fam := ''dhcp ranges'',
       c_Ctx := ''dnsmasq_dhcp.dhcp_ranges'', c_Type := Stacked, c_Priority := 70002,
       c_Dims := [zero_dim\<lparr>d_ID := ''ipv4_dhcp_ranges'', d_Name := ''ipv4''\<rparr>, zero_dim\<lparr>d_ID := ''ipv6_dhcp_ranges'', d_Name := ''ipv6''\<rparr>]\<rparr>,
     zero_chart\<lparr>c_ID := ''dhcp_hosts'', c_Title := ''Number of DHCP Hosts'', c_Units := ''hosts'', c_Fam := ''dhcp hosts'',
       c_Ctx := ''dnsmasq_dhcp.dhcp_host'', c_Type := Stacked, c_Priority := 70003,
       c_Dims := [zero_dim\<lparr>d_ID := ''ipv4_dhcp_hosts'', d_Name := ''ipv4''\<rparr>, zero_dim\<lparr>d_ID := ''ipv6_dhcp_hosts'', d_Name := ''ipv6''\<rparr>]\<rparr>]"

definition util_id :: "string \<Rightarrow> string" where
  "util_id dhcpRange = ''dhcp_range_'' @ dhcpRange @ ''_utilization''"

definition leases_id :: "string \<Rightarrow> string" where
  "leases_id dhcpRange = ''dhcp_range_'' @ dhcpRange @ ''_allocated_leases''"

definition newDHCPRangeCharts :: "string \<Rightarrow> Charts" where
  "newDHCPRangeCharts dhcpRange = [
     zero_chart\<lparr>c_ID := util_id dhcpRange, c_Title := ''DHCP Range utilization'', c_Units := ''percentage'',
       c_Fam := ''dhcp range utilization'', c_Ctx := ''dnsmasq_dhcp.dhcp_range_utilization'', c_Type := Area, c_Priority := 70000,
       c_Labels := [\<lparr>l_Key = ''dhcp_range'', l_Value = dhcpRange, l_Source = 0\<rparr>],
       c_Dims := [zero_dim\<lparr>d_ID := util_id dhcpRange, d_Name := ''used''\<rparr>]\<rparr>,
     zero_chart\<lparr>c_ID := leases_id dhcpRange, c_Title := ''DHCP Range Allocated Leases'', c_Units := ''leases'',
       c_Fam := ''dhcp range leases'', c_Ctx := ''dnsmasq_dhcp.dhcp_range_allocated_leases'', c_Priority := 70001,
       c_Labels := [\<lparr>l_Key = ''dhcp_range'', l_Value = dhcpRange, l_Source = 0\<rparr>],
       c_Dims := [zero_dim\<lparr>d_ID := leases_id dhcpRange, d_Name := ''leases''\<rparr>]\<rparr>]"

record DnsmasqDHCP =
  LeasesPath :: string
  ConfPath :: string
  ConfDir :: string
  dn_charts :: Charts
  leasesModTime :: int
  parseConfigTime :: int
  parseConfigEvery :: int
  dhcpRanges :: "Range list"
  dhcpHosts :: "IP list"
  cacheDHCPRanges :: "string list"
  dn_mx :: mx_map

text \<open>\<open>New\<close>.  A time is in nanoseconds since the zero time; the set of cached ranges is the list of its
  members in the order in which the map is ranged over.\<close>

definition New_DnsmasqDHCP :: DnsmasqDHCP where
  "New_DnsmasqDHCP = \<lparr>LeasesPath = ''/var/lib/misc/dnsmasq.leases'', ConfPath = ''/etc/dnsmasq.conf'',
     ConfDir = ''/etc/dnsmasq.d,.dpkg-dist,.dpkg-old,.dpkg-new'', dn_charts = charts, leasesModTime = 0, parseConfigTime = 0,
     parseConfigEvery = 60000000000, dhcpRanges = [], dhcpHosts = [], cacheDHCPRanges = [], dn_mx = Map.empty\<rparr>"

definition addDHCPRangeCharts :: "string \<Rightarrow> DnsmasqDHCP \<Rightarrow> DnsmasqDHCP" where
  "addDHCPRangeCharts dhcpRange d = d\<lparr>dn_charts := snd (Charts_Add (dn_charts d) (newDHCPRangeCharts dhcpRange))\<rparr>"

definition removeDHCPRangeCharts :: "string \<Rightarrow> DnsmasqDHCP \<Rightarrow> DnsmasqDHCP" where
  "removeDHCPRangeCharts dhcpRange d = (let p = ''dhcp_range_'' @ dhcpRange in
     d\<lparr>dn_charts := map (\<lambda>c. if HasSuffix (c_ID c) p then MarkNotCreated (MarkRemove c) else c) (dn_charts d)\<rparr>)"

fun add_ranges :: "Range list \<Rightarrow> bool \<Rightarrow> DnsmasqDHCP \<Rightarrow> bool \<times> DnsmasqDHCP" where
  "add_ranges [] updated d = (updated, d)"
| "add_ranges (r # rs) updated d =
     (if Range_String r \<notin> set (cacheDHCPRanges d)
      then add_ranges rs True (addDHCPRangeCharts (Range_String r) (d\<lparr>cacheDHCPRanges := cacheDHCPRanges d @ [Range_String r]\<rparr>))
      else add_ranges rs updated d)"

fun remove_ranges :: "string set \<Rightarrow> string list \<Rightarrow> bool \<Rightarrow> DnsmasqDHCP \<Rightarrow> bool \<times> DnsmasqDHCP" where
  "remove_ranges seen [] updated d = (updated, d)"
| "remove_ranges seen (v # vs) updated d =
     (if v \<notin> seen
      then remove_ranges seen vs True (removeDHCPRangeCharts v (d\<lparr>cacheDHCPRanges := removeAll v (cacheDHCPRanges d)\<rparr>))
      else remove_ranges seen vs updated d)"

definition updateCharts :: "DnsmasqDHCP \<Rightarrow> bool \<times> DnsmasqDHCP" where
  "updateCharts d = (let (updated, d1) = add_ranges (dhcpRanges d) False d
     in remove_ranges (set (map Range_String (dhcpRanges d))) (cacheDHCPRanges d1) updated d1)"

section \<open>Counting\<close>

text \<open>\<open>d.mx[k]++\<close>.\<close>

definition mx_inc :: "string \<Rightarrow> mx_map \<Rightarrow> mx_map" where
  "mx_inc k mx = mx(k \<mapsto> int64 ((case mx k of None \<Rightarrow> 0 | Some n \<Rightarrow> n) + 1))"

definition collectV4V6Stats :: "DnsmasqDHCP \<Rightarrow> DnsmasqDHCP" where
  "collectV4V6Stats d =
     (let mx0 = (dn_mx d)(''ipv4_dhcp_ranges'' \<mapsto> 0, ''ipv6_dhcp_ranges'' \<mapsto> 0);
          mx1 = fold (\<lambda>r. mx_inc (if Range_Family r = V6Family then ''ipv6_dhcp_ranges'' else ''ipv4_dhcp_ranges'')) (dhcpRanges d) mx0;
          mx2 = mx1(''ipv4_dhcp_hosts'' \<mapsto> 0, ''ipv6_dhcp_hosts'' \<mapsto> 0);
          mx3 = fold (\<lambda>ip. mx_inc (if To4 ip = None then ''ipv6_dhcp_hosts'' else ''ipv4_dhcp_hosts'')) (dhcpHosts d) mx2
      in d\<lparr>dn_mx := mx3\<rparr>)"

text \<open>The inner loop, which ends at the first range that contains the address.\<close>

definition first_range :: "Range list \<Rightarrow> IP \<Rightarrow> Range option" where
  "first_range rs ip = List.find (\<lambda>r. Range_Contains r ip) rs"

definition count_ip :: "Range list \<Rightarrow> IP \<Rightarrow> mx_map \<Rightarrow> mx_map" where
  "count_ip rs ip mx = (case first_range rs ip of None \<Rightarrow> mx | Some r \<Rightarrow> mx_inc (leases_id (Range_String r)) mx)"

definition calcPercent :: "'f dn_env \<Rightarrow> int \<Rightarrow> int \<Rightarrow> 'f" where
  "calcPercent e ips hosts = (let h = int64 hosts; fl = dn_float e in
     if ips = 0 \<or> h = 0 \<or> \<not> (- (2 ^ 63) \<le> hosts \<and> hosts < 2 ^ 63) then fe_of_int fl 0
     else fe_div fl (fe_mul fl (fe_of_int fl ips) (fe_of_int fl 100)) (fe_of_int fl h))"

definition reset_range :: "Range \<Rightarrow> mx_map \<Rightarrow> mx_map" where
  "reset_range r mx = mx(leases_id (Range_String r) \<mapsto> 0, util_id (Range_String r) \<mapsto> 0)"

fun range_utilization :: "'f dn_env \<Rightarrow> Range list \<Rightarrow> mx_map \<Rightarrow> mx_map option" where
  "range_utilization e [] mx = Some mx"
| "range_utilization e (r # rs) mx =
     (let name = leases_id (Range_String r);
          numOfIps = (case mx name of None \<Rightarrow> 0 | Some n \<Rightarrow> n);
          mx = (if mx name = None then mx(name \<mapsto> 0) else mx)
      in case Range_Size r of None \<Rightarrow> None | Some hosts \<Rightarrow>
           range_utilization e rs (mx(util_id (Range_String r) \<mapsto> fe_to_int (dn_float e) (dn_Round e (calcPercent e numOfIps hosts)))))"

definition collectRangesStats :: "'f dn_env \<Rightarrow> IP list \<Rightarrow> DnsmasqDHCP \<Rightarrow> DnsmasqDHCP option" where
  "collectRangesStats e leases d =
     (let mx1 = fold reset_range (dhcpRanges d) (dn_mx d);
          mx2 = fold (count_ip (dhcpRanges d)) leases mx1;
          mx3 = fold (count_ip (dhcpRanges d)) (dhcpHosts d) mx2
      in map_option (\<lambda>mx. d\<lparr>dn_mx := mx\<rparr>) (range_utilization e (dhcpRanges d) mx3))"

definition lease_of :: "string \<Rightarrow> IP list" where
  "lease_of line = (let parts = Fields line in
     if length parts \<noteq> 5 then [] else case ParseIP (parts ! 2) of None \<Rightarrow> [] | Some ip \<Rightarrow> [ip])"

definition findLeases :: "string \<Rightarrow> IP list" where
  "findLeases r = concat (map lease_of (Scan_all r))"

section \<open>A collection\<close>

text \<open>\<open>parseDnsmasqDHCPConfiguration\<close> and the branch of \<open>collect\<close> that calls it; the number is the depth of the search.\<close>

definition parseDnsmasqDHCPConfiguration :: "'f dn_env \<Rightarrow> nat \<Rightarrow> dn_fs \<Rightarrow> DnsmasqDHCP \<Rightarrow> (Range list \<times> IP list) option" where
  "parseDnsmasqDHCPConfiguration e n fs d = map_option (\<lambda>configs. (getDHCPRanges e configs, getDHCPHosts configs))
     (findConfigurationFiles n fs (ConfPath d) (ConfDir d))"

definition refresh_config :: "'f dn_env \<Rightarrow> nat \<Rightarrow> dn_fs \<Rightarrow> int \<Rightarrow> DnsmasqDHCP \<Rightarrow> (bool \<times> DnsmasqDHCP) option" where
  "refresh_config e n fs now d =
     (if now - parseConfigTime d > parseConfigEvery d then
        (case parseDnsmasqDHCPConfiguration e n fs (d\<lparr>parseConfigTime := now\<rparr>) of None \<Rightarrow> None | Some (ranges, hosts) \<Rightarrow>
           (let (updated, d1) = updateCharts (d\<lparr>parseConfigTime := now, dhcpRanges := ranges, dhcpHosts := hosts\<rparr>)
            in Some (updated, collectV4V6Stats d1)))
      else Some (False, d))"

datatype dn_error = OpenError | StatError

definition dn_collect :: "'f dn_env \<Rightarrow> nat \<Rightarrow> dn_fs \<Rightarrow> int \<Rightarrow> DnsmasqDHCP \<Rightarrow> ((dn_error + mx_map) \<times> DnsmasqDHCP) option" where
  "dn_collect e n fs now d = (case refresh_config e n fs now d of None \<Rightarrow> None | Some (updated, d1) \<Rightarrow>
     (case os_Open fs (LeasesPath d1) of
        None \<Rightarrow> Some (Inl OpenError, d1)
      | Some f \<Rightarrow>
          (if updated then map_option (\<lambda>d2. (Inr (dn_mx d2), d2)) (collectRangesStats e (findLeases (f_data f)) d1)
           else case f_Stat f of
             None \<Rightarrow> Some (Inl StatError, d1)
           | Some (regular, mtime) \<Rightarrow>
               if leasesModTime d1 = mtime then Some (Inr (dn_mx d1), d1)
               else map_option (\<lambda>d2. (Inr (dn_mx d2), d2))
                      (collectRangesStats e (findLeases (f_data f)) (d1\<lparr>leasesModTime := mtime\<rparr>)))))"

text \<open>\<open>Collect\<close>: nil, here \<^const>\<open>None\<close> inside, for an error and for an empty map; \<open>Check\<close>.\<close>

definition dn_Collect :: "'f dn_env \<Rightarrow> nat \<Rightarrow> dn_fs \<Rightarrow> int \<Rightarrow> DnsmasqDHCP \<Rightarrow> (mx_map option \<times> DnsmasqDHCP) option" where
  "dn_Collect e n fs now d = map_option (\<lambda>(res, d1). (case res of Inl err \<Rightarrow> None | Inr mx \<Rightarrow> if mx = Map.empty then None else Some mx, d1))
     (dn_collect e n fs now d)"

definition dn_Check :: "'f dn_env \<Rightarrow> nat \<Rightarrow> dn_fs \<Rightarrow> int \<Rightarrow> DnsmasqDHCP \<Rightarrow> (bool \<times> DnsmasqDHCP) option" where
  "dn_Check e n fs now d = map_option (\<lambda>(mx, d1). (mx \<noteq> None, d1)) (dn_Collect e n fs now d)"

definition dn_validateConfig :: "DnsmasqDHCP \<Rightarrow> bool" where
  "dn_validateConfig d \<longleftrightarrow> LeasesPath d \<noteq> []"

definition checkLeasesPath :: "dn_fs \<Rightarrow> DnsmasqDHCP \<Rightarrow> bool" where
  "checkLeasesPath fs d \<longleftrightarrow> openFile fs (LeasesPath d) \<noteq> None"

definition dn_Init :: "dn_fs \<Rightarrow> DnsmasqDHCP \<Rightarrow> bool" where
  "dn_Init fs d \<longleftrightarrow> dn_validateConfig d \<and> checkLeasesPath fs d"

section \<open>The ranges of the configuration are proper and differ\<close>

lemma parseDHCPRangeValue_text:
  assumes "parseDHCPRangeValue v = t" and "t \<noteq> []"
  obtains s e where "t = IP_String s @ ''-'' @ IP_String e" and "length s = 16" and "length e = 16"
  using assms by (auto simp: parseDHCPRangeValue_def split: if_splits option.splits dest!: ParseIP_length)

lemma parsed_range:
  assumes "parseDHCPRangeValue v = t" and "t \<noteq> []" and "ParseRange pkg t = Inr (Some r)"
  shows "proper r \<and> Range_String r = t"
proof -
  obtain s e where t: "t = IP_String s @ ''-'' @ IP_String e" "length s = 16" "length e = 16"
    by (rule parseDHCPRangeValue_text [OF assms(1,2)])
  then have "New_Range s e = Some r" using ParseRange_texts [OF t(2,3), of pkg] assms(3) by (auto split: option.splits)
  then show ?thesis using New_Range_proper [OF _ t(2,3)] t(1) by (auto simp: Range_String_def)
qed

lemma dhcp_ranges_ok:
  "\<forall>r \<in> set rs. proper r \<and> Range_String r \<in> seen \<Longrightarrow> distinct (map Range_String rs) \<Longrightarrow>
   (\<forall>r \<in> set (dhcp_ranges e vs seen rs). proper r) \<and> distinct (map Range_String (dhcp_ranges e vs seen rs))"
proof (induction vs arbitrary: seen rs)
  case (Cons v vs)
  define t where "t = parseDHCPRangeValue v"
  consider (skip) "t = [] \<or> t \<in> seen" | (new) r where "t \<noteq> []" "t \<notin> seen" "ParseRange (dn_cidr e) t = Inr (Some r)"
    | (refused) "t \<noteq> []" "t \<notin> seen" "\<And>r. ParseRange (dn_cidr e) t \<noteq> Inr (Some r)" by blast
  then show ?case
  proof cases
    case skip
    then show ?thesis using Cons by (simp add: t_def [symmetric])
  next
    case new
    have r: "proper r" "Range_String r = t" using parsed_range [OF t_def [symmetric] new(1,3)] by auto
    have "Range_String r \<notin> Range_String ` set rs" using r(2) new(2) Cons.prems(1) by auto
    then show ?thesis using Cons.IH [of "rs @ [r]" "insert t seen"] Cons.prems r new by (simp add: t_def [symmetric])
  next
    case refused
    then have "dhcp_ranges e (v # vs) seen rs = dhcp_ranges e vs (insert t seen) rs"
      by (auto simp: t_def [symmetric] split: sum.split option.split)
    then show ?thesis using Cons.IH [of rs "insert t seen"] Cons.prems by simp
  qed
qed simp


text \<open>What \<open>sort.Slice\<close> promises.\<close>

definition sorts_ranges :: "'f dn_env \<Rightarrow> bool" where
  "sorts_ranges e \<longleftrightarrow> (\<forall>rs. mset (dn_sort e rs) = mset rs
     \<and> sorted_wrt (\<lambda>r r'. \<not> (Range_Family r = V6Family \<and> Range_Family r' = V4Family)) (dn_sort e rs))"

lemma getDHCPRanges_ok:
  assumes "sorts_ranges e"
  shows "\<forall>r \<in> set (getDHCPRanges e configs). proper r" and "distinct (getDHCPRanges e configs)"
proof -
  let ?rs = "dhcp_ranges e (concat (map (\<lambda>conf. cf_get conf ''dhcp-range'') configs)) {} []"
  have ok: "\<forall>r \<in> set ?rs. proper r" "distinct ?rs" using dhcp_ranges_ok [of "[]" "{}"] by (auto simp: distinct_map)
  have perm: "mset (getDHCPRanges e configs) = mset ?rs" using assms by (simp add: sorts_ranges_def getDHCPRanges_def)
  show "\<forall>r \<in> set (getDHCPRanges e configs). proper r" using ok(1) mset_eq_setD [OF perm] by simp
  show "distinct (getDHCPRanges e configs)" using ok(2) perm by (metis mset_eq_imp_distinct_iff)
qed

section \<open>What is counted\<close>

lemma ids_differ [simp]: "leases_id n \<noteq> util_id m" "util_id m \<noteq> leases_id n" "leases_id n = leases_id m \<longleftrightarrow> n = m" "util_id n = util_id m \<longleftrightarrow> n = m"
proof -
  have "last (leases_id n) \<noteq> last (util_id m)" for n m by (simp add: leases_id_def util_id_def)
  then show "leases_id n \<noteq> util_id m" "util_id m \<noteq> leases_id n" by metis+
qed (simp_all add: leases_id_def util_id_def)

lemma count_ip_other: "k \<notin> leases_id ` Range_String ` set rs \<Longrightarrow> fold (count_ip rs) ips mx k = mx k"
proof (induction ips arbitrary: mx)
  case (Cons ip ips)
  have "count_ip rs ip mx k = mx k"
    using Cons.prems by (auto simp: count_ip_def first_range_def mx_inc_def find_Some_iff split: option.split)
  then show ?case using Cons by simp
qed simp

lemma fold_count:
  assumes "\<forall>r \<in> set rs. proper r" and "r \<in> set rs"
  shows "mx (leases_id (Range_String r)) = Some n \<Longrightarrow> 0 \<le> n \<Longrightarrow> n + int (length ips) < 2 ^ 63 \<Longrightarrow>
    fold (count_ip rs) ips mx (leases_id (Range_String r)) = Some (n + int (length (filter (\<lambda>ip. first_range rs ip = Some r) ips)))"
proof (induction ips arbitrary: mx n)
  case (Cons ip ips)
  let ?k = "leases_id (Range_String r)"
  have in_rs: "first_range rs ip = Some r' \<Longrightarrow> r' \<in> set rs" for r' by (auto simp: first_range_def find_Some_iff)
  show ?case
  proof (cases "first_range rs ip = Some r")
    case True
    have "int64 (n + 1) = n + 1" using Cons.prems by (intro int64_id) auto
    then have "count_ip rs ip mx ?k = Some (n + 1)" using True Cons.prems(1) by (simp add: count_ip_def mx_inc_def)
    then show ?thesis using Cons.IH [of "count_ip rs ip mx" "n + 1"] Cons.prems True by simp
  next
    case False
    then have "count_ip rs ip mx ?k = mx ?k"
      using in_rs assms Range_String_inj by (auto simp: count_ip_def mx_inc_def split: option.split)
    then show ?thesis using Cons.IH [of "count_ip rs ip mx" n] Cons.prems False by simp
  qed
qed simp

lemma reset_kept: "mx (leases_id n) = Some 0 \<Longrightarrow> fold reset_range rs mx (leases_id n) = Some 0"
  by (induction rs arbitrary: mx) (simp_all add: reset_range_def)

lemma fold_reset: "r \<in> set rs \<Longrightarrow> fold reset_range rs mx (leases_id (Range_String r)) = Some 0"
proof (induction rs arbitrary: mx)
  case (Cons x rs)
  have "reset_range x mx (leases_id (Range_String x)) = Some 0" by (simp add: reset_range_def)
  then show ?case using Cons reset_kept [of "reset_range x mx"] by auto
qed simp

lemma fold_reset_other:
  "k \<notin> leases_id ` Range_String ` set rs \<Longrightarrow> k \<notin> util_id ` Range_String ` set rs \<Longrightarrow> fold reset_range rs mx k = mx k"
  by (induction rs arbitrary: mx) (auto simp: reset_range_def)

lemma range_utilization_spec:
  "\<forall>r \<in> set rs. proper r \<and> mx (leases_id (Range_String r)) \<noteq> None \<Longrightarrow> distinct rs \<Longrightarrow>
   \<exists>mx'. range_utilization e rs mx = Some mx' \<and> (\<forall>k. k \<notin> util_id ` Range_String ` set rs \<longrightarrow> mx' k = mx k)
     \<and> (\<forall>r \<in> set rs. mx' (util_id (Range_String r)) =
          Some (fe_to_int (dn_float e) (dn_Round e (calcPercent e (the (mx (leases_id (Range_String r)))) (the (Range_Size r))))))"
proof (induction rs arbitrary: mx)
  case (Cons r rs)
  obtain n where n: "mx (leases_id (Range_String r)) = Some n" using Cons.prems(1) by auto
  obtain m where m: "Range_Size r = Some m" using Size_be [of r] Cons.prems(1) by auto
  define mx1 where "mx1 = mx(util_id (Range_String r) \<mapsto> fe_to_int (dn_float e) (dn_Round e (calcPercent e n m)))"
  have "\<forall>r' \<in> set rs. proper r' \<and> mx1 (leases_id (Range_String r')) \<noteq> None" using Cons.prems(1) by (simp add: mx1_def)
  then obtain mx' where mx': "range_utilization e rs mx1 = Some mx'" "\<forall>k. k \<notin> util_id ` Range_String ` set rs \<longrightarrow> mx' k = mx1 k"
      "\<forall>r \<in> set rs. mx' (util_id (Range_String r)) =
          Some (fe_to_int (dn_float e) (dn_Round e (calcPercent e (the (mx1 (leases_id (Range_String r)))) (the (Range_Size r)))))"
    using Cons.IH [of mx1] Cons.prems(2) by auto
  have "Range_String r \<notin> Range_String ` set rs" using Cons.prems Range_String_inj by auto
  then have "mx' (util_id (Range_String r)) = mx1 (util_id (Range_String r))" using mx'(2) by (auto simp: image_iff)
  moreover have "range_utilization e (r # rs) mx = Some mx'" using mx'(1) n m by (simp add: mx1_def)
  moreover have "\<forall>r'. mx1 (leases_id r') = mx (leases_id r')" by (simp add: mx1_def)
  ultimately show ?case using mx'(2,3) n m by (auto simp: mx1_def)
qed simp

text \<open>
  C26. Every lease and every host of the configuration is counted at the first range that holds it: after a
  collection a range reports that number and its share of the addresses of the range, and nothing else has changed.
  When no address occurs twice, no range reports more leases than it has addresses.
\<close>

theorem leases_counted_at_first_range:
  assumes "sorts_ranges e" and "dhcpRanges d = getDHCPRanges e configs"
    and "length leases + length (dhcpHosts d) < 2 ^ 63"
  shows "\<exists>mx. collectRangesStats e leases d = Some (d\<lparr>dn_mx := mx\<rparr>)
     \<and> (\<forall>r \<in> set (dhcpRanges d). \<exists>hosts. Range_Size r = Some hosts \<and>
          (let n = int (length (filter (\<lambda>ip. first_range (dhcpRanges d) ip = Some r) (leases @ dhcpHosts d)))
           in mx (leases_id (Range_String r)) = Some n
              \<and> mx (util_id (Range_String r)) = Some (fe_to_int (dn_float e) (dn_Round e (calcPercent e n hosts)))
              \<and> (distinct (leases @ dhcpHosts d) \<and> (\<forall>ip \<in> set (leases @ dhcpHosts d). length ip = 16) \<longrightarrow> n \<le> hosts)))
     \<and> (\<forall>k. k \<notin> (leases_id \<circ> Range_String) ` set (dhcpRanges d) \<and> k \<notin> (util_id \<circ> Range_String) ` set (dhcpRanges d) \<longrightarrow> mx k = dn_mx d k)"
proof -
  let ?rs = "dhcpRanges d" and ?ips = "leases @ dhcpHosts d"
  have rs: "\<forall>r \<in> set ?rs. proper r" "distinct ?rs" using getDHCPRanges_ok [OF assms(1)] assms(2) by simp_all
  define mx2 where "mx2 = fold (count_ip ?rs) ?ips (fold reset_range ?rs (dn_mx d))"
  define cnt where "cnt r = int (length (filter (\<lambda>ip. first_range ?rs ip = Some r) ?ips))" for r
  have c: "mx2 (leases_id (Range_String r)) = Some (cnt r)" if "r \<in> set ?rs" for r
    using fold_count [OF rs(1) that, of "fold reset_range ?rs (dn_mx d)" 0 ?ips] fold_reset [OF that] assms(3) by (simp add: mx2_def cnt_def)
  then obtain mx where mx: "range_utilization e ?rs mx2 = Some mx" "\<forall>k. k \<notin> util_id ` Range_String ` set ?rs \<longrightarrow> mx k = mx2 k"
      "\<forall>r \<in> set ?rs. mx (util_id (Range_String r)) =
          Some (fe_to_int (dn_float e) (dn_Round e (calcPercent e (the (mx2 (leases_id (Range_String r)))) (the (Range_Size r)))))"
    using range_utilization_spec [of ?rs mx2 e] rs by auto
  have "collectRangesStats e leases d = Some (d\<lparr>dn_mx := mx\<rparr>)" using mx(1) by (simp add: collectRangesStats_def mx2_def)
  moreover have "\<exists>hosts. Range_Size r = Some hosts \<and> mx (leases_id (Range_String r)) = Some (cnt r)
      \<and> mx (util_id (Range_String r)) = Some (fe_to_int (dn_float e) (dn_Round e (calcPercent e (cnt r) hosts)))
      \<and> (distinct ?ips \<and> (\<forall>ip \<in> set ?ips. length ip = 16) \<longrightarrow> cnt r \<le> hosts)" if r: "r \<in> set ?rs" for r
  proof -
    obtain hosts where h: "Range_Size r = Some hosts" using Size_be rs(1) r by blast
    have "cnt r \<le> hosts" if "distinct ?ips" "\<forall>ip \<in> set ?ips. length ip = 16"
      using ranges.held_le_size [of r "filter (\<lambda>ip. first_range ?rs ip = Some r) ?ips"] rs(1) r that h
      by (force simp: cnt_def first_range_def find_Some_iff)
    moreover have "mx (leases_id (Range_String r)) = mx2 (leases_id (Range_String r))" using mx(2) by (simp add: image_iff)
    ultimately show ?thesis using h mx(3) c [OF r] r by auto
  qed
  moreover have "mx k = dn_mx d k" if "k \<notin> leases_id ` Range_String ` set ?rs" "k \<notin> util_id ` Range_String ` set ?rs" for k
    using that mx(2) count_ip_other [OF that(1)] fold_reset_other [OF that] by (simp add: mx2_def)
  ultimately show ?thesis by (auto simp: cnt_def Let_def image_comp)
qed

text \<open>An address that a host of the configuration has leased is counted for both.\<close>

lemma leased_host_counted_twice:
  assumes "length ip = 16" and "New_Range ip ip = Some r" and "dhcpRanges d = [r]"
    and "ip \<in> set leases" and "ip \<in> set (dhcpHosts d)" and "length leases + length (dhcpHosts d) < 2 ^ 63"
  shows "Range_Size r = Some 1
     \<and> (\<exists>mx n. collectRangesStats e leases d = Some (d\<lparr>dn_mx := mx\<rparr>) \<and> mx (leases_id (Range_String r)) = Some n \<and> 2 \<le> n)"
proof -
  let ?ips = "leases @ dhcpHosts d" and ?P = "\<lambda>x. first_range [r] x = Some r"
  have r: "proper r" "range_start r = ip" "range_end r = ip" using New_Range_proper [OF assms(2,1,1)] by auto
  have "?P ip" using r assms(1) by (simp add: first_range_def Contains_be)
  then have "ip \<in> set (filter ?P leases)" "ip \<in> set (filter ?P (dhcpHosts d))" using assms(4,5) by auto
  then have two: "2 \<le> length (filter ?P ?ips)" by (cases "filter ?P leases"; cases "filter ?P (dhcpHosts d)") auto
  define mx2 where "mx2 = fold (count_ip [r]) ?ips (fold reset_range [r] (dn_mx d))"
  have c: "mx2 (leases_id (Range_String r)) = Some (int (length (filter ?P ?ips)))"
    using fold_count [of "[r]" r "fold reset_range [r] (dn_mx d)" 0 ?ips] fold_reset [of r "[r]"] r(1) assms(6) by (simp add: mx2_def)
  then obtain mx where mx: "range_utilization e [r] mx2 = Some mx" "mx (leases_id (Range_String r)) = mx2 (leases_id (Range_String r))"
    using range_utilization_spec [of "[r]" mx2 e] r(1) by auto
  then have "collectRangesStats e leases d = Some (d\<lparr>dn_mx := mx\<rparr>)" using assms(3) by (simp add: collectRangesStats_def mx2_def)
  then show ?thesis using Size_be [OF r(1)] r mx(2) c two by auto
qed

section \<open>The charts of ranges that are gone\<close>

text \<open>The charts there can be, by their IDs, and the names of the ranges in the cache.\<close>

definition charts_ok :: "DnsmasqDHCP \<Rightarrow> bool" where
  "charts_ok d \<longleftrightarrow> (\<forall>c \<in> set (dn_charts d). \<not> c_remove c
       \<and> (c_ID c \<in> {''dhcp_ranges'', ''dhcp_hosts''} \<or> (\<exists>n. c_ID c = util_id n \<or> c_ID c = leases_id n)))
     \<and> (\<forall>v \<in> set (cacheDHCPRanges d). \<exists>r. proper r \<and> v = Range_String r)"

lemma suffix_last: "HasSuffix s p \<Longrightarrow> p \<noteq> [] \<Longrightarrow> last s = last p"
  using last_drop [of "length s - length p" s] by (cases p) (auto simp: HasSuffix_def)

lemma IP_String_ne: "length ip = 16 \<Longrightarrow> IP_String ip \<noteq> []"
  using ParseIP_String [of ip] by (auto simp: ParseIP_def ParseAddr_def)

lemma last_range_name: "proper r \<Longrightarrow> addr_char (last (''dhcp_range_'' @ Range_String r))"
  using IP_String_ne [of "range_end r"] IP_String_chars [of "range_end r" "last (IP_String (range_end r))"]
  by (simp add: proper_def Range_String_def)

lemma no_suffix:
  assumes "proper r" and "x \<in> {''dhcp_ranges'', ''dhcp_hosts''} \<or> (\<exists>n. x = util_id n \<or> x = leases_id n)"
  shows "\<not> HasSuffix x (''dhcp_range_'' @ Range_String r)"
proof
  assume "HasSuffix x (''dhcp_range_'' @ Range_String r)"
  then have "last x = last (''dhcp_range_'' @ Range_String r)" by (rule suffix_last) simp
  then have "addr_char (last x)" using last_range_name [OF assms(1)] by (simp only:)
  then show False using assms(2) by (auto simp: util_id_def leases_id_def addr_char_def)
qed

lemma remove_ranges_charts:
  "charts_ok d \<Longrightarrow> \<forall>v \<in> set vs. \<exists>r. proper r \<and> v = Range_String r \<Longrightarrow>
   dn_charts (snd (remove_ranges seen vs u d)) = dn_charts d \<and> charts_ok (snd (remove_ranges seen vs u d))"
proof (induction vs arbitrary: u d)
  case (Cons v vs)
  let ?d = "removeDHCPRangeCharts v (d\<lparr>cacheDHCPRanges := removeAll v (cacheDHCPRanges d)\<rparr>)"
  obtain r where r: "proper r" "v = Range_String r" using Cons.prems(2) by auto
  have "\<not> HasSuffix (c_ID c) (''dhcp_range_'' @ v)" if "c \<in> set (dn_charts d)" for c
    unfolding r(2) using no_suffix [OF r(1)] that Cons.prems(1) unfolding charts_ok_def by blast
  then have "dn_charts ?d = dn_charts d" by (auto simp: removeDHCPRangeCharts_def Let_def intro!: map_idI)
  moreover from this have "charts_ok ?d" using Cons.prems(1) by (auto simp: charts_ok_def removeDHCPRangeCharts_def Let_def)
  ultimately show ?case using Cons by auto
qed simp

lemma add_ranges_charts:
  "charts_ok d \<Longrightarrow> \<forall>r \<in> set rs. proper r \<Longrightarrow>
   (\<exists>new. dn_charts (snd (add_ranges rs u d)) = dn_charts d @ new) \<and> charts_ok (snd (add_ranges rs u d))"
proof (induction rs arbitrary: u d)
  case (Cons r rs)
  let ?d = "addDHCPRangeCharts (Range_String r) (d\<lparr>cacheDHCPRanges := cacheDHCPRanges d @ [Range_String r]\<rparr>)"
  obtain k where k: "dn_charts ?d = dn_charts d @ take k (newDHCPRangeCharts (Range_String r))"
    using Charts_Add_prefix [of "newDHCPRangeCharts (Range_String r)" "dn_charts d"] by (auto simp: addDHCPRangeCharts_def)
  have "charts_ok ?d" using Cons.prems k
    by (auto simp: charts_ok_def addDHCPRangeCharts_def newDHCPRangeCharts_def zero_chart_def dest!: in_set_takeD)
  then show ?case using Cons.IH Cons.prems k by (cases "Range_String r \<in> set (cacheDHCPRanges d)") fastforce+
qed simp

text \<open>The part of \<open>collect\<close> that a new configuration goes through, and any number of them after each other.\<close>

definition new_config :: "'f dn_env \<Rightarrow> configFile list \<Rightarrow> DnsmasqDHCP \<Rightarrow> DnsmasqDHCP" where
  "new_config e configs d = snd (updateCharts (d\<lparr>dhcpRanges := getDHCPRanges e configs\<rparr>))"

lemma new_config_charts:
  assumes "sorts_ranges e" and "charts_ok d"
  shows "(\<exists>new. dn_charts (new_config e configs d) = dn_charts d @ new) \<and> charts_ok (new_config e configs d)"
proof -
  let ?d = "d\<lparr>dhcpRanges := getDHCPRanges e configs\<rparr>"
  obtain u d1 where d1: "add_ranges (dhcpRanges ?d) False ?d = (u, d1)" by fastforce
  have "charts_ok ?d" using assms(2) by (simp add: charts_ok_def)
  then have a: "(\<exists>new. dn_charts d1 = dn_charts d @ new) \<and> charts_ok d1"
    using add_ranges_charts [of ?d "dhcpRanges ?d" False] getDHCPRanges_ok(1) [OF assms(1)] d1 by simp
  then have "\<forall>v \<in> set (cacheDHCPRanges d1). \<exists>r. proper r \<and> v = Range_String r" by (simp add: charts_ok_def)
  then show ?thesis using remove_ranges_charts [of d1] a d1 by (simp add: new_config_def updateCharts_def)
qed

text \<open>
  C39. The charts of a range stay when the range is gone: however often the configuration changes, a chart is
  neither taken away nor marked for removal, although the code means to mark those of the ranges that are no longer there.
\<close>

theorem gone_ranges_keep_charts:
  assumes "sorts_ranges e"
  shows "(\<exists>new. dn_charts (fold (new_config e) (before @ after) New_DnsmasqDHCP) = dn_charts (fold (new_config e) before New_DnsmasqDHCP) @ new)
     \<and> (\<forall>c \<in> set (dn_charts (fold (new_config e) (before @ after) New_DnsmasqDHCP)). \<not> c_remove c)"
proof -
  have keep: "charts_ok d \<Longrightarrow> (\<exists>new. dn_charts (fold (new_config e) css d) = dn_charts d @ new) \<and> charts_ok (fold (new_config e) css d)" for css d
  proof (induction css arbitrary: d)
    case (Cons cs css)
    then show ?case using new_config_charts [OF assms, of d cs] by fastforce
  qed simp
  have "charts_ok New_DnsmasqDHCP" by (auto simp: charts_ok_def New_DnsmasqDHCP_def charts_def zero_chart_def)
  then have "charts_ok (fold (new_config e) before New_DnsmasqDHCP)" using keep by blast
  then show ?thesis using keep [of "fold (new_config e) before New_DnsmasqDHCP" after] by (simp add: charts_ok_def)
qed

text \<open>Integers for floats, and the ranges of IPv4 before those of IPv6.\<close>

definition demo_env :: "int dn_env" where
  "demo_env = \<lparr>dn_cidr = number_cidr,
     dn_sort = (\<lambda>rs. filter (\<lambda>r. Range_Family r = V4Family) rs @ filter (\<lambda>r. Range_Family r = V6Family) rs),
     dn_float = \<lparr>fe_of_int = (\<lambda>n. n), fe_to_int = (\<lambda>n. n), fe_add = (+), fe_mul = (*), fe_div = (div), fe_lt = (<), fe_ge = (\<ge>),
       fe_eq = (=), fe_MaxFloat64 = 0, fe_MinFloat64 = 0\<rparr>, dn_Round = (\<lambda>x. x)\<rparr>"

lemma demo_sorts: "sorts_ranges demo_env"
proof -
  have "mset (filter (\<lambda>r. Range_Family r = V4Family) rs) + mset (filter (\<lambda>r. Range_Family r = V6Family) rs) = mset rs" for rs
    by (induction rs) (auto, metis Family.exhaust)
  moreover have "sorted_wrt (\<lambda>r r'. \<not> (Range_Family r = V6Family \<and> Range_Family r' = V4Family)) (filter (\<lambda>r. Range_Family r = fam) rs)" for fam rs
    by (induction rs) auto
  ultimately show ?thesis by (auto simp: sorts_ranges_def demo_env_def sorted_wrt_append)
qed

definition demo_conf :: configFile where
  "demo_conf = \<lparr>cf_path = ''/c'', cf_options = [(''dhcp-range'', ''10.0.0.1,10.0.0.4,12h''), (''dhcp-host'', ''bert,10.0.0.2'')]\<rparr>"

lemma demo_ranges: "getDHCPRanges demo_env [demo_conf] = [v4Range (ip4 10 0 0 1) (ip4 10 0 0 4)]" "getDHCPHosts [demo_conf] = [ip4 10 0 0 2]"
  by code_simp+

theorem gone_ranges_keep_charts_witness:
  "sorts_ranges demo_env \<and> cacheDHCPRanges (fold (new_config demo_env) [[demo_conf], []] New_DnsmasqDHCP) = []
   \<and> util_id ''10.0.0.1-10.0.0.4'' \<in> c_ID ` set (dn_charts (fold (new_config demo_env) ([[demo_conf]] @ [[]]) New_DnsmasqDHCP))"
proof -
  let ?n = "''10.0.0.1-10.0.0.4''"
  have name: "Range_String (v4Range (ip4 10 0 0 1) (ip4 10 0 0 4)) = ?n" by code_simp
  have "checkID (util_id ?n) = -1" "checkID (leases_id ?n) = -1"
    by (rule checkID_ascii; simp add: util_id_def leases_id_def IsSpace_def)+
  moreover have "Charts_Get charts (util_id ?n) = None" unfolding Charts_Get_None by (auto simp: charts_def util_id_def)
  moreover have "Charts_Get (charts @ [c]) (leases_id ?n) = None" if "c_ID c = util_id ?n" for c
    using that unfolding Charts_Get_None by (auto simp: charts_def util_id_def leases_id_def)
  moreover have "util_id ?n \<noteq> []" "leases_id ?n \<noteq> []" by (simp_all add: util_id_def leases_id_def)
  ultimately have add: "snd (Charts_Add charts (newDHCPRangeCharts ?n)) = charts @ newDHCPRangeCharts ?n"
    by (simp add: newDHCPRangeCharts_def checkChart_def checkDim_def zero_chart_def zero_dim_def)
  have one: "new_config demo_env [demo_conf] New_DnsmasqDHCP = New_DnsmasqDHCP\<lparr>dhcpRanges := [v4Range (ip4 10 0 0 1) (ip4 10 0 0 4)],
      cacheDHCPRanges := [?n], dn_charts := charts @ newDHCPRangeCharts ?n\<rparr>"
    by (simp add: new_config_def demo_ranges updateCharts_def name addDHCPRangeCharts_def New_DnsmasqDHCP_def add)
  have "getDHCPRanges demo_env [] = []" by code_simp
  then have "cacheDHCPRanges (fold (new_config demo_env) [[demo_conf], []] New_DnsmasqDHCP) = []"
    by (simp add: one) (simp add: new_config_def updateCharts_def removeDHCPRangeCharts_def Let_def)
  moreover have "util_id ?n \<in> c_ID ` set (dn_charts (fold (new_config demo_env) [[demo_conf]] New_DnsmasqDHCP))"
    by (simp add: one newDHCPRangeCharts_def)
  moreover obtain new where "dn_charts (fold (new_config demo_env) ([[demo_conf]] @ [[]]) New_DnsmasqDHCP)
      = dn_charts (fold (new_config demo_env) [[demo_conf]] New_DnsmasqDHCP) @ new"
    using gone_ranges_keep_charts [OF demo_sorts, of "[[demo_conf]]" "[[]]"] by blast
  ultimately show ?thesis using demo_sorts by (simp only: set_append image_Un Un_iff simp_thms)
qed

theorem leases_counted_at_first_range_witness:
  "\<exists>mx. collectRangesStats demo_env [ip4 10 0 0 3, ip4 10 0 0 9] (New_DnsmasqDHCP\<lparr>dhcpRanges := getDHCPRanges demo_env [demo_conf], dhcpHosts := [ip4 10 0 0 2]\<rparr>)
       = Some (New_DnsmasqDHCP\<lparr>dhcpRanges := getDHCPRanges demo_env [demo_conf], dhcpHosts := [ip4 10 0 0 2], dn_mx := mx\<rparr>)
     \<and> mx (leases_id ''10.0.0.1-10.0.0.4'') = Some 2 \<and> mx (util_id ''10.0.0.1-10.0.0.4'') = Some 50"
proof -
  define d where "d = New_DnsmasqDHCP\<lparr>dhcpRanges := getDHCPRanges demo_env [demo_conf], dhcpHosts := [ip4 10 0 0 2]\<rparr>"
  define r l where "r = v4Range (ip4 10 0 0 1) (ip4 10 0 0 4)" and "l = [ip4 10 0 0 3, ip4 10 0 0 9]"
  have n: "first_range [r] (ip4 10 0 0 3) = Some r" "first_range [r] (ip4 10 0 0 9) = None" "first_range [r] (ip4 10 0 0 2) = Some r"
    unfolding r_def by code_simp+
  have s: "Range_String r = ''10.0.0.1-10.0.0.4''" "Range_Size r = Some 4" unfolding r_def by code_simp+
  have p: "fe_to_int (dn_float demo_env) (dn_Round demo_env (calcPercent demo_env 2 4)) = 50" by code_simp
  have d: "dhcpRanges d = [r]" "dhcpHosts d = [ip4 10 0 0 2]" by (simp_all add: d_def demo_ranges r_def)
  have "dhcpRanges d = getDHCPRanges demo_env [demo_conf]" "length l + length (dhcpHosts d) < 2 ^ 63" by (simp_all add: d_def l_def)
  from leases_counted_at_first_range [OF demo_sorts this] obtain mx where "collectRangesStats demo_env l d = Some (d\<lparr>dn_mx := mx\<rparr>)"
    "mx (leases_id (Range_String r)) = Some 2" "mx (util_id (Range_String r)) = Some 50"
    unfolding d l_def using n s p by (auto simp: Let_def)
  then show ?thesis unfolding s by (auto simp: d_def l_def)
qed

end
