(* ===== verification/Isc_Dhcpd.thy ===== *)
theory Isc_Dhcpd
  imports Dnsmasq_Config Charts Metrics
begin

text \<open>
  The collector \<open>isc_dhcpd\<close> (\<open>modules/isc_dhcpd\<close>): the lease file of an ISC DHCP server, the pools of the
  configuration, and the active leases of each pool.  Shown: of several declarations of an address the
  last one counts; the pools \<open>Init\<close> accepts have different names and ranges that hold as many addresses as they say; a
  pool never reports more active leases than it has addresses.  A line that only begins like a declaration panics.
\<close>

section \<open>parse.go\<close>

record leaseEntry =
  le_ip :: "IP option"
  le_bindingState :: string

definition no_lease :: leaseEntry where
  "no_lease = \<lparr>le_ip = None, le_bindingState = []\<rparr>"

definition hasIP :: "leaseEntry \<Rightarrow> bool" where
  "hasIP l \<longleftrightarrow> le_ip l \<noteq> None"

definition hasBindingState :: "leaseEntry \<Rightarrow> bool" where
  "hasBindingState l \<longleftrightarrow> le_bindingState l \<noteq> []"

text \<open>\<open>s[lo:hi]\<close>; out of range it panics.\<close>

definition go_slice :: "string \<Rightarrow> int \<Rightarrow> int \<Rightarrow> string option" where
  "go_slice s lo hi = (if 0 \<le> lo \<and> lo \<le> hi \<and> hi \<le> int (length s) then Some (take (nat (hi - lo)) (drop (nat lo) s)) else None)"

type_synonym lease_map = "(string \<times> leaseEntry) list"

text \<open>One line: the entry in work and the map of the entries that are complete.\<close>

definition lease_line :: "string \<Rightarrow> leaseEntry \<times> lease_map \<Rightarrow> (leaseEntry \<times> lease_map) option" where
  "lease_line text st = (let (l, leasesSet) = st; s = TrimSpace text in
     if \<not> hasIP l \<and> HasPrefix s ''lease'' then
       map_option (\<lambda>a. (l\<lparr>le_ip := ParseIP a\<rparr>, leasesSet)) (go_slice s 6 (int (length s) - 2))
     else if \<not> hasIP l \<and> HasPrefix s ''iaaddr'' then
       map_option (\<lambda>a. (l\<lparr>le_ip := ParseIP a\<rparr>, leasesSet)) (go_slice s 7 (int (length s) - 2))
     else if hasIP l \<and> \<not> hasBindingState l \<and> HasPrefix s ''binding state'' then
       map_option (\<lambda>b. (l\<lparr>le_bindingState := b\<rparr>, leasesSet)) (go_slice s 14 (int (length s) - 1))
     else if HasPrefix s ''}'' then
       Some (no_lease, case le_ip l of
          Some ip \<Rightarrow> if hasBindingState l then AList.update (IP_String ip) l leasesSet else leasesSet
        | None \<Rightarrow> leasesSet)
     else Some (l, leasesSet))"

fun lease_lines :: "string list \<Rightarrow> leaseEntry \<times> lease_map \<Rightarrow> (leaseEntry \<times> lease_map) option" where
  "lease_lines [] st = Some st"
| "lease_lines (line # lines) st = (case lease_line line st of None \<Rightarrow> None | Some st' \<Rightarrow> lease_lines lines st')"

text \<open>The file system, and the order in which a map of leases is ranged over.\<close>

record isc_env =
  ie_Stat :: "string \<Rightarrow> int option"
  ie_Open :: "string \<Rightarrow> string option"
  ie_order :: "lease_map \<Rightarrow> lease_map"
  ie_cidr :: cidr_pkg

datatype isc_error = FileError | PoolsError iprange_error | ChartsError charts_error

definition parseDHCPdLeasesFile :: "isc_env \<Rightarrow> string \<Rightarrow> (isc_error + leaseEntry list) option" where
  "parseDHCPdLeasesFile e filepath = (case ie_Open e filepath of
      None \<Rightarrow> Some (Inl FileError)
    | Some f \<Rightarrow> map_option (\<lambda>(l, leasesSet). Inr (if leasesSet = [] then [] else map snd (ie_order e leasesSet)))
        (lease_lines (Scan_all f) (no_lease, [])))"

section \<open>isc_dhcpd.go, init.go\<close>

record PoolConfig =
  pl_Name :: string
  pl_Networks :: string

record ipPool =
  ip_name :: string
  ip_addresses :: Pool

record DHCPd =
  is_LeasesPath :: string
  is_Pools :: "PoolConfig list"
  is_charts :: Charts
  is_pools :: "ipPool list"
  is_leasesModTime :: int
  is_collected :: mx_map

definition New_DHCPd :: DHCPd where
  "New_DHCPd = \<lparr>is_LeasesPath = ''/var/lib/dhcp/dhcpd.leases'', is_Pools = [], is_charts = [], is_pools = [],
     is_leasesModTime = 0, is_collected = Map.empty\<rparr>"

definition isc_validateConfig :: "DHCPd \<Rightarrow> bool" where
  "isc_validateConfig d \<longleftrightarrow> is_LeasesPath d \<noteq> [] \<and> is_Pools d \<noteq> [] \<and> (\<forall>cfg \<in> set (is_Pools d). pl_Name cfg \<noteq> [] \<and> pl_Networks cfg \<noteq> [])"

fun initPools :: "cidr_pkg \<Rightarrow> PoolConfig list \<Rightarrow> ipPool list \<Rightarrow> iprange_error + ipPool list" where
  "initPools pkg [] pools = Inr pools"
| "initPools pkg (cfg # cfgs) pools = (case ParseRanges pkg (pl_Networks cfg) of
      Inl err \<Rightarrow> Inl err
    | Inr rs \<Rightarrow> initPools pkg cfgs (if rs \<noteq> [] then pools @ [\<lparr>ip_name = pl_Name cfg, ip_addresses = rs\<rparr>] else pools))"

definition activeLeasesTotalChart :: Chart where
  "activeLeasesTotalChart = zero_chart\<lparr>c_ID := ''active_leases_total'', c_Title := ''Active Leases Total'', c_Units := ''leases'',
     c_Fam := ''summary'', c_Ctx := ''isc_dhcpd.active_leases_total'',
     c_Dims := [zero_dim\<lparr>d_ID := ''active_leases_total'', d_Name := ''active''\<rparr>]\<rparr>"

definition poolActiveLeasesChart :: Chart where
  "poolActiveLeasesChart = zero_chart\<lparr>c_ID := ''pool_active_leases'', c_Title := ''Pool Active Leases'', c_Units := ''leases'',
     c_Fam := ''pools'', c_Ctx := ''isc_dhcpd.pool_active_leases''\<rparr>"

definition poolUtilizationChart :: Chart where
  "poolUtilizationChart = zero_chart\<lparr>c_ID := ''pool_utilization'', c_Title := ''Pool Utilization'', c_Units := ''percentage'',
     c_Fam := ''pools'', c_Ctx := ''isc_dhcpd.pool_utilization''\<rparr>"

definition precision :: int where
  "precision = 100"

definition active_id :: "string \<Rightarrow> string" where
  "active_id name = ''pool_'' @ name @ ''_active_leases''"

definition pool_util_id :: "string \<Rightarrow> string" where
  "pool_util_id name = ''pool_'' @ name @ ''_utilization''"

text \<open>The dimensions of a chart, one after another; the chart is in the slice already, so that adding to it changes its entry there.\<close>

fun add_pool_dims :: "Dim list \<Rightarrow> Chart \<Rightarrow> charts_error + Chart" where
  "add_pool_dims [] chart = Inr chart"
| "add_pool_dims (dim # dims) chart = (case AddDim chart dim of (Some err, c) \<Rightarrow> Inl err | (None, c) \<Rightarrow> add_pool_dims dims c)"

definition initCharts :: "ipPool list \<Rightarrow> charts_error + Charts" where
  "initCharts pools =
     (case Charts_Add [] [activeLeasesTotalChart] of (Some err, cs) \<Rightarrow> Inl err | (None, cs1) \<Rightarrow>
     (case Charts_Add cs1 [poolActiveLeasesChart] of (Some err, cs) \<Rightarrow> Inl err | (None, cs2) \<Rightarrow>
     (case add_pool_dims (map (\<lambda>pool. zero_dim\<lparr>d_ID := active_id (ip_name pool), d_Name := ip_name pool\<rparr>) pools) (last cs2) of Inl err \<Rightarrow> Inl err | Inr chart \<Rightarrow>
     (case Charts_Add (butlast cs2 @ [chart]) [poolUtilizationChart] of (Some err, cs) \<Rightarrow> Inl err | (None, cs3) \<Rightarrow>
     (case add_pool_dims (map (\<lambda>pool. zero_dim\<lparr>d_ID := pool_util_id (ip_name pool), d_Name := ip_name pool, d_Div := precision\<rparr>) pools) (last cs3) of
        Inl err \<Rightarrow> Inl err | Inr chart \<Rightarrow> Inr (butlast cs3 @ [chart]))))))"

definition isc_Init :: "isc_env \<Rightarrow> DHCPd \<Rightarrow> bool \<times> DHCPd" where
  "isc_Init e d =
     (if \<not> isc_validateConfig d then (False, d)
      else case initPools (ie_cidr e) (is_Pools d) [] of
        Inl err \<Rightarrow> (False, d)
      | Inr pools \<Rightarrow> (let d1 = d\<lparr>is_pools := pools\<rparr> in
          case initCharts pools of Inl err \<Rightarrow> (False, d1) | Inr cs \<Rightarrow> (True, d1\<lparr>is_charts := cs\<rparr>)))"

section \<open>collect.go\<close>

definition removeInactiveLeases :: "leaseEntry list \<Rightarrow> leaseEntry list" where
  "removeInactiveLeases leases = filter (\<lambda>l. le_bindingState l = ''active'') leases"

text \<open>An entry of the map has an address.\<close>

definition calcPoolActiveLeases :: "ipPool \<Rightarrow> leaseEntry list \<Rightarrow> int" where
  "calcPoolActiveLeases pool leases = fold (\<lambda>l num. if Pool_Contains (ip_addresses pool) (ip_or_nil (le_ip l)) then int64 (num + 1) else num) leases 0"

definition calcPoolUtilizationPercentage :: "'f float_env \<Rightarrow> ipPool \<Rightarrow> int \<Rightarrow> 'f option" where
  "calcPoolUtilizationPercentage fl pool leases = (case Pool_Size (ip_addresses pool) of None \<Rightarrow> None | Some n \<Rightarrow> Some
     (if leases = 0 \<or> \<not> (- (2 ^ 63) \<le> n \<and> n < 2 ^ 63) then fe_of_int fl 0
      else if n = 0 then fe_of_int fl 100
      else fe_mul fl (fe_div fl (fe_of_int fl leases) (fe_of_int fl n)) (fe_of_int fl 100)))"

definition collectPool :: "'f float_env \<Rightarrow> leaseEntry list \<Rightarrow> ipPool \<Rightarrow> mx_map \<Rightarrow> mx_map option" where
  "collectPool fl leases pool collected = (let n = calcPoolActiveLeases pool leases in
     map_option (\<lambda>u. collected(active_id (ip_name pool) \<mapsto> n, pool_util_id (ip_name pool) \<mapsto> fe_to_int fl (fe_mul fl u (fe_of_int fl precision))))
       (calcPoolUtilizationPercentage fl pool n))"

fun collect_pools :: "'f float_env \<Rightarrow> leaseEntry list \<Rightarrow> ipPool list \<Rightarrow> mx_map \<Rightarrow> mx_map option" where
  "collect_pools fl leases [] collected = Some collected"
| "collect_pools fl leases (pool # pools) collected =
     (case collectPool fl leases pool collected of None \<Rightarrow> None | Some c \<Rightarrow> collect_pools fl leases pools c)"

definition isc_collect :: "isc_env \<Rightarrow> 'f float_env \<Rightarrow> DHCPd \<Rightarrow> ((isc_error + mx_map) \<times> DHCPd) option" where
  "isc_collect e fl d = (case ie_Stat e (is_LeasesPath d) of
      None \<Rightarrow> Some (Inl FileError, d)
    | Some mtime \<Rightarrow>
        if is_leasesModTime d = mtime then Some (Inr (is_collected d), d)
        else let d1 = d\<lparr>is_leasesModTime := mtime\<rparr> in
          case parseDHCPdLeasesFile e (is_LeasesPath d) of
            None \<Rightarrow> None
          | Some (Inl err) \<Rightarrow> Some (Inl err, d1)
          | Some (Inr leases) \<Rightarrow> (let activeLeases = removeInactiveLeases leases in
              map_option (\<lambda>c. (let c' = c(''active_leases_total'' \<mapsto> int (length activeLeases)) in (Inr c', d1\<lparr>is_collected := c'\<rparr>)))
                (collect_pools fl activeLeases (is_pools d) (is_collected d))))"

definition isc_Collect :: "isc_env \<Rightarrow> 'f float_env \<Rightarrow> DHCPd \<Rightarrow> (mx_map option \<times> DHCPd) option" where
  "isc_Collect e fl d = map_option (\<lambda>(res, d1). (case res of Inl err \<Rightarrow> None | Inr mx \<Rightarrow> if mx = Map.empty then None else Some mx, d1))
     (isc_collect e fl d)"

definition isc_Check :: "isc_env \<Rightarrow> 'f float_env \<Rightarrow> DHCPd \<Rightarrow> (bool \<times> DHCPd) option" where
  "isc_Check e fl d = map_option (\<lambda>(mx, d1). (mx \<noteq> None, d1)) (isc_Collect e fl d)"

section \<open>The leases have different addresses\<close>

definition leases_ok :: "lease_map \<Rightarrow> bool" where
  "leases_ok m \<longleftrightarrow> go_map m \<and> (\<forall>(k, l) \<in> set m. \<exists>ip. le_ip l = Some ip \<and> length ip = 16 \<and> k = IP_String ip)"

definition entry_ok :: "leaseEntry \<Rightarrow> bool" where
  "entry_ok l \<longleftrightarrow> (\<forall>ip. le_ip l = Some ip \<longrightarrow> length ip = 16)"

lemma update_ok: "leases_ok m \<Longrightarrow> le_ip l = Some ip \<Longrightarrow> length ip = 16 \<Longrightarrow> leases_ok (AList.update (IP_String ip) l m)"
proof -
  assume a: "leases_ok m" "le_ip l = Some ip" "length ip = 16"
  have "set (AList.update k l m) \<subseteq> insert (k, l) (set m)" for k by (induction m) auto
  then show ?thesis using a by (fastforce simp: leases_ok_def go_map_update)
qed

lemma lease_line_ok:
  assumes "lease_line text (l, m) = Some (l', m')" and "entry_ok l" and "leases_ok m"
  shows "entry_ok l' \<and> leases_ok m'"
  using assms update_ok [of m l] ParseIP_length
  by (auto simp: lease_line_def Let_def entry_ok_def no_lease_def split: if_splits option.splits)

lemma lease_lines_ok: "lease_lines ls (l, m) = Some (l', m') \<Longrightarrow> entry_ok l \<Longrightarrow> leases_ok m \<Longrightarrow> leases_ok m'"
  by (induction ls arbitrary: l m) (auto split: option.splits dest: lease_line_ok)

lemma IP_String_inj: "length a = 16 \<Longrightarrow> length b = 16 \<Longrightarrow> IP_String a = IP_String b \<longleftrightarrow> a = b"
  by (metis ParseIP_String option.inject)

lemma distinct_map_comp: "distinct (map (\<lambda>x. f (g x)) xs) \<Longrightarrow> distinct (map g xs)"
  by (induction xs) auto

lemma leases_ok_distinct:
  assumes "leases_ok m"
  shows "distinct (map (\<lambda>p. le_ip (snd p)) m)" and "(k, l) \<in> set m \<Longrightarrow> \<exists>ip. le_ip l = Some ip \<and> length ip = 16"
proof -
  have "map fst m = map (\<lambda>p. IP_String (the (le_ip (snd p)))) m" using assms by (auto simp: leases_ok_def)
  then have "distinct (map (\<lambda>p. IP_String (the (le_ip (snd p)))) m)" using assms by (simp only: leases_ok_def)
  then show "distinct (map (\<lambda>p. le_ip (snd p)) m)" by (rule distinct_map_comp [of "\<lambda>o1. IP_String (the o1)"])
  show "(k, l) \<in> set m \<Longrightarrow> \<exists>ip. le_ip l = Some ip \<and> length ip = 16" using assms by (auto simp: leases_ok_def)
qed

text \<open>Ranging over a map visits each entry once.\<close>

definition ranges_over_map :: "isc_env \<Rightarrow> bool" where
  "ranges_over_map e \<longleftrightarrow> (\<forall>m. mset (ie_order e m) = mset m)"

lemma parsed_leases:
  assumes "ranges_over_map e" and "ie_Open e path = Some f" and "lease_lines (Scan_all f) (no_lease, []) = Some (l, m)"
  obtains leases where "parseDHCPdLeasesFile e path = Some (Inr leases)" and "set leases = snd ` set m"
    and "distinct (map le_ip leases)" and "\<And>l. l \<in> set leases \<Longrightarrow> \<exists>ip. le_ip l = Some ip \<and> length ip = 16"
proof -
  let ?ls = "map snd (ie_order e m)"
  have ok: "leases_ok m" using lease_lines_ok [OF assms(3)] by (simp add: entry_ok_def no_lease_def leases_ok_def)
  have perm: "mset (ie_order e m) = mset m" using assms(1) by (simp add: ranges_over_map_def)
  then have s: "set (ie_order e m) = set m" by (rule mset_eq_setD)
  have "distinct (map (\<lambda>p. le_ip (snd p)) (ie_order e m))"
    using leases_ok_distinct(1) [OF ok] perm by (metis mset_eq_imp_distinct_iff mset_map)
  then have d: "distinct (map le_ip ?ls)" by (simp add: comp_def)
  have "(if m = [] then [] else ?ls) = ?ls" using perm by auto
  then have "parseDHCPdLeasesFile e path = Some (Inr ?ls)" using assms(2,3) by (simp add: parseDHCPdLeasesFile_def)
  moreover have "\<exists>ip. le_ip l = Some ip \<and> length ip = 16" if "l \<in> set ?ls" for l using that s leases_ok_distinct(2) [OF ok] by force
  ultimately show ?thesis using that [of ?ls] d s by simp
qed

section \<open>The pools of the configuration\<close>

lemma initPools_proper:
  "initPools pkg cfgs ps = Inr ps' \<Longrightarrow> \<forall>p \<in> set ps. \<forall>r \<in> set (ip_addresses p). proper r \<Longrightarrow> \<forall>p \<in> set ps'. \<forall>r \<in> set (ip_addresses p). proper r"
proof (induction cfgs arbitrary: ps)
  case (Cons cfg cfgs)
  obtain rs where rs: "ParseRanges pkg (pl_Networks cfg) = Inr rs" using Cons.prems(1) by (auto split: sum.splits)
  define ps1 where "ps1 = (if rs \<noteq> [] then ps @ [\<lparr>ip_name = pl_Name cfg, ip_addresses = rs\<rparr>] else ps)"
  have "initPools pkg cfgs ps1 = Inr ps'" using Cons.prems(1) rs by (simp add: ps1_def)
  moreover have "\<forall>p \<in> set ps1. \<forall>r \<in> set (ip_addresses p). proper r" using Cons.prems(2) ParseRanges_proper [OF rs] by (auto simp: ps1_def)
  ultimately show ?case by (rule Cons.IH)
qed simp

lemma add_pool_dims_distinct:
  "add_pool_dims dims chart = Inr c \<Longrightarrow> distinct (map d_ID dims) \<and> (\<forall>d \<in> set dims. d_ID d \<notin> d_ID ` set (c_Dims chart))"
proof (induction dims arbitrary: chart)
  case (Cons d dims)
  obtain c1 where a: "AddDim chart d = (None, c1)" using Cons.prems by (auto split: prod.splits option.splits)
  then have "\<not> HasDim chart (d_ID d)" "c_Dims c1 = c_Dims chart @ [d]" by (auto simp: AddDim_def split: option.splits if_splits)
  then show ?case using Cons.IH [of c1] Cons.prems a by (auto simp: HasDim_iff)
qed simp

lemma ids_of_pools [simp]: "active_id n \<noteq> pool_util_id m" "pool_util_id m \<noteq> active_id n" "active_id n = active_id m \<longleftrightarrow> n = m"
  "pool_util_id n = pool_util_id m \<longleftrightarrow> n = m" "active_id n \<noteq> ''active_leases_total''" "pool_util_id n \<noteq> ''active_leases_total''"
proof -
  have "last (active_id n) \<noteq> last (pool_util_id m)" for n m by (simp add: active_id_def pool_util_id_def)
  then show "active_id n \<noteq> pool_util_id m" "pool_util_id m \<noteq> active_id n" by metis+
qed (simp_all add: active_id_def pool_util_id_def)

lemma Init_pools:
  assumes "isc_Init e d0 = (True, d)"
  shows "distinct (map ip_name (is_pools d))" and "\<forall>p \<in> set (is_pools d). \<forall>r \<in> set (ip_addresses p). proper r"
proof -
  obtain pools cs where p: "initPools (ie_cidr e) (is_Pools d0) [] = Inr pools" "initCharts pools = Inr cs" "is_pools d = pools"
    using assms by (auto simp: isc_Init_def Let_def split: if_splits sum.splits)
  show "\<forall>p \<in> set (is_pools d). \<forall>r \<in> set (ip_addresses p). proper r" using initPools_proper [OF p(1)] p(3) by simp
  obtain chart c where "add_pool_dims (map (\<lambda>pool. zero_dim\<lparr>d_ID := active_id (ip_name pool), d_Name := ip_name pool\<rparr>) pools) chart = Inr c"
    using p(2) unfolding initCharts_def by (auto split: prod.splits option.splits sum.splits)
  then have "distinct (map (\<lambda>pool. active_id (ip_name pool)) pools)" using add_pool_dims_distinct by (fastforce simp: comp_def)
  then show "distinct (map ip_name (is_pools d))" using distinct_map_comp [of active_id ip_name] p(3) by simp
qed

section \<open>Active leases of a pool\<close>

lemma calcPoolActiveLeases_count:
  assumes "length leases < 2 ^ 63"
  shows "calcPoolActiveLeases pool leases = int (length (filter (\<lambda>l. Pool_Contains (ip_addresses pool) (ip_or_nil (le_ip l))) leases))"
proof -
  let ?P = "\<lambda>l. Pool_Contains (ip_addresses pool) (ip_or_nil (le_ip l))"
  have "0 \<le> n \<Longrightarrow> n + int (length leases) < 2 ^ 63 \<Longrightarrow>
    fold (\<lambda>l num. if ?P l then int64 (num + 1) else num) leases n = n + int (length (filter ?P leases))" for n
  proof (induction leases arbitrary: n)
    case (Cons l leases)
    have "int64 (n + 1) = n + 1" using Cons.prems by (intro int64_id) auto
    then show ?case using Cons.IH [of "n + 1"] Cons.IH [of n] Cons.prems by simp
  qed simp
  from this [of 0] show ?thesis using assms by (simp add: calcPoolActiveLeases_def)
qed

lemma pool_count_le_size:
  assumes "\<forall>r \<in> set p. proper r" and "distinct ips" and "\<forall>ip \<in> set ips. length ip = 16 \<and> Pool_Contains p ip"
  shows "\<exists>n. Pool_Size p = Some n \<and> int (length ips) \<le> n"
proof -
  have fin: "finite {ip. length ip = 16 \<and> Pool_Contains p ip}"
    using ranges.union_size [OF assms(1)] by (simp add: Pool_Contains_def list_ex_iff)
  have "card (set ips) \<le> card {ip. length ip = 16 \<and> Pool_Contains p ip}" using assms(3) by (intro card_mono fin) auto
  then show ?thesis using Pool_Size_bound [OF assms(1)] by (auto simp: distinct_card [OF assms(2)])
qed

lemma collect_pools_spec:
  "distinct (map ip_name ps) \<Longrightarrow> \<forall>p \<in> set ps. Pool_Size (ip_addresses p) \<noteq> None \<Longrightarrow>
   \<exists>c. collect_pools fl ls ps mx = Some c
     \<and> (\<forall>p \<in> set ps. c (active_id (ip_name p)) = Some (calcPoolActiveLeases p ls)
          \<and> c (pool_util_id (ip_name p)) = map_option (\<lambda>u. fe_to_int fl (fe_mul fl u (fe_of_int fl precision)))
               (calcPoolUtilizationPercentage fl p (calcPoolActiveLeases p ls)))
     \<and> (\<forall>k. k \<notin> (active_id \<circ> ip_name) ` set ps \<and> k \<notin> (pool_util_id \<circ> ip_name) ` set ps \<longrightarrow> c k = mx k)"
proof (induction ps arbitrary: mx)
  case (Cons p ps)
  obtain u where u: "calcPoolUtilizationPercentage fl p (calcPoolActiveLeases p ls) = Some u"
    using Cons.prems(2) by (auto simp: calcPoolUtilizationPercentage_def)
  define mx1 where "mx1 = mx(active_id (ip_name p) \<mapsto> calcPoolActiveLeases p ls,
    pool_util_id (ip_name p) \<mapsto> fe_to_int fl (fe_mul fl u (fe_of_int fl precision)))"
  have one: "collectPool fl ls p mx = Some mx1" by (simp add: collectPool_def u mx1_def Let_def)
  obtain c where c: "collect_pools fl ls ps mx1 = Some c"
    "\<forall>p \<in> set ps. c (active_id (ip_name p)) = Some (calcPoolActiveLeases p ls)
          \<and> c (pool_util_id (ip_name p)) = map_option (\<lambda>u. fe_to_int fl (fe_mul fl u (fe_of_int fl precision)))
               (calcPoolUtilizationPercentage fl p (calcPoolActiveLeases p ls))"
    "\<forall>k. k \<notin> (active_id \<circ> ip_name) ` set ps \<and> k \<notin> (pool_util_id \<circ> ip_name) ` set ps \<longrightarrow> c k = mx1 k"
    using Cons.IH [of mx1] Cons.prems by auto
  have "ip_name p \<notin> ip_name ` set ps" using Cons.prems(1) by simp
  then have "c (active_id (ip_name p)) = mx1 (active_id (ip_name p))" "c (pool_util_id (ip_name p)) = mx1 (pool_util_id (ip_name p))"
    using c(3) by (auto simp: image_iff)
  moreover have "collect_pools fl ls (p # ps) mx = Some c" using one c(1) by simp
  ultimately show ?case using c(2,3) u by (auto simp: mx1_def)
qed simp

lemma pool_active_count:
  assumes "\<forall>r \<in> set (ip_addresses p). proper r" and "distinct (map le_ip leases)"
    and ip: "\<And>l. l \<in> set leases \<Longrightarrow> \<exists>ip. le_ip l = Some ip \<and> length ip = 16" and "length leases < 2 ^ 63"
  shows "\<exists>k. Pool_Size (ip_addresses p) = Some k \<and> calcPoolActiveLeases p (removeInactiveLeases leases) \<le> k
    \<and> calcPoolActiveLeases p (removeInactiveLeases leases)
      = int (card {ip. Pool_Contains (ip_addresses p) ip \<and> (\<exists>l \<in> set leases. le_ip l = Some ip \<and> le_bindingState l = ''active'')})"
proof -
  define act where "act = filter (\<lambda>l. Pool_Contains (ip_addresses p) (ip_or_nil (le_ip l))) (removeInactiveLeases leases)"
  define ips where "ips = map (\<lambda>l. the (le_ip l)) act"
  have sub: "set act \<subseteq> set leases" by (auto simp: act_def removeInactiveLeases_def)
  have n: "calcPoolActiveLeases p (removeInactiveLeases leases) = int (length ips)"
    using calcPoolActiveLeases_count [OF le_less_trans [OF _ assms(4)], of "removeInactiveLeases leases" p]
    by (simp add: removeInactiveLeases_def ips_def act_def)
  have set_ips: "set ips = {ip. Pool_Contains (ip_addresses p) ip \<and> (\<exists>l \<in> set leases. le_ip l = Some ip \<and> le_bindingState l = ''active'')}"
    using ip by (force simp: ips_def act_def removeInactiveLeases_def ip_or_nil_def)
  have "distinct (map le_ip act)" using assms(2) by (auto simp: act_def removeInactiveLeases_def distinct_map inj_on_def)
  moreover have "map le_ip act = map Some ips" using sub ip by (force simp: ips_def)
  ultimately have d: "distinct ips" by (simp add: distinct_map)
  moreover have "\<forall>x \<in> set ips. length x = 16 \<and> Pool_Contains (ip_addresses p) x" using ip unfolding set_ips by force
  ultimately obtain k where "Pool_Size (ip_addresses p) = Some k" "int (length ips) \<le> k" using pool_count_le_size [OF assms(1)] by blast
  then show ?thesis using n set_ips distinct_card [OF d] by simp
qed


section \<open>The last declaration of an address counts\<close>

text \<open>A declaration of a lease as the server writes it, with the statements before and after its state.\<close>

record lease_decl =
  dc_ip :: IP
  dc_before :: "string list"
  dc_state :: string
  dc_after :: "string list"

definition decl_lines :: "lease_decl \<Rightarrow> string list" where
  "decl_lines dc = (''lease '' @ IP_String (dc_ip dc) @ '' {'') # dc_before dc @ (''binding state '' @ dc_state dc @ '';'') # dc_after dc @ [''}'']"

definition decl_ok :: "lease_decl \<Rightarrow> bool" where
  "decl_ok dc \<longleftrightarrow> length (dc_ip dc) = 16 \<and> dc_state dc \<noteq> [] \<and> (\<forall>c \<in> set (dc_state dc). byte c < 128)
     \<and> (\<forall>t \<in> set (dc_before dc @ dc_after dc). \<not> HasPrefix (TrimSpace t) ''}'' \<and> \<not> HasPrefix (TrimSpace t) ''binding state'')"

lemma dropWhile_chunks: "dropWhile (\<lambda>(r, bs). IsSpace r) (map (\<lambda>c. (byte c, [c])) s) = map (\<lambda>c. (byte c, [c])) (dropWhile (\<lambda>c. IsSpace (byte c)) s)"
  by (induction s) auto

lemma TrimSpace_id:
  assumes "\<forall>c \<in> set s. byte c < 128" and "s \<noteq> []" and "\<not> IsSpace (byte (hd s))" and "\<not> IsSpace (byte (last s))"
  shows "TrimSpace s = s"
proof -
  have "dropWhile (\<lambda>c. IsSpace (byte c)) s = s" using assms(2,3) by (cases s) auto
  moreover have "dropWhile (\<lambda>c. IsSpace (byte c)) (rev s) = rev s" using assms(2,4) by (cases "rev s") (auto simp: last_rev hd_rev)
  ultimately show ?thesis using assms(1) by (simp add: TrimSpace_def rune_chunks_ascii dropWhile_chunks rev_map comp_def)
qed

lemma addr_char_ascii: "addr_char c \<Longrightarrow> byte c < 128"
  by (auto simp: addr_char_def Let_def)

lemma lease_opens:
  assumes "length ip = 16"
  shows "lease_line (''lease '' @ IP_String ip @ '' {'') (no_lease, m) = Some (no_lease\<lparr>le_ip := Some ip\<rparr>, m)"
proof -
  let ?s = "''lease '' @ IP_String ip @ '' {''"
  have "TrimSpace ?s = ?s"
    using IP_String_chars [OF assms] addr_char_ascii by (intro TrimSpace_id) (auto simp: IsSpace_def last_append)
  moreover have "go_slice ?s 6 (int (length ?s) - 2) = Some (IP_String ip)" by (simp add: go_slice_def)
  ultimately show ?thesis using ParseIP_String [OF assms] by (simp add: lease_line_def no_lease_def hasIP_def HasPrefix_def Let_def)
qed

lemma state_read:
  assumes "b \<noteq> []" and "\<forall>c \<in> set b. byte c < 128"
  shows "lease_line (''binding state '' @ b @ '';'') (no_lease\<lparr>le_ip := Some ip\<rparr>, m) = Some (\<lparr>le_ip = Some ip, le_bindingState = b\<rparr>, m)"
proof -
  let ?s = "''binding state '' @ b @ '';''"
  have "TrimSpace ?s = ?s" using assms(2) by (intro TrimSpace_id) (auto simp: IsSpace_def last_append)
  moreover have "go_slice ?s 14 (int (length ?s) - 1) = Some b" by (simp add: go_slice_def)
  ultimately show ?thesis by (simp add: lease_line_def no_lease_def hasIP_def hasBindingState_def HasPrefix_def Let_def)
qed

lemma idle_lines:
  assumes "hasIP l" and "\<forall>t \<in> set ts. \<not> HasPrefix (TrimSpace t) ''}'' \<and> \<not> HasPrefix (TrimSpace t) ''binding state''"
  shows "lease_lines (ts @ rest) (l, m) = lease_lines rest (l, m)"
  using assms(2) by (induction ts) (auto simp: lease_line_def assms(1) Let_def)

lemma lease_closes:
  "b \<noteq> [] \<Longrightarrow> lease_line ''}'' (\<lparr>le_ip = Some ip, le_bindingState = b\<rparr>, m) = Some (no_lease, AList.update (IP_String ip) \<lparr>le_ip = Some ip, le_bindingState = b\<rparr> m)"
proof -
  have "TrimSpace ''}'' = ''}''" by (intro TrimSpace_id) (auto simp: IsSpace_def)
  then show "b \<noteq> [] \<Longrightarrow> ?thesis" by (simp add: lease_line_def hasIP_def hasBindingState_def HasPrefix_def Let_def)
qed

lemma decl_read:
  assumes "decl_ok dc"
  shows "lease_lines (decl_lines dc @ rest) (no_lease, m)
    = lease_lines rest (no_lease, AList.update (IP_String (dc_ip dc)) \<lparr>le_ip = Some (dc_ip dc), le_bindingState = dc_state dc\<rparr> m)"
proof -
  have ok: "length (dc_ip dc) = 16" "dc_state dc \<noteq> []" "\<forall>c \<in> set (dc_state dc). byte c < 128" using assms by (simp_all add: decl_ok_def)
  have "lease_lines (decl_lines dc @ rest) (no_lease, m)
      = lease_lines (dc_before dc @ (''binding state '' @ dc_state dc @ '';'') # dc_after dc @ ''}'' # rest) (no_lease\<lparr>le_ip := Some (dc_ip dc)\<rparr>, m)"
    using lease_opens [OF ok(1)] by (simp add: decl_lines_def)
  also have "\<dots> = lease_lines ((''binding state '' @ dc_state dc @ '';'') # dc_after dc @ ''}'' # rest) (no_lease\<lparr>le_ip := Some (dc_ip dc)\<rparr>, m)"
    using assms by (intro idle_lines) (auto simp: hasIP_def decl_ok_def)
  also have "\<dots> = lease_lines (dc_after dc @ ''}'' # rest) (\<lparr>le_ip = Some (dc_ip dc), le_bindingState = dc_state dc\<rparr>, m)"
    using state_read [OF ok(2,3)] by simp
  also have "\<dots> = lease_lines (''}'' # rest) (\<lparr>le_ip = Some (dc_ip dc), le_bindingState = dc_state dc\<rparr>, m)"
    using assms by (intro idle_lines) (auto simp: hasIP_def decl_ok_def)
  finally show ?thesis using lease_closes [OF ok(2)] by simp
qed

definition last_state :: "lease_decl list \<Rightarrow> IP \<Rightarrow> string option" where
  "last_state ds ip = map_of (rev (map (\<lambda>dc. (dc_ip dc, dc_state dc)) ds)) ip"

lemma last_state_snoc: "last_state (ds @ [dc]) ip = (if ip = dc_ip dc then Some (dc_state dc) else last_state ds ip)"
  by (simp add: last_state_def)

lemma decls_read:
  "\<forall>dc \<in> set ds. decl_ok dc \<Longrightarrow> \<exists>m. lease_lines (concat (map decl_lines ds) @ rest) (no_lease, []) = lease_lines rest (no_lease, m)
     \<and> go_map m \<and> (\<forall>k l. (k, l) \<in> set m \<longleftrightarrow>
          (\<exists>ip. k = IP_String ip \<and> length ip = 16 \<and> le_ip l = Some ip \<and> last_state ds ip = Some (le_bindingState l)))"
proof (induction ds arbitrary: rest rule: rev_induct)
  case Nil
  then show ?case by (intro exI [of _ "[]"]) (simp add: last_state_def)
next
  case (snoc dc ds)
  let ?ip = "dc_ip dc" and ?e = "\<lparr>le_ip = Some (dc_ip dc), le_bindingState = dc_state dc\<rparr> :: leaseEntry"
  have dc: "decl_ok dc" "length ?ip = 16" using snoc.prems by (auto simp: decl_ok_def)
  obtain m where m: "lease_lines (concat (map decl_lines ds) @ decl_lines dc @ rest) (no_lease, []) = lease_lines (decl_lines dc @ rest) (no_lease, m)"
    "go_map m" "\<And>k l. (k, l) \<in> set m \<longleftrightarrow> (\<exists>ip. k = IP_String ip \<and> length ip = 16 \<and> le_ip l = Some ip \<and> last_state ds ip = Some (le_bindingState l))"
    using snoc.IH [of "decl_lines dc @ rest"] snoc.prems by auto
  let ?m = "AList.update (IP_String ?ip) ?e m"
  have "(k, l) \<in> set ?m \<longleftrightarrow> (\<exists>ip. k = IP_String ip \<and> length ip = 16 \<and> le_ip l = Some ip \<and> last_state (ds @ [dc]) ip = Some (le_bindingState l))" for k l
  proof -
    have "(k, l) \<in> set ?m \<longleftrightarrow> map_of ?m k = Some l" using go_map_update [OF m(2)] by (simp add: map_of_eq_Some_iff)
    also have "\<dots> \<longleftrightarrow> (if k = IP_String ?ip then l = ?e else (k, l) \<in> set m)" using m(2) by (auto simp: map_of_update map_of_eq_Some_iff)
    also have "\<dots> \<longleftrightarrow> (\<exists>ip. k = IP_String ip \<and> length ip = 16 \<and> le_ip l = Some ip \<and> last_state (ds @ [dc]) ip = Some (le_bindingState l))"
      unfolding m(3) last_state_snoc using dc(2) IP_String_inj by (cases l) auto
    finally show ?thesis .
  qed
  then show ?case using m(1) decl_read [OF dc(1), of rest m] go_map_update [OF m(2)] by (intro exI [of _ ?m]) simp
qed


text \<open>A line that is only the first word of a declaration panics, as a lease file that is being written may end.\<close>

lemma cut_declaration_panics: "lease_lines [''lease''] (no_lease, []) = None"
proof -
  have "TrimSpace ''lease'' = ''lease''" by (intro TrimSpace_id) (auto simp: IsSpace_def)
  then show ?thesis by (simp add: lease_line_def no_lease_def hasIP_def HasPrefix_def go_slice_def)
qed

section \<open>An example\<close>

definition demo_decls :: "lease_decl list" where
  "demo_decls = [\<lparr>dc_ip = ip4 10 0 0 7, dc_before = [], dc_state = ''active'', dc_after = []\<rparr>,
     \<lparr>dc_ip = ip4 10 0 0 7, dc_before = [], dc_state = ''free'', dc_after = []\<rparr>,
     \<lparr>dc_ip = ip4 10 0 0 8, dc_before = [], dc_state = ''active'', dc_after = []\<rparr>]"

definition demo_leases :: string where
  "demo_leases = Join (concat (map decl_lines demo_decls)) [char_of (10 :: nat)]"

definition demo_isc :: isc_env where
  "demo_isc = \<lparr>ie_Stat = (\<lambda>p. Some 1), ie_Open = (\<lambda>p. Some demo_leases), ie_order = (\<lambda>m. rev m), ie_cidr = number_cidr\<rparr>"

lemma demo_order: "ranges_over_map demo_isc"
  by (simp add: ranges_over_map_def demo_isc_def)

lemma demo_decls_ok: "\<forall>dc \<in> set demo_decls. decl_ok dc"
  by (auto simp: demo_decls_def decl_ok_def ip4_def v4InV6Prefix_def)

lemma demo_ip_texts: "IP_String (ip4 10 0 0 7) = ''10.0.0.7''" "IP_String (ip4 10 0 0 8) = ''10.0.0.8''"
  by code_simp+

lemma scan_lines_all:
  "\<forall>l \<in> set ls. length l < 65536 \<and> l \<noteq> [] \<and> last l \<noteq> char_of (13 :: nat) \<Longrightarrow> scan_lines ls = ls"
  by (induction ls) (auto simp: dropCR_def MaxScanTokenSize_def)

lemma demo_scan: "Scan_all demo_leases = concat (map decl_lines demo_decls)"
proof -
  let ?ls = "concat (map decl_lines demo_decls)"
  have ls: "?ls = [''lease 10.0.0.7 {'', ''binding state active;'', ''}'', ''lease 10.0.0.7 {'', ''binding state free;'', ''}'',
      ''lease 10.0.0.8 {'', ''binding state active;'', ''}'']" by (simp add: demo_decls_def decl_lines_def demo_ip_texts)
  have "SplitByte demo_leases (char_of (10 :: nat)) = ?ls"
    unfolding demo_leases_def by (rule SplitByte_Join) (simp_all add: ls char_of_def)
  moreover have "scan_lines ?ls = ?ls" unfolding ls by (intro scan_lines_all) (simp add: char_of_def)
  ultimately show ?thesis by (simp add: Scan_all_def)
qed


definition int_floats :: "int float_env" where
  "int_floats = \<lparr>fe_of_int = (\<lambda>n. n), fe_to_int = (\<lambda>n. n), fe_add = (+), fe_mul = (*), fe_div = (div), fe_lt = (<), fe_ge = (\<ge>),
     fe_eq = (=), fe_MaxFloat64 = 0, fe_MinFloat64 = 0\<rparr>"


end
