(* ===== verification/Spec2Isabelle.thy ===== *)
theory Spec2Isabelle
  imports Job_Protocol Agent Functions Agent_Setup Discovery_Manager Matcher Sd_Pipeline
    Prom_Reuse Prom_Series Logs_Reader Stm Weblog_Init
    Dnsmasq Isc_Dhcpd
begin

text \<open>
  A verification development for go.d.plugin, the plugin that runs Netdata's collectors written in
  Go.  The agent discovers job configurations, turns them into jobs, and each job collects metrics
  and writes them to its standard output in the plugins.d protocol.  The development models the
  agent (\<open>src/agent\<close>), the packages of \<open>src/pkg\<close> it and the collectors share, and three of the collectors
  (\<open>src/modules\<close>), as pure functions and step relations translated from the sources, and proves what makes each part correct.

  \<^bold>\<open>The parts and how they interact.\<close>  \<open>agent.run\<close> reads the configuration of the plugin, decides which
  modules run and where their configurations are, and starts a discovery manager, a job manager,
  a functions manager and a status saver.  The discoverers (files read once, files watched,
  defaults) send groups of configurations; the discovery manager gathers them per source and
  hands them to the job manager.  Its cache turns groups into additions and removals of single
  configurations.  For an addition the manager creates a job, lets it detect what it can collect,
  takes a file lock on its name and puts it in its queue, or plans a retry; a removal undoes
  that.  Every second it ticks the jobs in the queue; a job that is due collects, creates and
  updates its charts and writes one message.

  \<^bold>\<open>Theories, in the order of the dependencies.\<close>
  \<^item> \<open>Prelude\<close>, \<open>Utf8\<close>, \<open>Filepath\<close>: what the sources use of \<open>strings\<close>, \<open>strconv\<close>, \<open>unicode/utf8\<close> and
    \<open>path/filepath\<close>; Go maps as association lists; the in-place compaction loop.
  \<^item> \<open>Netdata_API\<close> (\<open>agent/netdataapi\<close>): the commands of the protocol and their bytes; what the
    receiving side reads from a line is what was written.
  \<^item> \<open>Charts\<close> (\<open>agent/module/charts.go\<close>): charts, dimensions, variables, their validity, and the
    operations on the slices.  The locale \<open>keyed_slice\<close> is the contract of a slice searched by ID and
    is interpreted for charts, dimensions and variables.
  \<^item> \<open>Job\<close>, \<open>Job_Facts\<close>, \<open>Job_Protocol\<close> (\<open>agent/module/job.go\<close>): the life of a job over an arbitrary
    collector.  A record holds its fields; \<open>AutoDetection\<close>, \<open>runOnce\<close>, \<open>processMetrics\<close>, \<open>createChart\<close>,
    \<open>updateChart\<close>, \<open>Cleanup\<close> and \<open>Start\<close> are functions of the same names.  Shown: what each does, that the
    loop never panics, that a job runs within a bound of ticks, and that everything it ever writes
    is accepted by the automaton of the protocol.
  \<^item> \<open>Confgroup\<close>, \<open>Conf_Cache\<close> (\<open>agent/confgroup\<close>): configurations, their defaults and names; the
    counting cache, which refines a map from sources to sets of configurations.
  \<^item> \<open>Services\<close>: the interfaces of \<open>agent/jobmgr/di.go\<close> as locales (\<open>file_locker\<close>, \<open>status_store\<close>,
    \<open>config_registry\<close>); \<open>Filelock\<close>, \<open>Filestatus\<close>, \<open>Vnodes\<close>, \<open>Dyncfg\<close> are their providers, with the
    interpretations.
  \<^item> \<open>Jobmgr\<close>, \<open>Jobmgr_Facts\<close>, \<open>Agent\<close> (\<open>agent/jobmgr\<close> and its wiring in \<open>agent/agent.go\<close>): the handlers of
    the manager and the interleavings of its goroutines as the relation \<open>mgr_step\<close>; the invariant of
    its tables is proved in the locale \<open>job_manager\<close> against the laws of the interfaces and
    interpreted for the agent's providers.
  \<^item> \<open>Functions\<close> (\<open>agent/functions\<close>): requests read from the standard input.
  \<^item> \<open>File_Discovery\<close>, \<open>Discovery_Manager\<close> (\<open>agent/discovery\<close>): the formats of configuration files, the
    reader, the watcher, the dummy discoverer, and the manager as the relation \<open>disc_step\<close>.  The
    watcher stays in step with the files; no update is lost between discoverer and receiver.
  \<^item> \<open>Multipath\<close>, \<open>Agent_Setup\<close> (\<open>pkg/multipath\<close>, \<open>agent/config.go\<close>, \<open>agent/setup.go\<close>, \<open>run\<close>): what the
    agent does before the parts start.
  \<^item> \<open>Glob\<close>, \<open>Matcher\<close> (\<open>pkg/matcher\<close>): the glob algorithm against a token by token specification, the
    construction of matchers, their combinations, syntax and cache.
  \<^item> \<open>Sd_Selector\<close>, \<open>Sd_Pipeline\<close> (\<open>agent/discovery/sd/model\<close>, \<open>agent/discovery/sd/pipeline\<close>): tags and the
    language of selectors; classification of targets, composition of configurations, and the cache
    that sends only changes, against the configurations of the newest targets.
  \<^item> \<open>Prom_Selector\<close>, \<open>Prom_Parse\<close>, \<open>Prom_Reuse\<close>, \<open>Sort_Search\<close>, \<open>Prom_Series\<close> (\<open>pkg/prometheus\<close>): the selectors of series, the
    parser that keeps the memory of earlier scrapes, and the sorted series.  A used parser gives what a
    new one gives, except for families with HELP and no TYPE; a lookup finds exactly the samples of a name.
  \<^item> \<open>Logs_Reader\<close>, \<open>Logs_Csv\<close>, \<open>Logs_Lines\<close>, \<open>Logs_Kept\<close> (\<open>pkg/logs\<close>): the reader that follows a rotated log, the four
    parsers of lines and the functions of \<open>encoding/csv\<close> and \<open>bufio\<close> they use.  The locale \<open>kept_by_Assign\<close> is the contract
    between parsers and lines: what \<open>Assign\<close> keeps true, reading a row keeps true.
  \<^item> \<open>Metrics\<close>, \<open>Stm\<close> (\<open>pkg/metrics\<close>, \<open>pkg/stm\<close>): counters, summaries and histograms, and the conversion of tagged
    structures to the map of a collection.  A histogram reports what was observed; no value is overwritten.
  \<^item> \<open>Weblog_Line\<close>, \<open>Weblog_Collect\<close>, \<open>Weblog_Init\<close> (\<open>modules/weblog\<close>): one collector, from the fields of a log line to the
    counters of a round.  It composes the parsers of logs (through the locale above), the matchers, the metrics and
    the operations on charts: a round never panics and counts every line where it belongs.
  \<^item> \<open>Net_IP\<close>, \<open>Iprange\<close> (\<open>pkg/iprange\<close> and what it uses of \<open>net\<close>): addresses as bytes and as text, and ranges of
    addresses.  The locale \<open>address_ranges\<close> is the contract of ranges with their users: a size that is the number of the
    addresses held; it is interpreted for the ranges of the program.  Parsing what \<open>String\<close> gives returns the range.
  \<^item> \<open>Dnsmasq_Config\<close>, \<open>Dnsmasq\<close>, \<open>Isc_Dhcpd\<close> (\<open>modules/dnsmasq_dhcp\<close>, \<open>modules/isc_dhcpd\<close>): two collectors of DHCP leases, from
    the configuration files and the lease file to the values of a round and the charts of the ranges.  The search visits
    exactly the files that can be reached; a lease is counted where the configuration puts its address.
  \<^item> This theory: the way from the discoverers to the job manager.

  \<^bold>\<open>Conventions.\<close>  A struct is a record, a slice a list, a Go map a function to option or, where the code
  ranges over it, an association list in some order, so that a theorem holds for every order of
  iteration.  Errors are values of a sum or option type; a panic is a branch of its own
  (\<^const>\<open>None\<close> in the outer option).  Goroutines are step relations over one state, and theorems about
  them are inductions over every reachable state.  Counters that may wrap are kept modulo their
  width; \<open>int\<close> is an unbounded integer where the code only compares and adds small
  values.  Every loop is a terminating recursion, over the data or with
  a measure (\<open>globMatch\<close>, \<open>matchChunk\<close>, the parsers), and one has fuel: the search of \<open>dnsmasq_dhcp\<close> follows
  files that name each other, and its fuel bounds the depth of the calls; any fuel above the number of names
  that can be reached gives the result.  The loops that run until the process ends
  (\<open>Start\<close>, the managers) take the list of their events, or are step relations.  The bounds in
  the statements are those of the code: 600 seconds of penalty, 2^64 sources in the counting cache.

  \<^bold>\<open>What is a parameter.\<close>  Code outside the repository: YAML, \<open>hashstructure\<close>, \<open>net/url\<close>, \<open>regexp\<close>,
  \<open>text/template\<close>, \<open>flock\<close>, \<open>fsnotify\<close>, \<open>homedir\<close>, the lexer of Prometheus, LTSV and JSON, the HyperLogLog sketch, \<open>go-cidr\<close>, the order \<open>sort.Slice\<close> gives to equal elements, the
  arithmetic of floats (a record of operations, of which a theorem states the few laws it needs), the file system, clocks and environment variables; and
  the collectors, a record of methods over an arbitrary state.  The laws a theorem needs of them
  are its hypotheses, and its witness gives functions that satisfy them.

  \<^bold>\<open>Not modelled.\<close>  The collectors in \<open>src/modules\<close> other than \<open>web_log\<close>, \<open>dnsmasq_dhcp\<close> and \<open>isc_dhcpd\<close>, each of which is an instance of
  the parameter of a job: most of their code is tables of charts and the JSON, SQL or text of one service;
  of \<open>web_log\<close> the charts it makes for a line and the conversion of its metrics to a map; logging, flags and
  the entry point; the signal loop and the keep-alive ticker of the agent; host information; the
  discoverers of service discovery, their accumulator and the management of pipelines
  (\<open>agent/discovery/sd\<close>), which the agent does not start at this commit; the wrappers of \<open>src/pkg\<close> around the
  network (web, tlscfg, k8sclient, socket).
\<close>

section \<open>From discovery to the job manager\<close>

text \<open>The two loops of \<open>runConfigGroupsHandling\<close> over the groups it is handed, one after another: what
  goes to the channels of the removed and of the added configurations, in the order it is sent.  The
  other goroutines of the manager do not touch the cache.\<close>

fun receive_groups :: "('m, 'l, 's, 'd) services \<Rightarrow> Group list \<Rightarrow> ('m, 'l, 's, 'd) Manager
    \<Rightarrow> change list \<times> ('m, 'l, 's, 'd) Manager" where
  "receive_groups sv [] m = ([], m)"
| "receive_groups sv (gr # groups) m =
     (let (chs, m1) = receive_group sv gr m; (chs', m2) = receive_groups sv groups m1 in (chs @ chs', m2))"

text \<open>What a receiver of the changes takes to be offered, and whether every change is news to it.\<close>

fun apply_change :: "(Config \<Rightarrow> cfg_hash) \<Rightarrow> change \<Rightarrow> cfg_hash set \<Rightarrow> cfg_hash set" where
  "apply_change Hash (Added cfg) S = insert (Hash cfg) S"
| "apply_change Hash (Removed cfg) S = S - {Hash cfg}"

fun change_news :: "(Config \<Rightarrow> cfg_hash) \<Rightarrow> change \<Rightarrow> cfg_hash set \<Rightarrow> bool" where
  "change_news Hash (Added cfg) S \<longleftrightarrow> Hash cfg \<notin> S"
| "change_news Hash (Removed cfg) S \<longleftrightarrow> Hash cfg \<in> S"

fun changes_lead :: "(Config \<Rightarrow> cfg_hash) \<Rightarrow> cfg_hash set \<Rightarrow> change list \<Rightarrow> cfg_hash set \<Rightarrow> bool" where
  "changes_lead Hash S [] S' \<longleftrightarrow> S = S'"
| "changes_lead Hash S (ch # chs) S' \<longleftrightarrow> change_news Hash ch S \<and> changes_lead Hash (apply_change Hash ch S) chs S'"

lemma changes_lead_append:
  "changes_lead Hash S xs T \<Longrightarrow> changes_lead Hash T ys S' \<Longrightarrow> changes_lead Hash S (xs @ ys) S'"
  by (induction xs arbitrary: S) auto

lemma changes_lead_Removed:
  "distinct (map Hash cfgs) \<Longrightarrow> Hash ` set cfgs \<subseteq> S \<Longrightarrow> changes_lead Hash S (map Removed cfgs) (S - Hash ` set cfgs)"
proof (induction cfgs arbitrary: S)
  case (Cons cfg cfgs)
  have "changes_lead Hash (S - {Hash cfg}) (map Removed cfgs) (S - {Hash cfg} - Hash ` set cfgs)"
    using Cons.prems by (intro Cons.IH) (auto simp: image_iff)
  moreover have "S - {Hash cfg} - Hash ` set cfgs = S - Hash ` set (cfg # cfgs)" by auto
  ultimately show ?case using Cons.prems by simp
qed simp

lemma changes_lead_Added:
  "distinct (map Hash cfgs) \<Longrightarrow> Hash ` set cfgs \<inter> S = {} \<Longrightarrow> changes_lead Hash S (map Added cfgs) (S \<union> Hash ` set cfgs)"
proof (induction cfgs arbitrary: S)
  case (Cons cfg cfgs)
  have "changes_lead Hash (insert (Hash cfg) S) (map Added cfgs) (insert (Hash cfg) S \<union> Hash ` set cfgs)"
    using Cons.prems by (intro Cons.IH) auto
  then show ?case using Cons.prems by simp
qed simp

text \<open>One group: the changes lead from the configurations offered before to those offered after.\<close>

lemma add_post_changes:
  assumes "add_post Hash c gr added removed c'"
  shows "changes_lead Hash (live (offers c)) (map Removed removed @ map Added added) (live (offers c'))"
proof -
  have r: "distinct (map Hash removed)" "Hash ` set removed = live (offers c) - live (offers c')"
    and a: "distinct (map Hash added)" "Hash ` set added = live (offers c') - live (offers c)"
    using assms by (simp_all add: add_post_def)
  have "changes_lead Hash (live (offers c)) (map Removed removed) (live (offers c) - Hash ` set removed)"
    using r by (intro changes_lead_Removed) auto
  moreover have "changes_lead Hash (live (offers c) - Hash ` set removed) (map Added added) (live (offers c'))"
  proof -
    have "live (offers c) - Hash ` set removed \<union> Hash ` set added = live (offers c')" using r a by auto
    then show ?thesis using changes_lead_Added [OF a(1), of "live (offers c) - Hash ` set removed"] a(2) by auto
  qed
  ultimately show ?thesis by (rule changes_lead_append)
qed

lemma cache_inv_dom: "cache_inv Hash c \<Longrightarrow> dom (ca_sources c) = {s. offers c s \<noteq> {}}"
  by (fastforce simp: cache_inv_def offers_def split: option.splits)

lemma add_post_size:
  assumes "cache_inv Hash c" and "add_post Hash c gr added removed c'"
  shows "card (dom (ca_sources c')) \<le> card (dom (ca_sources c)) + 1"
proof -
  have f: "finite (dom (ca_sources c))" using assms(1) by (simp add: cache_inv_def)
  have "dom (ca_sources c') \<subseteq> insert (g_Source gr) (dom (ca_sources c))"
    using assms cache_inv_dom [of Hash c] cache_inv_dom [of Hash c'] by (auto simp: add_post_def split: if_splits)
  then have "card (dom (ca_sources c')) \<le> card (insert (g_Source gr) (dom (ca_sources c)))"
    using f by (intro card_mono) simp_all
  also have "\<dots> \<le> card (dom (ca_sources c)) + 1" using f by (simp add: card_insert_if)
  finally show ?thesis .
qed

definition offered :: "(Config \<Rightarrow> cfg_hash) \<Rightarrow> Group option \<Rightarrow> cfg_hash set" where
  "offered Hash g = (case g of None \<Rightarrow> {} | Some g \<Rightarrow> Hash ` set (g_Configs g))"

lemma receive_groups_spec:
  assumes "receive_groups sv gs m = (chs, m')" and "cache_inv (sv_Hash sv) (mg_confGroupCache m)"
    and "card (dom (ca_sources (mg_confGroupCache m))) + length gs < 2 ^ 64"
  shows "cache_inv (sv_Hash sv) (mg_confGroupCache m')
     \<and> offers (mg_confGroupCache m') = (\<lambda>src. if latest src gs = None then offers (mg_confGroupCache m) src
          else offered (sv_Hash sv) (latest src gs))
     \<and> changes_lead (sv_Hash sv) (live (offers (mg_confGroupCache m))) chs (live (offers (mg_confGroupCache m')))"
  using assms
proof (induction gs arbitrary: m chs)
  case (Cons gr gs)
  obtain added removed c where c: "Cache_Add (sv_Hash sv) (mg_confGroupCache m) (Some gr) = ((added, removed), c)"
    by (metis surj_pair)
  let ?m = "m\<lparr>mg_confGroupCache := c\<rparr>"
  obtain chs' where r: "receive_groups sv gs ?m = (chs', m')" "chs = (map Removed removed @ map Added added) @ chs'"
    using Cons.prems(1) c by (auto simp: receive_group_def split: prod.splits)
  have post: "add_post (sv_Hash sv) (mg_confGroupCache m) gr added removed c"
    using Cons.prems(3) by (intro Cache_Add_post [OF Cons.prems(2) _ c]) simp
  then have "cache_inv (sv_Hash sv) (mg_confGroupCache ?m)"
    "offers c = (offers (mg_confGroupCache m))(g_Source gr := offered (sv_Hash sv) (Some gr))"
    by (simp_all add: add_post_def offered_def)
  note c = this
  have size: "card (dom (ca_sources (mg_confGroupCache ?m))) + length gs < 2 ^ 64"
    using add_post_size [OF Cons.prems(2) post] Cons.prems(3) by simp
  note ih = Cons.IH [OF r(1) c(1) size]
  have "latest src (gr # gs) = (case latest src gs of None \<Rightarrow> latest src [gr] | Some g \<Rightarrow> Some g)" for src
    using latest_simps(2) [of src "[gr]" gs] by simp
  then have "offers (mg_confGroupCache m') = (\<lambda>src. if latest src (gr # gs) = None then offers (mg_confGroupCache m) src
          else offered (sv_Hash sv) (latest src (gr # gs)))"
    using ih c(2) by (simp add: fun_eq_iff split: option.splits)
  moreover have "changes_lead (sv_Hash sv) (live (offers (mg_confGroupCache m))) chs (live (offers (mg_confGroupCache m')))"
    unfolding r(2) by (rule changes_lead_append [OF add_post_changes [OF post]])
      (use ih [THEN conjunct2, THEN conjunct2] in \<open>simp\<close>)
  ultimately show ?case using ih by blast
qed (simp add: fun_eq_iff)

text \<open>
  C2.  From the discoverers to the jobs nothing gets lost.  Once nothing is on its way in the discovery manager,
  however its goroutines interleaved, a job manager that worked off the groups handed over, from
  its start, offers for each source exactly the configurations of the newest group that was discovered
  for it; and the removals and additions it sent on are each news, and lead from nothing to all
  configurations some source offers.
\<close>

theorem discovered_configs_reach_jobs:
  assumes "disc_reachable cfg d" and "held d = []" and "dm_cache d = []"
    and "length (concat (dm_delivered d)) < 2 ^ 64"
    and "receive_groups sv (concat (dm_delivered d)) (NewManager plugin modules l s y) = (chs, m)"
  shows "(\<forall>src. offers (mg_confGroupCache m) src = offered (sv_Hash sv) (latest src (dm_received d)))
     \<and> changes_lead (sv_Hash sv) {} chs (\<Union>src. offered (sv_Hash sv) (latest src (dm_received d)))"
proof -
  let ?c = "mg_confGroupCache (NewManager plugin modules l s y)"
  have c: "cache_inv (sv_Hash sv) ?c" "dom (ca_sources ?c) = {}" "offers ?c = (\<lambda>src. {})" "live (offers ?c) = {}"
    by (simp_all add: NewManager_def NewCache_def cache_inv_def sources_with_def offers_def live_def fun_eq_iff)
  have "follows (of_source src (concat (dm_delivered d))) (of_source src (dm_received d))" for src
    using disc_inv_reachable [OF assms(1)] assms(2,3) by (simp add: disc_inv_def in_order_def)
  then have l: "latest src (concat (dm_delivered d)) = latest src (dm_received d)" for src
    by (auto simp: latest_last follows_def)
  have "offered (sv_Hash sv) None = {}" by (simp add: offered_def)
  then have o: "offers (mg_confGroupCache m) = (\<lambda>src. offered (sv_Hash sv) (latest src (dm_received d)))"
    using receive_groups_spec [OF assms(5) c(1)] assms(4) c(2,3) l by (simp add: fun_eq_iff)
  moreover have "changes_lead (sv_Hash sv) {} chs (live (offers (mg_confGroupCache m)))"
    using receive_groups_spec [OF assms(5) c(1), THEN conjunct2, THEN conjunct2] assms(4) c(2,4) by simp
  ultimately show ?thesis by (simp add: live_def)
qed

text \<open>Services whose hash tells configurations apart by the first letter of their name.\<close>

definition letter_services :: "(unit, string list Locker, StatusManager, Discovery) services" where
  "letter_services = agent_services (sample_outside\<lparr>os_Hash := \<lambda>cfg. of_char (hd (Name cfg))\<rparr>) Map.empty None"

theorem discovered_configs_reach_jobs_witness:
  "\<exists>d chs m. disc_reachable sample_disc d \<and> dm_received d = [sample_group ''a'', sample_group ''b'']
     \<and> receive_groups letter_services (concat (dm_delivered d)) (sy_mgr sample_start) = (chs, m)
     \<and> offers (mg_confGroupCache m) ''s'' = {of_char CHR ''b''}"
proof -
  obtain d where d: "disc_reachable sample_disc d" "dm_received d = [sample_group ''a'', sample_group ''b'']"
    "dm_delivered d = [[sample_group ''b'']]" "held d = []" "dm_cache d = []"
    using sample_run by blast
  obtain chs m where m: "receive_groups letter_services (concat (dm_delivered d)) (sy_mgr sample_start) = (chs, m)"
    by (metis surj_pair)
  have "offers (mg_confGroupCache m) ''s'' = offered (sv_Hash letter_services) (latest ''s'' (dm_received d))"
    using discovered_configs_reach_jobs [OF d(1,4,5), of letter_services] d(3) m
    by (simp add: sample_start_def agent_start_def)
  moreover have "sv_Hash letter_services cfg = of_char (hd (Name cfg))" for cfg
    by (simp add: letter_services_def agent_services_def)
  moreover have "latest ''s'' [sample_group ''a'', sample_group ''b''] = Some (sample_group ''b'')"
    by (simp add: latest_def sample_group_def)
  ultimately have "offers (mg_confGroupCache m) ''s'' = {of_char CHR ''b''}"
    using d(2) by (simp add: offered_def sample_group_def Name_def get_string_def)
  then show ?thesis using d m by blast
qed

end
